(* ===== verification/Astacus_Prelude.thy ===== *)
theory Astacus_Prelude
  imports Main "HOL-Library.AList" "HOL-Library.Multiset" "HOL-Library.List_Lexorder"
    "HOL-Library.Char_ord" "HOL-Library.Product_Lexorder" "HOL-Library.Sublist"
begin

text \<open>
  Shared vocabulary of the development: the exceptions of \<^verbatim>\<open>astacus/common/exceptions.py\<close> and the
  Python built-in ones the code raises or catches, results as a sum of an exception and a value,
  stateful operations that keep the state they reached when they raise, and the Python containers
  the code relies on. A Python \<^verbatim>\<open>str\<close> is the list of its UTF-8 bytes (this keeps equality, prefixes
  and the order of \<^verbatim>\<open>sorted\<close>), a \<^verbatim>\<open>dict\<close> is an association list in insertion order, a \<^verbatim>\<open>set\<close> is
  a HOL set together with an iteration order that is a parameter where the code iterates over it.
\<close>

section \<open>Collections of facts\<close>

named_theorems res_simps \<open>evaluation of results and stateful operations\<close>
named_theorems dict_simps \<open>association lists as Python dictionaries\<close>

section \<open>Exceptions\<close>

datatype exn =
    AstacusException
  | PermanentException
  | ExpiredOperationException
  | InsufficientNodesException
  | InsufficientAZsException
  | NotFoundException
  | MissingSnapshotResultsException
  | CompressionOrEncryptionRequired
  | RohmuException
  | TransientException
  | StepFailedError
  | WaitResultError
  | HTTPException nat
  | AssertionError
  | IndexError
  | KeyError
  | ValueError
  | TypeError
  | AttributeError
  | RuntimeError
  | NotImplementedError
  | FileNotFoundError
  | OSError
  | CancelledError

text \<open>The class hierarchy, as the \<^verbatim>\<open>except\<close> clauses see it.\<close>

definition is_permanent :: "exn \<Rightarrow> bool" where
  "is_permanent e \<longleftrightarrow> e \<in> {PermanentException, ExpiredOperationException, InsufficientNodesException,
     InsufficientAZsException, NotFoundException, MissingSnapshotResultsException,
     CompressionOrEncryptionRequired, RohmuException, StepFailedError}"

definition is_transient :: "exn \<Rightarrow> bool" where
  "is_transient e \<longleftrightarrow> e = TransientException"

definition is_astacus :: "exn \<Rightarrow> bool" where
  "is_astacus e \<longleftrightarrow> e = AstacusException \<or> is_permanent e \<or> is_transient e"

lemma permanent_not_transient [simp]: "is_permanent e \<Longrightarrow> \<not> is_transient e"
  by (auto simp: is_permanent_def is_transient_def)

section \<open>Results and stateful operations\<close>

type_synonym 'a result = "exn + 'a"

text \<open>A stateful operation returns the state it reached also when it raises: Python does not undo
  assignments made before an exception.\<close>

type_synonym ('s, 'a) stateful = "'s \<Rightarrow> 'a result \<times> 's"

definition bind_res :: "'a result \<Rightarrow> ('a \<Rightarrow> 'b result) \<Rightarrow> 'b result" where
  "bind_res r f = (case r of Inl e \<Rightarrow> Inl e | Inr x \<Rightarrow> f x)"

definition bind_st :: "('s, 'a) stateful \<Rightarrow> ('a \<Rightarrow> ('s, 'b) stateful) \<Rightarrow> ('s, 'b) stateful" where
  "bind_st m f s = (case m s of (Inl e, s') \<Rightarrow> (Inl e, s') | (Inr x, s') \<Rightarrow> f x s')"

definition assert_res :: "bool \<Rightarrow> unit result" where
  "assert_res b = (if b then Inr () else Inl AssertionError)"

definition is_ok :: "'a result \<Rightarrow> bool" where
  "is_ok r \<longleftrightarrow> (\<exists>x. r = Inr x)"

lemma is_ok_simps [simp, code]: "is_ok (Inl e) \<longleftrightarrow> False" "is_ok (Inr x) \<longleftrightarrow> True"
  by (auto simp: is_ok_def)

lemma bind_res_simps [simp, res_simps]:
  "bind_res (Inl e) f = Inl e" "bind_res (Inr x) f = f x"
  by (simp_all add: bind_res_def)

lemma bind_res_Inr_iff: "bind_res r f = Inr y \<longleftrightarrow> (\<exists>x. r = Inr x \<and> f x = Inr y)"
  by (cases r) auto

lemma assert_res_simps [simp, res_simps]:
  "assert_res True = Inr ()" "assert_res False = Inl AssertionError"
  by (simp_all add: assert_res_def)

lemma assert_res_Inr_iff [simp]: "assert_res b = Inr u \<longleftrightarrow> b"
  by (simp add: assert_res_def)

text \<open>A loop that runs a fallible body for every element and collects what it returns.\<close>

fun map_res :: "('a \<Rightarrow> 'b result) \<Rightarrow> 'a list \<Rightarrow> 'b list result" where
  "map_res f [] = Inr []"
| "map_res f (x # xs) = (case f x of Inl e \<Rightarrow> Inl e
     | Inr y \<Rightarrow> (case map_res f xs of Inl e \<Rightarrow> Inl e | Inr ys \<Rightarrow> Inr (y # ys)))"

lemma map_res_Inr_iff: "map_res f xs = Inr ys \<longleftrightarrow> list_all2 (\<lambda>x y. f x = Inr y) xs ys"
proof (induction xs arbitrary: ys)
  case (Cons x xs)
  show ?case
  proof (cases ys)
    case (Cons y ys')
    have "map_res f xs = Inr ys' \<longleftrightarrow> list_all2 (\<lambda>x y. f x = Inr y) xs ys'"
      by (rule Cons.IH)
    then show ?thesis
      by (cases "map_res f xs"; cases "f x") (auto simp: Cons)
  qed (auto split: sum.splits)
qed auto

lemma map_res_length: "map_res f xs = Inr ys \<Longrightarrow> length ys = length xs"
  by (auto simp: map_res_Inr_iff dest: list_all2_lengthD)

lemma map_res_Inr_set: "map_res f xs = Inr ys \<Longrightarrow> set ys = {y. \<exists>x \<in> set xs. f x = Inr y}"
  by (induction xs arbitrary: ys) (auto split: sum.splits)

lemma map_res_each: "map_res f xs = Inr ys \<Longrightarrow> x \<in> set xs \<Longrightarrow> \<exists>y. f x = Inr y"
  by (induction xs arbitrary: ys) (auto split: sum.splits)

lemma map_res_total:
  "(\<And>x. x \<in> set xs \<Longrightarrow> f x = Inr (g x)) \<Longrightarrow> map_res f xs = Inr (map g xs)"
  by (induction xs) auto

text \<open>The same for a stateful body.\<close>

fun map_st :: "('a \<Rightarrow> ('s, 'b) stateful) \<Rightarrow> 'a list \<Rightarrow> ('s, 'b list) stateful" where
  "map_st f [] s = (Inr [], s)"
| "map_st f (x # xs) s = bind_st (f x) (\<lambda>y. bind_st (map_st f xs) (\<lambda>ys s. (Inr (y # ys), s))) s"

text \<open>If the body succeeds with the same value in every state that satisfies \<open>P\<close> and keeps \<open>P\<close>, so
  does the loop.\<close>

lemma map_st_ok:
  assumes "P s" and "\<And>x s. x \<in> set xs \<Longrightarrow> P s \<Longrightarrow> \<exists>s'. f x s = (Inr (g x), s') \<and> P s'"
  shows "\<exists>s'. map_st f xs s = (Inr (map g xs), s') \<and> P s'"
  using assms
proof (induction xs arbitrary: s)
  case (Cons x xs)
  obtain s1 where s1: "f x s = (Inr (g x), s1)" "P s1" using Cons.prems by fastforce
  obtain s2 where "map_st f xs s1 = (Inr (map g xs), s2)" "P s2" using Cons.IH [OF s1(2)] Cons.prems(2) by auto
  with s1 show ?case by (simp add: bind_st_def)
qed simp

section \<open>Python sequences and strings\<close>

definition startswith :: "string \<Rightarrow> string \<Rightarrow> bool" where
  "startswith s p \<longleftrightarrow> take (length p) s = p"

lemma startswith_append [simp]: "startswith (p @ s) p"
  by (simp add: startswith_def)

lemma startswith_iff: "startswith s p \<longleftrightarrow> (\<exists>t. s = p @ t)"
  by (metis append_eq_conv_conj startswith_def)

text \<open>Indexing: negative indices count from the end, an index out of range raises.\<close>

definition normal_index :: "nat \<Rightarrow> int \<Rightarrow> nat option" where
  "normal_index len i =
     (if i \<ge> int len \<or> i < - int len then None
      else if i \<ge> 0 then Some (nat i) else Some (nat (int len + i)))"

definition py_index :: "'a list \<Rightarrow> int \<Rightarrow> 'a result" where
  "py_index xs i = (case normal_index (length xs) i of None \<Rightarrow> Inl IndexError | Some k \<Rightarrow> Inr (xs ! k))"

lemma py_index_nat [simp]: "n < length xs \<Longrightarrow> py_index xs (int n) = Inr (xs ! n)"
  by (simp add: py_index_def normal_index_def)

lemma py_index_last: "xs \<noteq> [] \<Longrightarrow> py_index xs (-1) = Inr (last xs)"
  by (cases xs rule: rev_cases) (auto simp: py_index_def normal_index_def nat_add_distrib)

text \<open>\<^verbatim>\<open>sorted(xs, key=k)\<close> is the stable \<^const>\<open>sort_key\<close>; \<^verbatim>\<open>reverse=True\<close> keeps it stable.\<close>

definition sorted_reverse_by :: "('a \<Rightarrow> 'k::linorder) \<Rightarrow> 'a list \<Rightarrow> 'a list" where
  "sorted_reverse_by k xs = rev (sort_key k (rev xs))"

lemma mset_sorted_reverse_by [simp]: "mset (sorted_reverse_by k xs) = mset xs"
  by (simp add: sorted_reverse_by_def)

lemma set_sorted_reverse_by [simp]: "set (sorted_reverse_by k xs) = set xs"
  by (simp add: sorted_reverse_by_def)

lemma length_sorted_reverse_by [simp]: "length (sorted_reverse_by k xs) = length xs"
  by (simp add: sorted_reverse_by_def)

lemma sorted_sorted_reverse_by: "sorted_wrt (\<ge>) (map k (sorted_reverse_by k xs))"
  by (simp add: sorted_reverse_by_def rev_map [symmetric] sorted_wrt_rev)

text \<open>\<^verbatim>\<open>min(xs, key=k)\<close> of a non-empty sequence is the first of the least elements.\<close>

fun min_by :: "('a \<Rightarrow> 'k::linorder) \<Rightarrow> 'a \<Rightarrow> 'a list \<Rightarrow> 'a" where
  "min_by k m [] = m"
| "min_by k m (x # xs) = min_by k (if k x < k m then x else m) xs"

lemma min_by_props: "min_by k m xs \<in> insert m (set xs) \<and> (\<forall>x \<in> insert m (set xs). k (min_by k m xs) \<le> k x)"
proof (induction xs arbitrary: m)
  case (Cons x xs)
  show ?case
  proof (cases "k x < k m")
    case True
    with Cons [of x] show ?thesis by fastforce
  next
    case False
    with Cons [of m] show ?thesis by fastforce
  qed
qed simp

text \<open>\<^verbatim>\<open>enumerate\<close> with indices as natural numbers.\<close>

abbreviation enumerate0 :: "'a list \<Rightarrow> (nat \<times> 'a) list" where
  "enumerate0 \<equiv> List.enumerate 0"

section \<open>Python dictionaries\<close>

abbreviation dict_get :: "('k \<times> 'v) list \<Rightarrow> 'k \<Rightarrow> 'v option" where
  "dict_get \<equiv> map_of"

abbreviation dict_set :: "'k \<Rightarrow> 'v \<Rightarrow> ('k \<times> 'v) list \<Rightarrow> ('k \<times> 'v) list" where
  "dict_set \<equiv> AList.update"

lemma dict_set_new: "k \<notin> fst ` set al \<Longrightarrow> dict_set k v al = al @ [(k, v)]"
  by (induction al) auto

lemma map_of_filter_key: "map_of (filter (\<lambda>(p, r). P p) db) p = (if P p then map_of db p else None)"
  by (induction db) auto

text \<open>\<^verbatim>\<open>d.setdefault(k, []).append(v)\<close>\<close>

definition dict_append :: "'k \<Rightarrow> 'v \<Rightarrow> ('k \<times> 'v list) list \<Rightarrow> ('k \<times> 'v list) list" where
  "dict_append k v d = dict_set k ((case dict_get d k of None \<Rightarrow> [] | Some vs \<Rightarrow> vs) @ [v]) d"

lemma map_of_dict_append [dict_simps]:
  "map_of (dict_append k v d) k' =
     (if k' = k then Some ((case map_of d k of None \<Rightarrow> [] | Some vs \<Rightarrow> vs) @ [v]) else map_of d k')"
  by (simp add: dict_append_def update_conv')

lemma keys_dict_append [dict_simps]: "fst ` set (dict_append k v d) = insert k (fst ` set d)"
  by (simp add: dict_append_def dom_map_of_conv_image_fst [symmetric] update_conv')

lemma distinct_dict_append [dict_simps]:
  "distinct (map fst d) \<Longrightarrow> distinct (map fst (dict_append k v d))"
  by (simp add: dict_append_def distinct_update)

text \<open>\<^verbatim>\<open>collections.Counter(xs)\<close> and its \<^verbatim>\<open>most_common()\<close>: counts in order of first occurrence,
  then sorted by count, largest first, ties in order of first occurrence.\<close>

definition counter_add :: "'k \<Rightarrow> ('k \<times> nat) list \<Rightarrow> ('k \<times> nat) list" where
  "counter_add k c = dict_set k (case dict_get c k of None \<Rightarrow> 1 | Some n \<Rightarrow> Suc n) c"

definition counter :: "'k list \<Rightarrow> ('k \<times> nat) list" where
  "counter xs = fold counter_add xs []"

definition most_common :: "('k \<times> nat) list \<Rightarrow> ('k \<times> nat) list" where
  "most_common c = sorted_reverse_by snd c"

lemma map_of_counter_fold:
  "map_of (fold counter_add xs c) k =
     (if k \<in> set xs then Some ((case map_of c k of None \<Rightarrow> 0 | Some n \<Rightarrow> n) + count_list xs k)
      else map_of c k)"
  by (induction xs arbitrary: c)
     (auto simp: counter_add_def update_conv' split: option.splits)

lemma map_of_counter: "map_of (counter xs) k = (if k \<in> set xs then Some (count_list xs k) else None)"
  by (simp add: counter_def map_of_counter_fold)

lemma distinct_counter: "distinct (map fst (counter xs))"
proof -
  have "distinct (map fst c) \<Longrightarrow> distinct (map fst (fold counter_add xs c))" for c
    by (induction xs arbitrary: c) (auto simp: counter_add_def distinct_update)
  then show ?thesis by (simp add: counter_def)
qed

lemma set_counter: "(k, n) \<in> set (counter xs) \<longleftrightarrow> k \<in> set xs \<and> n = count_list xs k"
  using map_of_eq_Some_iff [OF distinct_counter, of xs k n] by (auto simp: map_of_counter split: if_splits)

lemma keys_counter: "fst ` set (counter xs) = set xs"
  using dom_map_of_conv_image_fst [of "counter xs"] by (auto simp: map_of_counter dom_def split: if_splits)

lemma length_counter: "length (counter xs) = card (set xs)"
  using distinct_card [OF distinct_counter, of xs] keys_counter [of xs] by simp

lemma distinct_most_common: "distinct (map fst c) \<Longrightarrow> distinct (map fst (most_common c))"
  by (metis mset_eq_imp_distinct_iff mset_map most_common_def mset_sorted_reverse_by)

lemma set_most_common [simp]: "set (most_common c) = set c"
  by (simp add: most_common_def)

lemma length_most_common [simp]: "length (most_common c) = length c"
  by (simp add: most_common_def)

section \<open>Sets and their iteration order\<close>

text \<open>Python does not fix the order in which a set is iterated. Where the order reaches a result,
  it is a parameter \<open>it\<close> with this property.\<close>

definition set_order :: "('a set \<Rightarrow> 'a list) \<Rightarrow> bool" where
  "set_order it \<longleftrightarrow> (\<forall>S. finite S \<longrightarrow> set (it S) = S \<and> distinct (it S))"

lemma set_orderD:
  assumes "set_order it" and "finite S"
  shows "set (it S) = S" and "distinct (it S)"
  using assms by (auto simp: set_order_def)

lemma set_order_sorted_list_of_set: "set_order (sorted_list_of_set :: 'a::linorder set \<Rightarrow> 'a list)"
  by (simp add: set_order_def)

section \<open>Paths\<close>

text \<open>\<^verbatim>\<open>path.split("/")\<close> and \<^verbatim>\<open>"/".join(parts)\<close>\<close>

fun split_path :: "string \<Rightarrow> string list" where
  "split_path [] = [[]]"
| "split_path (c # cs) = (if c = CHR ''/'' then [] # split_path cs
     else (case split_path cs of [] \<Rightarrow> [[c]] | w # ws \<Rightarrow> (c # w) # ws))"

fun join_parts :: "string list \<Rightarrow> string" where
  "join_parts [] = []"
| "join_parts [p] = p"
| "join_parts (p # q # ps) = p @ ''/'' @ join_parts (q # ps)"

lemma split_path_nonempty [simp]: "split_path s \<noteq> []"
  by (induction s) (auto split: list.splits)

lemma split_path_append:
  "CHR ''/'' \<notin> set p \<Longrightarrow> split_path (p @ CHR ''/'' # s) = p # split_path s"
  by (induction p) auto

lemma split_path_part: "CHR ''/'' \<notin> set p \<Longrightarrow> split_path p = [p]"
  by (induction p) auto

lemma split_join:
  assumes "ps \<noteq> []" and "\<forall>p \<in> set ps. CHR ''/'' \<notin> set p"
  shows "split_path (join_parts ps) = ps"
  using assms by (induction ps rule: join_parts.induct) (simp_all add: split_path_part split_path_append)

end
