(* ===== verification/Progress_Meter.thy ===== *)
theory Progress_Meter
  imports Astacus_Prelude
begin

text \<open>
  The progress meter of \<^verbatim>\<open>astacus/common/progress.py\<close>, which every node operation carries in its
  result and the coordinator merges. Every method is a stateful operation on the four fields; an
  assertion that fails after an assignment leaves the assignment in place, as in Python. The
  floating point logarithm that thins out log lines is a parameter; no result depends on it.
\<close>

section \<open>Definitions\<close>

record progress =
  pr_handled :: int
  pr_failed :: int
  pr_total :: int
  pr_final :: bool

definition new_progress :: progress where
  "new_progress = \<lparr>pr_handled = 0, pr_failed = 0, pr_total = 0, pr_final = False\<rparr>"

text \<open>\<open>log11 v\<close> stands for \<^verbatim>\<open>int(math.log(v) / math.log(1.1))\<close>.\<close>

definition increase_worth_reporting ::
  "(int \<Rightarrow> int) \<Rightarrow> int \<Rightarrow> int option \<Rightarrow> int option \<Rightarrow> bool" where
  "increase_worth_reporting log11 val new_value tot =
     (let nv = (case new_value of None \<Rightarrow> val | Some n \<Rightarrow> n);
          v = (case new_value of None \<Rightarrow> nv - 1 | Some _ \<Rightarrow> val)
      in case tot of
           Some t \<Rightarrow> if nv = t \<or> t \<le> 100 then True else 100 * v div t \<noteq> 100 * nv div t
         | None \<Rightarrow> if v \<le> 10 \<or> nv \<le> 10 then True else log11 v \<noteq> log11 nv)"

definition add_total :: "int \<Rightarrow> (progress, unit) stateful" where
  "add_total n p =
     (if n = 0 then (Inr (), p)
      else let p1 = p\<lparr>pr_total := pr_total p + n\<rparr> in (assert_res (\<not> pr_final p1), p1))"

definition start_progress :: "int \<Rightarrow> (progress, unit) stateful" where
  "start_progress n p = (if pr_total p \<noteq> 0 then (Inl AssertionError, p) else add_total n p)"

definition add_fail :: "int \<Rightarrow> (progress, unit) stateful" where
  "add_fail n p =
     (if \<not> n > 0 then (Inl AssertionError, p)
      else let p1 = p\<lparr>pr_failed := pr_failed p + n\<rparr> in (assert_res (\<not> pr_final p1), p1))"

definition add_success :: "int \<Rightarrow> (progress, unit) stateful" where
  "add_success n p =
     (if \<not> n > 0 then (Inl AssertionError, p)
      else let p1 = p\<lparr>pr_handled := pr_handled p + n\<rparr>
           in (assert_res (pr_handled p1 \<le> pr_total p1 \<and> \<not> pr_final p1), p1))"

definition download_success :: "int \<Rightarrow> (progress, unit) stateful" where
  "download_success n = add_success n"

definition upload_success :: "(progress, unit) stateful" where
  "upload_success = add_success 1"

definition upload_missing :: "(progress, unit) stateful" where
  "upload_missing = add_fail 1"

definition upload_failure :: "(progress, unit) stateful" where
  "upload_failure = add_fail 1"

definition done_progress :: "(progress, unit) stateful" where
  "done_progress p =
     (if \<not> pr_handled p \<le> pr_total p \<or> pr_final p then (Inl AssertionError, p)
      else (Inr (), p\<lparr>pr_final := True\<rparr>))"

definition finished_successfully :: "progress \<Rightarrow> bool" where
  "finished_successfully p \<longleftrightarrow> pr_final p \<and> pr_failed p = 0 \<and> pr_handled p = pr_total p"

definition finished_failed :: "progress \<Rightarrow> bool" where
  "finished_failed p \<longleftrightarrow> pr_final p \<and> \<not> finished_successfully p"

text \<open>An iterable the code may walk twice: a list or a dict view gives its items again, a generator
  is exhausted after the first walk.\<close>

datatype 'a iterable = Reiterable (items: "'a list") | Generator (items: "'a list")

fun second_pass :: "'a iterable \<Rightarrow> 'a list" where
  "second_pass (Reiterable xs) = xs"
| "second_pass (Generator xs) = []"

definition merge_add :: "progress \<Rightarrow> progress \<Rightarrow> progress" where
  "merge_add q p = p\<lparr>pr_handled := pr_handled p + pr_handled q,
     pr_failed := pr_failed p + pr_failed q, pr_total := pr_total p + pr_total q\<rparr>"

definition merge_progress :: "progress iterable \<Rightarrow> progress" where
  "merge_progress ps = (fold merge_add (items ps) new_progress)
     \<lparr>pr_final := (\<forall>p \<in> set (second_pass ps). pr_final p)\<rparr>"

text \<open>\<^verbatim>\<open>wrap\<close> is a generator function: when \<^verbatim>\<open>len\<close> is not available, its \<^verbatim>\<open>return i\<close> ends the
  iteration without an item. Both forms are walked to the end here.\<close>

fun wrap_items :: "'a list \<Rightarrow> (progress, 'a list) stateful" where
  "wrap_items [] p = (Inr [], p)"
| "wrap_items (x # xs) p = (case add_success 1 p of
      (Inl e, p1) \<Rightarrow> (Inl e, p1)
    | (Inr _, p1) \<Rightarrow> (case wrap_items xs p1 of
         (Inl e, p2) \<Rightarrow> (Inl e, p2) | (Inr ys, p2) \<Rightarrow> (Inr (x # ys), p2)))"

definition wrap :: "'a iterable \<Rightarrow> (progress, 'a list) stateful" where
  "wrap i p = (case i of
      Generator _ \<Rightarrow> (Inr [], p)
    | Reiterable xs \<Rightarrow> (case add_total (int (length xs)) p of
         (Inl e, p1) \<Rightarrow> (Inl e, p1) | (Inr _, p1) \<Rightarrow> wrap_items xs p1))"

section \<open>The invariant of a meter\<close>

definition progress_ok :: "progress \<Rightarrow> bool" where
  "progress_ok p \<longleftrightarrow> 0 \<le> pr_handled p \<and> pr_handled p \<le> pr_total p \<and> 0 \<le> pr_failed p"

lemmas progress_defs = add_total_def start_progress_def add_fail_def add_success_def
  download_success_def upload_success_def upload_missing_def upload_failure_def done_progress_def

text \<open>One operation of the meter, as the node code calls them.\<close>

datatype progress_op = Start int | AddTotal int | AddFail int | AddSuccess int | Done

fun progress_step :: "progress_op \<Rightarrow> (progress, unit) stateful" where
  "progress_step (Start n) = start_progress n"
| "progress_step (AddTotal n) = add_total n"
| "progress_step (AddFail n) = add_fail n"
| "progress_step (AddSuccess n) = add_success n"
| "progress_step Done = done_progress"

text \<open>Totals that are added are counts of things.\<close>

fun counting :: "progress_op \<Rightarrow> bool" where
  "counting (Start n) = (0 \<le> n)"
| "counting (AddTotal n) = (0 \<le> n)"
| "counting _ = True"

lemma progress_step_ok:
  "\<lbrakk>progress_ok p; counting c; progress_step c p = (Inr u, q)\<rbrakk> \<Longrightarrow> progress_ok q"
  by (cases c) (auto simp: progress_ok_def progress_defs Let_def split: if_splits)

lemma progress_step_final:
  "\<lbrakk>pr_final p; progress_step c p = (Inr u, q)\<rbrakk> \<Longrightarrow> q = p"
  by (cases c) (auto simp: progress_defs Let_def split: if_splits)

fun progress_run :: "progress_op list \<Rightarrow> (progress, unit) stateful" where
  "progress_run [] p = (Inr (), p)"
| "progress_run (c # cs) p = (case progress_step c p of
     (Inl e, q) \<Rightarrow> (Inl e, q) | (Inr _, q) \<Rightarrow> progress_run cs q)"

lemma progress_run_ok:
  "\<lbrakk>progress_ok p; \<forall>c \<in> set cs. counting c; progress_run cs p = (Inr u, q)\<rbrakk> \<Longrightarrow> progress_ok q"
  by (induction cs arbitrary: p) (auto split: prod.splits sum.splits dest: progress_step_ok)

lemma progress_run_final:
  "\<lbrakk>pr_final p; progress_run cs p = (Inr u, q)\<rbrakk> \<Longrightarrow> q = p"
  by (induction cs arbitrary: p)
     (auto split: prod.splits sum.splits dest: progress_step_final)

lemma new_progress_ok [simp]: "progress_ok new_progress"
  by (simp add: progress_ok_def new_progress_def)

section \<open>Merging\<close>

lemma merge_fold:
  "pr_handled (fold merge_add ps q) = pr_handled q + (\<Sum>p\<leftarrow>ps. pr_handled p)"
  "pr_failed (fold merge_add ps q) = pr_failed q + (\<Sum>p\<leftarrow>ps. pr_failed p)"
  "pr_total (fold merge_add ps q) = pr_total q + (\<Sum>p\<leftarrow>ps. pr_total p)"
  by (induction ps arbitrary: q) (auto simp: merge_add_def)

lemma merge_progress_sums:
  "pr_handled (merge_progress ps) = (\<Sum>p\<leftarrow>items ps. pr_handled p)"
  "pr_failed (merge_progress ps) = (\<Sum>p\<leftarrow>items ps. pr_failed p)"
  "pr_total (merge_progress ps) = (\<Sum>p\<leftarrow>items ps. pr_total p)"
  by (simp_all add: merge_progress_def merge_fold new_progress_def)

lemma sum_list_pointwise_eq:
  fixes f g :: "'a \<Rightarrow> int"
  assumes "\<forall>x \<in> set xs. f x \<le> g x"
  shows "(\<Sum>x\<leftarrow>xs. f x) = (\<Sum>x\<leftarrow>xs. g x) \<longleftrightarrow> (\<forall>x \<in> set xs. f x = g x)"
  using assms
proof (induction xs)
  case (Cons a xs)
  then have "(\<Sum>x\<leftarrow>xs. f x) \<le> (\<Sum>x\<leftarrow>xs. g x)"
    by (auto intro: sum_list_mono)
  with Cons show ?case by auto
qed simp

text \<open>Merging the meters of several nodes is faithful: when every meter satisfies the invariant
  of a meter and they come in a list, the merged meter reports success exactly when every one of
  them does, and its handled, failed and total counts are the sums of theirs.\<close>

theorem merge_finished_successfully:
  assumes "\<forall>p \<in> set ps. progress_ok p"
  shows "finished_successfully (merge_progress (Reiterable ps))
           = (\<forall>p \<in> set ps. finished_successfully p)
         \<and> progress_ok (merge_progress (Reiterable ps))
         \<and> pr_handled (merge_progress (Reiterable ps)) = (\<Sum>p\<leftarrow>ps. pr_handled p)
         \<and> pr_failed (merge_progress (Reiterable ps)) = (\<Sum>p\<leftarrow>ps. pr_failed p)
         \<and> pr_total (merge_progress (Reiterable ps)) = (\<Sum>p\<leftarrow>ps. pr_total p)"
proof -
  let ?m = "merge_progress (Reiterable ps)"
  have h: "pr_handled ?m = pr_total ?m \<longleftrightarrow> (\<forall>p \<in> set ps. pr_handled p = pr_total p)"
    using assms by (simp add: merge_progress_sums sum_list_pointwise_eq progress_ok_def)
  have f: "pr_failed ?m = 0 \<longleftrightarrow> (\<forall>p \<in> set ps. pr_failed p = 0)"
    using assms sum_list_pointwise_eq [of ps "\<lambda>_. 0" pr_failed]
    by (auto simp: merge_progress_sums progress_ok_def)
  have n: "pr_final ?m \<longleftrightarrow> (\<forall>p \<in> set ps. pr_final p)"
    by (simp add: merge_progress_def)
  have "finished_successfully ?m \<longleftrightarrow> (\<forall>p \<in> set ps. finished_successfully p)"
    unfolding finished_successfully_def h f n by blast
  moreover have "progress_ok ?m"
    using assms by (auto simp: progress_ok_def merge_progress_sums intro!: sum_list_mono sum_list_nonneg)
  ultimately show ?thesis by (simp add: merge_progress_sums)
qed

theorem merge_finished_successfully_witness:
  "(let ps = [\<lparr>pr_handled = 2, pr_failed = 0, pr_total = 2, pr_final = True\<rparr>,
              \<lparr>pr_handled = 1, pr_failed = 0, pr_total = 4, pr_final = False\<rparr>]
    in (\<forall>p \<in> set ps. progress_ok p) \<and> \<not> finished_successfully (merge_progress (Reiterable ps)))"
proof -
  let ?ps = "[\<lparr>pr_handled = 2, pr_failed = 0, pr_total = 2, pr_final = True\<rparr>,
              \<lparr>pr_handled = 1, pr_failed = 0, pr_total = 4, pr_final = False\<rparr>]"
  have ok: "\<forall>p \<in> set ?ps. progress_ok p" by (simp add: progress_ok_def)
  have "\<not> (\<forall>p \<in> set ?ps. finished_successfully p)" by (simp add: finished_successfully_def)
  with merge_finished_successfully [OF ok] have "\<not> finished_successfully (merge_progress (Reiterable ?ps))"
    by blast
  with ok show ?thesis by simp
qed

text \<open>Meters handed over as a generator lose the information whether the work goes on: the second
  walk of \<^verbatim>\<open>merge\<close> finds the generator exhausted, so the merged meter is always final.\<close>

lemma merge_generator_always_final: "pr_final (merge_progress (Generator ps))"
  by (simp add: merge_progress_def)

text \<open>C39. Any sequence of meter operations that runs without an assertion failure keeps the invariant
  (nothing handled beyond the total, no negative count), and once a meter is final every later
  operation that returns leaves it unchanged.\<close>

theorem progress_run_invariant:
  assumes "progress_ok p" and "\<forall>c \<in> set cs. counting c" and "progress_run cs p = (Inr u, q)"
  shows "progress_ok q \<and> (pr_final p \<longrightarrow> q = p)"
  using progress_run_ok [OF assms] progress_run_final [OF _ assms(3)] by blast

theorem progress_run_invariant_witness:
  "progress_ok (snd (progress_run [Start 3, AddSuccess 2, AddFail 1, Done] new_progress))
   \<and> fst (progress_run [Start 3, AddSuccess 2, AddFail 1, Done] new_progress) = Inr ()"
proof -
  let ?cs = "[Start 3, AddSuccess 2, AddFail 1, Done]"
  have r: "progress_run ?cs new_progress
    = (Inr (), \<lparr>pr_handled = 2, pr_failed = 1, pr_total = 3, pr_final = True\<rparr>)"
    by (simp add: progress_defs new_progress_def Let_def)
  have c: "\<forall>c \<in> set ?cs. counting c" by simp
  show ?thesis using progress_run_invariant [OF new_progress_ok c r] r by simp
qed

end
