(* ===== verification/Op_State.thy ===== *)
theory Op_State
  imports Astacus_Prelude
begin

text \<open>
  Background operations (\<^verbatim>\<open>astacus/common/op.py\<close>): the operation id that decides which operation owns
  the shared \<^verbatim>\<open>Op.Info\<close>, the status changes, and the wrappers in which \<^verbatim>\<open>start_op\<close> runs an operation.
  \<^verbatim>\<open>set_status\<close> is virtual in the code (node and coordinator operations extend it), so the wrappers
  take it as an argument. \<^verbatim>\<open>Op.Info.op_status\<close> holds an enum member after an assignment and the
  plain value after construction through pydantic; the field keeps that difference.
\<close>

section \<open>Definitions\<close>

datatype op_status = StStarting | StRunning | StFail | StDone

fun status_value :: "op_status \<Rightarrow> string" where
  "status_value StStarting = ''starting''"
| "status_value StRunning = ''running''"
| "status_value StFail = ''fail''"
| "status_value StDone = ''done''"

datatype status_field = Member op_status | Plain string

record op_info =
  oi_op_id :: int
  oi_op_name :: string
  oi_op_status :: "status_field option"

definition new_op_info :: op_info where
  "new_op_info = \<lparr>oi_op_id = 0, oi_op_name = '''', oi_op_status = None\<rparr>"

text \<open>Constructing \<^verbatim>\<open>Op.Info(...)\<close> validates: \<^verbatim>\<open>use_enum_values\<close> replaces a member by its value.\<close>

definition make_op_info :: "int \<Rightarrow> string \<Rightarrow> op_status option \<Rightarrow> op_info" where
  "make_op_info i name st = \<lparr>oi_op_id = i, oi_op_name = name,
     oi_op_status = map_option (\<lambda>s. Plain (status_value s)) st\<rparr>"

text \<open>\<open>'o\<close> is the type of operation objects; \<^verbatim>\<open>OpState.op\<close> is the operation started last.\<close>

record 'o op_state =
  os_op_info :: op_info
  os_op :: "'o option"
  os_next_op_id :: int

definition new_op_state :: "'o op_state" where
  "new_op_state = \<lparr>os_op_info = new_op_info, os_op = None, os_next_op_id = 1\<rparr>"

definition check_op_id :: "int \<Rightarrow> op_info \<Rightarrow> unit result" where
  "check_op_id op_id info = (if oi_op_id info \<noteq> op_id then Inl ExpiredOperationException else Inr ())"

definition set_status :: "int \<Rightarrow> op_status \<Rightarrow> op_status option \<Rightarrow> (op_info, bool) stateful" where
  "set_status op_id status from_status info =
     (if op_id = 0 then (Inl AssertionError, info)
      else case check_op_id op_id info of
        Inl e \<Rightarrow> (Inl e, info)
      | Inr _ \<Rightarrow>
          if from_status \<noteq> None \<and> map_option Member from_status \<noteq> oi_op_status info then (Inr False, info)
          else if oi_op_status info = Some (Member status) then (Inr False, info)
          else (Inr True, info\<lparr>oi_op_status := Some (Member status)\<rparr>))"

text \<open>\<^verbatim>\<open>set_status_fail\<close> also bumps a statistics counter, which is not part of the state.\<close>

definition set_status_fail ::
  "(op_status \<Rightarrow> op_status option \<Rightarrow> ('s, bool) stateful) \<Rightarrow> ('s, unit) stateful" where
  "set_status_fail ss s = (case ss StFail None s of (Inl e, s') \<Rightarrow> (Inl e, s') | (Inr _, s') \<Rightarrow> (Inr (), s'))"

definition allocate_op_id :: "'o op_state \<Rightarrow> int \<times> 'o op_state" where
  "allocate_op_id s = (os_next_op_id s, s\<lparr>os_next_op_id := os_next_op_id s + 1\<rparr>)"

text \<open>\<^verbatim>\<open>except ExpiredOperationException\<close> within \<^verbatim>\<open>contextlib.suppress\<close>.\<close>

definition suppress_expired :: "('s, unit) stateful \<Rightarrow> ('s, unit) stateful" where
  "suppress_expired m s = (case m s of
     (Inl e, s') \<Rightarrow> if e = ExpiredOperationException then (Inr (), s') else (Inl e, s')
   | (Inr u, s') \<Rightarrow> (Inr u, s'))"

text \<open>The body of the \<^verbatim>\<open>try\<close> that both wrappers share.\<close>

definition run_op_body ::
  "(op_status \<Rightarrow> op_status option \<Rightarrow> ('s, bool) stateful) \<Rightarrow> ('s, unit) stateful \<Rightarrow> ('s, unit) stateful" where
  "run_op_body ss body s = (case ss StRunning None s of
     (Inl e, s1) \<Rightarrow> (Inl e, s1)
   | (Inr _, s1) \<Rightarrow> (case body s1 of
       (Inl e, s2) \<Rightarrow> (Inl e, s2)
     | (Inr _, s2) \<Rightarrow> (case ss StDone (Some StRunning) s2 of
         (Inl e, s3) \<Rightarrow> (Inl e, s3)
       | (Inr _, s3) \<Rightarrow> (Inr (), s3))))"

definition fail_and_raise ::
  "(op_status \<Rightarrow> op_status option \<Rightarrow> ('s, bool) stateful) \<Rightarrow> exn \<Rightarrow> ('s, unit) stateful" where
  "fail_and_raise ss e s = (case suppress_expired (set_status_fail ss) s of
     (Inl e', s') \<Rightarrow> (Inl e', s') | (Inr _, s') \<Rightarrow> (Inl e, s'))"

definition sync_wrapper ::
  "(op_status \<Rightarrow> op_status option \<Rightarrow> ('s, bool) stateful) \<Rightarrow> ('s, unit) stateful \<Rightarrow> ('s, unit) stateful" where
  "sync_wrapper ss body s = (case run_op_body ss body s of
     (Inr u, s1) \<Rightarrow> (Inr u, s1)
   | (Inl e, s1) \<Rightarrow>
       if e = ExpiredOperationException then (Inr (), s1)
       else if e = CancelledError then (Inl e, s1)
       else fail_and_raise ss e s1)"

definition async_wrapper ::
  "(op_status \<Rightarrow> op_status option \<Rightarrow> ('s, bool) stateful) \<Rightarrow> ('s, unit) stateful \<Rightarrow> ('s, unit) stateful" where
  "async_wrapper ss body s = (case run_op_body ss body s of
     (Inr u, s1) \<Rightarrow> (Inr u, s1)
   | (Inl e, s1) \<Rightarrow>
       if e = ExpiredOperationException then (Inr (), s1)
       else if e = CancelledError then suppress_expired (set_status_fail ss) s1
       else fail_and_raise ss e s1)"

text \<open>\<^verbatim>\<open>start_op\<close> up to the scheduling of the wrapper: the operation takes over the shared info. The
  \<^verbatim>\<open>set_status(starting)\<close> it ends with is the virtual one; it is given as the argument here.\<close>

definition start_op ::
  "(op_status \<Rightarrow> op_status option \<Rightarrow> (op_info, bool) stateful) \<Rightarrow> 'o \<Rightarrow> int \<Rightarrow> string
     \<Rightarrow> ('o op_state, int) stateful" where
  "start_op ss op op_id op_name s =
     (let info = (os_op_info s)\<lparr>oi_op_id := op_id, oi_op_name := op_name\<rparr>;
          s1 = s\<lparr>os_op_info := info, os_op := Some op\<rparr>
      in case ss StStarting None info of
           (Inl e, info1) \<Rightarrow> (Inl e, s1\<lparr>os_op_info := info1\<rparr>)
         | (Inr _, info1) \<Rightarrow> (Inr op_id, s1\<lparr>os_op_info := info1\<rparr>))"

definition get_op_and_op_info :: "'o op_state \<Rightarrow> int \<Rightarrow> string option \<Rightarrow> ('o option \<times> op_info) result" where
  "get_op_and_op_info s op_id op_name =
     (let info = os_op_info s in
      if op_id \<noteq> oi_op_id info \<or> (case op_name of None \<Rightarrow> False | Some n \<Rightarrow> n \<noteq> [] \<and> n \<noteq> oi_op_name info)
      then Inl (HTTPException 404) else Inr (os_op s, info))"

text \<open>\<^verbatim>\<open>Coordinator.is_busy\<close> compares the field with the plain values of the two statuses.\<close>

definition is_busy :: "'o op_state \<Rightarrow> bool" where
  "is_busy s \<longleftrightarrow> os_op s \<noteq> None \<and>
     oi_op_status (os_op_info s) \<in> {Some (Plain (status_value StRunning)), Some (Plain (status_value StStarting))}"

section \<open>Status changes\<close>

lemma set_status_frame:
  "set_status i st fr info = (r, info') \<Longrightarrow> oi_op_id info' = oi_op_id info \<and> oi_op_name info' = oi_op_name info"
  by (auto simp: set_status_def split: if_splits sum.splits)

lemma set_status_expired:
  "\<lbrakk>i \<noteq> 0; oi_op_id info \<noteq> i\<rbrakk> \<Longrightarrow> set_status i st fr info = (Inl ExpiredOperationException, info)"
  by (simp add: set_status_def check_op_id_def)

lemma set_status_current:
  "\<lbrakk>i \<noteq> 0; oi_op_id info = i\<rbrakk> \<Longrightarrow> set_status i st None info =
     (Inr (oi_op_status info \<noteq> Some (Member st)), info\<lparr>oi_op_status := Some (Member st)\<rparr>)"
  by (cases info) (simp add: set_status_def check_op_id_def)

lemma set_status_done:
  "\<lbrakk>i \<noteq> 0; oi_op_id info = i; oi_op_status info = Some (Member StRunning)\<rbrakk> \<Longrightarrow>
     set_status i StDone (Some StRunning) info = (Inr True, info\<lparr>oi_op_status := Some (Member StDone)\<rparr>)"
  by (simp add: set_status_def check_op_id_def)

lemma set_status_done_not_running:
  "\<lbrakk>i \<noteq> 0; oi_op_id info = i; oi_op_status info \<noteq> Some (Member StRunning)\<rbrakk> \<Longrightarrow>
     set_status i StDone (Some StRunning) info = (Inr False, info)"
  by (simp add: set_status_def check_op_id_def)

lemmas wrapper_defs = sync_wrapper_def async_wrapper_def run_op_body_def fail_and_raise_def
  suppress_expired_def set_status_fail_def

lemma run_op_body_current:
  assumes "i \<noteq> 0" and "oi_op_id info = i"
  shows "run_op_body (set_status i) body info =
    (case body (info\<lparr>oi_op_status := Some (Member StRunning)\<rparr>) of
       (Inl e, s2) \<Rightarrow> (Inl e, s2)
     | (Inr _, s2) \<Rightarrow> (case set_status i StDone (Some StRunning) s2 of
         (Inl e, s3) \<Rightarrow> (Inl e, s3) | (Inr _, s3) \<Rightarrow> (Inr (), s3)))"
  using assms by (simp add: run_op_body_def set_status_current)

text \<open>An operation that still owns the shared info ends in a terminal status: with a body that
  leaves the id alone, the synchronous wrapper leaves status done when the body returns while the
  status is still running, and fail when the body raises an ordinary exception, which it re-raises.\<close>

theorem sync_wrapper_terminal:
  assumes "i \<noteq> 0" and "oi_op_id info = i"
    and body: "body (info\<lparr>oi_op_status := Some (Member StRunning)\<rparr>) = (r, info2)"
    and own: "oi_op_id info2 = i"
  shows "sync_wrapper (set_status i) body info =
    (case r of
       Inr _ \<Rightarrow> (Inr (), if oi_op_status info2 = Some (Member StRunning)
                        then info2\<lparr>oi_op_status := Some (Member StDone)\<rparr> else info2)
     | Inl e \<Rightarrow> if e = ExpiredOperationException then (Inr (), info2)
               else if e = CancelledError then (Inl e, info2)
               else (Inl e, info2\<lparr>oi_op_status := Some (Member StFail)\<rparr>))"
proof (cases r)
  case (Inl e)
  then show ?thesis
    using assms by (simp add: wrapper_defs set_status_current)
next
  case (Inr u)
  then show ?thesis
    using assms
    by (cases "oi_op_status info2 = Some (Member StRunning)")
       (simp_all add: wrapper_defs set_status_current set_status_done set_status_done_not_running)
qed

theorem sync_wrapper_terminal_witness:
  "sync_wrapper (set_status 7) (\<lambda>s. (Inl RuntimeError, s)) (make_op_info 7 ''snapshot'' None)
     = (Inl RuntimeError, \<lparr>oi_op_id = 7, oi_op_name = ''snapshot'', oi_op_status = Some (Member StFail)\<rparr>)"
  using sync_wrapper_terminal [of 7 "make_op_info 7 ''snapshot'' None" "\<lambda>s. (Inl RuntimeError, s)"
      "Inl RuntimeError" "(make_op_info 7 ''snapshot'' None)\<lparr>oi_op_status := Some (Member StRunning)\<rparr>"]
  by (simp add: make_op_info_def)

text \<open>A superseded operation is harmless: when another operation has taken over the shared info
  while the body ran (or before it started), both wrappers leave the info exactly as the body left
  it; in particular they never write a status into the newer operation's info.\<close>

theorem superseded_wrapper_silent:
  assumes "i \<noteq> 0" and "oi_op_id info = i"
    and "body (info\<lparr>oi_op_status := Some (Member StRunning)\<rparr>) = (r, info2)"
    and "oi_op_id info2 \<noteq> i"
  shows "snd (sync_wrapper (set_status i) body info) = info2
       \<and> snd (async_wrapper (set_status i) body info) = info2"
proof (cases r)
  case (Inl e)
  then show ?thesis
    using assms by (simp add: wrapper_defs set_status_current set_status_expired)
next
  case (Inr u)
  then show ?thesis
    using assms by (simp add: wrapper_defs set_status_current set_status_expired)
qed

theorem superseded_wrapper_silent_witness:
  "snd (sync_wrapper (set_status 7) (\<lambda>s. (Inl RuntimeError, make_op_info 8 ''upload'' (Some StStarting)))
      (make_op_info 7 ''snapshot'' None)) = make_op_info 8 ''upload'' (Some StStarting)"
proof -
  let ?body = "\<lambda>s :: op_info. (Inl RuntimeError :: unit result, make_op_info 8 ''upload'' (Some StStarting))"
  have "snd (sync_wrapper (set_status 7) ?body (make_op_info 7 ''snapshot'' None))
      = make_op_info 8 ''upload'' (Some StStarting)
    \<and> snd (async_wrapper (set_status 7) ?body (make_op_info 7 ''snapshot'' None))
      = make_op_info 8 ''upload'' (Some StStarting)"
    by (rule superseded_wrapper_silent) (simp_all add: make_op_info_def)
  then show ?thesis by simp
qed

section \<open>Histories of operations\<close>

text \<open>
  The life of the shared state: new operations are allocated and started, and any operation ever
  started may change the status, at any time and in any order. Ids are never reused, and the status
  is a member of the enum as soon as the first operation started.
\<close>

inductive op_step :: "'o op_state \<Rightarrow> 'o op_state \<Rightarrow> bool" where
  allocate_and_start:
    "\<lbrakk>allocate_op_id s = (i, s1); start_op (set_status i) op i name s1 = (r, s2)\<rbrakk> \<Longrightarrow> op_step s s2"
| status_change:
    "\<lbrakk>i \<noteq> 0; i < os_next_op_id s; set_status i st fr (os_op_info s) = (r, info)\<rbrakk>
       \<Longrightarrow> op_step s (s\<lparr>os_op_info := info\<rparr>)"

inductive op_reachable :: "'o op_state \<Rightarrow> bool" where
  init: "op_reachable new_op_state"
| step: "\<lbrakk>op_reachable s; op_step s t\<rbrakk> \<Longrightarrow> op_reachable t"

definition op_state_inv :: "'o op_state \<Rightarrow> bool" where
  "op_state_inv s \<longleftrightarrow> 1 \<le> os_next_op_id s
     \<and> 0 \<le> oi_op_id (os_op_info s) \<and> oi_op_id (os_op_info s) < os_next_op_id s
     \<and> (oi_op_id (os_op_info s) = 0 \<longleftrightarrow> os_op s = None)
     \<and> (os_op s = None \<longrightarrow> oi_op_status (os_op_info s) = None)
     \<and> (os_op s \<noteq> None \<longrightarrow> (\<exists>st. oi_op_status (os_op_info s) = Some (Member st)))"

lemma start_op_allocated:
  assumes "allocate_op_id s = (i, s1)" and "start_op (set_status i) op i name s1 = (r, s2)"
    and "1 \<le> os_next_op_id s"
  shows "r = Inr (os_next_op_id s) \<and> s2 = s\<lparr>os_op_info :=
      \<lparr>oi_op_id = os_next_op_id s, oi_op_name = name, oi_op_status = Some (Member StStarting)\<rparr>,
      os_op := Some op, os_next_op_id := os_next_op_id s + 1\<rparr>"
  using assms by (auto simp: allocate_op_id_def start_op_def set_status_current Let_def)

lemma op_step_inv: "\<lbrakk>op_step s t; op_state_inv s\<rbrakk> \<Longrightarrow> op_state_inv t"
proof (induction rule: op_step.induct)
  case (allocate_and_start s i s1 op name r s2)
  then show ?case
    using start_op_allocated [OF allocate_and_start.hyps] by (auto simp: op_state_inv_def)
next
  case (status_change i s st fr r info)
  then show ?case
    by (auto simp: op_state_inv_def set_status_def check_op_id_def split: if_splits)
qed

lemma op_reachable_inv: "op_reachable s \<Longrightarrow> op_state_inv s"
proof (induction rule: op_reachable.induct)
  case init
  then show ?case by (simp add: op_state_inv_def new_op_state_def new_op_info_def)
qed (rule op_step_inv)

text \<open>In every state the operation machinery can reach, whatever the interleaving of starts and
  status changes, the id in the shared info is below the next id to be allocated (ids are not
  reused), and starting a new operation always succeeds and puts it in status starting.\<close>

theorem op_ids_fresh:
  assumes "op_reachable s" and "allocate_op_id s = (i, s1)"
  shows "oi_op_id (os_op_info s) < i
    \<and> (\<exists>s2. start_op (set_status i) op i name s1 = (Inr i, s2)
         \<and> oi_op_id (os_op_info s2) = i \<and> oi_op_status (os_op_info s2) = Some (Member StStarting))"
proof -
  from assms have inv: "op_state_inv s" by (simp add: op_reachable_inv)
  obtain r s2 where r: "start_op (set_status i) op i name s1 = (r, s2)" by (cases "start_op (set_status i) op i name s1")
  from start_op_allocated [OF assms(2) r] inv assms(2) r show ?thesis
    by (auto simp: op_state_inv_def allocate_op_id_def)
qed

lemma op_reachable_example:
  "op_reachable \<lparr>os_op_info = \<lparr>oi_op_id = 1, oi_op_name = ''backup'', oi_op_status = Some (Member StStarting)\<rparr>,
     os_op = Some (), os_next_op_id = 2\<rparr>"
proof -
  have "op_step (new_op_state :: unit op_state) \<lparr>os_op_info = \<lparr>oi_op_id = 1, oi_op_name = ''backup'',
     oi_op_status = Some (Member StStarting)\<rparr>, os_op = Some (), os_next_op_id = 2\<rparr>"
    by (rule op_step.allocate_and_start [where i = 1 and r = "Inr 1" and op = "()" and name = "''backup''"
          and ?s1.0 = "new_op_state\<lparr>os_next_op_id := 2\<rparr>"])
       (simp_all add: allocate_op_id_def start_op_def new_op_state_def new_op_info_def set_status_current Let_def)
  with op_reachable.init show ?thesis by (rule op_reachable.step)
qed

theorem op_ids_fresh_witness:
  "\<exists>s2. start_op (set_status 2) () 2 ''restore''
     \<lparr>os_op_info = \<lparr>oi_op_id = 1, oi_op_name = ''backup'', oi_op_status = Some (Member StStarting)\<rparr>,
      os_op = Some (), os_next_op_id = 3\<rparr> = (Inr 2, s2)"
  using op_ids_fresh [OF op_reachable_example, of 2 "\<lparr>os_op_info = \<lparr>oi_op_id = 1, oi_op_name = ''backup'',
      oi_op_status = Some (Member StStarting)\<rparr>, os_op = Some (), os_next_op_id = 3\<rparr>" "()" "''restore''"]
  by (auto simp: allocate_op_id_def)

text \<open>The busy check never sees an operation: in every reachable state, also while an operation is
  starting or running, \<^verbatim>\<open>is_busy\<close> is false, because it compares an enum member with plain strings.
  It is true only for an info built through the validating constructor.\<close>

theorem is_busy_never:
  assumes "op_reachable s"
  shows "\<not> is_busy s"
  using op_reachable_inv [OF assms] by (auto simp: op_state_inv_def is_busy_def)

theorem is_busy_never_witness:
  "\<not> is_busy \<lparr>os_op_info = \<lparr>oi_op_id = 1, oi_op_name = ''backup'', oi_op_status = Some (Member StStarting)\<rparr>,
     os_op = Some (), os_next_op_id = 2\<rparr>
   \<and> is_busy \<lparr>os_op_info = make_op_info 1 ''backup'' (Some StStarting), os_op = Some (), os_next_op_id = 2\<rparr>"
  using is_busy_never [OF op_reachable_example] by (simp add: is_busy_def make_op_info_def)

end
