(* ===== verification/Node_Lock.thy ===== *)
theory Node_Lock
  imports Complex_Main Op_State
begin

text \<open>
  The cluster lock: the per-node lock entry (\<^verbatim>\<open>astacus/node/state.py\<close>), the three endpoints that
  change it (\<^verbatim>\<open>astacus/node/api.py\<close>), the coordinator's lock call that fans out to all nodes and folds
  their answers (\<^verbatim>\<open>Cluster._request_lock_call_from_nodes\<close>), the acquisition with its roll-back
  (\<^verbatim>\<open>LockedCoordinatorOp.acquire_cluster_lock\<close>), the relock loop, and \<^verbatim>\<open>LockOps\<close>. Clock readings are
  arguments, in the order the code takes them; times are real numbers (float rounding is not
  modelled). An endpoint runs under \<^verbatim>\<open>mutate_lock\<close> and is therefore one atomic step of its node.
\<close>

section \<open>The lock of one node\<close>

record lock_entry =
  le_locker :: string
  le_locked_until :: real

type_synonym node_lock = "lock_entry option"

text \<open>\<^verbatim>\<open>is_locked\<close> returns the locker or \<^verbatim>\<open>False\<close>; \<open>None\<close> stands for \<^verbatim>\<open>False\<close>.\<close>

definition is_locked :: "real \<Rightarrow> node_lock \<Rightarrow> string option" where
  "is_locked now l = (case l of None \<Rightarrow> None
     | Some e \<Rightarrow> if now > le_locked_until e then None else Some (le_locker e))"

text \<open>An empty locker name is a false value in Python.\<close>

definition truthy_locker :: "string option \<Rightarrow> bool" where
  "truthy_locker r \<longleftrightarrow> (\<exists>x. r = Some x \<and> x \<noteq> [])"

lemma truthy_locker_simps [simp, code]:
  "truthy_locker None \<longleftrightarrow> False" "truthy_locker (Some x) \<longleftrightarrow> x \<noteq> []"
  by (auto simp: truthy_locker_def)

definition state_lock :: "real \<Rightarrow> string \<Rightarrow> int \<Rightarrow> node_lock" where
  "state_lock now locker ttl = Some \<lparr>le_locker = locker, le_locked_until = now + real_of_int ttl\<rparr>"

definition state_unlock :: "(node_lock, unit) stateful" where
  "state_unlock l = (if l = None then (Inl AssertionError, l) else (Inr (), None))"

text \<open>The endpoints; the result is the value of the \<^verbatim>\<open>locked\<close> key of the answer.\<close>

definition lock_endpoint :: "real \<Rightarrow> real \<Rightarrow> string \<Rightarrow> int \<Rightarrow> (node_lock, bool) stateful" where
  "lock_endpoint t1 t2 locker ttl l =
     (if truthy_locker (is_locked t1 l) then (Inl (HTTPException 409), l)
      else (Inr True, state_lock t2 locker ttl))"

definition relock_endpoint :: "real \<Rightarrow> real \<Rightarrow> real \<Rightarrow> string \<Rightarrow> int \<Rightarrow> (node_lock, bool) stateful" where
  "relock_endpoint t1 t2 t3 locker ttl l =
     (if \<not> truthy_locker (is_locked t1 l) then (Inl (HTTPException 409), l)
      else if is_locked t2 l \<noteq> Some locker then (Inl (HTTPException 403), l)
      else (Inr True, state_lock t3 locker ttl))"

definition unlock_endpoint :: "real \<Rightarrow> real \<Rightarrow> string \<Rightarrow> (node_lock, bool) stateful" where
  "unlock_endpoint t1 t2 locker l =
     (if \<not> truthy_locker (is_locked t1 l) then (Inl (HTTPException 409), l)
      else if is_locked t2 l \<noteq> Some locker then (Inl (HTTPException 403), l)
      else case state_unlock l of (Inl e, l') \<Rightarrow> (Inl e, l') | (Inr _, l') \<Rightarrow> (Inr False, l'))"

text \<open>\<^verbatim>\<open>still_locked_callback\<close>: a generator that answers yes while the node is locked by the locker it
  was created under, and no from the first miss on. \<open>hit\<close> is whether it is still in its first loop.\<close>

definition still_locked :: "string \<Rightarrow> real \<Rightarrow> node_lock \<Rightarrow> (bool, bool) stateful" where
  "still_locked original now l hit =
     (if hit \<and> is_locked now l = Some original then (Inr True, True) else (Inr False, False))"

fun still_locked_calls :: "string \<Rightarrow> bool \<Rightarrow> (real \<times> node_lock) list \<Rightarrow> bool list" where
  "still_locked_calls original hit [] = []"
| "still_locked_calls original hit ((now, l) # cs) = (case still_locked original now l hit of
     (Inl _, h) \<Rightarrow> False # still_locked_calls original h cs
   | (Inr b, h) \<Rightarrow> b # still_locked_calls original h cs)"

section \<open>Lock calls to the cluster\<close>

datatype lock_call = LockCall int | RelockCall int | UnlockCall

datatype lock_result = LockOk | LockFailure | LockExc

fun handle_lock_call :: "lock_call \<Rightarrow> real \<times> real \<times> real \<Rightarrow> string \<Rightarrow> (node_lock, bool) stateful" where
  "handle_lock_call (LockCall ttl) (t1, t2, t3) locker = lock_endpoint t1 t2 locker ttl"
| "handle_lock_call (RelockCall ttl) (t1, t2, t3) locker = relock_endpoint t1 t2 t3 locker ttl"
| "handle_lock_call UnlockCall (t1, t2, t3) locker = unlock_endpoint t1 t2 locker"

text \<open>What the coordinator sees of one node: no answer (timeout, connection error or exception), an
  answer with an error status, or an answer whose JSON is the \<^verbatim>\<open>locked\<close> object, something else, or
  undecodable.\<close>

datatype node_answer = NoAnswer | ErrorAnswer | JsonAnswer "bool option"

fun expected_result :: "lock_call \<Rightarrow> bool" where
  "expected_result (LockCall _) = True"
| "expected_result (RelockCall _) = True"
| "expected_result UnlockCall = False"

fun lock_result_step :: "lock_call \<Rightarrow> node_answer \<Rightarrow> lock_result \<Rightarrow> lock_result" where
  "lock_result_step call NoAnswer rv = (if rv \<noteq> LockFailure then LockExc else rv)"
| "lock_result_step call ErrorAnswer rv = LockFailure"
| "lock_result_step call (JsonAnswer d) rv = (if d \<noteq> Some (expected_result call) then LockFailure else rv)"

definition fold_lock_answers :: "lock_call \<Rightarrow> node_answer list \<Rightarrow> lock_result" where
  "fold_lock_answers call answers = fold (lock_result_step call) answers LockOk"

text \<open>How a request fares on its way: it may be lost before it reaches the node, or its answer may be
  lost after the node has acted.\<close>

datatype delivery = Delivered "real \<times> real \<times> real" | LostRequest | LostAnswer "real \<times> real \<times> real"

fun deliver :: "lock_call \<Rightarrow> string \<Rightarrow> delivery \<Rightarrow> node_lock \<Rightarrow> node_answer \<times> node_lock" where
  "deliver call locker LostRequest l = (NoAnswer, l)"
| "deliver call locker (LostAnswer ts) l = (NoAnswer, snd (handle_lock_call call ts locker l))"
| "deliver call locker (Delivered ts) l = (case handle_lock_call call ts locker l of
     (Inl _, l') \<Rightarrow> (ErrorAnswer, l') | (Inr b, l') \<Rightarrow> (JsonAnswer (Some b), l'))"

text \<open>\<^verbatim>\<open>_request_lock_call_from_nodes\<close> on a list of nodes, one delivery per node.\<close>

definition request_lock_call_from_nodes ::
  "lock_call \<Rightarrow> string \<Rightarrow> delivery list \<Rightarrow> node_lock list \<Rightarrow> lock_result \<times> node_lock list" where
  "request_lock_call_from_nodes call locker ds ns =
     (let outs = map2 (deliver call locker) ds ns
      in (fold_lock_answers call (map fst outs), map snd outs))"

definition request_lock :: "string \<Rightarrow> int \<Rightarrow> delivery list \<Rightarrow> node_lock list \<Rightarrow> lock_result \<times> node_lock list" where
  "request_lock locker ttl = request_lock_call_from_nodes (LockCall ttl) locker"

definition request_unlock :: "string \<Rightarrow> delivery list \<Rightarrow> node_lock list \<Rightarrow> lock_result \<times> node_lock list" where
  "request_unlock locker = request_lock_call_from_nodes UnlockCall locker"

text \<open>The relock call goes to one node of the cluster.\<close>

definition request_relock :: "string \<Rightarrow> int \<Rightarrow> delivery \<Rightarrow> node_lock \<Rightarrow> lock_result \<times> node_lock" where
  "request_relock locker ttl d n =
     (let (r, ns) = request_lock_call_from_nodes (RelockCall ttl) locker [d] [n] in (r, hd ns))"

text \<open>\<^verbatim>\<open>acquire_cluster_lock\<close> up to the runner it returns: on anything but ok it unlocks and raises
  409. \<open>ds'\<close> are the deliveries of the unlock requests.\<close>

definition acquire_cluster_lock ::
  "string \<Rightarrow> int \<Rightarrow> delivery list \<Rightarrow> delivery list \<Rightarrow> (node_lock list, unit) stateful" where
  "acquire_cluster_lock locker ttl ds ds' ns =
     (case request_lock locker ttl ds ns of
        (LockOk, ns1) \<Rightarrow> (Inr (), ns1)
      | (_, ns1) \<Rightarrow> (Inl (HTTPException 409), snd (request_unlock locker ds' ns1)))"

text \<open>The relock loop of one node. Every turn takes a clock reading at its top, the readings of its
  inner sleep loop, and the result of the relock request; the loop is driven by the list of turns
  the environment provides and stays \<open>Relocking\<close> when the list ends.\<close>

datatype relock_outcome = Relocking real | MainCancelled

fun sleep_until :: "real \<Rightarrow> real \<Rightarrow> real list \<Rightarrow> real option" where
  "sleep_until next_lock t [] = (if t < next_lock then None else Some t)"
| "sleep_until next_lock t (t' # ts) = (if t < next_lock then sleep_until next_lock t' ts else Some t)"

fun node_relock_loop ::
  "real \<Rightarrow> real \<Rightarrow> real \<Rightarrow> (real \<times> real list \<times> lock_result) list \<Rightarrow> relock_outcome" where
  "node_relock_loop ttl lock_eol next_lock [] = Relocking lock_eol"
| "node_relock_loop ttl lock_eol next_lock ((t, sleeps, r) # turns) =
     (if t > lock_eol then MainCancelled
      else case sleep_until next_lock t sleeps of
        None \<Rightarrow> Relocking lock_eol
      | Some t' \<Rightarrow> (case r of
          LockOk \<Rightarrow> node_relock_loop ttl (t' + ttl) (t' + ttl / 2) turns
        | LockFailure \<Rightarrow> MainCancelled
        | LockExc \<Rightarrow> node_relock_loop ttl lock_eol next_lock turns))"

text \<open>\<^verbatim>\<open>LockOps\<close>. An expression that calls an \<^verbatim>\<open>async\<close> method without \<^verbatim>\<open>await\<close> is a coroutine object:
  nothing of the method has run, and the object is not \<^verbatim>\<open>LockResult.ok\<close>.\<close>

datatype awaited = Value lock_result | Coroutine

type_synonym lockops_state = "node_lock list \<times> op_info"

definition lift_status :: "int \<Rightarrow> op_status \<Rightarrow> op_status option \<Rightarrow> (lockops_state, bool) stateful" where
  "lift_status i st fr s = (case set_status i st fr (snd s) of (r, info) \<Rightarrow> (r, (fst s, info)))"

definition lockops_lock ::
  "int \<Rightarrow> string \<Rightarrow> int \<Rightarrow> delivery list \<Rightarrow> delivery list \<Rightarrow> (lockops_state, unit) stateful" where
  "lockops_lock i locker ttl ds ds' s =
     (case request_lock locker ttl ds (fst s) of
        (LockOk, ns1) \<Rightarrow> (Inr (), (ns1, snd s))
      | (_, ns1) \<Rightarrow> (case set_status_fail (lift_status i) (ns1, snd s) of
           (Inl e, s2) \<Rightarrow> (Inl e, s2)
         | (Inr _, s2) \<Rightarrow> (Inr (), (snd (request_unlock locker ds' (fst s2)), snd s2))))"

definition lockops_unlock :: "int \<Rightarrow> string \<Rightarrow> (lockops_state, unit) stateful" where
  "lockops_unlock i locker s =
     (let result = Coroutine
      in if result \<noteq> Value LockOk then set_status_fail (lift_status i) s else (Inr (), s))"

section \<open>Lemmas on one node\<close>

text \<open>\<open>held_by l now e\<close>: the node has entry \<open>e\<close>, by a non-empty locker, not expired at \<open>now\<close>.\<close>

definition held_by :: "node_lock \<Rightarrow> string \<Rightarrow> real \<Rightarrow> bool" where
  "held_by l a now \<longleftrightarrow> a \<noteq> [] \<and> (\<exists>e. l = Some e \<and> le_locker e = a \<and> now \<le> le_locked_until e)"

lemma held_by_is_locked: "held_by l a now \<longleftrightarrow> a \<noteq> [] \<and> is_locked now l = Some a"
  by (auto simp: held_by_def is_locked_def split: option.splits)

lemma held_by_mono: "\<lbrakk>held_by l a now; t \<le> now\<rbrakk> \<Longrightarrow> held_by l a t"
  by (auto simp: held_by_def)

text \<open>The clock readings a delivery takes on the node.\<close>

fun delivery_within :: "real \<Rightarrow> delivery \<Rightarrow> bool" where
  "delivery_within u LostRequest = True"
| "delivery_within u (Delivered (t1, t2, t3)) = (t1 \<le> u \<and> t2 \<le> u \<and> t3 \<le> u)"
| "delivery_within u (LostAnswer (t1, t2, t3)) = (t1 \<le> u \<and> t2 \<le> u \<and> t3 \<le> u)"

lemma handle_other_rejected:
  assumes "held_by l a u" and "b \<noteq> a" and "t1 \<le> u" and "t2 \<le> u"
  shows "\<exists>c. handle_lock_call call (t1, t2, t3) b l = (Inl (HTTPException c), l)"
proof -
  from assms have "is_locked t1 l = Some a" "is_locked t2 l = Some a" "a \<noteq> []"
    using held_by_mono [OF assms(1)] by (auto simp: held_by_is_locked)
  with assms(2) show ?thesis
    by (cases call) (simp_all add: lock_endpoint_def relock_endpoint_def unlock_endpoint_def)
qed

lemma deliver_other:
  assumes "held_by l a u" and "b \<noteq> a" and "delivery_within u d"
  shows "snd (deliver call b d l) = l \<and> fst (deliver call b d l) \<in> {NoAnswer, ErrorAnswer}"
proof (cases d)
  case (Delivered ts)
  obtain t1 t2 t3 where ts: "ts = (t1, t2, t3)" by (cases ts)
  then have "\<exists>c. handle_lock_call call (t1, t2, t3) b l = (Inl (HTTPException c), l)"
    using assms Delivered by (intro handle_other_rejected) auto
  then show ?thesis using Delivered ts by auto
next
  case (LostAnswer ts)
  obtain t1 t2 t3 where ts: "ts = (t1, t2, t3)" by (cases ts)
  then have "\<exists>c. handle_lock_call call (t1, t2, t3) b l = (Inl (HTTPException c), l)"
    using assms LostAnswer by (intro handle_other_rejected) auto
  then show ?thesis using LostAnswer ts by auto
qed simp

section \<open>Lemmas on the fold of the answers\<close>

lemma fold_lock_failure [simp]: "fold (lock_result_step call) as LockFailure = LockFailure"
proof (induction as)
  case (Cons a as)
  then show ?case by (cases a) simp_all
qed simp

lemma fold_lock_answers_gen:
  "fold (lock_result_step call) as rv = LockOk
     \<longleftrightarrow> rv = LockOk \<and> (\<forall>a \<in> set as. a = JsonAnswer (Some (expected_result call)))"
proof (induction as arbitrary: rv)
  case (Cons a as)
  then show ?case by (cases a) auto
qed simp

lemma fold_lock_answers_ok:
  "fold_lock_answers call as = LockOk \<longleftrightarrow> (\<forall>a \<in> set as. a = JsonAnswer (Some (expected_result call)))"
  by (simp add: fold_lock_answers_def fold_lock_answers_gen)

lemma fold_lock_answers_failure_gen:
  "rv \<noteq> LockFailure \<Longrightarrow> fold (lock_result_step call) as rv = LockFailure
     \<longleftrightarrow> (\<exists>a \<in> set as. a \<noteq> NoAnswer \<and> a \<noteq> JsonAnswer (Some (expected_result call)))"
proof (induction as arbitrary: rv)
  case (Cons a as)
  then show ?case by (cases a) auto
qed simp

text \<open>The fold of the node answers is the right summary: ok exactly when every node gave the
  expected answer, failure exactly when some node answered otherwise, and exception exactly when
  no node answered otherwise but some node did not answer.\<close>

theorem lock_answers_summary:
  "fold_lock_answers call as =
     (if \<exists>a \<in> set as. a \<noteq> NoAnswer \<and> a \<noteq> JsonAnswer (Some (expected_result call)) then LockFailure
      else if NoAnswer \<in> set as then LockExc else LockOk)"
proof -
  have "fold_lock_answers call as = LockFailure
      \<longleftrightarrow> (\<exists>a \<in> set as. a \<noteq> NoAnswer \<and> a \<noteq> JsonAnswer (Some (expected_result call)))"
    by (simp add: fold_lock_answers_def fold_lock_answers_failure_gen)
  moreover have "fold_lock_answers call as = LockOk
      \<longleftrightarrow> (\<forall>a \<in> set as. a = JsonAnswer (Some (expected_result call)))"
    by (rule fold_lock_answers_ok)
  ultimately show ?thesis
    by (cases "fold_lock_answers call as") (auto split: if_splits)
qed

section \<open>Mutual exclusion\<close>

lemma lock_endpoint_grant:
  "deliver (LockCall ttl) a d l = (JsonAnswer (Some True), l') \<Longrightarrow>
     \<exists>t1 t2 t3. d = Delivered (t1, t2, t3) \<and> \<not> truthy_locker (is_locked t1 l)
       \<and> l' = state_lock t2 a ttl"
  by (cases d) (auto simp: lock_endpoint_def split: prod.splits sum.splits if_splits)

text \<open>The time until which a granted lock call holds a node.\<close>

fun grant_until :: "int \<Rightarrow> delivery \<Rightarrow> real" where
  "grant_until ttl (Delivered (t1, t2, t3)) = t2 + real_of_int ttl"
| "grant_until ttl _ = 0"

lemma request_call_length:
  "length ds = length ns \<Longrightarrow> length (snd (request_lock_call_from_nodes call a ds ns)) = length ns"
  by (simp add: request_lock_call_from_nodes_def Let_def)

lemma request_call_nth:
  "\<lbrakk>length ds = length ns; i < length ns\<rbrakk> \<Longrightarrow>
     snd (request_lock_call_from_nodes call a ds ns) ! i = snd (deliver call a (ds ! i) (ns ! i))"
  by (simp add: request_lock_call_from_nodes_def Let_def)

lemma request_call_ok_nth:
  assumes "length ds = length ns" and "fst (request_lock_call_from_nodes call a ds ns) = LockOk" and "i < length ns"
  shows "fst (deliver call a (ds ! i) (ns ! i)) = JsonAnswer (Some (expected_result call))"
proof -
  have "fst (map2 (deliver call a) ds ns ! i) \<in> set (map fst (map2 (deliver call a) ds ns))"
    using assms by (metis length_map length_zip min.idem nth_map nth_mem)
  with assms show ?thesis
    by (auto simp: request_lock_call_from_nodes_def Let_def fold_lock_answers_ok)
qed

lemma request_lock_ok_holds:
  assumes "length ds = length ns" and "request_lock a ttl ds ns = (LockOk, ns1)" and "a \<noteq> []"
    and "i < length ns" and "u \<le> grant_until ttl (ds ! i)"
  shows "held_by (ns1 ! i) a u"
proof -
  from assms have "fst (deliver (LockCall ttl) a (ds ! i) (ns ! i)) = JsonAnswer (Some True)"
    using request_call_ok_nth [of ds ns "LockCall ttl" a i] by (simp add: request_lock_def)
  moreover have "snd (deliver (LockCall ttl) a (ds ! i) (ns ! i)) = ns1 ! i"
    using assms request_call_nth [of ds ns i "LockCall ttl" a] by (simp add: request_lock_def)
  ultimately have "deliver (LockCall ttl) a (ds ! i) (ns ! i) = (JsonAnswer (Some True), ns1 ! i)"
    by (metis prod.collapse)
  from lock_endpoint_grant [OF this] assms show ?thesis
    by (auto simp: held_by_def state_lock_def)
qed

text \<open>Any number of lock calls (lock, relock, unlock), each with its own fate on every node.\<close>

fun other_calls :: "(lock_call \<times> string \<times> delivery list) list \<Rightarrow> node_lock list \<Rightarrow> node_lock list" where
  "other_calls [] ns = ns"
| "other_calls ((call, b, ds) # cs) ns = other_calls cs (snd (request_lock_call_from_nodes call b ds ns))"

definition held_all :: "node_lock list \<Rightarrow> string \<Rightarrow> real \<Rightarrow> bool" where
  "held_all ns a u \<longleftrightarrow> (\<forall>l \<in> set ns. held_by l a u)"

lemma request_other_unchanged:
  assumes "held_all ns a u" and "b \<noteq> a" and "length ds = length ns" and "\<forall>d \<in> set ds. delivery_within u d"
  shows "snd (request_lock_call_from_nodes call b ds ns) = ns"
proof (rule nth_equalityI)
  fix i assume "i < length (snd (request_lock_call_from_nodes call b ds ns))"
  then have i: "i < length ns" using assms(3) by (simp add: request_call_length)
  then have "snd (deliver call b (ds ! i) (ns ! i)) = ns ! i"
    using assms deliver_other [of "ns ! i" a u b "ds ! i" call] by (auto simp: held_all_def)
  with i assms(3) show "snd (request_lock_call_from_nodes call b ds ns) ! i = ns ! i"
    by (simp add: request_call_nth)
qed (simp add: assms request_call_length)

lemma request_other_not_ok:
  assumes "held_all ns a u" and "b \<noteq> a" and "length ds = length ns" and "\<forall>d \<in> set ds. delivery_within u d"
    and "ns \<noteq> []"
  shows "fst (request_lock_call_from_nodes call b ds ns) \<noteq> LockOk"
proof
  assume ok: "fst (request_lock_call_from_nodes call b ds ns) = LockOk"
  from assms have "0 < length ns" by simp
  from request_call_ok_nth [OF assms(3) ok this] assms show False
    using deliver_other [of "ns ! 0" a u b "ds ! 0" call] by (auto simp: held_all_def)
qed

lemma other_calls_unchanged:
  assumes "held_all ns a u" and "\<forall>(call, b, ds) \<in> set cs. b \<noteq> a \<and> length ds = length ns \<and> (\<forall>d \<in> set ds. delivery_within u d)"
  shows "other_calls cs ns = ns"
  using assms
proof (induction cs)
  case (Cons c cs)
  obtain call b ds where c: "c = (call, b, ds)" by (cases c)
  with Cons.prems have "snd (request_lock_call_from_nodes call b ds ns) = ns"
    by (intro request_other_unchanged) auto
  with Cons c show ?case by simp
qed simp

text \<open>C17. Mutual exclusion of the cluster lock. Once a lock call by a non-empty locker has returned ok
  on a non-empty cluster, then up to the end of the granted time on every node, no sequence of lock,
  relock or unlock calls by other lockers, with whatever losses of requests and answers, changes any
  node's lock, and none of their lock calls returns ok.\<close>

theorem cluster_lock_exclusive:
  assumes "length ds = length ns" and "ns \<noteq> []" and "a \<noteq> []"
    and "request_lock a ttl ds ns = (LockOk, ns1)"
    and "\<forall>d \<in> set ds. u \<le> grant_until ttl d"
    and "\<forall>(call, b, ds') \<in> set cs. b \<noteq> a \<and> length ds' = length ns \<and> (\<forall>d \<in> set ds'. delivery_within u d)"
    and "b \<noteq> a" and "length ds'' = length ns" and "\<forall>d \<in> set ds''. delivery_within u d"
  shows "other_calls cs ns1 = ns1 \<and> fst (request_lock b ttl' ds'' (other_calls cs ns1)) \<noteq> LockOk"
proof -
  have len: "length ns1 = length ns"
    using assms(1,4) request_call_length [of ds ns "LockCall ttl" a] by (simp add: request_lock_def)
  have held: "held_all ns1 a u"
    unfolding held_all_def
  proof
    fix l assume "l \<in> set ns1"
    then obtain i where i: "i < length ns" "l = ns1 ! i" by (auto simp: in_set_conv_nth len)
    then have "u \<le> grant_until ttl (ds ! i)" using assms(1,5) by simp
    from request_lock_ok_holds [OF assms(1,4,3) i(1) this] i show "held_by l a u" by simp
  qed
  have same: "other_calls cs ns1 = ns1"
    using assms(6) by (intro other_calls_unchanged [OF held]) (auto simp: len)
  moreover have "fst (request_lock b ttl' ds'' ns1) \<noteq> LockOk"
    unfolding request_lock_def using assms len by (intro request_other_not_ok [OF held]) auto
  ultimately show ?thesis by simp
qed

theorem cluster_lock_exclusive_witness:
  "fst (request_lock ''b'' 60 [Delivered (8, 8, 8), Delivered (9, 9, 9)]
      (other_calls [(UnlockCall, ''b'', [Delivered (5, 5, 5), LostRequest])]
        (snd (request_lock ''a'' 60 [Delivered (1, 1, 1), Delivered (2, 2, 2)] [None, None])))) \<noteq> LockOk"
proof -
  let ?ds = "[Delivered (1, 1, 1), Delivered (2, 2, 2)]"
  have ok: "request_lock ''a'' 60 ?ds [None, None] =
      (LockOk, [state_lock 1 ''a'' 60, state_lock 2 ''a'' 60])"
    by (simp add: request_lock_def request_lock_call_from_nodes_def fold_lock_answers_def
          lock_endpoint_def is_locked_def)
  have "other_calls [(UnlockCall, ''b'', [Delivered (5, 5, 5), LostRequest])]
        [state_lock 1 ''a'' 60, state_lock 2 ''a'' 60] = [state_lock 1 ''a'' 60, state_lock 2 ''a'' 60]
    \<and> fst (request_lock ''b'' 60 [Delivered (8, 8, 8), Delivered (9, 9, 9)]
        (other_calls [(UnlockCall, ''b'', [Delivered (5, 5, 5), LostRequest])]
          [state_lock 1 ''a'' 60, state_lock 2 ''a'' 60])) \<noteq> LockOk"
    by (rule cluster_lock_exclusive [OF _ _ _ ok, where u = 60]) simp_all
  then show ?thesis unfolding ok snd_conv by (rule conjunct2)
qed


section \<open>Roll-back, relock and unlock\<close>

lemma unlock_releases:
  assumes "t1 \<le> t2" and "t2 \<le> t"
  shows "\<not> held_by (snd (unlock_endpoint t1 t2 a l)) a t"
  using assms
  by (auto simp: unlock_endpoint_def held_by_def is_locked_def state_unlock_def split: option.splits if_splits)

lemma request_unlock_releases:
  assumes "length ds = length ns" and "\<forall>d \<in> set ds. \<exists>t1 t2 t3. d = Delivered (t1, t2, t3) \<and> t1 \<le> t2 \<and> t2 \<le> t"
  shows "\<forall>l \<in> set (snd (request_unlock a ds ns)). \<not> held_by l a t"
proof -
  let ?ns = "snd (request_unlock a ds ns)"
  have "\<not> held_by (?ns ! i) a t" if i: "i < length ns" for i
  proof -
    from i assms(1) have "ds ! i \<in> set ds" by simp
    then obtain t1 t2 t3 where d: "ds ! i = Delivered (t1, t2, t3)" "t1 \<le> t2" "t2 \<le> t"
      using assms(2) by blast
    have "?ns ! i = snd (unlock_endpoint t1 t2 a (ns ! i))"
      using d(1) request_call_nth [OF assms(1) i, of UnlockCall a]
      by (simp add: request_unlock_def split: prod.splits sum.splits)
    with unlock_releases [OF d(2,3)] show ?thesis by simp
  qed
  then show ?thesis
    using request_call_length [OF assms(1), of UnlockCall a]
    by (auto simp: request_unlock_def in_set_conv_nth)
qed

text \<open>C18. A failed acquisition leaves no partial lock: when \<^verbatim>\<open>acquire_cluster_lock\<close> raises, it raises
  HTTP 409, and if its unlock requests reached the nodes, then from that time on the locker holds no
  node of the cluster.\<close>

theorem failed_acquire_no_partial_lock:
  assumes "length ds = length ns" and "length ds' = length ns"
    and "acquire_cluster_lock a ttl ds ds' ns = (Inl e, ns2)"
    and "\<forall>d \<in> set ds'. \<exists>t1 t2 t3. d = Delivered (t1, t2, t3) \<and> t1 \<le> t2 \<and> t2 \<le> t"
  shows "e = HTTPException 409 \<and> (\<forall>l \<in> set ns2. \<not> held_by l a t)"
proof -
  obtain r ns1 where r: "request_lock a ttl ds ns = (r, ns1)" by (cases "request_lock a ttl ds ns")
  with assms(3) have e: "e = HTTPException 409" and ns2: "ns2 = snd (request_unlock a ds' ns1)"
    by (cases r; simp add: acquire_cluster_lock_def)+
  have len1: "length ds' = length ns1"
    using assms r request_call_length [of ds ns "LockCall ttl" a] by (simp add: request_lock_def)
  show ?thesis using e request_unlock_releases [OF len1 assms(4), of a] by (simp add: ns2)
qed

theorem failed_acquire_no_partial_lock_witness:
  "acquire_cluster_lock ''a'' 60 [Delivered (1, 1, 1), LostAnswer (1, 1, 1)]
      [Delivered (2, 2, 2), Delivered (2, 3, 3)] [None, None] = (Inl (HTTPException 409), [None, None])
   \<and> \<not> held_by None ''a'' 3"
proof -
  have acq: "acquire_cluster_lock ''a'' 60 [Delivered (1, 1, 1), LostAnswer (1, 1, 1)]
      [Delivered (2, 2, 2), Delivered (2, 3, 3)] [None, None] = (Inl (HTTPException 409), [None, None])"
    by (simp add: acquire_cluster_lock_def request_lock_def request_unlock_def
        request_lock_call_from_nodes_def fold_lock_answers_def lock_endpoint_def unlock_endpoint_def
        is_locked_def state_lock_def state_unlock_def)
  have "HTTPException 409 = HTTPException 409 \<and> (\<forall>l \<in> set [None, None :: node_lock]. \<not> held_by l ''a'' 3)"
    by (rule failed_acquire_no_partial_lock [OF _ _ acq]) auto
  with acq show ?thesis by simp
qed

text \<open>The relock loop cancels the operation in time: as long as relocking only meets exceptions
  (the loop's retries), the first turn that starts after the end of life of the lock cancels the
  main task, and a turn whose relock is refused cancels it at once.\<close>

theorem relock_loop_cancels:
  assumes "\<forall>(t, sleeps, r) \<in> set turns. r \<noteq> LockOk \<and> sleep_until next_lock t sleeps \<noteq> None"
    and "\<exists>(t, sleeps, r) \<in> set turns. t > lock_eol \<or> r = LockFailure"
  shows "node_relock_loop ttl lock_eol next_lock turns = MainCancelled"
  using assms
proof (induction turns)
  case (Cons turn turns)
  obtain t sleeps r where turn: "turn = (t, sleeps, r)" by (cases turn)
  with Cons.prems(1) obtain t' where "sleep_until next_lock t sleeps = Some t'" by auto
  with Cons turn show ?case by (cases r) auto
qed simp

theorem relock_loop_cancels_witness:
  "node_relock_loop 600 600 300 [(0, [300], LockExc), (360, [], LockExc), (601, [], LockExc)] = MainCancelled"
  by (rule relock_loop_cancels) simp_all

text \<open>After a successful relock the end of life is the time before the request plus the ttl, which
  is not after the time until which the node itself holds the lock.\<close>

lemma relock_extends:
  "\<lbrakk>relock_endpoint t1 t2 t3 a ttl l = (Inr True, l'); t' \<le> t3; a \<noteq> []\<rbrakk> \<Longrightarrow> held_by l' a (t' + real_of_int ttl)"
  by (auto simp: relock_endpoint_def held_by_def state_lock_def split: if_splits)

text \<open>The still-locked callback is one-way: if it answers yes at its \<open>k\<close>-th call, then at every
  call up to that one the node was locked by the original locker; so after the first miss it never
  answers yes again, even if the same locker locks the node anew.\<close>

theorem still_locked_sticky:
  assumes "k < length cs" and "still_locked_calls a True cs ! k"
  shows "\<forall>j \<le> k. is_locked (fst (cs ! j)) (snd (cs ! j)) = Some a"
proof -
  have no: "\<not> still_locked_calls a False cs ! k" if "k < length cs" for k cs
    using that
    by (induction cs arbitrary: k) (auto simp: still_locked_def nth_Cons split: prod.splits nat.splits)
  show ?thesis
    using assms
  proof (induction cs arbitrary: k)
    case (Cons c cs)
    obtain now l where c: "c = (now, l)" by (cases c)
    show ?case
    proof (cases "is_locked now l = Some a")
      case True
      with Cons c show ?thesis
        by (cases k) (auto simp: still_locked_def nth_Cons split: nat.splits)
    next
      case False
      with Cons.prems c no have False
        by (cases k) (auto simp: still_locked_def)
      then show ?thesis ..
    qed
  qed simp
qed

theorem still_locked_sticky_witness:
  "still_locked_calls ''a'' True [(1, state_lock 0 ''a'' 60), (2, state_lock 0 ''a'' 60), (3, None)]
      = [True, True, False]
   \<and> is_locked 1 (state_lock 0 ''a'' 60) = Some ''a''"
proof -
  let ?cs = "[(1 :: real, state_lock 0 ''a'' 60), (2, state_lock 0 ''a'' 60), (3, None)]"
  have calls: "still_locked_calls ''a'' True ?cs = [True, True, False]"
    by (simp add: still_locked_def is_locked_def state_lock_def)
  then have "\<forall>j \<le> 1. is_locked (fst (?cs ! j)) (snd (?cs ! j)) = Some ''a''"
    by (intro still_locked_sticky) simp_all
  from spec [OF this, of 0] calls show ?thesis by simp
qed

text \<open>The coordinator's unlock endpoint does not unlock: \<^verbatim>\<open>LockOps.unlock\<close> never awaits the unlock
  request, so no node is asked, and the operation always ends with status fail.\<close>

theorem lockops_unlock_never_unlocks:
  assumes "i \<noteq> 0" and "oi_op_id info = i"
  shows "async_wrapper (lift_status i) (lockops_unlock i locker) (ns, info)
    = (Inr (), (ns, info\<lparr>oi_op_status := Some (Member StFail)\<rparr>))"
proof -
  have not_done: "set_status i StDone (Some StRunning) (info\<lparr>oi_op_status := Some (Member StFail)\<rparr>)
      = (Inr False, info\<lparr>oi_op_status := Some (Member StFail)\<rparr>)"
    using assms by (simp add: set_status_done_not_running)
  show ?thesis
    using assms not_done
    by (simp add: async_wrapper_def run_op_body_def lift_status_def lockops_unlock_def
        set_status_fail_def set_status_current)
qed

theorem lockops_unlock_never_unlocks_witness:
  "fst (snd (async_wrapper (lift_status 3) (lockops_unlock 3 ''a'')
      ([state_lock 0 ''a'' 60], make_op_info 3 ''unlock'' (Some StStarting)))) = [state_lock 0 ''a'' 60]"
  using lockops_unlock_never_unlocks [of 3 "make_op_info 3 ''unlock'' (Some StStarting)" "''a''" "[state_lock 0 ''a'' 60]"]
  by (simp add: make_op_info_def)

text \<open>An empty locker name breaks the exclusion: the lock call is answered with a positive
  \<^verbatim>\<open>locked\<close>, but the next locker gets the node too.\<close>

lemma empty_locker_not_exclusive:
  "request_lock [] 60 [Delivered (1, 1, 1)] [None] = (LockOk, [state_lock 1 [] 60])
   \<and> fst (request_lock ''b'' 60 [Delivered (2, 2, 2)] [state_lock 1 [] 60]) = LockOk"
  by (simp add: request_lock_def request_lock_call_from_nodes_def fold_lock_answers_def
      lock_endpoint_def is_locked_def state_lock_def)

end
