(* ===== verification/Ipc.thy ===== *)
theory Ipc
  imports Progress_Meter
begin

text \<open>
  The messages and manifests of \<^verbatim>\<open>astacus/common/ipc.py\<close> (with \<^verbatim>\<open>astacus/common/snapshot.py\<close> and the node
  entry of \<^verbatim>\<open>astacus/coordinator/config.py\<close>), and the translation of a snapshot request into groups on
  the receiving node (\<^verbatim>\<open>groups_from_snapshot_req\<close> of \<^verbatim>\<open>astacus/node/api.py\<close>). Instants are integers in
  microseconds. JSON encoding and decoding is \<^verbatim>\<open>msgspec\<close>'s and is not modelled here.
\<close>

section \<open>JSON values\<close>

datatype json = JNull | JBool bool | JInt int | JStr string | JList "json list" | JDict "(string \<times> json) list"

section \<open>Enumerations\<close>

datatype plugin = PCassandra | PClickhouse | PFiles | PM3db | PFlink

datatype node_feature = FValidateFileHashes | FSnapshotGroups | FReleaseSnapshotFiles

fun feature_value :: "node_feature \<Rightarrow> string" where
  "feature_value FValidateFileHashes = ''validate_file_hashes''"
| "feature_value FSnapshotGroups = ''snapshot_groups''"
| "feature_value FReleaseSnapshotFiles = ''release_snapshot_files''"

section \<open>Retention\<close>

record retention =
  rt_minimum_backups :: "int option"
  rt_maximum_backups :: "int option"
  rt_keep_days :: "int option"

section \<open>Snapshots\<close>

definition default_embedded_file_size :: int where
  "default_embedded_file_size = 200"

record snapshot_group =
  sg_root_glob :: string
  sg_excluded_names :: "string list"
  sg_embedded_file_size_max :: "int option"

definition make_snapshot_group :: "string \<Rightarrow> snapshot_group" where
  "make_snapshot_group g = \<lparr>sg_root_glob = g, sg_excluded_names = [],
     sg_embedded_file_size_max = Some default_embedded_file_size\<rparr>"

definition without_excluded_names :: "snapshot_group \<Rightarrow> snapshot_group" where
  "without_excluded_names g = g\<lparr>sg_excluded_names := []\<rparr>"

record snapshot_file =
  sf_relative_path :: string
  sf_file_size :: int
  sf_mtime_ns :: int
  sf_hexdigest :: string
  sf_content_b64 :: "string option"

definition snapshot_file_lt :: "snapshot_file \<Rightarrow> snapshot_file \<Rightarrow> bool" where
  "snapshot_file_lt f g \<longleftrightarrow> sf_relative_path f < sf_relative_path g"

definition underlying_file_is_the_same :: "snapshot_file \<Rightarrow> snapshot_file \<Rightarrow> bool" where
  "underlying_file_is_the_same f g \<longleftrightarrow> sf_mtime_ns f = sf_mtime_ns g
     \<and> sf_relative_path f = sf_relative_path g \<and> sf_file_size f = sf_file_size g"

definition equals_excluding_mtime :: "snapshot_file \<Rightarrow> snapshot_file \<Rightarrow> bool" where
  "equals_excluding_mtime f g \<longleftrightarrow>
     (sf_relative_path f, sf_file_size f, sf_hexdigest f, sf_content_b64 f)
     = (sf_relative_path g, sf_file_size g, sf_hexdigest g, sf_content_b64 g)"

record snapshot_state =
  ss_root_globs :: "string list"
  ss_files :: "snapshot_file list"

record snapshot_hash =
  sh_hexdigest :: string
  sh_size :: int

section \<open>Requests\<close>

text \<open>A snapshot request of either version; the version 2 groups carry the same three fields as
  \<^verbatim>\<open>SnapshotGroup\<close>.\<close>

datatype snapshot_request =
    SnapshotRequest (v1_root_globs: "string list")
  | SnapshotRequestV2 (v2_groups: "snapshot_group list") (v2_root_globs: "string list")

definition create_snapshot_request :: "snapshot_group list \<Rightarrow> string set \<Rightarrow> snapshot_request" where
  "create_snapshot_request groups features =
     (if feature_value FSnapshotGroups \<in> features
      then SnapshotRequestV2 (map (\<lambda>g. \<lparr>sg_root_glob = sg_root_glob g,
             sg_excluded_names = sg_excluded_names g,
             sg_embedded_file_size_max = sg_embedded_file_size_max g\<rparr>) groups) []
      else SnapshotRequest (map sg_root_glob groups))"

text \<open>The requests that reach \<^verbatim>\<open>groups_from_snapshot_req\<close>; download and clear requests carry root
  globs only. The comprehension that adds the version 2 groups compares with the groups made from
  the root globs, not with those it adds itself.\<close>

datatype snapshot_req = ReqV2 "snapshot_group list" "string list" | ReqGlobs "string list"

fun groups_from_snapshot_req :: "snapshot_req \<Rightarrow> snapshot_group list" where
  "groups_from_snapshot_req (ReqGlobs globs) = map make_snapshot_group globs"
| "groups_from_snapshot_req (ReqV2 groups globs) =
     (let existing = map make_snapshot_group globs
      in existing @ filter (\<lambda>g. \<not> (\<exists>e \<in> set existing. sg_root_glob e = sg_root_glob g)) groups)"

fun received_request :: "snapshot_request \<Rightarrow> snapshot_req" where
  "received_request (SnapshotRequest globs) = ReqGlobs globs"
| "received_request (SnapshotRequestV2 groups globs) = ReqV2 groups globs"

record upload_request =
  uq_hashes :: "snapshot_hash list"
  uq_storage :: string
  uq_validate_file_hashes :: "bool option"

record download_request =
  dq_storage :: string
  dq_backup_name :: string
  dq_snapshot_index :: int
  dq_root_globs :: "string list"

record partial_restore_node =
  pn_backup_index :: "int option"
  pn_backup_hostname :: "string option"
  pn_node_index :: "int option"
  pn_node_url :: "string option"

definition partial_restore_node_post_init :: "partial_restore_node \<Rightarrow> unit result" where
  "partial_restore_node_post_init n =
     (if (pn_backup_index n = None) = (pn_backup_hostname n = None) then Inl ValueError
      else if (pn_node_index n = None) = (pn_node_url n = None) then Inl ValueError
      else Inr ())"

section \<open>Results\<close>

record node_result =
  nr_hostname :: string
  nr_az :: string
  nr_progress :: progress

record snapshot_result = node_result +
  sr_start :: int
  sr_end :: "int option"
  sr_state :: "snapshot_state option"
  sr_files :: int
  sr_total_size :: int
  sr_hashes :: "snapshot_hash list option"

record upload_result = node_result +
  ur_total_size :: int
  ur_total_stored_size :: int

section \<open>Manifests\<close>

record backup_manifest =
  bm_start :: int
  bm_end :: int
  bm_attempt :: int
  bm_snapshot_results :: "snapshot_result list"
  bm_upload_results :: "upload_result list"
  bm_plugin :: plugin
  bm_plugin_data :: json
  bm_filename :: string

record manifest_min =
  mm_start :: int
  mm_end :: int
  mm_filename :: string

definition from_manifest :: "backup_manifest \<Rightarrow> manifest_min" where
  "from_manifest m = \<lparr>mm_start = bm_start m, mm_end = bm_end m, mm_filename = bm_filename m\<rparr>"

record coordinator_node =
  cn_url :: string
  cn_az :: string

section \<open>Properties\<close>

lemma equals_excluding_mtime_equiv:
  "equivp equals_excluding_mtime"
  by (rule equivpI) (auto simp: equals_excluding_mtime_def reflp_def symp_def transp_def)

lemma map_make_group_globs [simp]: "map (sg_root_glob \<circ> make_snapshot_group) gs = gs"
  by (induction gs) (auto simp: make_snapshot_group_def)

text \<open>A snapshot request survives the trip to a node that supports groups: the groups the node
  derives from the request the coordinator created are exactly the groups asked for, with their
  options. For older nodes the globs survive and every other option falls back to its default.\<close>

theorem snapshot_request_roundtrip:
  "groups_from_snapshot_req (received_request (create_snapshot_request groups features)) =
     (if feature_value FSnapshotGroups \<in> features then groups
      else map (\<lambda>g. make_snapshot_group (sg_root_glob g)) groups)"
proof -
  have "map (\<lambda>g. \<lparr>sg_root_glob = sg_root_glob g, sg_excluded_names = sg_excluded_names g,
      sg_embedded_file_size_max = sg_embedded_file_size_max g\<rparr>) groups = groups"
    by (rule map_idI) simp
  then show ?thesis
    by (simp add: create_snapshot_request_def Let_def o_def)
qed

end
