(* ===== verification/Node_Map.thy ===== *)
theory Node_Map
  imports Ipc
begin

text \<open>
  The assignment of backed-up nodes to the nodes of the cluster before a restore
  (\<^verbatim>\<open>get_node_to_backup_index\<close> and its two helpers in \<^verbatim>\<open>astacus/coordinator/plugins/base.py\<close>): by
  availability zone for a full restore, by explicit request for a partial one. The loops are folds
  and recursive functions over the same lists in the same order.
\<close>

section \<open>Definitions\<close>

text \<open>The innermost loop: the first node of the zone that has no backup yet takes backup \<open>b\<close>.\<close>

fun assign_node :: "string \<Rightarrow> coordinator_node list \<Rightarrow> nat \<Rightarrow> nat option list \<Rightarrow> nat option list" where
  "assign_node node_az (n # ns) b (m # ms) =
     (if cn_az n \<noteq> node_az \<or> m \<noteq> None then m # assign_node node_az ns b ms else Some b # ms)"
| "assign_node node_az _ b ms = ms"

definition assign_az ::
  "string \<Rightarrow> string \<Rightarrow> (nat \<times> snapshot_result) list \<Rightarrow> coordinator_node list \<Rightarrow> nat option list \<Rightarrow> nat option list" where
  "assign_az backup_az node_az results nodes =
     fold (\<lambda>(b, r) ms. if nr_az r \<noteq> backup_az then ms else assign_node node_az nodes b ms) results"

fun assign_azs ::
  "((string \<times> nat) \<times> (string \<times> nat)) list \<Rightarrow> (nat \<times> snapshot_result) list \<Rightarrow> coordinator_node list
     \<Rightarrow> nat option list \<Rightarrow> nat option list result" where
  "assign_azs [] results nodes ms = Inr ms"
| "assign_azs (((backup_az, backup_n), (node_az, node_n)) # ps) results nodes ms =
     (if backup_n > node_n then Inl InsufficientNodesException
      else assign_azs ps results nodes (assign_az backup_az node_az results nodes ms))"

definition get_node_to_backup_index_from_azs ::
  "snapshot_result list \<Rightarrow> coordinator_node list \<Rightarrow> (string \<times> nat) list \<Rightarrow> (string \<times> nat) list
     \<Rightarrow> nat option list result" where
  "get_node_to_backup_index_from_azs results nodes azs_in_backup azs_in_nodes =
     assign_azs (zip (most_common azs_in_backup) (most_common azs_in_nodes)) (enumerate0 results) nodes
       (replicate (length nodes) None)"

text \<open>The partial restore. The two dictionaries are built by enumeration, so the last occurrence of a
  url or hostname wins.\<close>

definition index_dict :: "string list \<Rightarrow> (string \<times> nat) list" where
  "index_dict keys = fold (\<lambda>(i, k) d. dict_set k i d) (enumerate0 keys) []"

definition resolve_node_index :: "(string \<times> nat) list \<Rightarrow> nat \<Rightarrow> partial_restore_node \<Rightarrow> nat result" where
  "resolve_node_index url_to_node_index num_nodes req =
     (case pn_node_index req of
        Some i \<Rightarrow> if i < 0 \<or> i \<ge> int num_nodes then Inl NotFoundException else Inr (nat i)
      | None \<Rightarrow> (case Option.bind (pn_node_url req) (dict_get url_to_node_index) of
          None \<Rightarrow> Inl NotFoundException | Some i \<Rightarrow> Inr i))"

definition resolve_backup_index :: "(string \<times> nat) list \<Rightarrow> nat \<Rightarrow> partial_restore_node \<Rightarrow> nat result" where
  "resolve_backup_index hostname_to_backup_index num_backup_nodes req =
     (case pn_backup_index req of
        Some i \<Rightarrow> if i < 0 \<or> i \<ge> int num_backup_nodes then Inl NotFoundException else Inr (nat i)
      | None \<Rightarrow> (case Option.bind (pn_backup_hostname req) (dict_get hostname_to_backup_index) of
          None \<Rightarrow> Inl NotFoundException | Some i \<Rightarrow> Inr i))"

fun assign_partial ::
  "(string \<times> nat) list \<Rightarrow> (string \<times> nat) list \<Rightarrow> nat \<Rightarrow> nat \<Rightarrow> partial_restore_node list
     \<Rightarrow> nat option list \<Rightarrow> nat option list result" where
  "assign_partial urls hosts n nb [] ms = Inr ms"
| "assign_partial urls hosts n nb (req # reqs) ms =
     (case resolve_node_index urls n req of
        Inl e \<Rightarrow> Inl e
      | Inr i \<Rightarrow> (case resolve_backup_index hosts nb req of
          Inl e \<Rightarrow> Inl e
        | Inr b \<Rightarrow> assign_partial urls hosts n nb reqs (ms[i := Some b])))"

definition get_node_to_backup_index_from_partial_restore_nodes ::
  "partial_restore_node list \<Rightarrow> snapshot_result list \<Rightarrow> coordinator_node list \<Rightarrow> nat option list result" where
  "get_node_to_backup_index_from_partial_restore_nodes reqs results nodes =
     assign_partial (index_dict (map cn_url nodes)) (index_dict (map nr_hostname results))
       (length nodes) (length results) reqs (replicate (length nodes) None)"

definition get_node_to_backup_index ::
  "partial_restore_node list option \<Rightarrow> snapshot_result list \<Rightarrow> coordinator_node list \<Rightarrow> nat option list result" where
  "get_node_to_backup_index partial results nodes =
     (case partial of
        Some (r # rs) \<Rightarrow> get_node_to_backup_index_from_partial_restore_nodes (r # rs) results nodes
      | _ \<Rightarrow>
        if length nodes < length results then Inl InsufficientNodesException
        else let azs_in_backup = counter (map nr_az results);
                 azs_in_nodes = counter (map cn_az nodes)
             in if length azs_in_backup > length azs_in_nodes then Inl InsufficientAZsException
                else get_node_to_backup_index_from_azs results nodes azs_in_backup azs_in_nodes)"

section \<open>The innermost loop\<close>

text \<open>The number of nodes of a zone that have no backup yet.\<close>

definition free_nodes :: "string \<Rightarrow> coordinator_node list \<Rightarrow> nat option list \<Rightarrow> nat" where
  "free_nodes az nodes ms = length (filter (\<lambda>(n, m). cn_az n = az \<and> m = None) (zip nodes ms))"

lemma assign_node_update:
  assumes "length ms = length nodes" and "free_nodes az nodes ms > 0"
  shows "\<exists>j < length nodes. cn_az (nodes ! j) = az \<and> ms ! j = None \<and> assign_node az nodes b ms = ms[j := Some b]"
  using assms
proof (induction nodes ms rule: list_induct2')
  case (4 n nodes m ms)
  show ?case
  proof (cases "cn_az n = az \<and> m = None")
    case True
    then show ?thesis by (intro exI [of _ 0]) simp
  next
    case False
    with 4 obtain j where "j < length nodes" "cn_az (nodes ! j) = az" "ms ! j = None"
        "assign_node az nodes b ms = ms[j := Some b]"
      by (auto simp: free_nodes_def)
    with False show ?thesis by (intro exI [of _ "Suc j"]) auto
  qed
qed (simp_all add: free_nodes_def)

lemma free_nodes_update:
  assumes "length ms = length nodes" and "j < length nodes" and "ms ! j = None"
  shows "free_nodes az nodes ms = free_nodes az nodes (ms[j := Some b]) + (if cn_az (nodes ! j) = az then 1 else 0)"
  using assms
proof (induction nodes ms arbitrary: j rule: list_induct2')
  case (4 n nodes m ms)
  then show ?case
    by (cases j) (auto simp: free_nodes_def)
qed simp_all

lemma count_list_update:
  assumes "j < length ms" and "ms ! j = None"
  shows "count_list (ms[j := Some b]) (Some i) = count_list ms (Some i) + (if i = b then 1 else 0)"
  using assms
proof (induction ms arbitrary: j)
  case (Cons m ms)
  then show ?case by (cases j) auto
qed simp

section \<open>One zone\<close>

lemma assign_az_correct:
  assumes "length ms = length nodes"
    and "length (filter (\<lambda>(b, r). nr_az r = baz) xs) \<le> free_nodes naz nodes ms"
  shows "length (assign_az baz naz xs nodes ms) = length nodes
    \<and> (\<forall>i. count_list (assign_az baz naz xs nodes ms) (Some i)
           = count_list ms (Some i) + count_list (map fst (filter (\<lambda>(b, r). nr_az r = baz) xs)) i)
    \<and> (\<forall>az. az \<noteq> naz \<longrightarrow> free_nodes az nodes (assign_az baz naz xs nodes ms) = free_nodes az nodes ms)
    \<and> (\<forall>j < length nodes. assign_az baz naz xs nodes ms ! j = ms ! j
          \<or> (cn_az (nodes ! j) = naz \<and>
             (\<exists>b r. (b, r) \<in> set xs \<and> nr_az r = baz \<and> assign_az baz naz xs nodes ms ! j = Some b)))"
  using assms
proof (induction xs arbitrary: ms)
  case Nil
  then show ?case by (simp add: assign_az_def)
next
  case (Cons x xs)
  obtain b r where x: "x = (b, r)" by (cases x)
  show ?case
  proof (cases "nr_az r = baz")
    case False
    then have "assign_az baz naz (x # xs) nodes ms = assign_az baz naz xs nodes ms"
      by (simp add: assign_az_def x)
    with Cons False x show ?thesis by fastforce
  next
    case True
    from Cons.prems True x have "free_nodes naz nodes ms > 0" by simp
    from assign_node_update [OF Cons.prems(1) this, of b]
    obtain j where j: "j < length nodes" "cn_az (nodes ! j) = naz" "ms ! j = None"
        "assign_node naz nodes b ms = ms[j := Some b]" by blast
    let ?ms = "ms[j := Some b]"
    have step: "assign_az baz naz (x # xs) nodes ms = assign_az baz naz xs nodes ?ms"
      using True j(4) by (simp add: assign_az_def x)
    have len: "length ?ms = length nodes" using Cons.prems by simp
    have "free_nodes naz nodes ms = free_nodes naz nodes ?ms + 1"
      using free_nodes_update [OF Cons.prems(1) j(1,3), of naz b] j(2) by simp
    with Cons.prems(2) True x have "length (filter (\<lambda>(b, r). nr_az r = baz) xs) \<le> free_nodes naz nodes ?ms"
      by simp
    note IH = Cons.IH [OF len this]
    have other: "free_nodes az nodes ?ms = free_nodes az nodes ms" if "az \<noteq> naz" for az
      using free_nodes_update [OF Cons.prems(1) j(1,3), of az b] j(2) that by simp
    have cnt: "count_list ?ms (Some i) = count_list ms (Some i) + (if i = b then 1 else 0)" for i
      using count_list_update [of j ms b i] j Cons.prems by simp
    have pos: "?ms ! k = ms ! k \<or> (cn_az (nodes ! k) = naz \<and> ?ms ! k = Some b)" if "k < length nodes" for k
      using j Cons.prems that by (cases "k = j") auto
    show ?thesis
      unfolding step
    proof (intro conjI allI impI)
      show "length (assign_az baz naz xs nodes ?ms) = length nodes" using IH by blast
    next
      fix i show "count_list (assign_az baz naz xs nodes ?ms) (Some i) = count_list ms (Some i)
          + count_list (map fst (filter (\<lambda>(b, r). nr_az r = baz) (x # xs))) i"
        using IH cnt True x by auto
    next
      fix az assume "az \<noteq> naz"
      then show "free_nodes az nodes (assign_az baz naz xs nodes ?ms) = free_nodes az nodes ms"
        using IH other by simp
    next
      fix k assume k: "k < length nodes"
      show "assign_az baz naz xs nodes ?ms ! k = ms ! k
          \<or> (cn_az (nodes ! k) = naz \<and>
             (\<exists>b r. (b, r) \<in> set (x # xs) \<and> nr_az r = baz \<and> assign_az baz naz xs nodes ?ms ! k = Some b))"
        using IH pos [OF k] k True x by fastforce
    qed
  qed
qed

section \<open>All zones\<close>

definition zone_pairs :: "snapshot_result list \<Rightarrow> coordinator_node list \<Rightarrow> ((string \<times> nat) \<times> (string \<times> nat)) list" where
  "zone_pairs results nodes = zip (most_common (counter (map nr_az results))) (most_common (counter (map cn_az nodes)))"

lemma assign_azs_correct:
  assumes "assign_azs ps xs nodes ms = Inr ms'" and "length ms = length nodes"
    and "distinct (map (fst \<circ> fst) ps)" and "distinct (map (fst \<circ> snd) ps)"
    and "\<And>baz bn naz nn. ((baz, bn), (naz, nn)) \<in> set ps \<Longrightarrow>
           bn = length (filter (\<lambda>(b, r). nr_az r = baz) xs) \<and> nn = free_nodes naz nodes ms"
  shows "length ms' = length nodes
    \<and> (\<forall>i. count_list ms' (Some i) = count_list ms (Some i)
           + count_list (map fst (filter (\<lambda>(b, r). nr_az r \<in> (fst \<circ> fst) ` set ps) xs)) i)
    \<and> (\<forall>j < length nodes. ms' ! j = ms ! j \<or>
         (\<exists>b r bn nn. (b, r) \<in> set xs \<and> ms' ! j = Some b \<and> ((nr_az r, bn), (cn_az (nodes ! j), nn)) \<in> set ps))"
  using assms
proof (induction ps arbitrary: ms)
  case Nil
  then show ?case by (simp add: filter_False split: prod.splits)
next
  case (Cons p ps)
  obtain baz bn naz nn where p: "p = ((baz, bn), (naz, nn))" by (metis surj_pair)
  let ?ms = "assign_az baz naz xs nodes ms"
  from Cons.prems(1) p have le: "bn \<le> nn" and rest: "assign_azs ps xs nodes ?ms = Inr ms'"
    by (auto split: if_splits)
  have "bn = length (filter (\<lambda>(b, r). nr_az r = baz) xs) \<and> nn = free_nodes naz nodes ms"
    using Cons.prems(5) [of baz bn naz nn] p by simp
  with le have "length (filter (\<lambda>(b, r). nr_az r = baz) xs) \<le> free_nodes naz nodes ms" by simp
  note az = assign_az_correct [OF Cons.prems(2) this]
  have fresh: "naz' \<noteq> naz" "baz' \<noteq> baz" if "((baz', bn'), (naz', nn')) \<in> set ps" for baz' bn' naz' nn'
    using that Cons.prems(3,4) p by force+
  have IH: "length ms' = length nodes
    \<and> (\<forall>i. count_list ms' (Some i) = count_list ?ms (Some i)
           + count_list (map fst (filter (\<lambda>(b, r). nr_az r \<in> (fst \<circ> fst) ` set ps) xs)) i)
    \<and> (\<forall>j < length nodes. ms' ! j = ?ms ! j \<or>
         (\<exists>b r bn nn. (b, r) \<in> set xs \<and> ms' ! j = Some b \<and> ((nr_az r, bn), (cn_az (nodes ! j), nn)) \<in> set ps))"
  proof (rule Cons.IH [OF rest])
    fix baz' bn' naz' nn'
    assume mem: "((baz', bn'), (naz', nn')) \<in> set ps"
    then show "bn' = length (filter (\<lambda>(b, r). nr_az r = baz') xs) \<and> nn' = free_nodes naz' nodes ?ms"
      using Cons.prems(5) [of baz' bn' naz' nn'] fresh [OF mem] az by simp
  qed (use az Cons.prems in auto)
  have disj: "baz \<notin> (fst \<circ> fst) ` set ps"
    using Cons.prems(3) p by simp
  have split_cnt: "count_list (map fst (filter (\<lambda>(b, r). nr_az r \<in> (fst \<circ> fst) ` set (p # ps)) ys)) i
      = count_list (map fst (filter (\<lambda>(b, r). nr_az r = baz) ys)) i
      + count_list (map fst (filter (\<lambda>(b, r). nr_az r \<in> (fst \<circ> fst) ` set ps) ys)) i" for i ys
    using disj by (induction ys) (auto simp: p)
  show ?case
  proof (intro conjI allI impI)
    show "length ms' = length nodes" using IH by blast
  next
    fix i
    show "count_list ms' (Some i) = count_list ms (Some i)
           + count_list (map fst (filter (\<lambda>(b, r). nr_az r \<in> (fst \<circ> fst) ` set (p # ps)) xs)) i"
      unfolding split_cnt using IH az by simp
  next
    fix j assume j: "j < length nodes"
    show "ms' ! j = ms ! j \<or> (\<exists>b r bn nn. (b, r) \<in> set xs \<and> ms' ! j = Some b
            \<and> ((nr_az r, bn), (cn_az (nodes ! j), nn)) \<in> set (p # ps))"
      using IH az j p by (metis list.set_intros(1) list.set_intros(2))
  qed
qed

lemma count_enumerate:
  "length (filter (\<lambda>(b, r). P r) (List.enumerate k xs)) = length (filter P xs)"
  by (induction xs arbitrary: k) auto

lemma count_list_enumerate:
  "count_list (map fst (filter (\<lambda>(b, r). P r) (List.enumerate k xs))) i
     = (if k \<le> i \<and> i < k + length xs \<and> P (xs ! (i - k)) then 1 else 0)"
proof (induction xs arbitrary: k)
  case (Cons x xs)
  show ?case
  proof (cases "i = k")
    case False
    then show ?thesis
      using Cons.IH [of "Suc k"] by (cases "k < i") (auto simp: nth_Cons' Suc_diff_Suc)
  qed (use Cons.IH [of "Suc k"] in auto)
qed simp

lemma count_list_map_filter: "count_list (map f xs) a = length (filter (\<lambda>x. f x = a) xs)"
  by (induction xs) auto

lemma free_nodes_initial: "free_nodes az nodes (replicate (length nodes) None) = count_list (map cn_az nodes) az"
  by (induction nodes) (auto simp: free_nodes_def)

lemma zone_pairs_counts:
  assumes "((baz, bn), (naz, nn)) \<in> set (zone_pairs results nodes)"
  shows "bn = length (filter (\<lambda>(b, r). nr_az r = baz) (enumerate0 results))
       \<and> nn = free_nodes naz nodes (replicate (length nodes) None)"
proof -
  from assms have "(baz, bn) \<in> set (counter (map nr_az results))" "(naz, nn) \<in> set (counter (map cn_az nodes))"
    by (auto simp: zone_pairs_def dest: set_zip_leftD set_zip_rightD)
  then show ?thesis
    by (simp add: set_counter count_enumerate [of "\<lambda>r. nr_az r = baz"] free_nodes_initial count_list_map_filter)
qed

lemma zone_pairs_distinct:
  "distinct (map (fst \<circ> fst) (zone_pairs results nodes))" "distinct (map (fst \<circ> snd) (zone_pairs results nodes))"
proof -
  have take: "map (f \<circ> fst) (zip xs ys) = take (length ys) (map f xs)"
    "map (f \<circ> snd) (zip xs ys) = take (length xs) (map f ys)" for f :: "string \<times> nat \<Rightarrow> string" and xs ys
    by (induction xs ys rule: list_induct2') auto
  show "distinct (map (fst \<circ> fst) (zone_pairs results nodes))" "distinct (map (fst \<circ> snd) (zone_pairs results nodes))"
    by (simp_all add: zone_pairs_def take distinct_take distinct_most_common distinct_counter)
qed

lemma zone_pairs_all:
  assumes "length (counter (map nr_az results)) \<le> length (counter (map cn_az nodes))"
  shows "(fst \<circ> fst) ` set (zone_pairs results nodes) = nr_az ` set results"
proof -
  have "fst ` set (zone_pairs results nodes) = set (counter (map nr_az results))"
    using assms map_fst_zip [of "most_common (counter (map nr_az results))" "most_common (counter (map cn_az nodes))"]
    by (metis length_most_common list.set_map map_fst_zip_take min.absorb_iff1 set_most_common take_all_iff
        zone_pairs_def order.refl)
  then show ?thesis
    by (metis image_comp keys_counter list.set_map)
qed

section \<open>The full restore\<close>

definition zone_map :: "snapshot_result list \<Rightarrow> coordinator_node list \<Rightarrow> string \<Rightarrow> string" where
  "zone_map results nodes az =
     (case map_of (map (\<lambda>((baz, bn), (naz, nn)). (baz, naz)) (zone_pairs results nodes)) az of
        Some naz \<Rightarrow> naz | None \<Rightarrow> [])"

lemma zone_map_pair:
  assumes "((baz, bn), (naz, nn)) \<in> set (zone_pairs results nodes)"
  shows "zone_map results nodes baz = naz"
proof -
  let ?ps = "map (\<lambda>((baz, bn), (naz, nn)). (baz, naz)) (zone_pairs results nodes)"
  have "map fst ?ps = map (fst \<circ> fst) (zone_pairs results nodes)" by (simp add: split_beta comp_def)
  then have "distinct (map fst ?ps)" using zone_pairs_distinct(1) [of results nodes] by metis
  moreover have "(baz, naz) \<in> set ?ps" using assms by force
  ultimately show ?thesis by (simp add: zone_map_def)
qed

lemma inj_zone_map: "inj_on (zone_map results nodes) ((fst \<circ> fst) ` set (zone_pairs results nodes))"
proof (rule inj_onI)
  fix x y
  assume "x \<in> (fst \<circ> fst) ` set (zone_pairs results nodes)" "y \<in> (fst \<circ> fst) ` set (zone_pairs results nodes)"
  then obtain bn naz nn bn' naz' nn' where
    x: "((x, bn), (naz, nn)) \<in> set (zone_pairs results nodes)" and
    y: "((y, bn'), (naz', nn')) \<in> set (zone_pairs results nodes)" by fastforce
  assume "zone_map results nodes x = zone_map results nodes y"
  then have "naz = naz'" using zone_map_pair [OF x] zone_map_pair [OF y] by simp
  moreover have "inj_on (fst \<circ> snd) (set (zone_pairs results nodes))"
    using zone_pairs_distinct(2) [of results nodes] by (simp add: distinct_map)
  ultimately have "((x, bn), (naz, nn)) = ((y, bn'), (naz', nn'))"
    using x y by (elim inj_onD) simp_all
  then show "x = y" by simp
qed

lemma full_restore_cases:
  assumes "get_node_to_backup_index None results nodes = Inr m"
  shows "length (counter (map nr_az results)) \<le> length (counter (map cn_az nodes))"
    and "assign_azs (zone_pairs results nodes) (enumerate0 results) nodes (replicate (length nodes) None) = Inr m"
  using assms by (auto simp: get_node_to_backup_index_def get_node_to_backup_index_from_azs_def zone_pairs_def
      Let_def split: if_splits)

lemma set_enumerate0: "(b, r) \<in> set (enumerate0 xs) \<longleftrightarrow> b < length xs \<and> r = xs ! b"
  by (auto simp: in_set_enumerate_eq)

lemma count_list_replicate_None: "count_list (replicate n None) (Some i) = 0"
  by (induction n) auto

lemma full_restore_mapping:
  assumes "get_node_to_backup_index None results nodes = Inr m"
  shows "length m = length nodes
    \<and> (\<forall>i. count_list m (Some i) = (if i < length results then 1 else 0))
    \<and> (\<exists>f. inj_on f (nr_az ` set results)
        \<and> (\<forall>j i. j < length nodes \<and> m ! j = Some i \<longrightarrow> cn_az (nodes ! j) = f (nr_az (results ! i))))"
proof -
  note ok = full_restore_cases [OF assms]
  have *: "length m = length nodes
    \<and> (\<forall>i. count_list m (Some i) = count_list (replicate (length nodes) None) (Some i)
           + count_list (map fst (filter (\<lambda>(b, r). nr_az r \<in> (fst \<circ> fst) ` set (zone_pairs results nodes)) (enumerate0 results))) i)
    \<and> (\<forall>j < length nodes. m ! j = replicate (length nodes) None ! j \<or>
         (\<exists>b r bn nn. (b, r) \<in> set (enumerate0 results) \<and> m ! j = Some b
            \<and> ((nr_az r, bn), (cn_az (nodes ! j), nn)) \<in> set (zone_pairs results nodes)))"
    by (rule assign_azs_correct [OF ok(2)]) (auto simp: zone_pairs_distinct dest: zone_pairs_counts)
  have cnt: "count_list m (Some i) = (if i < length results then 1 else 0)" for i
    using * count_list_enumerate [of "\<lambda>r. nr_az r \<in> nr_az ` set results" 0 results i]
    unfolding zone_pairs_all [OF ok(1)] by (simp add: count_list_replicate_None)
  have zone: "cn_az (nodes ! j) = zone_map results nodes (nr_az (results ! i))"
    if "j < length nodes" "m ! j = Some i" for j i
    using * that by (auto simp: set_enumerate0 dest!: zone_map_pair)
  have "inj_on (zone_map results nodes) (nr_az ` set results)"
    using inj_zone_map [of results nodes] unfolding zone_pairs_all [OF ok(1)] .
  with * cnt zone show ?thesis by blast
qed

text \<open>A full restore that finds an assignment gives every backed-up node to exactly one node of
  the cluster, names only backups that exist, leaves the other nodes without a backup, and keeps
  availability zones apart: the nodes that restore one zone of the backup are all in one zone of the
  cluster, and different zones of the backup go to different zones of the cluster.\<close>

theorem full_restore_assignment:
  assumes "get_node_to_backup_index None results nodes = Inr m"
  shows "length m = length nodes
    \<and> (\<forall>i. count_list m (Some i) = (if i < length results then 1 else 0))
    \<and> (\<exists>f. inj_on f (nr_az ` set results)
        \<and> (\<forall>j i. j < length nodes \<and> m ! j = Some i \<longrightarrow> cn_az (nodes ! j) = f (nr_az (results ! i))))"
  using assms by (rule full_restore_mapping)

section \<open>The greedy pairing of zones is complete\<close>

text \<open>If zones of sizes \<open>bs\<close> fit injectively into zones of sizes \<open>ns\<close>, they fit when both are paired
  largest first.\<close>

lemma sorted_pairing_fits:
  fixes bs ns :: "nat list"
  assumes bs: "sorted_wrt (\<ge>) bs" and ns: "sorted_wrt (\<ge>) ns"
    and f: "inj_on f {..<length bs}" and range: "\<And>i. i < length bs \<Longrightarrow> f i < length ns \<and> bs ! i \<le> ns ! f i"
    and j: "j < length bs" "j < length ns"
  shows "bs ! j \<le> ns ! j"
proof (rule ccontr)
  assume neg: "\<not> bs ! j \<le> ns ! j"
  have "f i < j" if "i \<le> j" for i
  proof (rule ccontr)
    assume "\<not> f i < j"
    then have "ns ! f i \<le> ns ! j"
      using ns range [of i] that j by (cases "f i = j") (auto simp: sorted_wrt_iff_nth_less)
    moreover have "bs ! j \<le> bs ! i"
      using bs that j by (cases "i = j") (auto simp: sorted_wrt_iff_nth_less)
    ultimately show False using range [of i] that j neg by simp
  qed
  then have "f ` {..j} \<subseteq> {..<j}" by auto
  moreover have "inj_on f {..j}" using f by (rule inj_on_subset) (use j in auto)
  ultimately have "card {..j} \<le> card {..<j}" by (metis card_inj_on_le finite_lessThan)
  then show False by simp
qed

lemma assign_azs_ok_iff:
  "(\<exists>m. assign_azs ps xs nodes ms = Inr m) \<longleftrightarrow> (\<forall>((baz, bn), (naz, nn)) \<in> set ps. bn \<le> nn)"
  by (induction ps xs nodes ms rule: assign_azs.induct) auto

lemma sum_list_counts:
  assumes "finite Z" and "set azs \<subseteq> Z"
  shows "(\<Sum>az\<in>Z. count_list azs az) = length azs"
  using assms sum_count_set [of azs Z] by simp

lemma most_common_nth:
  assumes "i < length (counter xs)"
  shows "snd (most_common (counter xs) ! i) = count_list xs (fst (most_common (counter xs) ! i))"
    and "fst (most_common (counter xs) ! i) \<in> set xs"
  using assms nth_mem [of i "most_common (counter xs)"]
  by (auto simp: set_counter prod_eq_iff) (metis prod.collapse set_counter)+

text \<open>A zone map that fits: different zones of the backup go to different zones of the cluster, each
  with at least as many nodes.\<close>

definition fitting_zone_map :: "(string \<Rightarrow> string) \<Rightarrow> snapshot_result list \<Rightarrow> coordinator_node list \<Rightarrow> bool" where
  "fitting_zone_map f results nodes \<longleftrightarrow> inj_on f (nr_az ` set results)
     \<and> (\<forall>r \<in> set results. count_list (map nr_az results) (nr_az r) \<le> count_list (map cn_az nodes) (f (nr_az r)))"

lemma fitting_zones:
  assumes "fitting_zone_map f results nodes"
  shows "f ` nr_az ` set results \<subseteq> cn_az ` set nodes"
proof
  fix z assume "z \<in> f ` nr_az ` set results"
  then obtain r where r: "r \<in> set results" "z = f (nr_az r)" by blast
  then have "0 < count_list (map nr_az results) (nr_az r)"
    by (metis count_list_0_iff gr0I imageI list.set_map)
  with assms r have "0 < count_list (map cn_az nodes) z" by (auto simp: fitting_zone_map_def)
  then show "z \<in> cn_az ` set nodes" by (metis count_list_0_iff less_irrefl list.set_map)
qed

lemma fitting_enough_zones:
  assumes "fitting_zone_map f results nodes"
  shows "length (counter (map nr_az results)) \<le> length (counter (map cn_az nodes))"
  using assms fitting_zones [OF assms] card_inj_on_le [of f "nr_az ` set results" "cn_az ` set nodes"]
  by (simp add: length_counter fitting_zone_map_def)

lemma fitting_enough_nodes:
  assumes "fitting_zone_map f results nodes"
  shows "length results \<le> length nodes"
proof -
  have inj: "inj_on f (nr_az ` set results)" using assms by (simp add: fitting_zone_map_def)
  have "length results = (\<Sum>az \<in> nr_az ` set results. count_list (map nr_az results) az)"
    by (simp add: sum_list_counts)
  also have "\<dots> \<le> (\<Sum>az \<in> nr_az ` set results. count_list (map cn_az nodes) (f az))"
    using assms by (intro sum_mono) (auto simp: fitting_zone_map_def)
  also have "\<dots> = (\<Sum>az \<in> f ` nr_az ` set results. count_list (map cn_az nodes) az)"
    by (simp add: sum.reindex [OF inj])
  also have "\<dots> \<le> (\<Sum>az \<in> cn_az ` set nodes. count_list (map cn_az nodes) az)"
    by (rule sum_mono2) (use fitting_zones [OF assms] in auto)
  also have "\<dots> = length nodes" by (simp add: sum_list_counts)
  finally show ?thesis .
qed

lemma fitting_pairs:
  assumes fit: "fitting_zone_map f results nodes"
    and p: "((baz, bn), (naz, nn)) \<in> set (zone_pairs results nodes)"
  shows "bn \<le> nn"
proof -
  let ?B = "most_common (counter (map nr_az results))" and ?N = "most_common (counter (map cn_az nodes))"
  obtain j where j: "j < length ?B" "j < length ?N" "?B ! j = (baz, bn)" "?N ! j = (naz, nn)"
    using p by (auto simp: zone_pairs_def set_zip)
  have zones: "set (map fst ?N) = cn_az ` set nodes" by (simp add: keys_counter)
  define g where "g i = (SOME k. k < length ?N \<and> fst (?N ! k) = f (fst (?B ! i)))" for i
  have g: "g i < length ?N \<and> fst (?N ! g i) = f (fst (?B ! i))" if "i < length ?B" for i
  proof -
    from that have "fst (?B ! i) \<in> nr_az ` set results" using most_common_nth(2) [of i "map nr_az results"] by simp
    then have "f (fst (?B ! i)) \<in> set (map fst ?N)" using fitting_zones [OF fit] zones by blast
    then have "\<exists>k. k < length ?N \<and> fst (?N ! k) = f (fst (?B ! i))"
      unfolding in_set_conv_nth [of _ "map fst ?N"] by auto
    then show ?thesis unfolding g_def by (rule someI_ex)
  qed
  have inj: "inj_on g {..<length (map snd ?B)}"
  proof (rule inj_onI)
    fix a b assume ab: "a \<in> {..<length (map snd ?B)}" "b \<in> {..<length (map snd ?B)}" "g a = g b"
    then have "f (fst (?B ! a)) = f (fst (?B ! b))" using g by (metis length_map lessThan_iff)
    moreover have "fst (?B ! a) \<in> nr_az ` set results" "fst (?B ! b) \<in> nr_az ` set results"
      using ab most_common_nth(2) [of _ "map nr_az results"] by simp_all
    ultimately have "fst (?B ! a) = fst (?B ! b)" using fit by (auto simp: fitting_zone_map_def dest: inj_onD)
    then have "map fst ?B ! a = map fst ?B ! b" using ab by simp
    then show "a = b"
      using ab nth_eq_iff_index_eq [OF distinct_most_common [OF distinct_counter [of "map nr_az results"]], of a b] by simp
  qed
  have fits: "g i < length (map snd ?N) \<and> map snd ?B ! i \<le> map snd ?N ! g i" if "i < length (map snd ?B)" for i
  proof -
    from that have i: "i < length ?B" by simp
    then obtain r where r: "r \<in> set results" "fst (?B ! i) = nr_az r"
      using most_common_nth(2) [of i "map nr_az results"] by auto
    from g [OF i] have k: "g i < length (counter (map cn_az nodes))" by simp
    have "snd (?B ! i) = count_list (map nr_az results) (nr_az r)"
      using i r most_common_nth(1) [of i "map nr_az results"] by simp
    also have "\<dots> \<le> count_list (map cn_az nodes) (f (nr_az r))"
      using fit r by (simp add: fitting_zone_map_def)
    also have "\<dots> = snd (?N ! g i)"
      using most_common_nth(1) [OF k] g [OF i] r by simp
    finally show ?thesis using i k by simp
  qed
  have "map snd ?B ! j \<le> map snd ?N ! j"
    by (rule sorted_pairing_fits [OF _ _ inj fits])
       (use j in \<open>simp_all add: most_common_def sorted_sorted_reverse_by\<close>)
  then show ?thesis using j by simp
qed

lemma zone_map_fits:
  assumes "get_node_to_backup_index None results nodes = Inr m"
  shows "fitting_zone_map (zone_map results nodes) results nodes"
proof -
  note ok = full_restore_cases [OF assms]
  have "count_list (map nr_az results) (nr_az r) \<le> count_list (map cn_az nodes) (zone_map results nodes (nr_az r))"
    if "r \<in> set results" for r
  proof -
    from that have "nr_az r \<in> (fst \<circ> fst) ` set (zone_pairs results nodes)" using zone_pairs_all [OF ok(1)] by simp
    then obtain bn naz nn where p: "((nr_az r, bn), (naz, nn)) \<in> set (zone_pairs results nodes)" by fastforce
    moreover have "bn \<le> nn" using p assign_azs_ok_iff [of "zone_pairs results nodes"] ok(2) by blast
    ultimately show ?thesis
      using zone_map_pair [OF p] zone_pairs_counts [OF p]
      by (simp add: count_enumerate [of "\<lambda>q. nr_az q = nr_az r"] free_nodes_initial count_list_map_filter)
  qed
  then show ?thesis
    using inj_zone_map [of results nodes] zone_pairs_all [OF ok(1)] by (simp add: fitting_zone_map_def)
qed

text \<open>C19. The greedy choice of zones is complete: a full restore is refused only when no assignment
  of the backup's availability zones to different zones of the cluster, each with enough nodes,
  exists.\<close>

theorem full_restore_complete:
  "(\<exists>m. get_node_to_backup_index None results nodes = Inr m) \<longleftrightarrow> (\<exists>f. fitting_zone_map f results nodes)"
proof
  assume "\<exists>m. get_node_to_backup_index None results nodes = Inr m"
  then show "\<exists>f. fitting_zone_map f results nodes" using zone_map_fits by blast
next
  assume "\<exists>f. fitting_zone_map f results nodes"
  then obtain f where f: "fitting_zone_map f results nodes" by blast
  have "\<exists>m. assign_azs (zone_pairs results nodes) (enumerate0 results) nodes (replicate (length nodes) None) = Inr m"
    using fitting_pairs [OF f] by (auto simp: assign_azs_ok_iff)
  then show "\<exists>m. get_node_to_backup_index None results nodes = Inr m"
    using fitting_enough_nodes [OF f] fitting_enough_zones [OF f]
    by (simp add: get_node_to_backup_index_def get_node_to_backup_index_from_azs_def zone_pairs_def Let_def)
qed

text \<open>Two backed-up nodes of zone \<open>a\<close> and one of zone \<open>b\<close>, restored to a cluster with one node in
  zone \<open>x\<close>, one in zone \<open>z\<close> and two in zone \<open>y\<close>.\<close>

definition example_results :: "snapshot_result list" where
  "example_results = map (\<lambda>(h, az). \<lparr>nr_hostname = h, nr_az = az, nr_progress = new_progress, sr_start = 0,
      sr_end = None, sr_state = None, sr_files = 0, sr_total_size = 0, sr_hashes = None\<rparr>)
     [(''h0'', ''a''), (''h1'', ''b''), (''h2'', ''a'')]"

definition example_nodes :: "coordinator_node list" where
  "example_nodes = map (\<lambda>(u, az). \<lparr>cn_url = u, cn_az = az\<rparr>) [(''n0'', ''x''), (''n1'', ''y''), (''n2'', ''y''), (''n3'', ''z'')]"

lemma example_assignment:
  "get_node_to_backup_index None example_results example_nodes = Inr [Some 1, Some 0, Some 2, None]"
  by code_simp

theorem full_restore_assignment_witness:
  "\<exists>f. inj_on f {''a'', ''b''} \<and> f ''a'' = ''y'' \<and> f ''b'' = ''x''"
proof -
  from full_restore_assignment [OF example_assignment]
  obtain f where f: "inj_on f (nr_az ` set example_results)"
    "\<And>j i. j < length example_nodes \<Longrightarrow> [Some 1, Some 0, Some 2, None] ! j = Some i
       \<Longrightarrow> cn_az (example_nodes ! j) = f (nr_az (example_results ! i))"
    by blast
  have "f ''b'' = ''x''" "f ''a'' = ''y''"
    using f(2) [of 0 1] f(2) [of 1 0] by (simp_all add: example_nodes_def example_results_def)
  moreover have "nr_az ` set example_results = {''a'', ''b''}" by (auto simp: example_results_def)
  ultimately show ?thesis using f(1) by metis
qed

section \<open>The partial restore\<close>

lemma index_dict_fold:
  "map_of (fold (\<lambda>(i, k) d. dict_set k i d) (List.enumerate n keys) d) k = Some i
    \<Longrightarrow> map_of d k = Some i \<or> (n \<le> i \<and> i < n + length keys \<and> keys ! (i - n) = k)"
proof (induction keys arbitrary: n d)
  case (Cons key keys)
  let ?d = "dict_set key n d"
  have "map_of ?d k = Some i \<or> (Suc n \<le> i \<and> i < Suc n + length keys \<and> keys ! (i - Suc n) = k)"
    by (rule Cons.IH) (use Cons.prems in simp)
  then show ?case
    by (auto simp: update_conv' nth_Cons' split: if_splits)
qed simp

lemma index_dict_Some: "map_of (index_dict keys) k = Some i \<Longrightarrow> i < length keys \<and> keys ! i = k"
  unfolding index_dict_def by (drule index_dict_fold) auto

text \<open>What a request may mean: the node by its position or by its url, the backup by its position or
  by its hostname.\<close>

definition names_node :: "coordinator_node list \<Rightarrow> partial_restore_node \<Rightarrow> nat \<Rightarrow> bool" where
  "names_node nodes req i \<longleftrightarrow> i < length nodes
     \<and> (pn_node_index req = Some (int i) \<or> (pn_node_index req = None \<and> pn_node_url req = Some (cn_url (nodes ! i))))"

definition names_backup :: "snapshot_result list \<Rightarrow> partial_restore_node \<Rightarrow> nat \<Rightarrow> bool" where
  "names_backup results req b \<longleftrightarrow> b < length results
     \<and> (pn_backup_index req = Some (int b)
        \<or> (pn_backup_index req = None \<and> pn_backup_hostname req = Some (nr_hostname (results ! b))))"

lemma resolve_node_index_Inr:
  "resolve_node_index (index_dict (map cn_url nodes)) (length nodes) req = Inr i \<Longrightarrow> names_node nodes req i"
  by (auto simp: resolve_node_index_def names_node_def bind_eq_Some_conv
      split: option.splits if_splits dest!: index_dict_Some)

lemma resolve_backup_index_Inr:
  "resolve_backup_index (index_dict (map nr_hostname results)) (length results) req = Inr i \<Longrightarrow> names_backup results req i"
  by (auto simp: resolve_backup_index_def names_backup_def bind_eq_Some_conv
      split: option.splits if_splits dest!: index_dict_Some)

lemma resolve_node_index_Inl: "resolve_node_index d n req = Inl e \<Longrightarrow> e = NotFoundException"
  by (auto simp: resolve_node_index_def split: option.splits if_splits)

lemma resolve_backup_index_Inl: "resolve_backup_index d n req = Inl e \<Longrightarrow> e = NotFoundException"
  by (auto simp: resolve_backup_index_def split: option.splits if_splits)

lemma assign_partial_ok:
  assumes "assign_partial (index_dict (map cn_url nodes)) (index_dict (map nr_hostname results))
      (length nodes) (length results) reqs ms = Inr m" and "length ms = length nodes"
  shows "length m = length nodes
    \<and> (\<forall>j < length nodes. (m ! j = ms ! j \<and> \<not> (\<exists>req \<in> set reqs. pn_node_index req = Some (int j)))
         \<or> (\<exists>req b. req \<in> set reqs \<and> names_node nodes req j \<and> names_backup results req b \<and> m ! j = Some b))"
  using assms
proof (induction reqs arbitrary: ms)
  case (Cons req reqs)
  from Cons.prems(1) obtain i b where
    i: "resolve_node_index (index_dict (map cn_url nodes)) (length nodes) req = Inr i" and
    b: "resolve_backup_index (index_dict (map nr_hostname results)) (length results) req = Inr b"
    by (auto split: sum.splits)
  have rec: "assign_partial (index_dict (map cn_url nodes)) (index_dict (map nr_hostname results))
      (length nodes) (length results) reqs (ms[i := Some b]) = Inr m"
    using Cons.prems(1) i b by simp
  note ni = resolve_node_index_Inr [OF i] and nb = resolve_backup_index_Inr [OF b]
  have "length (ms[i := Some b]) = length nodes" using Cons.prems(2) by simp
  note IH = Cons.IH [OF rec this]
  show ?case
  proof (intro conjI allI impI)
    show "length m = length nodes" using IH by blast
    fix j assume j: "j < length nodes"
    show "(m ! j = ms ! j \<and> \<not> (\<exists>r \<in> set (req # reqs). pn_node_index r = Some (int j)))
         \<or> (\<exists>r b. r \<in> set (req # reqs) \<and> names_node nodes r j \<and> names_backup results r b \<and> m ! j = Some b)"
    proof (cases "i = j")
      case True
      then show ?thesis using IH j Cons.prems(2) ni nb by (metis list.set_intros nth_list_update_eq)
    next
      case False
      then have "pn_node_index req \<noteq> Some (int j)" using ni by (auto simp: names_node_def)
      then show ?thesis using IH j False by fastforce
    qed
  qed
qed simp

lemma assign_partial_error: "assign_partial us hs n nb reqs ms = Inl e \<Longrightarrow> e = NotFoundException"
  by (induction reqs arbitrary: ms)
     (auto split: sum.splits dest: resolve_node_index_Inl resolve_backup_index_Inl)

text \<open>C20. A partial restore either is refused with the one documented exception, or touches only
  nodes that some request names, by position or by url, and gives each of them a backup that the
  same request names, by position or by hostname, within the bounds of both lists; a node whose
  position is requested is never left out.\<close>

theorem partial_restore_assignment:
  assumes "get_node_to_backup_index (Some (req # reqs)) results nodes = r"
  shows "r = Inl NotFoundException \<or>
    (\<exists>m. r = Inr m \<and> length m = length nodes
       \<and> (\<forall>j b. j < length nodes \<and> m ! j = Some b \<longrightarrow>
            (\<exists>q. q \<in> set (req # reqs) \<and> names_node nodes q j \<and> names_backup results q b))
       \<and> (\<forall>j. j < length nodes \<and> m ! j = None \<longrightarrow> \<not> (\<exists>q \<in> set (req # reqs). pn_node_index q = Some (int j))))"
proof (cases r)
  case (Inl e)
  then have "assign_partial (index_dict (map cn_url nodes)) (index_dict (map nr_hostname results))
      (length nodes) (length results) (req # reqs) (replicate (length nodes) None) = Inl e"
    using assms by (simp add: get_node_to_backup_index_def get_node_to_backup_index_from_partial_restore_nodes_def)
  then have "e = NotFoundException" by (rule assign_partial_error)
  then show ?thesis using Inl by simp
next
  case (Inr m)
  have "length m = length nodes
    \<and> (\<forall>j < length nodes. (m ! j = replicate (length nodes) None ! j \<and> \<not> (\<exists>q \<in> set (req # reqs). pn_node_index q = Some (int j)))
         \<or> (\<exists>q b. q \<in> set (req # reqs) \<and> names_node nodes q j \<and> names_backup results q b \<and> m ! j = Some b))"
    by (rule assign_partial_ok)
       (use assms Inr in \<open>simp_all add: get_node_to_backup_index_def
          get_node_to_backup_index_from_partial_restore_nodes_def\<close>)
  then show ?thesis using Inr by (metis nth_replicate option.distinct(1) option.inject)
qed

definition example_partial :: "partial_restore_node list" where
  "example_partial = [\<lparr>pn_backup_index = None, pn_backup_hostname = Some ''h2'', pn_node_index = Some 1, pn_node_url = None\<rparr>]"

theorem partial_restore_assignment_witness:
  "get_node_to_backup_index (Some example_partial) example_results example_nodes = Inr [None, Some 2, None, None]
   \<and> (\<exists>q. q \<in> set example_partial \<and> names_node example_nodes q 1 \<and> names_backup example_results q 2)"
proof -
  have ev: "get_node_to_backup_index (Some example_partial) example_results example_nodes = Inr [None, Some 2, None, None]"
    by code_simp
  from partial_restore_assignment [OF ev [unfolded example_partial_def]]
  have "\<exists>q. q \<in> set example_partial \<and> names_node example_nodes q 1 \<and> names_backup example_results q 2"
    by (force simp: example_nodes_def example_partial_def)
  with ev show ?thesis by blast
qed

end
