(* ===== verification/Retention.thy ===== *)
theory Retention
  imports Ipc
begin

text \<open>
  Which backups a cleanup keeps: \<^verbatim>\<open>_prune_manifests\<close> of \<^verbatim>\<open>astacus/coordinator/plugins/base.py\<close>, and how
  the retention of a request is completed from the configuration (\<^verbatim>\<open>astacus/coordinator/cleanup.py\<close>).
  Points in time are microseconds; the clock is read anew on every round of the loop, so it is a
  function of the number of manifests left.
\<close>

section \<open>Definitions\<close>

definition microseconds_per_day :: int where
  "microseconds_per_day = 86400000000"

text \<open>\<^verbatim>\<open>(now - end).days\<close>: the days of a \<^verbatim>\<open>timedelta\<close> are rounded down, also for negative ones.\<close>

definition age_days :: "int \<Rightarrow> manifest_min \<Rightarrow> int" where
  "age_days now m = (now - mm_end m) div microseconds_per_day"

definition manifest_key :: "manifest_min \<Rightarrow> int \<times> int \<times> string" where
  "manifest_key m = (mm_start m, mm_end m, mm_filename m)"

definition over_maximum :: "retention \<Rightarrow> nat \<Rightarrow> bool" where
  "over_maximum r n \<longleftrightarrow> (case rt_maximum_backups r of None \<Rightarrow> False | Some mx \<Rightarrow> mx < int n)"

definition at_minimum :: "retention \<Rightarrow> nat \<Rightarrow> bool" where
  "at_minimum r n \<longleftrightarrow> (case rt_minimum_backups r of None \<Rightarrow> False | Some mn \<Rightarrow> mn \<ge> int n)"

definition too_old :: "retention \<Rightarrow> int \<Rightarrow> manifest_min \<Rightarrow> bool" where
  "too_old r now m \<longleftrightarrow> (case rt_keep_days r of None \<Rightarrow> False | Some d \<Rightarrow> age_days now m > d)"

function prune_loop :: "retention \<Rightarrow> (nat \<Rightarrow> int) \<Rightarrow> manifest_min list \<Rightarrow> manifest_min list" where
  "prune_loop r now ms =
     (if ms = [] then []
      else if over_maximum r (length ms) then prune_loop r now (butlast ms)
      else if at_minimum r (length ms) then ms
      else if too_old r (now (length ms)) (last ms) then prune_loop r now (butlast ms)
      else ms)"
  by pat_completeness auto
termination by (relation "measure (\<lambda>(r, now, ms). length ms)") auto

declare prune_loop.simps [simp del]

definition prune_manifests :: "retention \<Rightarrow> (nat \<Rightarrow> int) \<Rightarrow> manifest_min list \<Rightarrow> manifest_min list" where
  "prune_manifests r now manifests =
     (let ms = sorted_reverse_by manifest_key manifests
      in if at_minimum r (length ms) then ms else prune_loop r now ms)"

definition coalesce :: "int option \<Rightarrow> int option \<Rightarrow> int option" where
  "coalesce a b = (case a of None \<Rightarrow> b | Some _ \<Rightarrow> a)"

definition cleanup_retention :: "retention option \<Rightarrow> retention \<Rightarrow> retention" where
  "cleanup_retention req config = (case req of
       None \<Rightarrow> \<lparr>rt_minimum_backups = rt_minimum_backups config, rt_maximum_backups = rt_maximum_backups config,
                rt_keep_days = rt_keep_days config\<rparr>
     | Some r \<Rightarrow> \<lparr>rt_minimum_backups = coalesce (rt_minimum_backups r) (rt_minimum_backups config),
                 rt_maximum_backups = coalesce (rt_maximum_backups r) (rt_maximum_backups config),
                 rt_keep_days = coalesce (rt_keep_days r) (rt_keep_days config)\<rparr>)"

section \<open>The loop\<close>

text \<open>The loop stops at the first length, counted down from the whole list, at which it neither has
  too many manifests nor has an oldest manifest that it may drop.\<close>

definition prune_stops :: "retention \<Rightarrow> (nat \<Rightarrow> int) \<Rightarrow> manifest_min list \<Rightarrow> nat \<Rightarrow> bool" where
  "prune_stops r now ms k \<longleftrightarrow> k = 0 \<or>
     (\<not> over_maximum r k \<and> (at_minimum r k \<or> \<not> too_old r (now k) (ms ! (k - 1))))"

lemma prune_loop_take:
  "\<exists>k \<le> length ms. prune_loop r now ms = take k ms \<and> prune_stops r now ms k
     \<and> (\<forall>i. k < i \<and> i \<le> length ms \<longrightarrow> \<not> prune_stops r now ms i)"
proof (induction ms rule: rev_induct)
  case Nil
  then show ?case by (simp add: prune_loop.simps prune_stops_def)
next
  case (snoc m ms)
  let ?ms = "ms @ [m]"
  have same: "prune_stops r now ms i = prune_stops r now ?ms i" if "i \<le> length ms" for i
    using that by (auto simp: prune_stops_def nth_append)
  show ?case
  proof (cases "prune_stops r now ?ms (length ?ms)")
    case True
    then have "prune_loop r now ?ms = ?ms"
      by (subst prune_loop.simps) (auto simp: prune_stops_def)
    with True show ?thesis by (intro exI [of _ "length ?ms"]) auto
  next
    case False
    then have "prune_loop r now ?ms = prune_loop r now ms"
      by (subst prune_loop.simps) (auto simp: prune_stops_def)
    moreover obtain k where "k \<le> length ms" "prune_loop r now ms = take k ms" "prune_stops r now ms k"
      "\<forall>i. k < i \<and> i \<le> length ms \<longrightarrow> \<not> prune_stops r now ms i" using snoc by blast
    ultimately show ?thesis using same False
      by (intro exI [of _ k]) (auto simp: le_Suc_eq)
  qed
qed

text \<open>Newest first.\<close>

definition newest_first :: "manifest_min list \<Rightarrow> manifest_min list" where
  "newest_first manifests = sorted_reverse_by manifest_key manifests"

lemma prune_manifests_cases:
  obtains (all) "at_minimum r (length manifests)" "prune_manifests r now manifests = newest_first manifests"
  | (loop) k where "\<not> at_minimum r (length manifests)" "k \<le> length manifests"
      "prune_manifests r now manifests = take k (newest_first manifests)" "prune_stops r now (newest_first manifests) k"
      "\<And>i. k < i \<Longrightarrow> i \<le> length manifests \<Longrightarrow> \<not> prune_stops r now (newest_first manifests) i"
proof (cases "at_minimum r (length manifests)")
  case True
  then show ?thesis by (intro all) (simp_all add: prune_manifests_def newest_first_def Let_def)
next
  case False
  obtain k where "k \<le> length (newest_first manifests)"
    "prune_loop r now (newest_first manifests) = take k (newest_first manifests)"
    "prune_stops r now (newest_first manifests) k"
    "\<forall>i. k < i \<and> i \<le> length (newest_first manifests) \<longrightarrow> \<not> prune_stops r now (newest_first manifests) i"
    using prune_loop_take by blast
  with False show ?thesis by (intro loop [of k]) (auto simp: prune_manifests_def newest_first_def Let_def)
qed

lemma set_newest_first [simp]: "set (newest_first ms) = set ms" and length_newest_first [simp]: "length (newest_first ms) = length ms"
  by (simp_all add: newest_first_def)

lemma prune_subset: "set (prune_manifests r now ms) \<subseteq> set ms"
  by (rule prune_manifests_cases [of r ms now]) (auto dest: in_set_takeD)

lemma distinct_newest_first: "distinct ms \<Longrightarrow> distinct (newest_first ms)"
  by (metis mset_eq_imp_distinct_iff mset_sorted_reverse_by newest_first_def)

text \<open>C16. What retention keeps is a prefix of the backups, newest first: a backup is never dropped
  while an older one is kept. The number kept is within the configured maximum unless there are no
  more backups than the minimum; it is at least the minimum (or all there are) unless the maximum is
  smaller than the minimum; and every backup that is dropped is beyond the maximum or older than the
  days to keep.\<close>

theorem retention_keeps_newest:
  assumes "prune_manifests r now manifests = kept"
  shows "\<exists>k. kept = take k (newest_first manifests) \<and> k \<le> length manifests
     \<and> (\<forall>mx. rt_maximum_backups r = Some mx \<and> mx \<ge> 0 \<and> \<not> at_minimum r (length manifests) \<longrightarrow> int k \<le> mx)
     \<and> (\<forall>mn. rt_minimum_backups r = Some mn
           \<and> (\<forall>mx. rt_maximum_backups r = Some mx \<longrightarrow> mn \<le> mx) \<longrightarrow> min mn (int (length manifests)) \<le> int k)
     \<and> (\<forall>i. k \<le> i \<and> i < length manifests \<longrightarrow>
           over_maximum r (Suc i) \<or> too_old r (now (Suc i)) (newest_first manifests ! i))"
proof (rule prune_manifests_cases [of r manifests now])
  assume all: "at_minimum r (length manifests)" "prune_manifests r now manifests = newest_first manifests"
  then show ?thesis using assms by (intro exI [of _ "length manifests"]) auto
next
  fix k
  let ?ms = "newest_first manifests"
  assume k: "\<not> at_minimum r (length manifests)" "k \<le> length manifests" "prune_manifests r now manifests = take k ?ms"
    "prune_stops r now ?ms k" and stop: "\<And>i. k < i \<Longrightarrow> i \<le> length manifests \<Longrightarrow> \<not> prune_stops r now ?ms i"
  have reason: "over_maximum r (Suc i) \<or> (too_old r (now (Suc i)) (?ms ! i) \<and> \<not> at_minimum r (Suc i))"
    if "k \<le> i" "i < length manifests" for i
    using stop [of "Suc i"] that by (auto simp: prune_stops_def)
  have mx: "int k \<le> mx" if "rt_maximum_backups r = Some mx" "mx \<ge> 0" for mx
    using k(4) that by (auto simp: prune_stops_def over_maximum_def)
  have mn: "min mn (int (length manifests)) \<le> int k"
    if m: "rt_minimum_backups r = Some mn" "\<forall>mx. rt_maximum_backups r = Some mx \<longrightarrow> mn \<le> mx" for mn
  proof (rule ccontr)
    assume "\<not> min mn (int (length manifests)) \<le> int k"
    then have lt: "k < length manifests" "int k < mn" by auto
    from reason [of k] lt show False using m
      by (auto simp: over_maximum_def at_minimum_def split: option.splits)
  qed
  show ?thesis using assms k(2,3) reason mx mn by (intro exI [of _ k]) auto
qed

definition example_manifests :: "manifest_min list" where
  "example_manifests = map (\<lambda>(t, f). \<lparr>mm_start = t, mm_end = t + 1, mm_filename = f\<rparr>)
     [(0, ''backup-a''), (200, ''backup-c''), (100, ''backup-b'')]"

lemma example_prune:
  "prune_manifests \<lparr>rt_minimum_backups = Some 1, rt_maximum_backups = Some 2, rt_keep_days = None\<rparr> (\<lambda>_. 300) example_manifests
     = [\<lparr>mm_start = 200, mm_end = 201, mm_filename = ''backup-c''\<rparr>, \<lparr>mm_start = 100, mm_end = 101, mm_filename = ''backup-b''\<rparr>]"
  by code_simp

theorem retention_keeps_newest_witness:
  "\<exists>k. [\<lparr>mm_start = 200, mm_end = 201, mm_filename = ''backup-c''\<rparr>, \<lparr>mm_start = 100, mm_end = 101, mm_filename = ''backup-b''\<rparr>]
     = take k (newest_first example_manifests) \<and> int k \<le> 2 \<and> 1 \<le> int k"
proof -
  have "length example_manifests = 3" by (simp add: example_manifests_def)
  with retention_keeps_newest [OF example_prune] show ?thesis
    by (auto simp: at_minimum_def)
qed

text \<open>The documented minimum is not kept when the maximum is smaller: with a minimum of two and a maximum
  of one, one of three backups is left.\<close>

lemma maximum_overrides_minimum:
  "length (prune_manifests \<lparr>rt_minimum_backups = Some 2, rt_maximum_backups = Some 1, rt_keep_days = None\<rparr>
     (\<lambda>_. 300) example_manifests) = 1"
  by code_simp

text \<open>Completing a request's retention from the configuration.\<close>

lemma cleanup_retention_fields:
  "rt_minimum_backups (cleanup_retention req config) = coalesce (Option.bind req rt_minimum_backups) (rt_minimum_backups config)"
  "rt_maximum_backups (cleanup_retention req config) = coalesce (Option.bind req rt_maximum_backups) (rt_maximum_backups config)"
  "rt_keep_days (cleanup_retention req config) = coalesce (Option.bind req rt_keep_days) (rt_keep_days config)"
  by (auto simp: cleanup_retention_def coalesce_def split: option.splits)

end
