(* ===== verification/Storage.thy ===== *)
theory Storage
  imports Ipc
begin

text \<open>
  Object storage (\<^verbatim>\<open>astacus/common/storage.py\<close>): the two abstract interfaces, the implementation on
  a directory of files, and the registry of several storages. An object that implements an
  interface is the record of its methods over a state; the contract the callers rely on is a locale
  over such a record, interpreted here for the file implementation.

  The content of a file is its list of bytes. The order of the association list of a directory
  stands for the order of \<^verbatim>\<open>iterdir\<close>, which is not specified: no theorem depends on it.
  Object names carry no path separator (they are hexadecimal digests and names such as
  \<^verbatim>\<open>backup-2024-01-01\<close>), so the storage is one flat directory.
\<close>

section \<open>Interfaces\<close>

record 's json_ops =
  delete_json :: "string \<Rightarrow> ('s, unit) stateful"
  open_json_bytes :: "string \<Rightarrow> ('s, string) stateful"
  list_jsons :: "('s, string list) stateful"
  upload_json_bytes :: "string \<Rightarrow> string \<Rightarrow> ('s, bool) stateful"

record storage_upload_result =
  su_size :: int
  su_stored_size :: int

record 's hexdigest_ops =
  delete_hexdigest :: "string \<Rightarrow> ('s, unit) stateful"
  list_hexdigests :: "('s, string list) stateful"
  download_hexdigest_to_file :: "string \<Rightarrow> ('s, string) stateful"
  upload_hexdigest_from_file :: "string \<Rightarrow> string \<Rightarrow> ('s, storage_upload_result) stateful"

text \<open>The methods the abstract classes derive from those. The JSON codec is a parameter.\<close>

definition upload_json :: "'s json_ops \<Rightarrow> ('a \<Rightarrow> string) \<Rightarrow> string \<Rightarrow> 'a \<Rightarrow> ('s, bool) stateful" where
  "upload_json ops encode name data = upload_json_bytes ops name (encode data)"

definition download_json :: "'s json_ops \<Rightarrow> (string \<Rightarrow> 'a result) \<Rightarrow> string \<Rightarrow> ('s, 'a) stateful" where
  "download_json ops decode name = bind_st (open_json_bytes ops name) (\<lambda>b s. (decode b, s))"

definition download_hexdigest_bytes :: "'s hexdigest_ops \<Rightarrow> string \<Rightarrow> ('s, string) stateful" where
  "download_hexdigest_bytes ops hexdigest = download_hexdigest_to_file ops hexdigest"

definition upload_hexdigest_bytes :: "'s hexdigest_ops \<Rightarrow> string \<Rightarrow> string \<Rightarrow> ('s, storage_upload_result) stateful" where
  "upload_hexdigest_bytes ops hexdigest data = upload_hexdigest_from_file ops hexdigest data"

section \<open>Files\<close>

text \<open>\<^verbatim>\<open>Path.suffix\<close> and \<^verbatim>\<open>Path.stem\<close>: split at the last dot, unless the name starts or ends with it.\<close>

definition split_suffix :: "string \<Rightarrow> string \<times> string" where
  "split_suffix name =
     (let tail = rev (takeWhile (\<lambda>c. c \<noteq> CHR ''.'') (rev name));
          before = rev (drop 1 (dropWhile (\<lambda>c. c \<noteq> CHR ''.'') (rev name)))
      in if before \<noteq> [] \<and> tail \<noteq> [] then (before, CHR ''.'' # tail) else (name, []))"

definition path_stem :: "string \<Rightarrow> string" where "path_stem name = fst (split_suffix name)"
definition path_suffix :: "string \<Rightarrow> string" where "path_suffix name = snd (split_suffix name)"

record file_storage =
  fs_hexdigest_suffix :: string
  fs_json_suffix :: string
  fs_files :: "(string \<times> string) list"

definition new_file_storage :: file_storage where
  "new_file_storage = \<lparr>fs_hexdigest_suffix = ''.dat'', fs_json_suffix = ''.json'', fs_files = []\<rparr>"

text \<open>The file system calls: \<^verbatim>\<open>unlink\<close>, \<^verbatim>\<open>read_bytes\<close>, \<^verbatim>\<open>write_bytes\<close>, \<^verbatim>\<open>iterdir\<close>.\<close>

definition fs_unlink :: "string \<Rightarrow> (file_storage, unit) stateful" where
  "fs_unlink p s = (case map_of (fs_files s) p of None \<Rightarrow> (Inl FileNotFoundError, s)
     | Some _ \<Rightarrow> (Inr (), s\<lparr>fs_files := AList.delete p (fs_files s)\<rparr>))"

definition fs_read :: "string \<Rightarrow> (file_storage, string) stateful" where
  "fs_read p s = (case map_of (fs_files s) p of None \<Rightarrow> (Inl FileNotFoundError, s) | Some b \<Rightarrow> (Inr b, s))"

definition fs_write :: "string \<Rightarrow> string \<Rightarrow> file_storage \<Rightarrow> file_storage" where
  "fs_write p b s = s\<lparr>fs_files := dict_set p b (fs_files s)\<rparr>"

definition file_error_wrapper :: "('s, 'a) stateful \<Rightarrow> ('s, 'a) stateful" where
  "file_error_wrapper f s = (case f s of
       (Inl e, s') \<Rightarrow> (Inl (if e = FileNotFoundError then NotFoundException else e), s')
     | (Inr x, s') \<Rightarrow> (Inr x, s'))"

definition hexdigest_to_path :: "file_storage \<Rightarrow> string \<Rightarrow> string" where
  "hexdigest_to_path s h = h @ fs_hexdigest_suffix s"

definition json_to_path :: "file_storage \<Rightarrow> string \<Rightarrow> string" where
  "json_to_path s n = n @ fs_json_suffix s"

definition file_list :: "string \<Rightarrow> file_storage \<Rightarrow> string list" where
  "file_list suf s = map path_stem (filter (\<lambda>p. path_suffix p = suf) (map fst (fs_files s)))"

text \<open>Mapping an empty file into memory raises \<^verbatim>\<open>ValueError\<close>.\<close>

definition file_open_json_bytes :: "string \<Rightarrow> (file_storage, string) stateful" where
  "file_open_json_bytes name = file_error_wrapper (\<lambda>s.
     case fs_read (json_to_path s name) s of
       (Inl e, s') \<Rightarrow> (Inl e, s')
     | (Inr b, s') \<Rightarrow> (if b = [] then Inl ValueError else Inr b, s'))"

definition file_json_ops :: "file_storage json_ops" where
  "file_json_ops = \<lparr>
     delete_json = (\<lambda>name. file_error_wrapper (\<lambda>s. fs_unlink (json_to_path s name) s)),
     open_json_bytes = file_open_json_bytes,
     list_jsons = (\<lambda>s. (Inr (file_list (fs_json_suffix s) s), s)),
     upload_json_bytes = (\<lambda>name data s. (Inr True, fs_write (json_to_path s name) data s))\<rparr>"

definition file_hexdigest_ops :: "file_storage hexdigest_ops" where
  "file_hexdigest_ops = \<lparr>
     delete_hexdigest = (\<lambda>h. file_error_wrapper (\<lambda>s. fs_unlink (hexdigest_to_path s h) s)),
     list_hexdigests = (\<lambda>s. (Inr (file_list (fs_hexdigest_suffix s) s), s)),
     download_hexdigest_to_file = (\<lambda>h. file_error_wrapper (\<lambda>s. fs_read (hexdigest_to_path s h) s)),
     upload_hexdigest_from_file = (\<lambda>h data s.
       (Inr \<lparr>su_size = int (length data), su_stored_size = int (length data)\<rparr>, fs_write (hexdigest_to_path s h) data s))\<rparr>"

section \<open>Several storages\<close>

text \<open>\<^verbatim>\<open>MultiFileStorage\<close> remembers the names it was asked for; its storages live in directories of
  their own.\<close>

definition mfs_get_storage :: "string \<Rightarrow> string set \<Rightarrow> string set" where
  "mfs_get_storage name storages = insert name storages"

definition mfs_list_storages :: "string set \<Rightarrow> string list" where
  "mfs_list_storages storages = sorted_list_of_set storages"

definition mfs_get_default_storage_name :: "string set \<Rightarrow> string result" where
  "mfs_get_default_storage_name storages = py_index (sorted_list_of_set storages) (-1)"

section \<open>Sequences of operations and the abstract storage\<close>

text \<open>A caller's sequence of operations, what it observes, and what it should observe: an abstract
  storage is a map, and listings are sorted.\<close>

datatype json_cmd = DeleteJson string | OpenJson string | ListJsons | UploadJson string string

datatype json_obs = ObsUnit "unit result" | ObsBytes "string result" | ObsNames "string list result" | ObsBool "bool result"

fun json_step :: "'s json_ops \<Rightarrow> json_cmd \<Rightarrow> 's \<Rightarrow> json_obs \<times> 's" where
  "json_step ops (DeleteJson n) s = map_prod ObsUnit id (delete_json ops n s)"
| "json_step ops (OpenJson n) s = map_prod ObsBytes id (open_json_bytes ops n s)"
| "json_step ops ListJsons s = map_prod ObsNames id (list_jsons ops s)"
| "json_step ops (UploadJson n b) s = map_prod ObsBool id (upload_json_bytes ops n b s)"

fun json_run :: "'s json_ops \<Rightarrow> json_cmd list \<Rightarrow> 's \<Rightarrow> json_obs list \<times> 's" where
  "json_run ops [] s = ([], s)"
| "json_run ops (c # cs) s = (case json_step ops c s of (ob, s') \<Rightarrow> map_prod (Cons ob) id (json_run ops cs s'))"

fun spec_step :: "json_cmd \<Rightarrow> (string \<rightharpoonup> string) \<Rightarrow> json_obs \<times> (string \<rightharpoonup> string)" where
  "spec_step (DeleteJson n) m =
     (ObsUnit (case m n of None \<Rightarrow> Inl NotFoundException | Some _ \<Rightarrow> Inr ()), m(n := None))"
| "spec_step (OpenJson n) m = (ObsBytes (case m n of None \<Rightarrow> Inl NotFoundException | Some b \<Rightarrow> Inr b), m)"
| "spec_step ListJsons m = (ObsNames (Inr (sorted_list_of_set (dom m))), m)"
| "spec_step (UploadJson n b) m = (ObsBool (Inr True), m(n \<mapsto> b))"

fun spec_run :: "json_cmd list \<Rightarrow> (string \<rightharpoonup> string) \<Rightarrow> json_obs list \<times> (string \<rightharpoonup> string)" where
  "spec_run [] m = ([], m)"
| "spec_run (c # cs) m = (case spec_step c m of (ob, m') \<Rightarrow> map_prod (Cons ob) id (spec_run cs m'))"

fun valid_cmd :: "json_cmd \<Rightarrow> bool" where
  "valid_cmd (DeleteJson n) \<longleftrightarrow> n \<noteq> []"
| "valid_cmd (OpenJson n) \<longleftrightarrow> n \<noteq> []"
| "valid_cmd ListJsons \<longleftrightarrow> True"
| "valid_cmd (UploadJson n b) \<longleftrightarrow> n \<noteq> [] \<and> b \<noteq> []"

text \<open>Observations up to the order of a listing.\<close>

fun sort_obs :: "json_obs \<Rightarrow> json_obs" where
  "sort_obs (ObsNames (Inr ns)) = ObsNames (Inr (sort ns))"
| "sort_obs ob = ob"

section \<open>Contracts\<close>

text \<open>What the callers of a JSON storage rely on: it behaves like a finite map from names to
  non-empty byte strings. \<open>jsons\<close> is the map a state stands for.\<close>

locale json_storage =
  fixes ops :: "'s json_ops"
    and inv :: "'s \<Rightarrow> bool"
    and jsons :: "'s \<Rightarrow> string \<Rightarrow> string option"
  assumes finite_jsons: "inv s \<Longrightarrow> finite (dom (jsons s))"
    and nonempty_name: "inv s \<Longrightarrow> jsons s [] = None"
    and nonempty_data: "inv s \<Longrightarrow> jsons s n = Some b \<Longrightarrow> b \<noteq> []"
    and delete_law: "inv s \<Longrightarrow> delete_json ops n s = (rd, s') \<Longrightarrow> n \<noteq> [] \<Longrightarrow>
          inv s' \<and> jsons s' = (jsons s)(n := None)
          \<and> rd = (case jsons s n of None \<Rightarrow> Inl NotFoundException | Some _ \<Rightarrow> Inr ())"
    and open_law: "inv s \<Longrightarrow> open_json_bytes ops n s = (ro, s') \<Longrightarrow> n \<noteq> [] \<Longrightarrow>
          inv s' \<and> jsons s' = jsons s
          \<and> ro = (case jsons s n of None \<Rightarrow> Inl NotFoundException | Some b \<Rightarrow> Inr b)"
    and list_law: "inv s \<Longrightarrow> list_jsons ops s = (rl, s') \<Longrightarrow>
          inv s' \<and> jsons s' = jsons s \<and> (\<exists>ns. rl = Inr ns \<and> set ns = dom (jsons s) \<and> distinct ns)"
    and upload_law: "inv s \<Longrightarrow> upload_json_bytes ops n b s = (ru, s') \<Longrightarrow> n \<noteq> [] \<Longrightarrow> b \<noteq> [] \<Longrightarrow>
          inv s' \<and> jsons s' = (jsons s)(n \<mapsto> b) \<and> ru = Inr True"
begin

lemma open_jsonE:
  assumes "inv s" and "jsons s n = Some b"
  obtains s' where "open_json_bytes ops n s = (Inr b, s')" "inv s'" "jsons s' = jsons s"
proof -
  obtain r s' where o: "open_json_bytes ops n s = (r, s')" by fastforce
  have "n \<noteq> []" using assms nonempty_name by force
  from open_law [OF assms(1) o this] show ?thesis using o assms(2) by (auto intro: that)
qed

lemma upload_then_open:
  assumes "inv s" and "n \<noteq> []" and "b \<noteq> []"
  shows "\<exists>s'. bind_st (upload_json_bytes ops n b) (\<lambda>_. open_json_bytes ops n) s = (Inr b, s')"
proof -
  obtain r s1 where u: "upload_json_bytes ops n b s = (r, s1)" by fastforce
  note l = upload_law [OF assms(1) u assms(2,3)]
  then obtain s2 where "open_json_bytes ops n s1 = (Inr b, s2)"
    using open_jsonE [of s1 n b] by auto
  then show ?thesis using u l by (simp add: bind_st_def)
qed

lemma step_refines:
  assumes "inv s" and "valid_cmd c"
  shows "inv (snd (json_step ops c s)) \<and> jsons (snd (json_step ops c s)) = snd (spec_step c (jsons s))
    \<and> sort_obs (fst (json_step ops c s)) = fst (spec_step c (jsons s))"
proof (cases c)
  case (DeleteJson n)
  then show ?thesis using assms delete_law [of s n] by (cases "delete_json ops n s") auto
next
  case (OpenJson n)
  then show ?thesis using assms open_law [of s n] by (cases "open_json_bytes ops n s") auto
next
  case ListJsons
  obtain r s' where l: "list_jsons ops s = (r, s')" by fastforce
  from list_law [OF assms(1) l] obtain ns where
    "inv s'" "jsons s' = jsons s" "r = Inr ns" "set ns = dom (jsons s)" "distinct ns" by auto
  then show ?thesis using ListJsons l sorted_list_of_set_sort_remdups [of ns] by (simp add: distinct_remdups_id)
next
  case (UploadJson n b)
  then show ?thesis using assms upload_law [of s n b] by (cases "upload_json_bytes ops n b s") auto
qed

text \<open>Every sequence of operations is observed as on a map, up to the order of listings.\<close>

lemma run_refines:
  assumes "inv s" and "list_all valid_cmd cs"
  shows "inv (snd (json_run ops cs s)) \<and> jsons (snd (json_run ops cs s)) = snd (spec_run cs (jsons s))
    \<and> map sort_obs (fst (json_run ops cs s)) = fst (spec_run cs (jsons s))"
  using assms
proof (induction cs arbitrary: s)
  case (Cons c cs)
  then show ?case
    using step_refines [of s c] Cons.IH [of "snd (json_step ops c s)"]
    by (simp add: split_beta)
qed simp

end

text \<open>The same for the content-addressed storage. Its objects may be empty.\<close>

locale hexdigest_storage =
  fixes hops :: "'s hexdigest_ops"
    and hinv :: "'s \<Rightarrow> bool"
    and blobs :: "'s \<Rightarrow> string \<Rightarrow> string option"
  assumes finite_blobs: "hinv s \<Longrightarrow> finite (dom (blobs s))"
    and nonempty_digest: "hinv s \<Longrightarrow> blobs s [] = None"
    and delete_hexdigest_law: "hinv s \<Longrightarrow> delete_hexdigest hops h s = (rd, s') \<Longrightarrow> h \<noteq> [] \<Longrightarrow>
          hinv s' \<and> blobs s' = (blobs s)(h := None)
          \<and> rd = (case blobs s h of None \<Rightarrow> Inl NotFoundException | Some _ \<Rightarrow> Inr ())"
    and download_hexdigest_law: "hinv s \<Longrightarrow> download_hexdigest_to_file hops h s = (rg, s') \<Longrightarrow> h \<noteq> [] \<Longrightarrow>
          hinv s' \<and> blobs s' = blobs s
          \<and> rg = (case blobs s h of None \<Rightarrow> Inl NotFoundException | Some b \<Rightarrow> Inr b)"
    and list_hexdigests_law: "hinv s \<Longrightarrow> list_hexdigests hops s = (rl, s') \<Longrightarrow>
          hinv s' \<and> blobs s' = blobs s \<and> (\<exists>hs. rl = Inr hs \<and> set hs = dom (blobs s) \<and> distinct hs)"
    and upload_hexdigest_law: "hinv s \<Longrightarrow> upload_hexdigest_from_file hops h b s = (ru, s') \<Longrightarrow> h \<noteq> [] \<Longrightarrow>
          hinv s' \<and> blobs s' = (blobs s)(h \<mapsto> b) \<and> (\<exists>u. ru = Inr u \<and> su_size u = int (length b))"

section \<open>The file implementation keeps the contracts\<close>

definition good_suffix :: "string \<Rightarrow> bool" where
  "good_suffix suf \<longleftrightarrow> (case suf of [] \<Rightarrow> False | c # t \<Rightarrow> c = CHR ''.'' \<and> t \<noteq> [] \<and> CHR ''.'' \<notin> set t)"

definition file_inv :: "file_storage \<Rightarrow> bool" where
  "file_inv s \<longleftrightarrow> distinct (map fst (fs_files s)) \<and> good_suffix (fs_json_suffix s)
     \<and> good_suffix (fs_hexdigest_suffix s) \<and> fs_json_suffix s \<noteq> fs_hexdigest_suffix s
     \<and> list_all (\<lambda>(p, b). path_suffix p = fs_json_suffix s \<longrightarrow> b \<noteq> []) (fs_files s)"

definition file_jsons :: "file_storage \<Rightarrow> string \<Rightarrow> string option" where
  "file_jsons s n = (if n = [] then None else map_of (fs_files s) (json_to_path s n))"

definition file_blobs :: "file_storage \<Rightarrow> string \<Rightarrow> string option" where
  "file_blobs s h = (if h = [] then None else map_of (fs_files s) (hexdigest_to_path s h))"

lemma split_suffix_append:
  assumes "good_suffix suf" and "n \<noteq> []"
  shows "split_suffix (n @ suf) = (n, suf)"
proof -
  obtain t where suf: "suf = CHR ''.'' # t" "t \<noteq> []" "CHR ''.'' \<notin> set t"
    using assms(1) by (cases suf) (auto simp: good_suffix_def)
  have "takeWhile (\<lambda>c. c \<noteq> CHR ''.'') (rev t @ CHR ''.'' # rev n) = rev t"
    "dropWhile (\<lambda>c. c \<noteq> CHR ''.'') (rev t @ CHR ''.'' # rev n) = CHR ''.'' # rev n"
    using suf(3) by (subst takeWhile_append2 dropWhile_append2; auto)+
  then show ?thesis using suf assms(2) by (simp add: split_suffix_def Let_def)
qed

lemma path_append [simp]:
  assumes "good_suffix suf" and "n \<noteq> []"
  shows "path_suffix (n @ suf) = suf" and "path_stem (n @ suf) = n"
  using split_suffix_append [OF assms] by (simp_all add: path_suffix_def path_stem_def)

lemma path_suffix_split:
  assumes "path_suffix p = suf" and "good_suffix suf"
  shows "path_stem p \<noteq> [] \<and> p = path_stem p @ suf"
proof -
  let ?d = "dropWhile (\<lambda>c. c \<noteq> CHR ''.'') (rev p)" and ?t = "takeWhile (\<lambda>c. c \<noteq> CHR ''.'') (rev p)"
  have ne: "rev (drop 1 ?d) \<noteq> [] \<and> rev ?t \<noteq> []" and
    st: "path_stem p = rev (drop 1 ?d)" "suf = CHR ''.'' # rev ?t"
    using assms by (auto simp: path_suffix_def path_stem_def split_suffix_def Let_def good_suffix_def split: if_splits)
  then obtain c d where d: "?d = c # d" by (cases ?d) auto
  have "c = CHR ''.''" using d hd_dropWhile [of "\<lambda>c. c \<noteq> CHR ''.''" "rev p"] by force
  then have "rev p = ?t @ CHR ''.'' # d" using d takeWhile_dropWhile_id [of "\<lambda>c. c \<noteq> CHR ''.''" "rev p"] by simp
  then have "p = rev d @ CHR ''.'' # rev ?t" by (metis append.assoc append_Cons append_Nil rev.simps(2) rev_append rev_rev_ident)
  then show ?thesis using st ne d by simp
qed

lemma set_file_list:
  assumes "good_suffix suf"
  shows "set (file_list suf s) = {n. n \<noteq> [] \<and> map_of (fs_files s) (n @ suf) \<noteq> None}"
proof -
  have "n \<in> set (file_list suf s) \<longleftrightarrow> n \<noteq> [] \<and> n @ suf \<in> fst ` set (fs_files s)" for n
  proof
    assume "n \<in> set (file_list suf s)"
    then obtain p where "p \<in> fst ` set (fs_files s)" "path_suffix p = suf" "n = path_stem p"
      by (auto simp: file_list_def)
    then show "n \<noteq> [] \<and> n @ suf \<in> fst ` set (fs_files s)"
      using path_suffix_split [of p suf] assms by metis
  next
    assume n: "n \<noteq> [] \<and> n @ suf \<in> fst ` set (fs_files s)"
    then show "n \<in> set (file_list suf s)"
      using path_append [OF assms, of n] by (force simp: file_list_def)
  qed
  then show ?thesis by (auto simp: map_of_eq_None_iff)
qed

lemma distinct_file_list:
  assumes "good_suffix suf" and "distinct (map fst (fs_files s))"
  shows "distinct (file_list suf s)"
  unfolding file_list_def
proof (subst distinct_map, intro conjI inj_onI)
  show "distinct (filter (\<lambda>p. path_suffix p = suf) (map fst (fs_files s)))" using assms(2) by (rule distinct_filter)
  fix p q
  assume "p \<in> set (filter (\<lambda>p. path_suffix p = suf) (map fst (fs_files s)))"
    "q \<in> set (filter (\<lambda>p. path_suffix p = suf) (map fst (fs_files s)))" "path_stem p = path_stem q"
  then show "p = q" using path_suffix_split [of p suf] path_suffix_split [of q suf] assms(1) by simp
qed

lemma file_inv_unlink: "file_inv s \<Longrightarrow> file_inv (s\<lparr>fs_files := AList.delete p (fs_files s)\<rparr>)"
  by (simp add: file_inv_def distinct_delete) (auto simp: list_all_iff AList.delete_eq)

lemma file_inv_write:
  assumes "file_inv s" and "path_suffix p = fs_json_suffix s \<Longrightarrow> b \<noteq> []"
  shows "file_inv (fs_write p b s)"
proof -
  have "set (dict_set p b xs) \<subseteq> insert (p, b) (set xs)" for xs :: "(string \<times> string) list"
    by (induction xs) auto
  then have "x = (p, b) \<or> x \<in> set (fs_files s)" if "x \<in> set (dict_set p b (fs_files s))" for x
    using that by blast
  then show ?thesis
    using assms by (fastforce simp: file_inv_def fs_write_def list_all_iff distinct_update)
qed

lemma file_inv_good:
  assumes "file_inv s"
  shows "good_suffix (fs_json_suffix s)" and "good_suffix (fs_hexdigest_suffix s)"
    and "fs_json_suffix s \<noteq> fs_hexdigest_suffix s" and "distinct (map fst (fs_files s))"
  using assms by (auto simp: file_inv_def)

lemma json_path_ne_hexdigest_path:
  assumes "file_inv s" and "n \<noteq> []" and "h \<noteq> []"
  shows "json_to_path s n \<noteq> hexdigest_to_path s h"
proof
  assume "json_to_path s n = hexdigest_to_path s h"
  then have "path_suffix (n @ fs_json_suffix s) = path_suffix (h @ fs_hexdigest_suffix s)"
    by (simp add: json_to_path_def hexdigest_to_path_def)
  then show False using assms file_inv_good [OF assms(1)] by simp
qed

lemma paths_inj [simp]:
  "json_to_path s n = json_to_path s m \<longleftrightarrow> n = m" "hexdigest_to_path s n = hexdigest_to_path s m \<longleftrightarrow> n = m"
  by (simp_all add: json_to_path_def hexdigest_to_path_def)

lemma paths_update [simp]:
  "json_to_path (s\<lparr>fs_files := f\<rparr>) n = json_to_path s n" "hexdigest_to_path (s\<lparr>fs_files := f\<rparr>) n = hexdigest_to_path s n"
  by (simp_all add: json_to_path_def hexdigest_to_path_def)

text \<open>How the two maps a directory stands for change under the file system calls.\<close>

lemma file_maps_unlink:
  "file_jsons (s\<lparr>fs_files := AList.delete (json_to_path s n) (fs_files s)\<rparr>) = (file_jsons s)(n := None)"
  "file_blobs (s\<lparr>fs_files := AList.delete (hexdigest_to_path s n) (fs_files s)\<rparr>) = (file_blobs s)(n := None)"
  by (auto simp: fun_eq_iff file_jsons_def file_blobs_def delete_conv')

lemma file_maps_unlink_other:
  assumes "file_inv s" and "n \<noteq> []"
  shows "file_jsons (s\<lparr>fs_files := AList.delete (hexdigest_to_path s n) (fs_files s)\<rparr>) = file_jsons s"
    and "file_blobs (s\<lparr>fs_files := AList.delete (json_to_path s n) (fs_files s)\<rparr>) = file_blobs s"
  using json_path_ne_hexdigest_path [OF assms(1)] assms(2)
  by (auto simp: fun_eq_iff file_jsons_def file_blobs_def delete_conv') metis+

lemma file_maps_write:
  "n \<noteq> [] \<Longrightarrow> file_jsons (fs_write (json_to_path s n) b s) = (file_jsons s)(n \<mapsto> b)"
  "n \<noteq> [] \<Longrightarrow> file_blobs (fs_write (hexdigest_to_path s n) b s) = (file_blobs s)(n \<mapsto> b)"
  by (auto simp: fun_eq_iff file_jsons_def file_blobs_def fs_write_def update_conv')

lemma file_maps_write_other:
  assumes "file_inv s" and "n \<noteq> []"
  shows "file_jsons (fs_write (hexdigest_to_path s n) b s) = file_jsons s"
    and "file_blobs (fs_write (json_to_path s n) b s) = file_blobs s"
  using json_path_ne_hexdigest_path [OF assms(1)] assms(2)
  by (auto simp: fun_eq_iff file_jsons_def file_blobs_def fs_write_def update_conv') metis+

lemma finite_file_maps: "finite (dom (file_jsons s))" "finite (dom (file_blobs s))"
proof -
  have fin: "finite {n. n @ x \<in> fst ` set (fs_files s)}" for x
    by (rule finite_imageD [of "\<lambda>n. n @ x"]) (auto intro: finite_subset [of _ "fst ` set (fs_files s)"] inj_onI)
  have "dom (file_jsons s) \<subseteq> {n. n @ fs_json_suffix s \<in> fst ` set (fs_files s)}"
    "dom (file_blobs s) \<subseteq> {n. n @ fs_hexdigest_suffix s \<in> fst ` set (fs_files s)}"
    by (force simp: file_jsons_def file_blobs_def json_to_path_def hexdigest_to_path_def
        split: if_splits dest!: map_of_SomeD)+
  then show "finite (dom (file_jsons s))" "finite (dom (file_blobs s))"
    using fin finite_subset by blast+
qed

lemma file_json_nonempty:
  assumes "file_inv s" and "n \<noteq> []" and "map_of (fs_files s) (json_to_path s n) = Some b"
  shows "b \<noteq> []"
proof -
  have "path_suffix (json_to_path s n) = fs_json_suffix s"
    using file_inv_good(1) [OF assms(1)] assms(2) by (simp add: json_to_path_def)
  then show ?thesis using assms(1) map_of_SomeD [OF assms(3)] by (auto simp: file_inv_def list_all_iff)
qed

lemmas file_ops_defs = file_json_ops_def file_hexdigest_ops_def file_error_wrapper_def fs_unlink_def fs_read_def
  file_open_json_bytes_def

interpretation fjson: json_storage file_json_ops file_inv file_jsons
proof unfold_locales
  fix s n b ru and s' :: file_storage
  assume "file_inv s" "upload_json_bytes file_json_ops n b s = (ru, s')" "n \<noteq> []" "b \<noteq> []"
  then show "file_inv s' \<and> file_jsons s' = (file_jsons s)(n \<mapsto> b) \<and> ru = Inr True"
    by (auto simp: file_ops_defs file_maps_write intro: file_inv_write)
next
  fix s rl and s' :: file_storage
  assume inv: "file_inv s" and "list_jsons file_json_ops s = (rl, s')"
  then have "s' = s" "rl = Inr (file_list (fs_json_suffix s) s)" by (auto simp: file_ops_defs)
  moreover have "set (file_list (fs_json_suffix s) s) = dom (file_jsons s)"
    unfolding set_file_list [OF file_inv_good(1) [OF inv]] by (auto simp: file_jsons_def json_to_path_def split: if_splits)
  ultimately show "file_inv s' \<and> file_jsons s' = file_jsons s \<and> (\<exists>ns. rl = Inr ns \<and> set ns = dom (file_jsons s) \<and> distinct ns)"
    using inv distinct_file_list [OF file_inv_good(1,4) [OF inv]] by simp
qed (auto simp: finite_file_maps file_jsons_def file_ops_defs file_maps_unlink file_inv_unlink file_json_nonempty
      fun_eq_iff delete_conv' split: option.splits if_splits prod.splits sum.splits)

interpretation fhex: hexdigest_storage file_hexdigest_ops file_inv file_blobs
proof unfold_locales
  fix s h b ru and s' :: file_storage
  assume inv: "file_inv s" and "upload_hexdigest_from_file file_hexdigest_ops h b s = (ru, s')" and h: "h \<noteq> []"
  moreover have "path_suffix (hexdigest_to_path s h) \<noteq> fs_json_suffix s"
    using file_inv_good [OF inv] h by (simp add: hexdigest_to_path_def)
  ultimately show "file_inv s' \<and> file_blobs s' = (file_blobs s)(h \<mapsto> b) \<and> (\<exists>u. ru = Inr u \<and> su_size u = int (length b))"
    by (auto simp: file_ops_defs file_maps_write intro: file_inv_write)
next
  fix s rl and s' :: file_storage
  assume inv: "file_inv s" and "list_hexdigests file_hexdigest_ops s = (rl, s')"
  then have "s' = s" "rl = Inr (file_list (fs_hexdigest_suffix s) s)" by (auto simp: file_ops_defs)
  moreover have "set (file_list (fs_hexdigest_suffix s) s) = dom (file_blobs s)"
    unfolding set_file_list [OF file_inv_good(2) [OF inv]] by (auto simp: file_blobs_def hexdigest_to_path_def split: if_splits)
  ultimately show "file_inv s' \<and> file_blobs s' = file_blobs s \<and> (\<exists>hs. rl = Inr hs \<and> set hs = dom (file_blobs s) \<and> distinct hs)"
    using inv distinct_file_list [OF file_inv_good(2,4) [OF inv]] by simp
qed (auto simp: finite_file_maps file_blobs_def file_ops_defs file_maps_unlink file_inv_unlink
      fun_eq_iff delete_conv' split: option.splits if_splits prod.splits sum.splits)

end
