(* ===== verification/Caching_Storage.thy ===== *)
theory Caching_Storage
  imports Storage
begin

text \<open>
  The caching layer on top of a JSON storage (\<^verbatim>\<open>astacus/common/cachingjsonstorage.py\<close>), the wrapper
  that drops the coordinator's cached listing when the storage changes
  (\<^verbatim>\<open>CacheClearingJsonStorage\<close> in \<^verbatim>\<open>astacus/coordinator/coordinator.py\<close>) and the download of manifests
  (\<^verbatim>\<open>astacus/coordinator/manifest.py\<close>). The layers are functions from the methods of the storages
  below to their own; each is shown to keep the contract of a JSON storage whenever the layers below
  keep it.
\<close>

section \<open>The caching layer\<close>

record ('b, 'c) caching =
  backend_storage :: 'b
  cache_storage :: 'c
  backend_json_set_cache :: "string set option"
  backend_json_list :: "string list option"

definition new_caching :: "'b \<Rightarrow> 'c \<Rightarrow> ('b, 'c) caching" where
  "new_caching b c = \<lparr>backend_storage = b, cache_storage = c, backend_json_set_cache = None, backend_json_list = None\<rparr>"

text \<open>A method of one of the two storages, run on its part of the state.\<close>

definition on_backend :: "('b, 'a) stateful \<Rightarrow> (('b, 'c) caching, 'a) stateful" where
  "on_backend f s = (case f (backend_storage s) of (r, b) \<Rightarrow> (r, s\<lparr>backend_storage := b\<rparr>))"

definition on_cache :: "('c, 'a) stateful \<Rightarrow> (('b, 'c) caching, 'a) stateful" where
  "on_cache f s = (case f (cache_storage s) of (r, c) \<Rightarrow> (r, s\<lparr>cache_storage := c\<rparr>))"

definition backend_json_set :: "'b json_ops \<Rightarrow> (('b, 'c) caching, string set) stateful" where
  "backend_json_set bops s = (case backend_json_set_cache s of
       Some S \<Rightarrow> (Inr S, s)
     | None \<Rightarrow> bind_st (on_backend (list_jsons bops))
         (\<lambda>ns s. (Inr (set ns), s\<lparr>backend_json_set_cache := Some (set ns)\<rparr>)) s)"

definition backend_json_set_add :: "'b json_ops \<Rightarrow> string \<Rightarrow> (('b, 'c) caching, unit) stateful" where
  "backend_json_set_add bops x = bind_st (backend_json_set bops)
     (\<lambda>S s. (Inr (), s\<lparr>backend_json_set_cache := Some (insert x S), backend_json_list := None\<rparr>))"

definition backend_json_set_remove :: "'b json_ops \<Rightarrow> string \<Rightarrow> (('b, 'c) caching, unit) stateful" where
  "backend_json_set_remove bops x = bind_st (backend_json_set bops)
     (\<lambda>S s. if x \<in> S
       then (Inr (), s\<lparr>backend_json_set_cache := Some (S - {x}), backend_json_list := None\<rparr>)
       else (Inl KeyError, s))"

text \<open>\<^verbatim>\<open>except NotFoundException: pass\<close>\<close>

definition ignore_not_found :: "('s, unit) stateful \<Rightarrow> ('s, unit) stateful" where
  "ignore_not_found f s = (case f s of (Inl NotFoundException, s') \<Rightarrow> (Inr (), s') | rs \<Rightarrow> rs)"

definition caching_delete_json :: "'b json_ops \<Rightarrow> 'c json_ops \<Rightarrow> string \<Rightarrow> (('b, 'c) caching, unit) stateful" where
  "caching_delete_json bops cops name = bind_st (backend_json_set bops) (\<lambda>S.
     if name \<notin> S then (\<lambda>s. (Inl NotFoundException, s))
     else bind_st (ignore_not_found (on_cache (delete_json cops name))) (\<lambda>_.
          bind_st (on_backend (delete_json bops name)) (\<lambda>_.
          backend_json_set_remove bops name)))"

text \<open>The context manager yields the cached bytes; on a cache miss it fetches them from the backend,
  stores them in the cache and opens the cached copy.\<close>

definition caching_open_json_bytes :: "'b json_ops \<Rightarrow> 'c json_ops \<Rightarrow> string \<Rightarrow> (('b, 'c) caching, string) stateful" where
  "caching_open_json_bytes bops cops name = bind_st (backend_json_set bops) (\<lambda>S s.
     if name \<notin> S then (Inl NotFoundException, s)
     else (case on_cache (open_json_bytes cops name) s of
         (Inl NotFoundException, s') \<Rightarrow>
           bind_st (on_backend (open_json_bytes bops name)) (\<lambda>b.
           bind_st (on_cache (upload_json_bytes cops name b)) (\<lambda>_.
           on_cache (open_json_bytes cops name))) s'
       | rs \<Rightarrow> rs))"

definition caching_list_jsons :: "'b json_ops \<Rightarrow> (('b, 'c) caching, string list) stateful" where
  "caching_list_jsons bops s = (case backend_json_list s of
       Some ns \<Rightarrow> (Inr ns, s)
     | None \<Rightarrow> bind_st (backend_json_set bops)
         (\<lambda>S s. (Inr (sorted_list_of_set S), s\<lparr>backend_json_list := Some (sorted_list_of_set S)\<rparr>)) s)"

definition caching_upload_json_bytes ::
  "'b json_ops \<Rightarrow> 'c json_ops \<Rightarrow> string \<Rightarrow> string \<Rightarrow> (('b, 'c) caching, bool) stateful" where
  "caching_upload_json_bytes bops cops name data =
     bind_st (on_cache (upload_json_bytes cops name data)) (\<lambda>_.
     bind_st (on_backend (upload_json_bytes bops name data)) (\<lambda>_.
     bind_st (backend_json_set_add bops name) (\<lambda>_ s. (Inr True, s))))"

definition caching_ops :: "'b json_ops \<Rightarrow> 'c json_ops \<Rightarrow> ('b, 'c) caching json_ops" where
  "caching_ops bops cops = \<lparr>
     delete_json = caching_delete_json bops cops,
     open_json_bytes = caching_open_json_bytes bops cops,
     list_jsons = caching_list_jsons bops,
     upload_json_bytes = caching_upload_json_bytes bops cops\<rparr>"

section \<open>The caching layer keeps the contract\<close>

text \<open>The invariant: what the layer remembers of the backend is right, and (the assumption that the
  source documents) a cached object that the backend has too has the same content.\<close>

definition agrees :: "(string \<rightharpoonup> string) \<Rightarrow> (string \<rightharpoonup> string) \<Rightarrow> bool" where
  "agrees m c \<longleftrightarrow> (\<forall>n b. c n = Some b \<longrightarrow> m n = None \<or> m n = Some b)"

lemma agrees_simps [simp]:
  "agrees m c \<Longrightarrow> agrees (m(n \<mapsto> d)) (c(n \<mapsto> d))"
  "agrees m c \<Longrightarrow> agrees (m(n := None)) c"
  "agrees m c \<Longrightarrow> agrees (m(n := None)) (c(n := None))"
  "agrees m c \<Longrightarrow> m n = Some d \<Longrightarrow> agrees m (c(n \<mapsto> d))"
  by (auto simp: agrees_def)

lemma agreesD: "agrees m c \<Longrightarrow> m n = Some b \<Longrightarrow> c n = Some b' \<Longrightarrow> b' = b"
  by (force simp: agrees_def)

definition caching_inv :: "('b \<Rightarrow> bool) \<Rightarrow> ('b \<Rightarrow> string \<rightharpoonup> string) \<Rightarrow> ('c \<Rightarrow> bool) \<Rightarrow> ('c \<Rightarrow> string \<rightharpoonup> string)
    \<Rightarrow> ('b, 'c) caching \<Rightarrow> bool" where
  "caching_inv binv bjsons cinv cjsons s \<longleftrightarrow> binv (backend_storage s) \<and> cinv (cache_storage s)
     \<and> (\<forall>S. backend_json_set_cache s = Some S \<longrightarrow> S = dom (bjsons (backend_storage s)))
     \<and> (\<forall>ns. backend_json_list s = Some ns \<longrightarrow> ns = sorted_list_of_set (dom (bjsons (backend_storage s))))
     \<and> agrees (bjsons (backend_storage s)) (cjsons (cache_storage s))"

definition caching_jsons :: "('b \<Rightarrow> string \<rightharpoonup> string) \<Rightarrow> ('b, 'c) caching \<Rightarrow> string \<rightharpoonup> string" where
  "caching_jsons bjsons s = bjsons (backend_storage s)"

lemma bind_stE:
  assumes "bind_st m f s = (r, s')"
  obtains e where "m s = (Inl e, s')" "r = Inl e"
  | x s1 where "m s = (Inr x, s1)" "f x s1 = (r, s')"
  using assms by (auto simp: bind_st_def split: prod.splits sum.splits)

locale caching_json_storage =
  backend: json_storage bops binv bjsons + cache: json_storage cops cinv cjsons
  for bops :: "'b json_ops" and binv :: "'b \<Rightarrow> bool" and bjsons :: "'b \<Rightarrow> string \<rightharpoonup> string"
    and cops :: "'c json_ops" and cinv :: "'c \<Rightarrow> bool" and cjsons :: "'c \<Rightarrow> string \<rightharpoonup> string"
begin

abbreviation c_inv :: "('b, 'c) caching \<Rightarrow> bool" where
  "c_inv \<equiv> caching_inv binv bjsons cinv cjsons"

abbreviation c_jsons :: "('b, 'c) caching \<Rightarrow> string \<rightharpoonup> string" where
  "c_jsons \<equiv> caching_jsons bjsons"

text \<open>Reading the set of names lists the backend at most once and gives its domain.\<close>

lemma backend_json_set_law:
  assumes "c_inv s"
  obtains s1 where "backend_json_set bops s = (Inr (dom (c_jsons s)), s1)" "c_inv s1" "c_jsons s1 = c_jsons s"
    "backend_json_set_cache s1 = Some (dom (c_jsons s))" "cache_storage s1 = cache_storage s"
proof (cases "backend_json_set_cache s")
  case (Some S)
  then show ?thesis using assms that [of s] by (auto simp: backend_json_set_def caching_inv_def caching_jsons_def)
next
  case None
  obtain r b' where l: "list_jsons bops (backend_storage s) = (r, b')" by fastforce
  from assms have "binv (backend_storage s)" by (simp add: caching_inv_def)
  from backend.list_law [OF this l] obtain ns where
    ns: "binv b'" "bjsons b' = bjsons (backend_storage s)" "r = Inr ns" "set ns = dom (bjsons (backend_storage s))"
    by auto
  show ?thesis
    by (rule that [of "s\<lparr>backend_storage := b', backend_json_set_cache := Some (set ns)\<rparr>"])
       (use assms None l ns in \<open>auto simp: backend_json_set_def on_backend_def bind_st_def caching_inv_def caching_jsons_def\<close>)
qed

lemma caching_list_law:
  assumes "c_inv s" and "caching_list_jsons bops s = (r, s')"
  shows "c_inv s' \<and> c_jsons s' = c_jsons s \<and> r = Inr (sorted_list_of_set (dom (c_jsons s)))"
proof (cases "backend_json_list s")
  case (Some ns)
  then show ?thesis using assms by (auto simp: caching_list_jsons_def caching_inv_def caching_jsons_def)
next
  case None
  obtain s1 where "backend_json_set bops s = (Inr (dom (c_jsons s)), s1)" "c_inv s1" "c_jsons s1 = c_jsons s"
    using backend_json_set_law [OF assms(1)] by metis
  then show ?thesis
    using assms None by (auto simp: caching_list_jsons_def bind_st_def caching_inv_def caching_jsons_def)
qed

lemma caching_upload_law:
  assumes "c_inv s" and u: "caching_upload_json_bytes bops cops n d s = (r, s')" and nd: "n \<noteq> []" "d \<noteq> []"
  shows "c_inv s' \<and> c_jsons s' = (c_jsons s)(n \<mapsto> d) \<and> r = Inr True"
proof -
  obtain r1 c1 where c: "upload_json_bytes cops n d (cache_storage s) = (r1, c1)" by fastforce
  obtain r2 b1 where b: "upload_json_bytes bops n d (backend_storage s) = (r2, b1)" by fastforce
  have inv: "binv (backend_storage s)" "cinv (cache_storage s)" using assms(1) by (simp_all add: caching_inv_def)
  note cl = cache.upload_law [OF inv(2) c nd] and bl = backend.upload_law [OF inv(1) b nd]
  let ?s2 = "s\<lparr>cache_storage := c1, backend_storage := b1\<rparr>"
  have r2: "caching_upload_json_bytes bops cops n d s
      = bind_st (backend_json_set_add bops n) (\<lambda>_ s. (Inr True, s)) ?s2"
    using b c cl bl by (simp add: caching_upload_json_bytes_def bind_st_def on_cache_def on_backend_def)
  show ?thesis
  proof (cases "backend_json_set_cache s")
    case (Some S)
    then show ?thesis using u r2 assms(1) cl bl
      by (auto simp: bind_st_def backend_json_set_add_def backend_json_set_def caching_inv_def caching_jsons_def
          split: if_splits)
  next
    case None
    obtain rl b2 where l: "list_jsons bops b1 = (rl, b2)" by fastforce
    have "binv b1" using bl by simp
    from backend.list_law [OF this l] obtain ns where
      ns: "binv b2" "bjsons b2 = bjsons b1" "rl = Inr ns" "set ns = dom (bjsons b1)" by auto
    have "n \<in> set ns" using ns(4) bl by simp
    then have "(r, s') = (Inr True, s\<lparr>backend_storage := b2, cache_storage := c1,
        backend_json_set_cache := Some (set ns), backend_json_list := None\<rparr>)"
      using u r2 None l ns(3)
      by (auto simp: bind_st_def on_backend_def backend_json_set_add_def backend_json_set_def insert_absorb)
    then show ?thesis using assms(1) cl bl ns
      by (simp add: caching_inv_def caching_jsons_def, intro ext, simp)
  qed
qed

lemma caching_delete_law:
  assumes "c_inv s" and d: "caching_delete_json bops cops n s = (r, s')" and n: "n \<noteq> []"
  shows "c_inv s' \<and> c_jsons s' = (c_jsons s)(n := None)
    \<and> r = (case c_jsons s n of None \<Rightarrow> Inl NotFoundException | Some _ \<Rightarrow> Inr ())"
proof -
  obtain s1 where s1: "backend_json_set bops s = (Inr (dom (c_jsons s)), s1)" "c_inv s1" "c_jsons s1 = c_jsons s"
    "backend_json_set_cache s1 = Some (dom (c_jsons s))"
    using backend_json_set_law [OF assms(1)] by metis
  show ?thesis
  proof (cases "c_jsons s n")
    case None
    then show ?thesis using d s1 by (auto simp: caching_delete_json_def bind_st_def domIff)
  next
    case (Some b)
    obtain r2 c2 where c: "delete_json cops n (cache_storage s1) = (r2, c2)" by fastforce
    obtain r3 b2 where b: "delete_json bops n (backend_storage s1) = (r3, b2)" by fastforce
    have inv: "binv (backend_storage s1)" "cinv (cache_storage s1)" using s1(2) by (simp_all add: caching_inv_def)
    note cl = cache.delete_law [OF inv(2) c n] and bl = backend.delete_law [OF inv(1) b n]
    have r3: "r3 = Inr ()" using bl s1(3) Some by (simp add: caching_jsons_def)
    have ig: "ignore_not_found (on_cache (delete_json cops n)) s1 = (Inr (), s1\<lparr>cache_storage := c2\<rparr>)"
      using c cl by (auto simp: ignore_not_found_def on_cache_def split: option.splits)
    have "(r, s') = (Inr (), s1\<lparr>cache_storage := c2, backend_storage := b2,
        backend_json_set_cache := Some (dom (c_jsons s) - {n}), backend_json_list := None\<rparr>)"
      using d s1 Some b ig r3
      by (simp add: caching_delete_json_def bind_st_def on_backend_def backend_json_set_remove_def
          backend_json_set_def domI)
    moreover have "bjsons (backend_storage s1) = bjsons (backend_storage s)" using s1(3) by (simp add: caching_jsons_def)
    ultimately show ?thesis using s1(2) cl bl Some
      by (simp add: caching_inv_def caching_jsons_def, intro ext, simp)
  qed
qed

lemma caching_open_law:
  assumes "c_inv s" and d: "caching_open_json_bytes bops cops n s = (r, s')" and n: "n \<noteq> []"
  shows "c_inv s' \<and> c_jsons s' = c_jsons s
    \<and> r = (case c_jsons s n of None \<Rightarrow> Inl NotFoundException | Some b \<Rightarrow> Inr b)"
proof -
  obtain s1 where s1: "backend_json_set bops s = (Inr (dom (c_jsons s)), s1)" "c_inv s1" "c_jsons s1 = c_jsons s"
    using backend_json_set_law [OF assms(1)] by metis
  have inv: "binv (backend_storage s1)" "cinv (cache_storage s1)" using s1(2) by (simp_all add: caching_inv_def)
  show ?thesis
  proof (cases "c_jsons s n")
    case None
    then show ?thesis using d s1 by (auto simp: caching_open_json_bytes_def bind_st_def domIff)
  next
    case (Some b)
    obtain r2 c2 where c: "open_json_bytes cops n (cache_storage s1) = (r2, c2)" by fastforce
    note cl = cache.open_law [OF inv(2) c n]
    have dom: "n \<in> dom (c_jsons s)" and bn: "bjsons (backend_storage s1) n = Some b"
      using Some s1(3) by (auto simp: caching_jsons_def)
    show ?thesis
    proof (cases "cjsons (cache_storage s1) n")
      case (Some b')
      then have "b' = b" using s1(2) bn by (auto simp: caching_inv_def dest: agreesD)
      then show ?thesis using d s1 dom bn c cl Some
        by (auto simp: caching_open_json_bytes_def bind_st_def on_cache_def caching_inv_def caching_jsons_def)
    next
      case None
      obtain b2 where b2: "open_json_bytes bops n (backend_storage s1) = (Inr b, b2)" "binv b2"
          "bjsons b2 = bjsons (backend_storage s1)"
        using backend.open_jsonE [OF inv(1) bn] by metis
      have "b \<noteq> []" using backend.nonempty_data [OF inv(1) bn] .
      obtain r3 c3 where c3: "upload_json_bytes cops n b c2 = (r3, c3)" by fastforce
      have "cinv c2" using cl by simp
      note ul = cache.upload_law [OF this c3 n \<open>b \<noteq> []\<close>]
      obtain c4 where c4: "open_json_bytes cops n c3 = (Inr b, c4)" "cinv c4" "cjsons c4 = cjsons c3"
        using cache.open_jsonE [of c3 n b] ul by auto
      have "(r, s') = (Inr b, s1\<lparr>backend_storage := b2, cache_storage := c4\<rparr>)"
        using d s1 dom c cl None b2 c3 ul c4
        by (auto simp: caching_open_json_bytes_def bind_st_def on_cache_def on_backend_def)
      then show ?thesis using s1 b2 c4 ul cl bn
        by (auto simp: caching_inv_def caching_jsons_def)
    qed
  qed
qed

end

sublocale caching_json_storage \<subseteq> caching: json_storage "caching_ops bops cops"
    "caching_inv binv bjsons cinv cjsons" "caching_jsons bjsons"
proof (unfold_locales, goal_cases)
  case (1 s)
  then show ?case by (simp add: caching_inv_def caching_jsons_def backend.finite_jsons)
next
  case (2 s)
  then show ?case by (simp add: caching_inv_def caching_jsons_def backend.nonempty_name)
next
  case (3 s n b)
  then show ?case by (auto simp: caching_inv_def caching_jsons_def dest: backend.nonempty_data)
next
  case (4 s n r s')
  then show ?case by (simp add: caching_ops_def caching_delete_law)
next
  case (5 s n r s')
  then show ?case by (simp add: caching_ops_def caching_open_law)
next
  case (6 s r s')
  have "finite (dom (caching_jsons bjsons s))"
    using 6(1) by (simp add: caching_inv_def caching_jsons_def backend.finite_jsons)
  then show ?case using caching_list_law [OF 6(1)] 6(2) by (simp add: caching_ops_def)
next
  case (7 s n b r s')
  then show ?case by (simp add: caching_ops_def caching_upload_law)
qed

section \<open>Dropping the cached listing\<close>

text \<open>The coordinator keeps the response of the last listing of backups. The wrapper it puts around
  every JSON storage drops that response when an object is deleted or uploaded, also when the
  operation raises (\<^verbatim>\<open>finally\<close>).\<close>

record ('s, 'l) clearing =
  cc_storage :: 's
  cached_list_response :: "'l option"

definition on_storage :: "('s, 'a) stateful \<Rightarrow> (('s, 'l) clearing, 'a) stateful" where
  "on_storage f s = (case f (cc_storage s) of (r, s') \<Rightarrow> (r, s\<lparr>cc_storage := s'\<rparr>))"

definition clearing_list :: "(('s, 'l) clearing, 'a) stateful \<Rightarrow> (('s, 'l) clearing, 'a) stateful" where
  "clearing_list f s = (case f s of (r, s') \<Rightarrow> (r, s'\<lparr>cached_list_response := None\<rparr>))"

definition clearing_ops :: "'s json_ops \<Rightarrow> ('s, 'l) clearing json_ops" where
  "clearing_ops ops = \<lparr>
     delete_json = (\<lambda>name. clearing_list (on_storage (delete_json ops name))),
     open_json_bytes = (\<lambda>name. on_storage (open_json_bytes ops name)),
     list_jsons = on_storage (list_jsons ops),
     upload_json_bytes = (\<lambda>name data. clearing_list (on_storage (upload_json_bytes ops name data)))\<rparr>"

fun mutating :: "json_cmd \<Rightarrow> bool" where
  "mutating (DeleteJson n) \<longleftrightarrow> True"
| "mutating (UploadJson n b) \<longleftrightarrow> True"
| "mutating c \<longleftrightarrow> False"

lemma clearing_step:
  "json_step (clearing_ops ops) c s =
     (fst (json_step ops c (cc_storage s)),
      \<lparr>cc_storage = snd (json_step ops c (cc_storage s)),
       cached_list_response = (if mutating c then None else cached_list_response s)\<rparr>)"
  by (cases c) (simp_all add: clearing_ops_def on_storage_def clearing_list_def split_beta)

lemma clearing_run:
  "json_run (clearing_ops ops) cs s =
     (fst (json_run ops cs (cc_storage s)),
      \<lparr>cc_storage = snd (json_run ops cs (cc_storage s)),
       cached_list_response = (if list_ex mutating cs then None else cached_list_response s)\<rparr>)"
  by (induction cs arbitrary: s) (auto simp: clearing_step split_beta)

locale cache_clearing_storage = storage: json_storage ops inv jsons
  for ops :: "'s json_ops" and inv :: "'s \<Rightarrow> bool" and jsons :: "'s \<Rightarrow> string \<rightharpoonup> string"

sublocale cache_clearing_storage \<subseteq> clearing: json_storage "clearing_ops ops" "\<lambda>s. inv (cc_storage s)" "\<lambda>s. jsons (cc_storage s)"
proof (unfold_locales, goal_cases)
  case (4 s n r s')
  then show ?case
    using storage.delete_law [of "cc_storage s" n]
    by (cases "delete_json ops n (cc_storage s)") (auto simp: clearing_ops_def on_storage_def clearing_list_def)
next
  case (5 s n r s')
  then show ?case
    using storage.open_law [of "cc_storage s" n]
    by (cases "open_json_bytes ops n (cc_storage s)") (auto simp: clearing_ops_def on_storage_def)
next
  case (6 s r s')
  then show ?case
    using storage.list_law [of "cc_storage s"]
    by (cases "list_jsons ops (cc_storage s)") (auto simp: clearing_ops_def on_storage_def)
next
  case (7 s n b r s')
  then show ?case
    using storage.upload_law [of "cc_storage s" n b]
    by (cases "upload_json_bytes ops n b (cc_storage s)") (auto simp: clearing_ops_def on_storage_def clearing_list_def)
qed (auto intro: storage.finite_jsons storage.nonempty_name dest: storage.nonempty_data)

section \<open>The stack of layers\<close>

context caching_json_storage
begin

lemma caching_is_json_storage: "json_storage (caching_ops bops cops) c_inv c_jsons"
  by (rule caching.json_storage_axioms)

lemma caching_step_sorted:
  assumes "c_inv s" and "valid_cmd c"
  shows "sort_obs (fst (json_step (caching_ops bops cops) c s)) = fst (json_step (caching_ops bops cops) c s)"
proof (cases c)
  case ListJsons
  obtain r s' where l: "caching_list_jsons bops s = (r, s')" by fastforce
  have "sort (sorted_list_of_set (dom (c_jsons s))) = sorted_list_of_set (dom (c_jsons s))"
    by (rule sorted_sort_id) simp
  then show ?thesis using ListJsons l caching_list_law [OF assms(1) l] by (simp add: caching_ops_def)
qed simp_all

lemma caching_run_exact:
  assumes "c_inv s" and "list_all valid_cmd cs"
  shows "fst (json_run (caching_ops bops cops) cs s) = fst (spec_run cs (c_jsons s))"
  using assms
proof (induction cs arbitrary: s)
  case (Cons c cs)
  then show ?case
    using caching.step_refines [of s c] caching_step_sorted [of s c]
      Cons.IH [of "snd (json_step (caching_ops bops cops) c s)"]
    by (simp add: split_beta)
qed simp

end

text \<open>The storage that the coordinator works with: the listing-dropping wrapper around the caching
  layer, with a directory as the cache.\<close>

definition coordinator_json_ops :: "'b json_ops \<Rightarrow> (('b, file_storage) caching, 'l) clearing json_ops" where
  "coordinator_json_ops bops = clearing_ops (caching_ops bops file_json_ops)"

text \<open>C13. For every backend that keeps the contract of a JSON storage, the storage the coordinator
  works with is observed exactly as a map with sorted listings, by every sequence of deletions,
  reads, listings and uploads; afterwards the backend holds exactly that map, the layer's invariant
  holds again, and the cached listing of backups is gone if and only if something was deleted or
  uploaded or there was none.\<close>

theorem coordinator_storage_refines:
  assumes "json_storage bops binv bjsons"
    and "caching_inv binv bjsons file_inv file_jsons (cc_storage s)"
    and "list_all valid_cmd cs"
    and "json_run (coordinator_json_ops bops) cs s = (obs, s')"
  shows "obs = fst (spec_run cs (bjsons (backend_storage (cc_storage s))))
    \<and> bjsons (backend_storage (cc_storage s')) = snd (spec_run cs (bjsons (backend_storage (cc_storage s))))
    \<and> caching_inv binv bjsons file_inv file_jsons (cc_storage s')
    \<and> cached_list_response s' = (if list_ex mutating cs then None else cached_list_response s)"
proof -
  have loc: "caching_json_storage bops binv bjsons file_json_ops file_inv file_jsons"
    by (intro caching_json_storage.intro assms(1) fjson.json_storage_axioms)
  have js: "json_storage (caching_ops bops file_json_ops) (caching_inv binv bjsons file_inv file_jsons) (caching_jsons bjsons)"
    using loc by (rule caching_json_storage.caching_is_json_storage)
  show ?thesis
    using assms(4) caching_json_storage.caching_run_exact [OF loc assms(2,3)]
      json_storage.run_refines [OF js assms(2,3)]
    by (auto simp: coordinator_json_ops_def clearing_run caching_jsons_def)
qed

definition example_storage :: "((file_storage, file_storage) caching, unit) clearing" where
  "example_storage = \<lparr>cc_storage = new_caching (fs_write ''backup-1.json'' ''abc'' new_file_storage) new_file_storage,
     cached_list_response = Some ()\<rparr>"

lemma example_storage_inv: "caching_inv file_inv file_jsons file_inv file_jsons (cc_storage example_storage)"
proof -
  have "file_jsons new_file_storage = Map.empty" by (auto simp: file_jsons_def new_file_storage_def)
  moreover have "file_inv (fs_write ''backup-1.json'' ''abc'' new_file_storage)" "file_inv new_file_storage"
    by (auto simp: file_inv_def fs_write_def new_file_storage_def good_suffix_def)
  ultimately show ?thesis
    by (simp add: caching_inv_def example_storage_def new_caching_def agrees_def)
qed

lemma example_storage_jsons: "file_jsons (backend_storage (cc_storage example_storage)) = [''backup-1'' \<mapsto> ''abc'']"
proof -
  have "x @ ''.json'' = ''backup-1.json'' \<longleftrightarrow> x = ''backup-1''" for x
    using append_same_eq [of x "''.json''" "''backup-1''"] by simp
  then show ?thesis
    by (auto simp: fun_eq_iff file_jsons_def example_storage_def new_caching_def fs_write_def new_file_storage_def
        json_to_path_def)
qed

text \<open>An upload, a read that is served through the cache, a listing, and a deletion.\<close>

theorem coordinator_storage_refines_witness:
  "fst (json_run (coordinator_json_ops file_json_ops)
      [UploadJson ''backup-2'' ''d'', OpenJson ''backup-1'', ListJsons, DeleteJson ''backup-3''] example_storage)
   = [ObsBool (Inr True), ObsBytes (Inr ''abc''), ObsNames (Inr [''backup-1'', ''backup-2'']),
      ObsUnit (Inl NotFoundException)]"
proof -
  let ?cs = "[UploadJson ''backup-2'' ''d'', OpenJson ''backup-1'', ListJsons, DeleteJson ''backup-3'']"
  obtain obs s' where run: "json_run (coordinator_json_ops file_json_ops) ?cs example_storage = (obs, s')" by fastforce
  have "list_all valid_cmd ?cs" by simp
  note ref = coordinator_storage_refines [OF fjson.json_storage_axioms example_storage_inv this run]
  have "sorted_list_of_set {''backup-2'', ''backup-1''} = [''backup-1'', ''backup-2'']" by code_simp
  then show ?thesis using ref run by (simp add: example_storage_jsons)
qed

section \<open>Manifests\<close>

text \<open>The decoders of the JSON library are parameters.\<close>

definition download_backup_manifest ::
  "'s json_ops \<Rightarrow> (string \<Rightarrow> backup_manifest result) \<Rightarrow> string \<Rightarrow> ('s, backup_manifest) stateful" where
  "download_backup_manifest ops decode backup_name = bind_st (download_json ops decode backup_name) (\<lambda>m s.
     if bm_filename m = [] \<or> bm_filename m = backup_name then (Inr (m\<lparr>bm_filename := backup_name\<rparr>), s)
     else (Inl AssertionError, s))"

definition download_backup_min_manifest ::
  "'s json_ops \<Rightarrow> (string \<Rightarrow> manifest_min result) \<Rightarrow> string \<Rightarrow> ('s, manifest_min) stateful" where
  "download_backup_min_manifest ops decode backup_name = bind_st (download_json ops decode backup_name) (\<lambda>m s.
     if mm_filename m = [] \<or> mm_filename m = backup_name then (Inr (m\<lparr>mm_filename := backup_name\<rparr>), s)
     else (Inl AssertionError, s))"

context json_storage
begin

text \<open>The manifest that a name stands for, and that downloading it gives exactly that manifest.\<close>

lemma download_manifest:
  assumes "inv s" and "jsons s n = Some b" and "decode b = Inr m" and "bm_filename m = [] \<or> bm_filename m = n"
  obtains s' where "download_backup_manifest ops decode n s = (Inr (m\<lparr>bm_filename := n\<rparr>), s')"
    "inv s'" "jsons s' = jsons s"
proof -
  obtain s' where "open_json_bytes ops n s = (Inr b, s')" "inv s'" "jsons s' = jsons s"
    using open_jsonE [OF assms(1,2)] by metis
  then show ?thesis
    using assms(3,4) that by (simp add: download_backup_manifest_def download_json_def bind_st_def)
qed

lemma download_min_manifest:
  assumes "inv s" and "jsons s n = Some b" and "decode b = Inr m" and "mm_filename m = [] \<or> mm_filename m = n"
  obtains s' where "download_backup_min_manifest ops decode n s = (Inr (m\<lparr>mm_filename := n\<rparr>), s')"
    "inv s'" "jsons s' = jsons s"
proof -
  obtain s' where "open_json_bytes ops n s = (Inr b, s')" "inv s'" "jsons s' = jsons s"
    using open_jsonE [OF assms(1,2)] by metis
  then show ?thesis
    using assms(3,4) that by (simp add: download_backup_min_manifest_def download_json_def bind_st_def)
qed

end

section \<open>Instances on the file storage\<close>

interpretation fcache: caching_json_storage file_json_ops file_inv file_jsons file_json_ops file_inv file_jsons
  by unfold_locales

interpretation fclear: cache_clearing_storage "caching_ops file_json_ops file_json_ops"
    "caching_inv file_inv file_jsons file_inv file_jsons" "caching_jsons file_jsons"
  by unfold_locales

end
