(* ===== verification/Cleanup.thy ===== *)
theory Cleanup
  imports Retention Caching_Storage
begin

text \<open>
  The cleanup operation: the steps of \<^verbatim>\<open>get_cleanup_steps\<close> in \<^verbatim>\<open>astacus/coordinator/plugins/base.py\<close>
  (and of the Cassandra plugin, which also has delta backups), run in sequence on a JSON storage and
  a content-addressed storage. The theorems are proved over the contracts of the two storages.
\<close>

section \<open>Steps\<close>

text \<open>The state is the pair of the two storages.\<close>

definition on_json :: "('j, 'a) stateful \<Rightarrow> ('j \<times> 'h, 'a) stateful" where
  "on_json f s = (case f (fst s) of (r, j) \<Rightarrow> (r, (j, snd s)))"

definition on_hex :: "('h, 'a) stateful \<Rightarrow> ('j \<times> 'h, 'a) stateful" where
  "on_hex f s = (case f (snd s) of (r, h) \<Rightarrow> (r, (fst s, h)))"

definition JSON_BACKUP_PREFIX :: string where "JSON_BACKUP_PREFIX = ''backup-''"
definition JSON_DELTA_PREFIX :: string where "JSON_DELTA_PREFIX = ''delta-''"

definition list_prefixed :: "'j json_ops \<Rightarrow> string \<Rightarrow> ('j \<times> 'h, string set) stateful" where
  "list_prefixed jops p = bind_st (on_json (list_jsons jops))
     (\<lambda>ns s. (Inr (set (filter (\<lambda>b. startswith b p) ns)), s))"

definition list_backups_step :: "'j json_ops \<Rightarrow> ('j \<times> 'h, string set) stateful" where
  "list_backups_step jops = list_prefixed jops JSON_BACKUP_PREFIX"

definition list_delta_backups_step :: "'j json_ops \<Rightarrow> ('j \<times> 'h, string set) stateful" where
  "list_delta_backups_step jops = list_prefixed jops JSON_DELTA_PREFIX"

text \<open>Sets are iterated in the order \<open>it\<close>.\<close>

definition compute_kept_basebackups ::
  "'j json_ops \<Rightarrow> (string \<Rightarrow> manifest_min result) \<Rightarrow> retention \<Rightarrow> (nat \<Rightarrow> int) \<Rightarrow> (string set \<Rightarrow> string list)
     \<Rightarrow> string list \<Rightarrow> string set \<Rightarrow> ('j \<times> 'h, manifest_min list) stateful" where
  "compute_kept_basebackups jops dec r now it explicit_delete all_backup_names =
     bind_st (map_st (\<lambda>n. on_json (download_backup_min_manifest jops dec n)) (it (all_backup_names - set explicit_delete)))
       (\<lambda>manifests s. (Inr (prune_manifests r now manifests), s))"

definition compute_kept_deltas ::
  "'j json_ops \<Rightarrow> (string \<Rightarrow> manifest_min result) \<Rightarrow> (string set \<Rightarrow> string list)
     \<Rightarrow> string set \<Rightarrow> manifest_min list \<Rightarrow> ('j \<times> 'h, manifest_min list) stateful" where
  "compute_kept_deltas jops dec it all_delta_names kept_backups =
     (case kept_backups of
        [] \<Rightarrow> (\<lambda>s. (Inr [], s))
      | b # bs \<Rightarrow> let oldest = min_by mm_start b bs
          in bind_st (map_st (\<lambda>n. on_json (download_backup_min_manifest jops dec n)) (it all_delta_names))
               (\<lambda>ds s. (Inr (filter (\<lambda>d. \<not> mm_end d < mm_end oldest) ds), s)))"

definition compute_kept_backups_step ::
  "'j json_ops \<Rightarrow> (string \<Rightarrow> manifest_min result) \<Rightarrow> retention \<Rightarrow> (nat \<Rightarrow> int) \<Rightarrow> (string set \<Rightarrow> string list)
     \<Rightarrow> string list \<Rightarrow> string set \<Rightarrow> string set option \<Rightarrow> ('j \<times> 'h, manifest_min list) stateful" where
  "compute_kept_backups_step jops dec r now it explicit_delete all_backups all_deltas =
     bind_st (compute_kept_basebackups jops dec r now it explicit_delete all_backups) (\<lambda>kept.
       case all_deltas of
         None \<Rightarrow> (\<lambda>s. (Inr kept, s))
       | Some ds \<Rightarrow> bind_st (compute_kept_deltas jops dec it ds kept) (\<lambda>kd s. (Inr (kept @ kd), s)))"

definition delete_backup_manifests_step ::
  "'j json_ops \<Rightarrow> (string set \<Rightarrow> string list) \<Rightarrow> string set \<Rightarrow> manifest_min list \<Rightarrow> ('j \<times> 'h, string set) stateful" where
  "delete_backup_manifests_step jops it all_backups kept_manifests =
     (let deleted = all_backups - set (map mm_filename kept_manifests)
      in bind_st (map_st (\<lambda>b. on_json (delete_json jops b)) (it deleted)) (\<lambda>_ s. (Inr deleted, s)))"

text \<open>The digests that a manifest refers to; a snapshot result without hashes fails the assertion.\<close>

fun result_hexdigests :: "snapshot_result list \<Rightarrow> string list result" where
  "result_hexdigests [] = Inr []"
| "result_hexdigests (r # rs) = (case sr_hashes r of
      None \<Rightarrow> Inl AssertionError
    | Some hs \<Rightarrow> (case result_hexdigests rs of Inl e \<Rightarrow> Inl e | Inr ds \<Rightarrow> Inr (map sh_hexdigest hs @ ds)))"

definition discard_referenced ::
  "'j json_ops \<Rightarrow> (string \<Rightarrow> backup_manifest result) \<Rightarrow> manifest_min \<Rightarrow> string set \<Rightarrow> ('j \<times> 'h, string set) stateful" where
  "discard_referenced jops dec m extra = bind_st (on_json (download_backup_manifest jops dec (mm_filename m)))
     (\<lambda>manifest s. (case result_hexdigests (bm_snapshot_results manifest) of
        Inl e \<Rightarrow> Inl e | Inr ds \<Rightarrow> Inr (extra - set ds), s))"

fun discard_all ::
  "'j json_ops \<Rightarrow> (string \<Rightarrow> backup_manifest result) \<Rightarrow> manifest_min list \<Rightarrow> string set \<Rightarrow> ('j \<times> 'h, string set) stateful" where
  "discard_all jops dec [] extra s = (Inr extra, s)"
| "discard_all jops dec (m # ms) extra s =
     bind_st (discard_referenced jops dec m extra) (\<lambda>extra. discard_all jops dec ms extra) s"

definition delete_dangling_hexdigests_step ::
  "'j json_ops \<Rightarrow> 'h hexdigest_ops \<Rightarrow> (string \<Rightarrow> backup_manifest result) \<Rightarrow> (string set \<Rightarrow> string list)
     \<Rightarrow> manifest_min list \<Rightarrow> ('j \<times> 'h, unit) stateful" where
  "delete_dangling_hexdigests_step jops hops dec it kept_manifests =
     bind_st (on_hex (list_hexdigests hops)) (\<lambda>hs.
     bind_st (discard_all jops dec kept_manifests (set hs)) (\<lambda>extra.
     bind_st (map_st (\<lambda>h. on_hex (delete_hexdigest hops h)) (it extra)) (\<lambda>_ s. (Inr (), s))))"

text \<open>The whole operation; \<open>retain_deltas\<close> selects the steps of the Cassandra plugin.\<close>

definition cleanup ::
  "'j json_ops \<Rightarrow> 'h hexdigest_ops \<Rightarrow> (string \<Rightarrow> backup_manifest result) \<Rightarrow> (string \<Rightarrow> manifest_min result)
     \<Rightarrow> (string set \<Rightarrow> string list) \<Rightarrow> (nat \<Rightarrow> int) \<Rightarrow> bool \<Rightarrow> retention \<Rightarrow> string list \<Rightarrow> ('j \<times> 'h, unit) stateful" where
  "cleanup jops hops dec dec_min it now retain_deltas r explicit_delete =
     bind_st (list_backups_step jops) (\<lambda>backups.
     bind_st (if retain_deltas then bind_st (list_delta_backups_step jops) (\<lambda>ds s. (Inr (Some ds), s))
              else (\<lambda>s. (Inr None, s))) (\<lambda>deltas.
     bind_st (compute_kept_backups_step jops dec_min r now it explicit_delete backups deltas) (\<lambda>kept.
     bind_st (delete_backup_manifests_step jops it (backups \<union> (case deltas of None \<Rightarrow> {} | Some ds \<Rightarrow> ds)) kept) (\<lambda>_.
     delete_dangling_hexdigests_step jops hops dec it kept))))"

section \<open>Specification\<close>

text \<open>What the two decoders of the JSON library give for one object, by their documentation: a type
  with fewer fields reads its own fields of the same object and ignores the rest.\<close>

definition decoders_agree :: "(string \<Rightarrow> backup_manifest result) \<Rightarrow> (string \<Rightarrow> manifest_min result) \<Rightarrow> bool" where
  "decoders_agree dec dec_min \<longleftrightarrow> (\<forall>b m. dec b = Inr m \<longrightarrow> dec_min b = Inr (from_manifest m))"

text \<open>A JSON storage whose backups and deltas are readable manifests with their hashes.\<close>

definition readable :: "(string \<Rightarrow> backup_manifest result) \<Rightarrow> (string \<rightharpoonup> string) \<Rightarrow> string \<Rightarrow> bool" where
  "readable dec jm n \<longleftrightarrow> (\<exists>b m. jm n = Some b \<and> dec b = Inr m \<and> (bm_filename m = [] \<or> bm_filename m = n)
      \<and> (\<forall>r \<in> set (bm_snapshot_results m). sr_hashes r \<noteq> None))"

definition manifest_of :: "(string \<Rightarrow> backup_manifest result) \<Rightarrow> (string \<rightharpoonup> string) \<Rightarrow> string \<Rightarrow> backup_manifest" where
  "manifest_of dec jm n = projr (dec (the (jm n)))\<lparr>bm_filename := n\<rparr>"

definition referenced :: "backup_manifest \<Rightarrow> string set" where
  "referenced m = (\<Union>r \<in> set (bm_snapshot_results m). case sr_hashes r of None \<Rightarrow> {} | Some hs \<Rightarrow> sh_hexdigest ` set hs)"

definition names_with :: "string \<Rightarrow> (string \<rightharpoonup> string) \<Rightarrow> string set" where
  "names_with p jm = {n \<in> dom jm. startswith n p}"

text \<open>The backups, and then the deltas, that are to be kept.\<close>

definition kept_backups :: "(string \<Rightarrow> backup_manifest result) \<Rightarrow> (string \<rightharpoonup> string) \<Rightarrow> (string set \<Rightarrow> string list)
    \<Rightarrow> (nat \<Rightarrow> int) \<Rightarrow> retention \<Rightarrow> string list \<Rightarrow> manifest_min list" where
  "kept_backups dec jm it now r explicit_delete = prune_manifests r now
     (map (\<lambda>n. from_manifest (manifest_of dec jm n)) (it (names_with JSON_BACKUP_PREFIX jm - set explicit_delete)))"

definition kept_deltas :: "(string \<Rightarrow> backup_manifest result) \<Rightarrow> (string \<rightharpoonup> string) \<Rightarrow> (string set \<Rightarrow> string list)
    \<Rightarrow> manifest_min list \<Rightarrow> manifest_min list" where
  "kept_deltas dec jm it kept = (case kept of [] \<Rightarrow> []
     | b # bs \<Rightarrow> filter (\<lambda>d. \<not> mm_end d < mm_end (min_by mm_start b bs))
         (map (\<lambda>n. from_manifest (manifest_of dec jm n)) (it (names_with JSON_DELTA_PREFIX jm))))"

definition kept_all :: "(string \<Rightarrow> backup_manifest result) \<Rightarrow> (string \<rightharpoonup> string) \<Rightarrow> (string set \<Rightarrow> string list)
    \<Rightarrow> (nat \<Rightarrow> int) \<Rightarrow> bool \<Rightarrow> retention \<Rightarrow> string list \<Rightarrow> manifest_min list" where
  "kept_all dec jm it now deltas r explicit_delete =
     (let kept = kept_backups dec jm it now r explicit_delete
      in if deltas then kept @ kept_deltas dec jm it kept else kept)"

section \<open>Correctness over the contracts\<close>

lemma result_hexdigests_ok:
  assumes "\<forall>r \<in> set rs. sr_hashes r \<noteq> None"
  shows "\<exists>ds. result_hexdigests rs = Inr ds
    \<and> set ds = (\<Union>r \<in> set rs. case sr_hashes r of None \<Rightarrow> {} | Some hs \<Rightarrow> sh_hexdigest ` set hs)"
  using assms by (induction rs) auto

definition remove_all :: "'k set \<Rightarrow> ('k \<rightharpoonup> 'v) \<Rightarrow> 'k \<rightharpoonup> 'v" where
  "remove_all K m = m |` (- K)"

lemma remove_all_apply: "remove_all K m k = (if k \<in> K then None else m k)"
  by (simp add: remove_all_def restrict_map_def)

lemma remove_all_simps [simp]:
  "remove_all {} m = m" "dom (remove_all K m) = dom m - K"
  by (auto simp: remove_all_def fun_eq_iff restrict_map_def split: if_splits)

lemma remove_all_remove_all: "remove_all K (m(k := None)) = remove_all (insert k K) m"
  by (auto simp: remove_all_def fun_eq_iff restrict_map_def)

lemma on_json_eq: "f (fst s) = (r, j) \<Longrightarrow> on_json f s = (r, (j, snd s))"
  and on_hex_eq: "g (snd s) = (r, h) \<Longrightarrow> on_hex g s = (r, (fst s, h))"
  by (simp_all add: on_json_def on_hex_def)

lemma from_manifest_of [simp]: "mm_filename (from_manifest (manifest_of dec jm n)) = n"
  by (simp add: from_manifest_def manifest_of_def)

locale cleanup_storages = json_storage jops jinv jsons + hexdigest_storage hops hinv blobs
  for jops :: "'j json_ops" and jinv :: "'j \<Rightarrow> bool" and jsons :: "'j \<Rightarrow> string \<rightharpoonup> string"
    and hops :: "'h hexdigest_ops" and hinv :: "'h \<Rightarrow> bool" and blobs :: "'h \<Rightarrow> string \<rightharpoonup> string" +
  fixes dec :: "string \<Rightarrow> backup_manifest result" and dec_min :: "string \<Rightarrow> manifest_min result"
    and it :: "string set \<Rightarrow> string list"
  assumes agree: "decoders_agree dec dec_min" and order: "set_order it"
begin

definition at :: "(string \<rightharpoonup> string) \<Rightarrow> (string \<rightharpoonup> string) \<Rightarrow> 'j \<times> 'h \<Rightarrow> bool" where
  "at jm bm s \<longleftrightarrow> jinv (fst s) \<and> jsons (fst s) = jm \<and> hinv (snd s) \<and> blobs (snd s) = bm"

lemma at_finite: "at jm bm s \<Longrightarrow> finite (dom jm) \<and> finite (dom bm) \<and> jm [] = None \<and> bm [] = None"
  using finite_jsons finite_blobs nonempty_name nonempty_digest by (auto simp: at_def)

lemma list_prefixed_ok:
  assumes "at jm bm s"
  shows "\<exists>s'. list_prefixed jops p s = (Inr (names_with p jm), s') \<and> at jm bm s'"
proof -
  obtain r j where l: "list_jsons jops (fst s) = (r, j)" by fastforce
  have "jinv (fst s)" using assms by (simp add: at_def)
  from list_law [OF this l] obtain ns where "jinv j" "jsons j = jsons (fst s)" "r = Inr ns" "set ns = dom (jsons (fst s))"
    by auto
  then show ?thesis using assms l
    by (auto simp: list_prefixed_def bind_st_def on_json_def at_def names_with_def)
qed

lemma download_min_ok:
  assumes "at jm bm s" and "readable dec jm n"
  shows "\<exists>s'. on_json (download_backup_min_manifest jops dec_min n) s
      = (Inr (from_manifest (manifest_of dec jm n)), s') \<and> at jm bm s'"
proof -
  obtain b m where bm: "jm n = Some b" "dec b = Inr m" "bm_filename m = [] \<or> bm_filename m = n"
    using assms(2) by (auto simp: readable_def)
  then have "dec_min b = Inr (from_manifest m)" "mm_filename (from_manifest m) = [] \<or> mm_filename (from_manifest m) = n"
    using agree by (auto simp: decoders_agree_def from_manifest_def)
  moreover have "jinv (fst s)" "jsons (fst s) n = Some b" using assms(1) bm by (auto simp: at_def)
  ultimately obtain j where "download_backup_min_manifest jops dec_min n (fst s) = (Inr (from_manifest m\<lparr>mm_filename := n\<rparr>), j)"
      "jinv j" "jsons j = jsons (fst s)"
    using download_min_manifest [of "fst s" n b dec_min "from_manifest m"] by metis
  then show ?thesis using assms(1) bm
    by (auto simp: on_json_def at_def from_manifest_def manifest_of_def)
qed

lemma download_full_ok:
  assumes "at jm bm s" and "readable dec jm n"
  shows "\<exists>s'. on_json (download_backup_manifest jops dec n) s = (Inr (manifest_of dec jm n), s') \<and> at jm bm s'"
proof -
  obtain b m where bm: "jm n = Some b" "dec b = Inr m" "bm_filename m = [] \<or> bm_filename m = n"
    using assms(2) by (auto simp: readable_def)
  moreover have "jinv (fst s)" "jsons (fst s) n = Some b" using assms(1) bm by (auto simp: at_def)
  ultimately obtain j where "download_backup_manifest jops dec n (fst s) = (Inr (m\<lparr>bm_filename := n\<rparr>), j)"
      "jinv j" "jsons j = jsons (fst s)"
    using download_manifest [of "fst s" n b dec m] by metis
  then show ?thesis using assms(1) bm by (auto simp: on_json_def at_def manifest_of_def)
qed

lemma compute_kept_ok:
  assumes s: "at jm bm s" and base: "\<forall>n \<in> names_with JSON_BACKUP_PREFIX jm. readable dec jm n"
    and delta: "deltas \<Longrightarrow> \<forall>n \<in> names_with JSON_DELTA_PREFIX jm. readable dec jm n"
  shows "\<exists>s'. compute_kept_backups_step jops dec_min r now it explicit (names_with JSON_BACKUP_PREFIX jm)
      (if deltas then Some (names_with JSON_DELTA_PREFIX jm) else None) s
    = (Inr (kept_all dec jm it now deltas r explicit), s') \<and> at jm bm s'"
proof -
  have fin: "finite (names_with p jm)" for p
    using at_finite [OF s] by (auto simp: names_with_def intro: finite_subset)
  let ?f = "\<lambda>n. on_json (download_backup_min_manifest jops dec_min n) :: ('j \<times> 'h, manifest_min) stateful"
  let ?g = "\<lambda>n. from_manifest (manifest_of dec jm n)"
  have it: "set (it (names_with p jm - X)) = names_with p jm - X" for p X
    using set_orderD(1) [OF order] fin by blast
  obtain s1 where s1: "map_st ?f (it (names_with JSON_BACKUP_PREFIX jm - set explicit)) s
      = (Inr (map ?g (it (names_with JSON_BACKUP_PREFIX jm - set explicit))), s1)" "at jm bm s1"
    using map_st_ok [of "at jm bm" s _ ?f ?g, OF s] it download_min_ok base by (metis (no_types, lifting) DiffD1)
  have base_ok: "compute_kept_basebackups jops dec_min r now it explicit (names_with JSON_BACKUP_PREFIX jm) s
      = (Inr (kept_backups dec jm it now r explicit), s1)"
    using s1 by (simp add: compute_kept_basebackups_def bind_st_def kept_backups_def)
  show ?thesis
  proof (cases deltas)
    case False
    then show ?thesis using base_ok s1(2) by (simp add: compute_kept_backups_step_def bind_st_def kept_all_def Let_def)
  next
    case True
    let ?kept = "kept_backups dec jm it now r explicit"
    have "\<exists>s2. compute_kept_deltas jops dec_min it (names_with JSON_DELTA_PREFIX jm) ?kept s1
        = (Inr (kept_deltas dec jm it ?kept), s2) \<and> at jm bm s2"
    proof (cases ?kept)
      case Nil
      then show ?thesis using s1(2) by (simp add: compute_kept_deltas_def kept_deltas_def)
    next
      case (Cons b bs)
      obtain s2 where "map_st ?f (it (names_with JSON_DELTA_PREFIX jm)) s1
          = (Inr (map ?g (it (names_with JSON_DELTA_PREFIX jm))), s2)" "at jm bm s2"
        using map_st_ok [of "at jm bm" s1 _ ?f ?g, OF s1(2)] it [of JSON_DELTA_PREFIX "{}"] download_min_ok delta True
        by (metis (no_types, lifting) Diff_empty)
      then show ?thesis using Cons by (simp add: compute_kept_deltas_def kept_deltas_def bind_st_def Let_def)
    qed
    then show ?thesis using base_ok True
      by (auto simp: compute_kept_backups_step_def bind_st_def kept_all_def Let_def)
  qed
qed

lemma delete_jsons_ok:
  assumes "at jm bm s" and "distinct ns" and "set ns \<subseteq> dom jm"
  shows "\<exists>s'. map_st (\<lambda>b. on_json (delete_json jops b)) ns s = (Inr (map (\<lambda>_. ()) ns), s') \<and> at (remove_all (set ns) jm) bm s'"
  using assms
proof (induction ns arbitrary: jm s)
  case (Cons n ns)
  have sub: "set ns \<subseteq> dom (jm(n := None))" using Cons.prems(2,3) by auto
  obtain r j where d: "delete_json jops n (fst s) = (r, j)" by fastforce
  have "jinv (fst s)" "n \<noteq> []" using Cons.prems at_finite by (fastforce simp: at_def)+
  from delete_law [OF this(1) d this(2)] have "r = Inr ()" "at (jm(n := None)) bm (j, snd s)"
    using Cons.prems by (auto simp: at_def split: option.splits)
  moreover obtain s' where "map_st (\<lambda>b. on_json (delete_json jops b)) ns (j, snd s) = (Inr (map (\<lambda>_. ()) ns), s')"
      "at (remove_all (set ns) (jm(n := None))) bm s'"
    using Cons.IH [OF calculation(2)] Cons.prems(2) sub by (metis distinct.simps(2))
  ultimately have "map_st (\<lambda>b. on_json (delete_json jops b)) (n # ns) s = (Inr (map (\<lambda>_. ()) (n # ns)), s')"
      "at (remove_all (set (n # ns)) jm) bm s'"
    using on_json_eq [of "delete_json jops n", OF d] by (simp_all add: bind_st_def remove_all_remove_all)
  then show ?case by blast
qed simp

lemma delete_hexdigests_ok:
  assumes "at jm bm s" and "distinct hs" and "set hs \<subseteq> dom bm"
  shows "\<exists>s'. map_st (\<lambda>h. on_hex (delete_hexdigest hops h)) hs s = (Inr (map (\<lambda>_. ()) hs), s') \<and> at jm (remove_all (set hs) bm) s'"
  using assms
proof (induction hs arbitrary: bm s)
  case (Cons h hs)
  have sub: "set hs \<subseteq> dom (bm(h := None))" using Cons.prems(2,3) by auto
  obtain r g where d: "delete_hexdigest hops h (snd s) = (r, g)" by fastforce
  have "hinv (snd s)" "h \<noteq> []" using Cons.prems at_finite by (fastforce simp: at_def)+
  from delete_hexdigest_law [OF this(1) d this(2)] have "r = Inr ()" "at jm (bm(h := None)) (fst s, g)"
    using Cons.prems by (auto simp: at_def split: option.splits)
  moreover obtain s' where "map_st (\<lambda>h. on_hex (delete_hexdigest hops h)) hs (fst s, g) = (Inr (map (\<lambda>_. ()) hs), s')"
      "at jm (remove_all (set hs) (bm(h := None))) s'"
    using Cons.IH [OF calculation(2)] Cons.prems(2) sub by (metis distinct.simps(2))
  ultimately have "map_st (\<lambda>h. on_hex (delete_hexdigest hops h)) (h # hs) s = (Inr (map (\<lambda>_. ()) (h # hs)), s')"
      "at jm (remove_all (set (h # hs)) bm) s'"
    using on_hex_eq [of "delete_hexdigest hops h", OF d] by (simp_all add: bind_st_def remove_all_remove_all)
  then show ?case by blast
qed simp

lemma discard_all_ok:
  assumes "at jm bm s" and "\<forall>m \<in> set ms. readable dec jm (mm_filename m)"
  shows "\<exists>s'. discard_all jops dec ms extra s
      = (Inr (extra - (\<Union>m \<in> set ms. referenced (manifest_of dec jm (mm_filename m)))), s') \<and> at jm bm s'"
  using assms
proof (induction ms arbitrary: extra s)
  case (Cons m ms)
  have rd: "readable dec jm (mm_filename m)" using Cons.prems by simp
  obtain s1 where s1: "on_json (download_backup_manifest jops dec (mm_filename m)) s
      = (Inr (manifest_of dec jm (mm_filename m)), s1)" "at jm bm s1"
    using download_full_ok [OF Cons.prems(1) rd] by blast
  have "\<forall>r \<in> set (bm_snapshot_results (manifest_of dec jm (mm_filename m))). sr_hashes r \<noteq> None"
    using rd by (auto simp: readable_def manifest_of_def)
  from result_hexdigests_ok [OF this] have "discard_referenced jops dec m extra s
      = (Inr (extra - referenced (manifest_of dec jm (mm_filename m))), s1)"
    using s1 by (auto simp: discard_referenced_def bind_st_def referenced_def)
  then show ?case using Cons.IH [OF s1(2), of "extra - referenced (manifest_of dec jm (mm_filename m))"] Cons.prems(2)
    by (auto simp: bind_st_def Diff_eq Int_assoc)
qed simp

lemma dangling_ok:
  assumes "at jm bm s" and "\<forall>m \<in> set ms. readable dec jm (mm_filename m)"
  shows "\<exists>s'. delete_dangling_hexdigests_step jops hops dec it ms s = (Inr (), s')
    \<and> at jm (bm |` (\<Union>m \<in> set ms. referenced (manifest_of dec jm (mm_filename m)))) s'"
proof -
  let ?R = "\<Union>m \<in> set ms. referenced (manifest_of dec jm (mm_filename m))"
  obtain r g where l: "list_hexdigests hops (snd s) = (r, g)" by fastforce
  have "hinv (snd s)" using assms by (simp add: at_def)
  from list_hexdigests_law [OF this l] obtain hs where hs: "r = Inr hs" "set hs = dom bm" "at jm bm (fst s, g)"
    using assms(1) by (auto simp: at_def)
  obtain s2 where s2: "discard_all jops dec ms (set hs) (fst s, g) = (Inr (dom bm - ?R), s2)" "at jm bm s2"
    using discard_all_ok [OF hs(3) assms(2), of "set hs"] hs(2) by auto
  have "finite (dom bm - ?R)" using at_finite [OF assms(1)] by simp
  note it = set_orderD [OF order this]
  then obtain s3 where s3: "map_st (\<lambda>h. on_hex (delete_hexdigest hops h)) (it (dom bm - ?R)) s2
      = (Inr (map (\<lambda>_. ()) (it (dom bm - ?R))), s3)" "at jm (remove_all (dom bm - ?R) bm) s3"
    using delete_hexdigests_ok [OF s2(2) it(2)] by auto
  have "remove_all (dom bm - ?R) bm = bm |` ?R"
    by (auto simp: remove_all_def restrict_map_def fun_eq_iff domIff)
  then show ?thesis using l hs(1) s2(1) s3
    by (auto simp: delete_dangling_hexdigests_step_def bind_st_def on_hex_def)
qed

lemma order_names:
  assumes "finite (dom jm)"
  shows "set (it (names_with p jm - X)) = names_with p jm - X"
  by (rule set_orderD(1) [OF order]) (use assms in \<open>auto simp: names_with_def intro: finite_subset\<close>)

lemma kept_backups_names:
  assumes "finite (dom jm)"
  shows "mm_filename ` set (kept_backups dec jm it now r explicit) \<subseteq> names_with JSON_BACKUP_PREFIX jm - set explicit"
proof -
  have "mm_filename ` set (kept_backups dec jm it now r explicit)
      \<subseteq> mm_filename ` set (map (\<lambda>n. from_manifest (manifest_of dec jm n)) (it (names_with JSON_BACKUP_PREFIX jm - set explicit)))"
    unfolding kept_backups_def by (intro image_mono prune_subset)
  also have "\<dots> \<subseteq> names_with JSON_BACKUP_PREFIX jm - set explicit" unfolding set_map order_names [OF assms] by auto
  finally show ?thesis .
qed

lemma kept_deltas_names:
  assumes "finite (dom jm)"
  shows "mm_filename ` set (kept_deltas dec jm it ks) \<subseteq> names_with JSON_DELTA_PREFIX jm"
proof -
  have "set (kept_deltas dec jm it ks)
      \<subseteq> set (map (\<lambda>n. from_manifest (manifest_of dec jm n)) (it (names_with JSON_DELTA_PREFIX jm - {})))"
    unfolding kept_deltas_def Diff_empty by (cases ks) (simp_all only: list.case filter_is_subset list.set empty_subsetI)
  then have "mm_filename ` set (kept_deltas dec jm it ks)
      \<subseteq> mm_filename ` set (map (\<lambda>n. from_manifest (manifest_of dec jm n)) (it (names_with JSON_DELTA_PREFIX jm - {})))"
    by (rule image_mono)
  also have "\<dots> \<subseteq> names_with JSON_DELTA_PREFIX jm" unfolding set_map order_names [OF assms] by auto
  finally show ?thesis .
qed

lemma kept_all_names:
  assumes "finite (dom jm)"
  shows "mm_filename ` set (kept_all dec jm it now deltas r explicit)
    \<subseteq> (names_with JSON_BACKUP_PREFIX jm - set explicit) \<union> (if deltas then names_with JSON_DELTA_PREFIX jm else {})"
  using kept_backups_names [OF assms, of now r explicit] kept_deltas_names [OF assms, of "kept_backups dec jm it now r explicit"]
  unfolding kept_all_def Let_def by (cases deltas) (simp_all add: image_Un le_supI1 le_supI2)

lemma cleanup_correct:
  fixes now :: "nat \<Rightarrow> int" and r :: retention and explicit :: "string list"
  assumes s: "at jm bm s" and base: "\<forall>n \<in> names_with JSON_BACKUP_PREFIX jm. readable dec jm n"
    and delta: "deltas \<Longrightarrow> \<forall>n \<in> names_with JSON_DELTA_PREFIX jm. readable dec jm n"
  defines "all \<equiv> names_with JSON_BACKUP_PREFIX jm \<union> (if deltas then names_with JSON_DELTA_PREFIX jm else {})"
    and "kept \<equiv> mm_filename ` set (kept_all dec jm it now deltas r explicit)"
  shows "\<exists>s'. cleanup jops hops dec dec_min it now deltas r explicit s = (Inr (), s')
    \<and> at (remove_all (all - kept) jm) (bm |` (\<Union>n \<in> kept. referenced (manifest_of dec jm n))) s'"
proof -
  let ?K = "kept_all dec jm it now deltas r explicit"
  let ?jm = "remove_all (all - kept) jm"
  note fin = at_finite [OF s]
  have sub: "kept \<subseteq> all"
    using kept_all_names [of jm now deltas r explicit] fin unfolding kept_def all_def by blast
  have rd: "\<forall>n \<in> all. readable dec jm n" using base delta by (auto simp: all_def)
  obtain s1 where s1: "list_backups_step jops s = (Inr (names_with JSON_BACKUP_PREFIX jm), s1)" "at jm bm s1"
    using list_prefixed_ok [OF s] unfolding list_backups_step_def by blast
  let ?ds = "if deltas then Some (names_with JSON_DELTA_PREFIX jm) else None"
  obtain s2 where s2: "(if deltas then bind_st (list_delta_backups_step jops) (\<lambda>ds s. (Inr (Some ds), s))
              else (\<lambda>s. (Inr None, s))) s1 = (Inr ?ds, s2)" "at jm bm s2"
    using list_prefixed_ok [OF s1(2), of JSON_DELTA_PREFIX] s1(2)
    by (cases deltas) (auto simp: bind_st_def list_delta_backups_step_def)
  obtain s3 where s3: "compute_kept_backups_step jops dec_min r now it explicit (names_with JSON_BACKUP_PREFIX jm) ?ds s2
      = (Inr ?K, s3)" "at jm bm s3"
    using compute_kept_ok [OF s2(2) base delta] by blast
  have all: "names_with JSON_BACKUP_PREFIX jm \<union> (case ?ds of None \<Rightarrow> {} | Some ds \<Rightarrow> ds) = all" by (simp add: all_def)
  have dom: "all - kept \<subseteq> dom jm" by (auto simp: all_def names_with_def split: if_splits)
  then have it: "set (it (all - kept)) = all - kept" "distinct (it (all - kept))"
    using set_orderD [OF order, of "all - kept"] fin finite_subset by blast+
  then obtain s4 where s4: "map_st (\<lambda>b. on_json (delete_json jops b)) (it (all - kept)) s3
      = (Inr (map (\<lambda>_. ()) (it (all - kept))), s4)" "at ?jm bm s4"
    using delete_jsons_ok [OF s3(2) it(2)] dom by auto
  have del: "delete_backup_manifests_step jops it all ?K s3 = (Inr (all - kept), s4)"
    using s4 by (simp add: delete_backup_manifests_step_def bind_st_def kept_def Let_def)
  have same: "readable dec ?jm n" "manifest_of dec ?jm n = manifest_of dec jm n" if "n \<in> kept" for n
    using that rd sub by (auto simp: readable_def manifest_of_def remove_all_apply)
  have kn: "\<forall>m \<in> set ?K. readable dec ?jm (mm_filename m)" using same by (auto simp: kept_def)
  have "(\<Union>m \<in> set ?K. referenced (manifest_of dec ?jm (mm_filename m))) = (\<Union>n \<in> kept. referenced (manifest_of dec jm n))"
    using same by (auto simp: kept_def)
  with dangling_ok [OF s4(2) kn] show ?thesis
    using s1(1) s2(1) s3(1) del unfolding cleanup_def bind_st_def by (auto simp: all)
qed

end

section \<open>Properties\<close>

text \<open>The premise shared by the properties: the two storages keep their contracts, the decoders agree,
  sets are iterated in some order, and the backups (and deltas, where the plugin has them) are
  readable.\<close>

definition cleanup_premises :: "'j json_ops \<Rightarrow> ('j \<Rightarrow> bool) \<Rightarrow> ('j \<Rightarrow> string \<rightharpoonup> string)
    \<Rightarrow> 'h hexdigest_ops \<Rightarrow> ('h \<Rightarrow> bool) \<Rightarrow> ('h \<Rightarrow> string \<rightharpoonup> string)
    \<Rightarrow> (string \<Rightarrow> backup_manifest result) \<Rightarrow> (string \<Rightarrow> manifest_min result) \<Rightarrow> (string set \<Rightarrow> string list) \<Rightarrow> bool
    \<Rightarrow> 'j \<times> 'h \<Rightarrow> bool" where
  "cleanup_premises jops jinv jsons hops hinv blobs dec dec_min it deltas s \<longleftrightarrow>
     json_storage jops jinv jsons \<and> hexdigest_storage hops hinv blobs \<and> decoders_agree dec dec_min \<and> set_order it
   \<and> jinv (fst s) \<and> hinv (snd s)
   \<and> (\<forall>n \<in> names_with JSON_BACKUP_PREFIX (jsons (fst s)). readable dec (jsons (fst s)) n)
   \<and> (deltas \<longrightarrow> (\<forall>n \<in> names_with JSON_DELTA_PREFIX (jsons (fst s)). readable dec (jsons (fst s)) n))"

lemma cleanup_result:
  fixes now :: "nat \<Rightarrow> int" and r :: retention and explicit :: "string list"
  assumes pre: "cleanup_premises jops jinv jsons hops hinv blobs dec dec_min it deltas s"
  defines "jm \<equiv> jsons (fst s)"
  defines "candidates \<equiv> names_with JSON_BACKUP_PREFIX jm \<union> (if deltas then names_with JSON_DELTA_PREFIX jm else {})"
    and "kept \<equiv> mm_filename ` set (kept_all dec jm it now deltas r explicit)"
  shows "\<exists>j h. cleanup jops hops dec dec_min it now deltas r explicit s = (Inr (), (j, h))
    \<and> jinv j \<and> hinv h \<and> kept \<subseteq> candidates
    \<and> kept \<subseteq> (names_with JSON_BACKUP_PREFIX jm - set explicit) \<union> names_with JSON_DELTA_PREFIX jm
    \<and> jsons j = remove_all (candidates - kept) jm
    \<and> blobs h = blobs (snd s) |` (\<Union>n \<in> kept. referenced (manifest_of dec jm n))"
proof -
  have loc: "cleanup_storages jops jinv jsons hops hinv blobs dec dec_min it"
    using pre by (simp add: cleanup_premises_def cleanup_storages_def cleanup_storages_axioms_def)
  have at: "cleanup_storages.at jinv jsons hinv blobs jm (blobs (snd s)) s"
    using pre by (simp add: cleanup_storages.at_def [OF loc] cleanup_premises_def jm_def)
  have "kept \<subseteq> (names_with JSON_BACKUP_PREFIX jm - set explicit) \<union> (if deltas then names_with JSON_DELTA_PREFIX jm else {})"
    unfolding kept_def
    by (rule cleanup_storages.kept_all_names [OF loc]) (use cleanup_storages.at_finite [OF loc at] in simp)
  then have sub: "kept \<subseteq> candidates" "kept \<subseteq> (names_with JSON_BACKUP_PREFIX jm - set explicit) \<union> names_with JSON_DELTA_PREFIX jm"
    unfolding candidates_def by (auto split: if_splits)
  have "\<exists>s'. cleanup jops hops dec dec_min it now deltas r explicit s = (Inr (), s')
      \<and> cleanup_storages.at jinv jsons hinv blobs (remove_all (candidates - kept) jm)
          (blobs (snd s) |` (\<Union>n \<in> kept. referenced (manifest_of dec jm n))) s'"
    unfolding candidates_def kept_def
    by (rule cleanup_storages.cleanup_correct [OF loc at]) (use pre in \<open>auto simp: cleanup_premises_def jm_def\<close>)
  then show ?thesis using sub by (auto simp: cleanup_storages.at_def [OF loc])
qed



section \<open>Instances and witnesses\<close>

text \<open>A storage with two backups and three contents, one of which no backup refers to. The decoder
  knows the two manifests.\<close>

definition example_manifest :: "int \<Rightarrow> string \<Rightarrow> backup_manifest" where
  "example_manifest t h = \<lparr>bm_start = t, bm_end = t, bm_attempt = 1,
     bm_snapshot_results = [\<lparr>nr_hostname = [], nr_az = [], nr_progress = new_progress, sr_start = t, sr_end = None,
        sr_state = None, sr_files = 0, sr_total_size = 0, sr_hashes = Some [\<lparr>sh_hexdigest = h, sh_size = 1\<rparr>]\<rparr>],
     bm_upload_results = [], bm_plugin = PFiles, bm_plugin_data = JNull, bm_filename = []\<rparr>"

definition example_dec :: "string \<Rightarrow> backup_manifest result" where
  "example_dec b = (if b = ''x'' then Inr (example_manifest 0 ''aa'')
     else if b = ''y'' then Inr (example_manifest 1 ''bb'') else Inl ValueError)"

definition example_dec_min :: "string \<Rightarrow> manifest_min result" where
  "example_dec_min b = (case example_dec b of Inl e \<Rightarrow> Inl e | Inr m \<Rightarrow> Inr (from_manifest m))"

lemma example_decoders: "decoders_agree example_dec example_dec_min"
  by (auto simp: decoders_agree_def example_dec_min_def)

text \<open>The coordinator's stack of JSON storages and the file storage of contents meet the interface.\<close>

interpretation fclean: cleanup_storages "clearing_ops (caching_ops file_json_ops file_json_ops)"
    "\<lambda>s. caching_inv file_inv file_jsons file_inv file_jsons (cc_storage s)" "\<lambda>s. caching_jsons file_jsons (cc_storage s)"
    file_hexdigest_ops file_inv file_blobs example_dec example_dec_min sorted_list_of_set
  by unfold_locales (simp_all add: example_decoders set_order_sorted_list_of_set)

definition example_store :: file_storage where
  "example_store = new_file_storage\<lparr>fs_files := [(''backup-1.json'', ''x''), (''aa.dat'', ''1''), (''bb.dat'', ''2''),
     (''cc.dat'', ''3''), (''backup-2.json'', ''y'')]\<rparr>"

lemma example_store_maps:
  "file_jsons example_store = [''backup-1'' \<mapsto> ''x'', ''backup-2'' \<mapsto> ''y'']"
  "file_blobs example_store = [''aa'' \<mapsto> ''1'', ''bb'' \<mapsto> ''2'', ''cc'' \<mapsto> ''3'']"
proof -
  have j: "x @ ''.json'' = n @ ''.json'' \<longleftrightarrow> x = n" "x @ ''.dat'' = n @ ''.dat'' \<longleftrightarrow> x = n" for x n :: string
    by simp_all
  have ne: "n @ ''.json'' \<noteq> h @ ''.dat''" for n h :: string
    using arg_cong [of "n @ ''.json''" "h @ ''.dat''" rev] by auto
  note eqs = j(1) [of _ "''backup-1''", simplified] j(1) [of _ "''backup-2''", simplified]
    j(2) [of _ "''aa''", simplified] j(2) [of _ "''bb''", simplified] j(2) [of _ "''cc''", simplified]
    ne [of _ "''aa''", simplified] ne [of _ "''bb''", simplified] ne [of _ "''cc''", simplified]
    ne [of "''backup-1''", THEN not_sym, simplified] ne [of "''backup-2''", THEN not_sym, simplified]
  show "file_jsons example_store = [''backup-1'' \<mapsto> ''x'', ''backup-2'' \<mapsto> ''y'']"
    "file_blobs example_store = [''aa'' \<mapsto> ''1'', ''bb'' \<mapsto> ''2'', ''cc'' \<mapsto> ''3'']"
    by (auto simp: fun_eq_iff file_jsons_def file_blobs_def json_to_path_def hexdigest_to_path_def example_store_def
        new_file_storage_def eqs)
qed

lemma example_names:
  "names_with JSON_BACKUP_PREFIX (file_jsons example_store) = {''backup-1'', ''backup-2''}"
  "names_with JSON_DELTA_PREFIX (file_jsons example_store) = {}"
  by (auto simp: names_with_def example_store_maps startswith_def JSON_BACKUP_PREFIX_def JSON_DELTA_PREFIX_def split: if_splits)

lemma example_premises:
  "cleanup_premises file_json_ops file_inv file_jsons file_hexdigest_ops file_inv file_blobs
     example_dec example_dec_min sorted_list_of_set False (example_store, example_store)"
proof -
  have "file_inv example_store"
    by (simp add: file_inv_def example_store_def new_file_storage_def good_suffix_def)
  moreover have "readable example_dec (file_jsons example_store) n" if "n \<in> {''backup-1'', ''backup-2''}" for n
    using that by (auto simp: readable_def example_store_maps example_dec_def example_manifest_def)
  ultimately show ?thesis
    by (auto simp: cleanup_premises_def example_names example_decoders set_order_sorted_list_of_set
        fjson.json_storage_axioms fhex.hexdigest_storage_axioms)
qed

definition keep_one :: retention where
  "keep_one = \<lparr>rt_minimum_backups = None, rt_maximum_backups = Some 1, rt_keep_days = None\<rparr>"

lemma example_kept:
  "kept_all example_dec (file_jsons example_store) sorted_list_of_set (\<lambda>_. 0) False keep_one []
     = [\<lparr>mm_start = 1, mm_end = 1, mm_filename = ''backup-2''\<rparr>]"
proof -
  have order: "sorted_list_of_set {''backup-1'', ''backup-2''} = [''backup-1'', ''backup-2'']" by code_simp
  have prune: "prune_manifests keep_one (\<lambda>_. 0) [\<lparr>mm_start = 0, mm_end = 0, mm_filename = ''backup-1''\<rparr>,
      \<lparr>mm_start = 1, mm_end = 1, mm_filename = ''backup-2''\<rparr>] = [\<lparr>mm_start = 1, mm_end = 1, mm_filename = ''backup-2''\<rparr>]"
    by code_simp
  have "from_manifest (manifest_of example_dec (file_jsons example_store) ''backup-1'') = \<lparr>mm_start = 0, mm_end = 0, mm_filename = ''backup-1''\<rparr>"
    "from_manifest (manifest_of example_dec (file_jsons example_store) ''backup-2'') = \<lparr>mm_start = 1, mm_end = 1, mm_filename = ''backup-2''\<rparr>"
    by (simp_all add: manifest_of_def from_manifest_def example_store_maps example_dec_def example_manifest_def)
  then show ?thesis
    by (simp add: kept_all_def kept_backups_def example_names order prune)
qed

lemma example_referenced: "referenced (manifest_of example_dec (file_jsons example_store) ''backup-2'') = {''bb''}"
  by (simp add: referenced_def manifest_of_def example_store_maps example_dec_def example_manifest_def)



end
