(* ===== verification/Backup_Listing.thy ===== *)
theory Backup_Listing
  imports Cleanup
begin

text \<open>
  Listing backups (\<^verbatim>\<open>astacus/coordinator/list.py\<close>) and the caching endpoint in front of it
  (\<^verbatim>\<open>_list_backups\<close> in \<^verbatim>\<open>astacus/coordinator/api.py\<close>).
\<close>

section \<open>File statistics of a manifest\<close>

text \<open>The first size seen of every digest, and the largest number of files that one node has of it.\<close>

definition add_size :: "snapshot_file \<Rightarrow> (string \<times> int) list \<Rightarrow> (string \<times> int) list" where
  "add_size f sizes = (if dict_get sizes (sf_hexdigest f) = None then dict_set (sf_hexdigest f) (sf_file_size f) sizes else sizes)"

definition add_max :: "string \<times> nat \<Rightarrow> (string \<times> nat) list \<Rightarrow> (string \<times> nat) list" where
  "add_max hc maxes = dict_set (fst hc) (max (case dict_get maxes (fst hc) of None \<Rightarrow> 0 | Some n \<Rightarrow> n) (snd hc)) maxes"

fun node_stats :: "snapshot_result list \<Rightarrow> (string \<times> nat) list \<times> (string \<times> int) list
    \<Rightarrow> ((string \<times> nat) list \<times> (string \<times> int) list) result" where
  "node_stats [] (maxes, sizes) = Inr (maxes, sizes)"
| "node_stats (r # rs) (maxes, sizes) = (case sr_state r of
      None \<Rightarrow> Inl AssertionError
    | Some st \<Rightarrow> node_stats rs (fold add_max (counter (map sf_hexdigest (ss_files st))) maxes,
                                fold add_size (ss_files st) sizes))"

definition compute_deduplicated_snapshot_file_stats :: "backup_manifest \<Rightarrow> (nat \<times> int) result" where
  "compute_deduplicated_snapshot_file_stats m =
     (case node_stats (bm_snapshot_results m) ([], []) of
        Inl e \<Rightarrow> Inl e
      | Inr (maxes, sizes) \<Rightarrow> bind_res
          (map_res (\<lambda>(h, n). case dict_get sizes h of None \<Rightarrow> Inl KeyError | Some sz \<Rightarrow> Inr (int n * sz)) maxes)
          (\<lambda>xs. Inr (sum_list (map snd maxes), sum_list xs)))"

section \<open>Listing\<close>

record single_backup =
  lb_name :: string
  lb_start :: int
  lb_end :: int
  lb_plugin :: plugin
  lb_attempt :: int
  lb_nodes :: nat
  lb_files :: int
  lb_total_size :: int
  lb_upload_size :: int
  lb_upload_stored_size :: int
  lb_cluster_files :: nat
  lb_cluster_data_size :: int

definition single_backup_of :: "string \<Rightarrow> backup_manifest \<Rightarrow> single_backup result" where
  "single_backup_of name m = bind_res (compute_deduplicated_snapshot_file_stats m) (\<lambda>(cf, cs). Inr
     \<lparr>lb_name = name, lb_start = bm_start m, lb_end = bm_end m, lb_plugin = bm_plugin m, lb_attempt = bm_attempt m,
      lb_nodes = length (bm_snapshot_results m),
      lb_files = sum_list (map sr_files (bm_snapshot_results m)),
      lb_total_size = sum_list (map sr_total_size (bm_snapshot_results m)),
      lb_upload_size = sum_list (map ur_total_size (bm_upload_results m)),
      lb_upload_stored_size = sum_list (map ur_total_stored_size (bm_upload_results m)),
      lb_cluster_files = cf, lb_cluster_data_size = cs\<rparr>)"

type_synonym storage_cache = "(string \<times> single_backup) list"

definition list_entry :: "'s json_ops \<Rightarrow> (string \<Rightarrow> backup_manifest result) \<Rightarrow> string \<Rightarrow> storage_cache
    \<Rightarrow> string \<Rightarrow> ('s, single_backup) stateful" where
  "list_entry ops dec pre cache name =
     (let backup_name = drop (length pre) name
      in case dict_get cache backup_name of
           Some e \<Rightarrow> (\<lambda>s. (Inr e, s))
         | None \<Rightarrow> bind_st (download_json ops dec name) (\<lambda>m s. (single_backup_of backup_name m, s)))"

definition iter_backups :: "'s json_ops \<Rightarrow> (string \<Rightarrow> backup_manifest result) \<Rightarrow> string \<Rightarrow> storage_cache
    \<Rightarrow> ('s, single_backup list) stateful" where
  "iter_backups ops dec pre cache = bind_st (list_jsons ops) (\<lambda>ns.
     map_st (list_entry ops dec pre cache) (filter (\<lambda>n. startswith n pre) (sort ns)))"

text \<open>The storages of a \<^verbatim>\<open>MultiStorage\<close>, each with a state of its own.\<close>

record list_for_storage =
  ls_storage_name :: string
  ls_backups :: "single_backup list"

definition on_storage_named :: "string \<Rightarrow> ('s, 'a) stateful \<Rightarrow> (string \<Rightarrow> 's, 'a) stateful" where
  "on_storage_named n f st = (case f (st n) of (r, s) \<Rightarrow> (r, st(n := s)))"

definition list_storage :: "'s json_ops \<Rightarrow> (string \<Rightarrow> backup_manifest result) \<Rightarrow> string \<Rightarrow> (string \<times> storage_cache) list
    \<Rightarrow> string \<Rightarrow> (string \<Rightarrow> 's, list_for_storage) stateful" where
  "list_storage ops dec pre cache name = bind_st
     (on_storage_named name (iter_backups ops dec pre (case dict_get cache name of None \<Rightarrow> [] | Some c \<Rightarrow> c)))
     (\<lambda>bs st. (Inr \<lparr>ls_storage_name = name, ls_backups = bs\<rparr>, st))"

definition iter_storages :: "'s json_ops \<Rightarrow> (string \<Rightarrow> backup_manifest result) \<Rightarrow> string list \<Rightarrow> string
    \<Rightarrow> (string \<times> storage_cache) list \<Rightarrow> string \<Rightarrow> (string \<Rightarrow> 's, list_for_storage list) stateful" where
  "iter_storages ops dec storages req_storage cache pre =
     map_st (list_storage ops dec pre cache)
       (filter (\<lambda>n. req_storage = [] \<or> req_storage = n) (sort storages))"

definition list_backups :: "'s json_ops \<Rightarrow> (string \<Rightarrow> backup_manifest result) \<Rightarrow> string list \<Rightarrow> string
    \<Rightarrow> (string \<times> storage_cache) list \<Rightarrow> (string \<Rightarrow> 's, list_for_storage list) stateful" where
  "list_backups ops dec storages req_storage cache = iter_storages ops dec storages req_storage cache JSON_BACKUP_PREFIX"

definition list_delta_backups :: "'s json_ops \<Rightarrow> (string \<Rightarrow> backup_manifest result) \<Rightarrow> string list \<Rightarrow> string
    \<Rightarrow> (string \<Rightarrow> 's, list_for_storage list) stateful" where
  "list_delta_backups ops dec storages req_storage = iter_storages ops dec storages req_storage [] JSON_DELTA_PREFIX"

text \<open>Dictionary comprehensions: a later entry with the same key replaces the earlier one.\<close>

definition dict_of :: "('k \<times> 'v) list \<Rightarrow> ('k \<times> 'v) list" where
  "dict_of kvs = fold (\<lambda>kv d. dict_set (fst kv) (snd kv) d) kvs []"

definition get_cache_entries_from_list_response :: "list_for_storage list \<Rightarrow> (string \<times> storage_cache) list" where
  "get_cache_entries_from_list_response resp =
     dict_of (map (\<lambda>l. (ls_storage_name l, dict_of (map (\<lambda>b. (lb_name b, b)) (ls_backups l)))) resp)"

section \<open>The endpoint\<close>

record 'c cached_list =
  cl_timestamp :: int
  cl_config :: 'c
  cl_request :: string
  cl_response :: "list_for_storage list"

record ('s, 'c) list_state =
  st_cached :: "'c cached_list option"
  st_running :: bool
  st_storages :: "string \<Rightarrow> 's"

text \<open>The request object is tested for its truth value, and an object of its class is always true,
  whichever storage it names.\<close>

definition request_truthy :: "string \<Rightarrow> bool" where "request_truthy req = True"

text \<open>\<open>t\<close> is the time of the request, \<open>t'\<close> the time at which the new listing is stored.\<close>

definition list_endpoint :: "'s json_ops \<Rightarrow> (string \<Rightarrow> backup_manifest result) \<Rightarrow> string list \<Rightarrow> 'c \<Rightarrow> int \<Rightarrow> int \<Rightarrow> int
    \<Rightarrow> string \<Rightarrow> (('s, 'c) list_state, list_for_storage list) stateful" where
  "list_endpoint ops dec storages config ttl t t' req s =
     (let cached = st_cached s;
          refresh = (\<lambda>cache.
            if st_running s then (Inl (HTTPException 429), s)
            else case list_backups ops dec storages req cache (st_storages s) of
                (Inl e, sts) \<Rightarrow> (Inl e, s\<lparr>st_storages := sts\<rparr>)
              | (Inr resp, sts) \<Rightarrow> (Inr resp, s\<lparr>st_storages := sts,
                   st_cached := Some \<lparr>cl_timestamp = t', cl_config = config, cl_request = req, cl_response = resp\<rparr>\<rparr>))
      in case cached of
           None \<Rightarrow> refresh []
         | Some c \<Rightarrow>
             if t - cl_timestamp c < ttl \<and> cl_config c = config \<and> request_truthy (cl_request c)
             then (Inr (cl_response c), s)
             else refresh (get_cache_entries_from_list_response (cl_response c)))"

section \<open>The statistics are those of the deduplicated files\<close>

definition dict_val :: "(string \<times> nat) list \<Rightarrow> string \<Rightarrow> nat" where
  "dict_val d h = (case map_of d h of None \<Rightarrow> 0 | Some n \<Rightarrow> n)"

definition files_of :: "snapshot_result \<Rightarrow> snapshot_file list" where
  "files_of r = (case sr_state r of None \<Rightarrow> [] | Some st \<Rightarrow> ss_files st)"

definition node_count :: "string \<Rightarrow> snapshot_result \<Rightarrow> nat" where
  "node_count h r = count_list (map sf_hexdigest (files_of r)) h"

definition manifest_digests :: "snapshot_result list \<Rightarrow> string set" where
  "manifest_digests rs = (\<Union>r \<in> set rs. sf_hexdigest ` set (files_of r))"

definition max_count :: "snapshot_result list \<Rightarrow> string \<Rightarrow> nat" where
  "max_count rs h = fold (\<lambda>r. max (node_count h r)) rs 0"

definition first_size :: "snapshot_result list \<Rightarrow> string \<Rightarrow> int" where
  "first_size rs h = (case find (\<lambda>f. sf_hexdigest f = h) (concat (map files_of rs)) of None \<Rightarrow> 0 | Some f \<Rightarrow> sf_file_size f)"

lemma add_max_fold:
  assumes "distinct (map fst c)"
  shows "dict_val (fold add_max c d) h = max (dict_val d h) (dict_val c h)"
    and "fst ` set (fold add_max c d) = fst ` set d \<union> fst ` set c"
    and "distinct (map fst d) \<Longrightarrow> distinct (map fst (fold add_max c d))"
  using assms
proof (induction c arbitrary: d)
  case (Cons x c)
  have v: "dict_val (add_max x d) h = (if h = fst x then max (dict_val d h) (snd x) else dict_val d h)" for h d
    by (auto simp: dict_val_def add_max_def update_conv')
  have k: "fst ` set (add_max x d) = insert (fst x) (fst ` set d)" for d
    by (simp add: add_max_def dom_update)
  { case 1
    have "map_of c (fst x) = None" using 1 by (simp add: map_of_eq_None_iff)
    then have "dict_val c (fst x) = 0" "dict_val (x # c) h = (if h = fst x then snd x else dict_val c h)"
      by (cases x; auto simp: dict_val_def)+
    then show ?case using Cons(1) [of "add_max x d"] 1 v by auto }
  { case 2 then show ?case using Cons(2) [of "add_max x d"] k by auto }
  { case 3 then show ?case using Cons(3) [of "add_max x d"] by (simp add: add_max_def distinct_update) }
qed (simp_all add: dict_val_def)

lemma add_size_fold:
  "map_of (fold add_size fs d) h =
     (case map_of d h of Some sz \<Rightarrow> Some sz | None \<Rightarrow> map_option sf_file_size (find (\<lambda>f. sf_hexdigest f = h) fs))"
  by (induction fs arbitrary: d) (auto simp: add_size_def update_conv' split: option.splits)

lemma dict_val_counter: "dict_val (counter xs) h = count_list xs h"
  by (auto simp: dict_val_def map_of_counter)

lemma node_stats_ok:
  assumes "\<forall>r \<in> set rs. sr_state r \<noteq> None" and "distinct (map fst maxes)"
  shows "\<exists>maxes' sizes'. node_stats rs (maxes, sizes) = Inr (maxes', sizes') \<and> distinct (map fst maxes')
    \<and> fst ` set maxes' = fst ` set maxes \<union> manifest_digests rs
    \<and> (\<forall>h. dict_val maxes' h = fold (\<lambda>r. max (node_count h r)) rs (dict_val maxes h))
    \<and> (\<forall>h. map_of sizes' h = (case map_of sizes h of Some sz \<Rightarrow> Some sz
          | None \<Rightarrow> map_option sf_file_size (find (\<lambda>f. sf_hexdigest f = h) (concat (map files_of rs)))))"
  using assms
proof (induction rs arbitrary: maxes sizes)
  case Nil
  then show ?case by (auto simp: manifest_digests_def split: option.splits)
next
  case (Cons r rs)
  obtain st where st: "sr_state r = Some st" using Cons.prems by auto
  let ?c = "counter (map sf_hexdigest (ss_files st))"
  let ?m = "fold add_max ?c maxes" and ?s = "fold add_size (ss_files st) sizes"
  note am = add_max_fold [OF distinct_counter [of "map sf_hexdigest (ss_files st)"], where d = maxes]
  have f: "files_of r = ss_files st" by (simp add: files_of_def st)
  have "\<forall>r \<in> set rs. sr_state r \<noteq> None" "distinct (map fst ?m)" using Cons.prems am(3) by simp_all
  from Cons.IH [OF this, of ?s] obtain maxes' sizes' where
    IH: "node_stats rs (?m, ?s) = Inr (maxes', sizes')" "distinct (map fst maxes')"
      "fst ` set maxes' = fst ` set ?m \<union> manifest_digests rs"
      "\<And>h. dict_val maxes' h = fold (\<lambda>r. max (node_count h r)) rs (dict_val ?m h)"
      "\<And>h. map_of sizes' h = (case map_of ?s h of Some sz \<Rightarrow> Some sz
          | None \<Rightarrow> map_option sf_file_size (find (\<lambda>f. sf_hexdigest f = h) (concat (map files_of rs))))"
    by blast
  have find_app: "find P (xs @ ys) = (case find P xs of Some x \<Rightarrow> Some x | None \<Rightarrow> find P ys)" for P and xs ys :: "snapshot_file list"
    by (induction xs) auto
  have "fst ` set maxes' = fst ` set maxes \<union> manifest_digests (r # rs)"
    using IH(3) am(2) by (auto simp: manifest_digests_def keys_counter f)
  moreover have "dict_val maxes' h = fold (\<lambda>r. max (node_count h r)) (r # rs) (dict_val maxes h)" for h
    using IH(4) am(1) by (simp add: dict_val_counter node_count_def f max.commute)
  moreover have "map_of sizes' h = (case map_of sizes h of Some sz \<Rightarrow> Some sz
          | None \<Rightarrow> map_option sf_file_size (find (\<lambda>f. sf_hexdigest f = h) (concat (map files_of (r # rs)))))" for h
    using IH(5) by (auto simp: add_size_fold f find_app split: option.splits)
  ultimately show ?case using IH(1,2) st by auto
qed

lemma sum_dict:
  assumes "distinct (map fst d)"
  shows "(\<Sum>x\<leftarrow>d. g x) = (\<Sum>h \<in> fst ` set d. g (h, dict_val d h))"
proof -
  have "(\<Sum>x\<leftarrow>d. g x) = sum g (set d)" using assms by (simp add: distinct_map sum_list_distinct_conv_sum_set)
  also have "\<dots> = (\<Sum>h \<in> fst ` set d. g (h, dict_val d h))"
    by (rule sum.reindex_cong [of "\<lambda>h. (h, dict_val d h)"])
       (use assms in \<open>auto simp: inj_on_def dict_val_def image_iff intro!: rev_bexI split: option.splits\<close>)
  finally show ?thesis .
qed

lemma find_digest: "h \<in> manifest_digests rs \<Longrightarrow> \<exists>f. find (\<lambda>f. sf_hexdigest f = h) (concat (map files_of rs)) = Some f"
  by (cases "find (\<lambda>f. sf_hexdigest f = h) (concat (map files_of rs))") (auto simp: manifest_digests_def find_None_iff)

text \<open>The statistics of a backup are those of its deduplicated files: every digest counts as often
  as the node that has it most often, with the size of its first occurrence.\<close>

theorem deduplicated_stats:
  assumes "\<forall>r \<in> set (bm_snapshot_results m). sr_state r \<noteq> None"
  shows "compute_deduplicated_snapshot_file_stats m = Inr
     (\<Sum>h \<in> manifest_digests (bm_snapshot_results m). max_count (bm_snapshot_results m) h,
      \<Sum>h \<in> manifest_digests (bm_snapshot_results m).
         int (max_count (bm_snapshot_results m) h) * first_size (bm_snapshot_results m) h)"
proof -
  let ?rs = "bm_snapshot_results m"
  obtain maxes sizes where st: "node_stats ?rs ([], []) = Inr (maxes, sizes)" "distinct (map fst maxes)"
    "fst ` set maxes = manifest_digests ?rs" "\<And>h. dict_val maxes h = max_count ?rs h"
    "\<And>h. map_of sizes h = map_option sf_file_size (find (\<lambda>f. sf_hexdigest f = h) (concat (map files_of ?rs)))"
    using node_stats_ok [OF assms, of "[]" "[]"] by (auto simp: max_count_def dict_val_def)
  have size: "map_of sizes h = Some (first_size ?rs h)" if "h \<in> manifest_digests ?rs" for h
    using find_digest [OF that] st(5) by (auto simp: first_size_def)
  have "map_res (\<lambda>(h, n). case dict_get sizes h of None \<Rightarrow> Inl KeyError | Some sz \<Rightarrow> Inr (int n * sz)) maxes
      = Inr (map (\<lambda>(h, n). int n * first_size ?rs h) maxes)"
    by (rule map_res_total) (use size st(3) in force)
  then have "compute_deduplicated_snapshot_file_stats m
      = Inr (\<Sum>x\<leftarrow>maxes. snd x, \<Sum>x\<leftarrow>maxes. (\<lambda>(h, n). int n * first_size ?rs h) x)"
    using st(1) by (simp add: compute_deduplicated_snapshot_file_stats_def)
  then show ?thesis unfolding sum_dict [OF st(2)] st(3,4) by simp
qed

definition example_file :: "string \<Rightarrow> string \<Rightarrow> int \<Rightarrow> snapshot_file" where
  "example_file p h n = \<lparr>sf_relative_path = p, sf_file_size = n, sf_mtime_ns = 0, sf_hexdigest = h, sf_content_b64 = None\<rparr>"

definition example_listed :: backup_manifest where
  "example_listed = example_manifest 1 ''bb''\<lparr>bm_snapshot_results := map (\<lambda>fs. \<lparr>nr_hostname = [], nr_az = [],
      nr_progress = new_progress, sr_start = 1, sr_end = None,
      sr_state = Some \<lparr>ss_root_globs = [''*''], ss_files = fs\<rparr>, sr_files = int (length fs), sr_total_size = 0, sr_hashes = None\<rparr>)
     [[example_file ''f'' ''aa'' 3, example_file ''g'' ''aa'' 3], [example_file ''f'' ''aa'' 3, example_file ''h'' ''bb'' 5]]\<rparr>"

theorem deduplicated_stats_witness:
  "(\<Sum>h \<in> manifest_digests (bm_snapshot_results example_listed). max_count (bm_snapshot_results example_listed) h) = 3"
proof -
  have "compute_deduplicated_snapshot_file_stats example_listed = Inr (3, 11)" by code_simp
  moreover have "\<forall>r \<in> set (bm_snapshot_results example_listed). sr_state r \<noteq> None"
    by (simp add: example_listed_def)
  ultimately show ?thesis using deduplicated_stats [of example_listed] by simp
qed

section \<open>The cache of entries is transparent\<close>

definition listable :: "(string \<Rightarrow> backup_manifest result) \<Rightarrow> (string \<rightharpoonup> string) \<Rightarrow> string \<Rightarrow> bool" where
  "listable dec jm n \<longleftrightarrow> (\<exists>b m. jm n = Some b \<and> dec b = Inr m \<and> (\<forall>r \<in> set (bm_snapshot_results m). sr_state r \<noteq> None))"

definition entry_of :: "(string \<Rightarrow> backup_manifest result) \<Rightarrow> string \<Rightarrow> string \<Rightarrow> string \<Rightarrow> single_backup" where
  "entry_of dec pre n b = projr (single_backup_of (drop (length pre) n) (projr (dec b)))"

text \<open>What a listing of one storage should be.\<close>

definition listing :: "(string \<Rightarrow> backup_manifest result) \<Rightarrow> string \<Rightarrow> (string \<rightharpoonup> string) \<Rightarrow> single_backup list" where
  "listing dec pre jm = map (\<lambda>n. entry_of dec pre n (the (jm n)))
     (filter (\<lambda>n. startswith n pre) (sorted_list_of_set (dom jm)))"

lemma single_backup_of_listable:
  assumes "listable dec jm n"
  shows "\<exists>b m. jm n = Some b \<and> dec b = Inr m
    \<and> single_backup_of (drop (length pre) n) m = Inr (entry_of dec pre n b)"
proof -
  obtain b m where bm: "jm n = Some b" "dec b = Inr m" "\<forall>r \<in> set (bm_snapshot_results m). sr_state r \<noteq> None"
    using assms by (auto simp: listable_def)
  have "single_backup_of (drop (length pre) n) m = Inr (entry_of dec pre n b)"
    using deduplicated_stats [OF bm(3)] bm(2) by (simp add: entry_of_def single_backup_of_def)
  with bm show ?thesis by blast
qed

text \<open>A cache is valid for a storage if its entries are right for the backups that are still there.\<close>

definition valid_cache :: "(string \<Rightarrow> backup_manifest result) \<Rightarrow> string \<Rightarrow> (string \<rightharpoonup> string) \<Rightarrow> storage_cache \<Rightarrow> bool" where
  "valid_cache dec pre jm cache \<longleftrightarrow> (\<forall>n b e. jm (pre @ n) = Some b \<and> map_of cache n = Some e \<longrightarrow> e = entry_of dec pre (pre @ n) b)"

context json_storage
begin

lemma list_entry_ok:
  assumes "inv s" and "jsons s = jm" and "listable dec jm n" and "startswith n pre" and "valid_cache dec pre jm cache"
  shows "\<exists>s'. list_entry ops dec pre cache n s = (Inr (entry_of dec pre n (the (jm n))), s') \<and> inv s' \<and> jsons s' = jm"
proof -
  obtain b m where bm: "jm n = Some b" "dec b = Inr m" "single_backup_of (drop (length pre) n) m = Inr (entry_of dec pre n b)"
    using single_backup_of_listable [OF assms(3)] by blast
  have n: "n = pre @ drop (length pre) n" using assms(4) by (metis append_take_drop_id startswith_def)
  show ?thesis
  proof (cases "map_of cache (drop (length pre) n)")
    case None
    obtain s' where "open_json_bytes ops n s = (Inr b, s')" "inv s'" "jsons s' = jsons s"
      using open_jsonE [OF assms(1), of n b] assms(2) bm(1) by metis
    then show ?thesis using None bm assms(2)
      by (simp add: list_entry_def Let_def download_json_def bind_st_def)
  next
    case (Some e)
    then have "e = entry_of dec pre n b" using assms(5) bm(1) n by (metis valid_cache_def)
    then show ?thesis using Some bm(1) assms(1,2) by (simp add: list_entry_def Let_def)
  qed
qed

lemma iter_backups_ok:
  assumes "inv s" and "jsons s = jm" and "\<forall>n. startswith n pre \<and> n \<in> dom jm \<longrightarrow> listable dec jm n"
    and "valid_cache dec pre jm cache"
  shows "\<exists>s'. iter_backups ops dec pre cache s = (Inr (listing dec pre jm), s') \<and> inv s' \<and> jsons s' = jm"
proof -
  obtain r s1 where l: "list_jsons ops s = (r, s1)" by fastforce
  from list_law [OF assms(1) l] obtain ns where ns: "inv s1" "jsons s1 = jm" "r = Inr ns" "set ns = dom jm" "distinct ns"
    using assms(2) by auto
  have sorted: "sort ns = sorted_list_of_set (dom jm)"
    using sorted_list_of_set_sort_remdups [of ns] ns(4,5) by (simp add: distinct_remdups_id)
  have "\<exists>s'. map_st (list_entry ops dec pre cache) (filter (\<lambda>n. startswith n pre) (sort ns)) s1
      = (Inr (map (\<lambda>n. entry_of dec pre n (the (jm n))) (filter (\<lambda>n. startswith n pre) (sort ns))), s')
      \<and> (inv s' \<and> jsons s' = jm)"
    by (rule map_st_ok) (use ns assms list_entry_ok in auto)
  then show ?thesis using l ns(3) by (simp add: iter_backups_def bind_st_def listing_def sorted)
qed

lemma list_backups_ok:
  assumes "\<forall>n. inv (st n) \<and> jsons (st n) = jm n"
    and "\<forall>n \<in> set storages. \<forall>k. startswith k JSON_BACKUP_PREFIX \<and> k \<in> dom (jm n) \<longrightarrow> listable dec (jm n) k"
    and "\<forall>n \<in> set storages. \<forall>c. map_of cache n = Some c \<longrightarrow> valid_cache dec JSON_BACKUP_PREFIX (jm n) c"
  shows "\<exists>st'. list_backups ops dec storages req cache st
     = (Inr (map (\<lambda>n. \<lparr>ls_storage_name = n, ls_backups = listing dec JSON_BACKUP_PREFIX (jm n)\<rparr>)
          (filter (\<lambda>n. req = [] \<or> req = n) (sort storages))), st')
     \<and> (\<forall>n. inv (st' n) \<and> jsons (st' n) = jm n)"
  unfolding list_backups_def iter_storages_def
proof (rule map_st_ok [where P = "\<lambda>st. \<forall>n. inv (st n) \<and> jsons (st n) = jm n", OF assms(1)])
  fix n and st :: "string \<Rightarrow> 's"
  assume n: "n \<in> set (filter (\<lambda>n. req = [] \<or> req = n) (sort storages))" and st: "\<forall>n. inv (st n) \<and> jsons (st n) = jm n"
  let ?c = "case map_of cache n of None \<Rightarrow> [] | Some c \<Rightarrow> c"
  have "valid_cache dec JSON_BACKUP_PREFIX (jm n) ?c"
    using assms(3) n by (auto simp: valid_cache_def split: option.splits)
  then obtain s' where "iter_backups ops dec JSON_BACKUP_PREFIX ?c (st n) = (Inr (listing dec JSON_BACKUP_PREFIX (jm n)), s')"
      "inv s'" "jsons s' = jm n"
    using iter_backups_ok [of "st n" "jm n" JSON_BACKUP_PREFIX dec ?c] st assms(2) n by auto
  then show "\<exists>st'. list_storage ops dec JSON_BACKUP_PREFIX cache n st
      = (Inr \<lparr>ls_storage_name = n, ls_backups = listing dec JSON_BACKUP_PREFIX (jm n)\<rparr>, st')
      \<and> (\<forall>n. inv (st' n) \<and> jsons (st' n) = jm n)"
    using st by (auto simp: list_storage_def on_storage_named_def bind_st_def)
qed

end

lemma map_of_dict_of: "map_of (dict_of kvs) = map_of (rev kvs)"
proof -
  have "map_of (fold (\<lambda>kv d. dict_set (fst kv) (snd kv) d) kvs d) = map_of d ++ map_of (rev kvs)" for d
    by (induction kvs arbitrary: d) (auto simp: update_conv' map_add_def fun_eq_iff split: option.splits)
  then show ?thesis by (simp add: dict_of_def)
qed

lemma dict_of_SomeD: "map_of (dict_of kvs) k = Some v \<Longrightarrow> (k, v) \<in> set kvs"
  unfolding map_of_dict_of by (drule map_of_SomeD) simp

lemma in_listing:
  assumes "e \<in> set (listing dec pre jm)" and "finite (dom jm)"
    and "\<forall>k. startswith k pre \<and> k \<in> dom jm \<longrightarrow> listable dec jm k"
  shows "\<exists>b. jm (pre @ lb_name e) = Some b \<and> e = entry_of dec pre (pre @ lb_name e) b"
proof -
  obtain n where n: "n \<in> dom jm" "startswith n pre" "e = entry_of dec pre n (the (jm n))"
    using assms(1,2) by (auto simp: listing_def)
  with assms(3) obtain b m where bm: "jm n = Some b" "single_backup_of (drop (length pre) n) m = Inr (entry_of dec pre n b)"
    using single_backup_of_listable [of dec jm n pre] by blast
  then have "lb_name e = drop (length pre) n"
    using n(3) by (auto simp: single_backup_of_def bind_res_Inr_iff split: prod.splits dest: arg_cong [of _ _ lb_name])
  moreover have "n = pre @ drop (length pre) n" using n(2) by (metis append_take_drop_id startswith_def)
  ultimately show ?thesis using bm(1) n(3) by simp
qed

text \<open>The entries of an earlier listing are valid as long as no backup has changed its content.\<close>

lemma cache_of_listing_valid:
  assumes "\<forall>n. finite (dom (jm0 n))"
    and "\<forall>n k. startswith k pre \<and> k \<in> dom (jm0 n) \<longrightarrow> listable dec (jm0 n) k"
    and "\<forall>n k b0 b. jm0 n k = Some b0 \<and> jm n k = Some b \<longrightarrow> b = b0"
    and "map_of (get_cache_entries_from_list_response
           (map (\<lambda>n. \<lparr>ls_storage_name = n, ls_backups = listing dec pre (jm0 n)\<rparr>) names)) n = Some c"
  shows "valid_cache dec pre (jm n) c"
proof -
  have c: "c = dict_of (map (\<lambda>b. (lb_name b, b)) (listing dec pre (jm0 n)))"
    using dict_of_SomeD [OF assms(4) [unfolded get_cache_entries_from_list_response_def]] by auto
  have "e = entry_of dec pre (pre @ k) b" if "jm n (pre @ k) = Some b" "map_of c k = Some e" for k b e
  proof -
    from that(2) have e: "e \<in> set (listing dec pre (jm0 n))" "lb_name e = k"
      unfolding c by (auto dest!: dict_of_SomeD)
    obtain b0 where "jm0 n (pre @ k) = Some b0" "e = entry_of dec pre (pre @ k) b0"
      using in_listing [OF e(1)] e(2) assms(1,2) by blast
    then show ?thesis using assms(3) that(1) by blast
  qed
  then show ?thesis by (simp add: valid_cache_def)
qed

definition listing_premises :: "'s json_ops \<Rightarrow> ('s \<Rightarrow> bool) \<Rightarrow> ('s \<Rightarrow> string \<rightharpoonup> string)
    \<Rightarrow> (string \<Rightarrow> backup_manifest result) \<Rightarrow> (string \<Rightarrow> 's) \<Rightarrow> bool" where
  "listing_premises ops jinv jsons dec st \<longleftrightarrow> json_storage ops jinv jsons \<and> (\<forall>n. jinv (st n)
     \<and> (\<forall>k. startswith k JSON_BACKUP_PREFIX \<and> k \<in> dom (jsons (st n)) \<longrightarrow> listable dec (jsons (st n)) k))"

text \<open>C21. Listing with the entries remembered from an earlier listing gives the same answer as listing
  afresh, whatever backups were added or deleted in between, as long as no backup changed its
  content; both are the sorted listing of the backups that are in the storages.\<close>

theorem list_cache_transparent:
  assumes "listing_premises ops jinv jsons dec st0" and "listing_premises ops jinv jsons dec st"
    and "fst (list_backups ops dec storages0 req0 [] st0) = Inr earlier"
    and "\<forall>n k b0 b. jsons (st0 n) k = Some b0 \<and> jsons (st n) k = Some b \<longrightarrow> b = b0"
  shows "fst (list_backups ops dec storages req (get_cache_entries_from_list_response earlier) st)
           = fst (list_backups ops dec storages req [] st)
       \<and> fst (list_backups ops dec storages req [] st)
           = Inr (map (\<lambda>n. \<lparr>ls_storage_name = n, ls_backups = listing dec JSON_BACKUP_PREFIX (jsons (st n))\<rparr>)
               (filter (\<lambda>n. req = [] \<or> req = n) (sort storages)))"
proof -
  have js: "json_storage ops jinv jsons" using assms(1) by (simp add: listing_premises_def)
  have "\<exists>st'. list_backups ops dec storages0 req0 [] st0
     = (Inr (map (\<lambda>n. \<lparr>ls_storage_name = n, ls_backups = listing dec JSON_BACKUP_PREFIX (jsons (st0 n))\<rparr>)
          (filter (\<lambda>n. req0 = [] \<or> req0 = n) (sort storages0))), st') \<and> (\<forall>n. jinv (st' n) \<and> jsons (st' n) = jsons (st0 n))"
    by (rule json_storage.list_backups_ok [OF js]) (use assms(1) in \<open>auto simp: listing_premises_def\<close>)
  then have e: "earlier = map (\<lambda>n. \<lparr>ls_storage_name = n, ls_backups = listing dec JSON_BACKUP_PREFIX (jsons (st0 n))\<rparr>)
          (filter (\<lambda>n. req0 = [] \<or> req0 = n) (sort storages0))"
    using assms(3) by auto
  have fin: "\<forall>n. finite (dom (jsons (st0 n)))"
    using assms(1) json_storage.finite_jsons [OF js] by (auto simp: listing_premises_def)
  have valid: "valid_cache dec JSON_BACKUP_PREFIX (jsons (st n)) c"
    if "map_of (get_cache_entries_from_list_response earlier) n = Some c" for n c
    by (rule cache_of_listing_valid [where ?jm0.0 = "\<lambda>n. jsons (st0 n)" and jm = "\<lambda>n. jsons (st n)"])
       (use fin assms(1,4) that [unfolded e] in \<open>auto simp: listing_premises_def\<close>)
  have "\<exists>st'. list_backups ops dec storages req cache st
     = (Inr (map (\<lambda>n. \<lparr>ls_storage_name = n, ls_backups = listing dec JSON_BACKUP_PREFIX (jsons (st n))\<rparr>)
          (filter (\<lambda>n. req = [] \<or> req = n) (sort storages))), st') \<and> (\<forall>n. jinv (st' n) \<and> jsons (st' n) = jsons (st n))"
    if "\<And>n c. map_of cache n = Some c \<Longrightarrow> valid_cache dec JSON_BACKUP_PREFIX (jsons (st n)) c" for cache
    by (rule json_storage.list_backups_ok [OF js]) (use assms(2) that in \<open>auto simp: listing_premises_def\<close>)
  from this [OF valid] this [of "[]"] show ?thesis by fastforce
qed

section \<open>The cached response is served for every request\<close>


definition listed_dec :: "string \<Rightarrow> backup_manifest result" where
  "listed_dec b = Inr example_listed"

lemma example_listing_premises: "listing_premises file_json_ops file_inv file_jsons listed_dec (\<lambda>_. example_store)"
proof -
  have "file_inv example_store" using example_premises by (simp add: cleanup_premises_def)
  moreover have "listable listed_dec (file_jsons example_store) k" if "k \<in> dom (file_jsons example_store)" for k
    using that by (auto simp: listable_def listed_dec_def example_listed_def)
  ultimately show ?thesis by (auto simp: listing_premises_def fjson.json_storage_axioms)
qed

theorem list_cache_transparent_witness:
  "fst (list_backups file_json_ops listed_dec [''s''] [] (get_cache_entries_from_list_response
        [\<lparr>ls_storage_name = ''s'', ls_backups = listing listed_dec JSON_BACKUP_PREFIX (file_jsons example_store)\<rparr>])
      (\<lambda>_. example_store)) = fst (list_backups file_json_ops listed_dec [''s''] [] [] (\<lambda>_. example_store))"
proof -
  have "\<exists>st'. list_backups file_json_ops listed_dec [''s''] [] [] (\<lambda>_. example_store)
     = (Inr (map (\<lambda>n. \<lparr>ls_storage_name = n, ls_backups = listing listed_dec JSON_BACKUP_PREFIX (file_jsons example_store)\<rparr>)
          (filter (\<lambda>n. ([] :: string) = [] \<or> [] = n) (sort [''s'']))), st') \<and> (\<forall>n. file_inv (st' n) \<and> file_jsons (st' n) = file_jsons example_store)"
    by (rule fjson.list_backups_ok [where jm = "\<lambda>_. file_jsons example_store"])
       (use example_listing_premises in \<open>auto simp: listing_premises_def\<close>)
  then have "fst (list_backups file_json_ops listed_dec [''s''] [] [] (\<lambda>_. example_store))
      = Inr [\<lparr>ls_storage_name = ''s'', ls_backups = listing listed_dec JSON_BACKUP_PREFIX (file_jsons example_store)\<rparr>]"
    by auto
  note earlier = this
  have "\<forall>n k b0 b. file_jsons ((\<lambda>_. example_store) n) k = Some b0 \<and> file_jsons ((\<lambda>_. example_store) n) k = Some b \<longrightarrow> b = b0"
    by auto
  from list_cache_transparent [OF example_listing_premises example_listing_premises earlier this, of "[''s'']" "[]"]
  show ?thesis by (rule conjunct1)
qed


end
