(* ===== verification/Base64.thy ===== *)
theory Base64
  imports Astacus_Prelude
begin

text \<open>
  Base64 as the standard library's \<^verbatim>\<open>base64.b64encode\<close> and \<^verbatim>\<open>base64.b64decode\<close> do it: small files are
  embedded in manifests in this encoding (\<^verbatim>\<open>_compute_digests\<close> in \<^verbatim>\<open>astacus/node/snapshotter.py\<close>) and
  written back on restore (\<^verbatim>\<open>_download_snapshotfile\<close> in \<^verbatim>\<open>astacus/node/download.py\<close>). The decoder skips
  characters outside of the alphabet and stops at the padding. A padding character in the first half
  of a group, which the library skips and no encoder writes, is refused.
\<close>

definition b64_table :: string where
  "b64_table = ''ABCDEFGHIJKLMNOPQRSTUVWXYZabcdefghijklmnopqrstuvwxyz0123456789+/''"

definition b64_char :: "nat \<Rightarrow> char" where
  "b64_char n = b64_table ! n"

definition b64_val :: "char \<Rightarrow> nat option" where
  "b64_val c = map_of (zip b64_table [0..<64]) c"

definition b64_pad :: char where "b64_pad = CHR ''=''"

fun b64_groups :: "nat list \<Rightarrow> string" where
  "b64_groups [] = []"
| "b64_groups [a] = [b64_char (a div 4), b64_char (a mod 4 * 16), b64_pad, b64_pad]"
| "b64_groups [a, b] = [b64_char (a div 4), b64_char (a mod 4 * 16 + b div 16), b64_char (b mod 16 * 4), b64_pad]"
| "b64_groups (a # b # c # xs) =
     b64_char (a div 4) # b64_char (a mod 4 * 16 + b div 16) # b64_char (b mod 16 * 4 + c div 64) # b64_char (c mod 64)
       # b64_groups xs"

definition b64encode :: "string \<Rightarrow> string" where
  "b64encode s = b64_groups (map of_char s)"

fun b64_ungroup :: "string \<Rightarrow> nat list option" where
  "b64_ungroup [] = Some []"
| "b64_ungroup (w # x # y # z # rest) =
     (case (b64_val w, b64_val x) of
        (Some p, Some q) \<Rightarrow>
          if y = b64_pad then (if z = b64_pad then Some [p * 4 + q div 16] else None)
          else (case b64_val y of None \<Rightarrow> None | Some r \<Rightarrow>
            if z = b64_pad then Some [p * 4 + q div 16, q mod 16 * 16 + r div 4]
            else (case b64_val z of None \<Rightarrow> None | Some s \<Rightarrow>
              map_option (\<lambda>ns. (p * 4 + q div 16) # (q mod 16 * 16 + r div 4) # (r mod 4 * 64 + s) # ns) (b64_ungroup rest)))
      | _ \<Rightarrow> None)"
| "b64_ungroup _ = None"

definition b64decode :: "string \<Rightarrow> string result" where
  "b64decode s = (case b64_ungroup (filter (\<lambda>c. c = b64_pad \<or> b64_val c \<noteq> None) s) of
     None \<Rightarrow> Inl ValueError | Some ns \<Rightarrow> Inr (map char_of ns))"

lemma b64_val_char [simp]: "n < 64 \<Longrightarrow> b64_val (b64_char n) = Some n"
proof -
  assume n: "n < 64"
  have d: "distinct b64_table" and len: "length b64_table = 64" by code_simp+
  then show ?thesis
    using n map_of_zip_nth [of b64_table "[0..<64]" n] by (simp add: b64_val_def b64_char_def)
qed

lemma b64_pad_val [simp]: "b64_val b64_pad = None"
  by code_simp

lemma b64_char_pad [simp]: "n < 64 \<Longrightarrow> b64_char n \<noteq> b64_pad"
  using b64_val_char [of n] b64_pad_val by force

lemma b64_groups_alphabet:
  assumes "\<forall>n \<in> set ns. n < 256" and "c \<in> set (b64_groups ns)"
  shows "c = b64_pad \<or> b64_val c \<noteq> None"
  using assms
proof (induction ns rule: b64_groups.induct)
  case (4 a b c xs)
  then have "a div 4 < 64" "a mod 4 * 16 + b div 16 < 64" "b mod 16 * 4 + c div 64 < 64" "c mod 64 < 64"
    by (auto simp: div_less_iff_less_mult)
  with 4 show ?case by auto
next
  case (3 a b)
  then have "a div 4 < 64" "a mod 4 * 16 + b div 16 < 64" "b mod 16 * 4 < 64"
    by (auto simp: div_less_iff_less_mult)
  with 3 show ?case by auto
next
  case (2 a)
  then have "a div 4 < 64" "a mod 4 * 16 < 64" by auto
  with 2 show ?case by auto
qed simp

lemma b64_ungroup_groups:
  assumes "\<forall>n \<in> set ns. n < 256"
  shows "b64_ungroup (b64_groups ns) = Some ns"
  using assms
proof (induction ns rule: b64_groups.induct)
  case (4 a b c xs)
  then have r: "a div 4 < 64" "a mod 4 * 16 + b div 16 < 64" "b mod 16 * 4 + c div 64 < 64" "c mod 64 < 64"
    by (auto simp: div_less_iff_less_mult)
  have e: "a div 4 * 4 + (a mod 4 * 16 + b div 16) div 16 = a"
    "(a mod 4 * 16 + b div 16) mod 16 * 16 + (b mod 16 * 4 + c div 64) div 4 = b"
    "(b mod 16 * 4 + c div 64) mod 4 * 64 + c mod 64 = c"
    using 4(2) by auto
  have IH: "b64_ungroup (b64_groups xs) = Some xs" using 4 by simp
  note v = r [THEN b64_val_char] and np = r [THEN b64_char_pad]
  show ?case
    by (simp only: b64_groups.simps b64_ungroup.simps v np prod.case option.case if_False IH option.map e)
next
  case (3 a b)
  then have r: "a div 4 < 64" "a mod 4 * 16 + b div 16 < 64" "b mod 16 * 4 < 64"
    by (auto simp: div_less_iff_less_mult)
  have e: "a div 4 * 4 + (a mod 4 * 16 + b div 16) div 16 = a"
    "(a mod 4 * 16 + b div 16) mod 16 * 16 + (b mod 16 * 4) div 4 = b"
    using 3 by auto
  note v = r [THEN b64_val_char] and np = r [THEN b64_char_pad]
  show ?case
    by (simp only: b64_groups.simps b64_ungroup.simps v np prod.case option.case if_False if_True refl e)
next
  case (2 a)
  then have r: "a div 4 < 64" "a mod 4 * 16 < 64" by auto
  note v = r [THEN b64_val_char] and np = r [THEN b64_char_pad]
  have e: "a div 4 * 4 + a mod 4 * 16 div 16 = a" by simp
  show ?case
    by (simp only: b64_groups.simps b64_ungroup.simps v np prod.case option.case if_False if_True refl e)
qed simp

text \<open>The round trip.\<close>

lemma b64_roundtrip [simp]: "b64decode (b64encode s) = Inr s"
proof -
  have bytes: "\<forall>n \<in> set (map of_char s :: nat list). n < 256" by auto
  have "filter (\<lambda>c. c = b64_pad \<or> b64_val c \<noteq> None) (b64encode s) = b64encode s"
    unfolding b64encode_def by (rule filter_True) (use b64_groups_alphabet [OF bytes] in blast)
  then show ?thesis
    using b64_ungroup_groups [OF bytes] by (simp add: b64decode_def b64encode_def comp_def)
qed

end
