(* ===== verification/Utils.thy ===== *)
theory Utils
  imports Complex_Main Astacus_Prelude
begin

text \<open>
  The building blocks of \<^verbatim>\<open>astacus/common/utils.py\<close> that carry logic of their own: reading a file up to
  a recorded size, hashing it in chunks (\<^verbatim>\<open>hash_hexdigest_readable\<close> of \<^verbatim>\<open>astacus/node/snapshotter.py\<close>),
  the retry delays of \<^verbatim>\<open>exponential_backoff\<close>, the loop over parallel results, the FIFO cache and its
  memoising decorator, and the small parsers.
\<close>

section \<open>Size-limited files\<close>

record limited_file =
  lf_content :: string
  lf_file_size :: int
  lf_pos :: nat

definition open_limited :: "string \<Rightarrow> int \<Rightarrow> limited_file" where
  "open_limited content sz = \<lparr>lf_content = content, lf_file_size = sz, lf_pos = 0\<rparr>"

text \<open>\<^verbatim>\<open>read\<close> of an open file: a negative count reads everything that is left.\<close>

definition raw_read :: "int \<Rightarrow> limited_file \<Rightarrow> string \<times> limited_file" where
  "raw_read n f = (let data = (if n < 0 then drop (lf_pos f) (lf_content f) else take (nat n) (drop (lf_pos f) (lf_content f)))
     in (data, f\<lparr>lf_pos := lf_pos f + length data\<rparr>))"

definition limited_read :: "int option \<Rightarrow> limited_file \<Rightarrow> string \<times> limited_file" where
  "limited_read n f = (let can_read = max 0 (lf_file_size f - int (lf_pos f));
       n' = (case n of None \<Rightarrow> can_read | Some k \<Rightarrow> k)
     in raw_read (min can_read n') f)"

datatype whence = SeekSet | SeekCur | SeekEnd

definition raw_seek :: "int \<Rightarrow> whence \<Rightarrow> limited_file \<Rightarrow> int result \<times> limited_file" where
  "raw_seek ofs w f = (let p = (case w of SeekSet \<Rightarrow> ofs | SeekCur \<Rightarrow> int (lf_pos f) + ofs
        | SeekEnd \<Rightarrow> int (length (lf_content f)) + ofs)
     in if p < 0 then (Inl OSError, f) else (Inr p, f\<lparr>lf_pos := nat p\<rparr>))"

definition limited_seek :: "int \<Rightarrow> whence \<Rightarrow> limited_file \<Rightarrow> int result \<times> limited_file" where
  "limited_seek ofs w f =
     (let ofs1 = (if w = SeekEnd then ofs + lf_file_size f else ofs);
          w1 = (if w = SeekEnd then SeekSet else w);
          ofs2 = (if w1 = SeekSet then max 0 (min (lf_file_size f) ofs1) else ofs1)
      in raw_seek ofs2 w1 f)"

text \<open>Hashing in chunks. Feeding the chunks one after the other to the hash object is hashing their
  concatenation, so the object's state is what it was fed; the hash function itself is a parameter.\<close>

function read_chunks :: "int \<Rightarrow> limited_file \<Rightarrow> string \<Rightarrow> string" where
  "read_chunks read_buffer f fed = (case limited_read (Some read_buffer) f of
     (data, f') \<Rightarrow> if data = [] then fed else read_chunks read_buffer f' (fed @ data))"
  by pat_completeness auto
termination
  by (relation "measure (\<lambda>(b, f, fed). length (lf_content f) - lf_pos f)")
     (auto simp: limited_read_def raw_read_def Let_def min_def split: option.splits if_splits)

declare read_chunks.simps [simp del]

definition hash_hexdigest_readable :: "(string \<Rightarrow> string) \<Rightarrow> int \<Rightarrow> limited_file \<Rightarrow> string" where
  "hash_hexdigest_readable blake2s read_buffer f = blake2s (read_chunks read_buffer f [])"

section \<open>Retry delays\<close>

text \<open>The delay before attempt number \<open>retry\<close> (from 0), or none when the iteration stops. \<open>start\<close> is the
  time of the first attempt, \<open>now\<close> the time of asking.\<close>

definition backoff_delay :: "real \<Rightarrow> nat option \<Rightarrow> real \<Rightarrow> real option \<Rightarrow> real option \<Rightarrow> real \<Rightarrow> real \<Rightarrow> nat \<Rightarrow> real option" where
  "backoff_delay initial retries multiplier maximum duration start now retry =
     (if (case retries of None \<Rightarrow> False | Some r \<Rightarrow> retry > r) then None
      else if retry = 0 then Some 0
      else let d = initial * multiplier ^ (retry - 1);
               delay = (case maximum of None \<Rightarrow> d | Some m \<Rightarrow> min d m)
           in case duration of None \<Rightarrow> Some delay
              | Some l \<Rightarrow> if (start + l) - now - delay < 0 then None else Some delay)"

text \<open>The attempts of one iteration: before attempt \<open>k\<close> the clock shows \<open>clock k\<close>. The recursion is
  over the number of attempts the caller is willing to look at.\<close>

fun backoff_run :: "real \<Rightarrow> nat option \<Rightarrow> real \<Rightarrow> real option \<Rightarrow> real option \<Rightarrow> (nat \<Rightarrow> real) \<Rightarrow> nat \<Rightarrow> nat \<Rightarrow> real list" where
  "backoff_run initial retries multiplier maximum duration clock k 0 = []"
| "backoff_run initial retries multiplier maximum duration clock k (Suc fuel) =
     (case backoff_delay initial retries multiplier maximum duration (clock 0) (clock k) k of
        None \<Rightarrow> []
      | Some d \<Rightarrow> d # backoff_run initial retries multiplier maximum duration clock (Suc k) fuel)"

section \<open>Parallel results\<close>

text \<open>The results arrive in order; the loop stops at the first that the callback refuses, and reports
  whether it saw them all. The workers run on all inputs in any case.\<close>

fun parallel_map_to :: "('a \<Rightarrow> 'b) \<Rightarrow> ('a \<Rightarrow> 'b \<Rightarrow> 's \<Rightarrow> bool \<times> 's) \<Rightarrow> 'a list \<Rightarrow> 's \<Rightarrow> bool \<times> 's" where
  "parallel_map_to f cb [] s = (True, s)"
| "parallel_map_to f cb (x # xs) s = (case cb x (f x) s of (ok, s') \<Rightarrow>
     if ok then parallel_map_to f cb xs s' else (False, s'))"

section \<open>The FIFO cache\<close>

record ('k, 'v) fifo_cache =
  fc_size :: int
  fc_cache :: "('k \<times> 'v) list"
  fc_queue :: "'k list"

definition new_fifo_cache :: "int \<Rightarrow> ('k, 'v) fifo_cache result" where
  "new_fifo_cache sz = (if sz < 1 then Inl ValueError else Inr \<lparr>fc_size = sz, fc_cache = [], fc_queue = []\<rparr>)"

text \<open>\<^verbatim>\<open>cache.pop(queue.popleft())\<close>\<close>

definition fifo_evict :: "('k, 'v) fifo_cache \<Rightarrow> ('k, 'v) fifo_cache result" where
  "fifo_evict c = (case fc_queue c of [] \<Rightarrow> Inl IndexError
     | k # q \<Rightarrow> if dict_get (fc_cache c) k = None then Inl KeyError
               else Inr (c\<lparr>fc_queue := q, fc_cache := AList.delete k (fc_cache c)\<rparr>))"

definition fifo_setitem :: "'k \<Rightarrow> 'v \<Rightarrow> ('k, 'v) fifo_cache \<Rightarrow> ('k, 'v) fifo_cache result" where
  "fifo_setitem k v c =
     (let c1 = (if dict_get (fc_cache c) k \<noteq> None then c\<lparr>fc_cache := dict_set k v (fc_cache c)\<rparr> else c);
          r2 = (if int (length (fc_cache c1)) \<ge> fc_size c1 then fifo_evict c1 else Inr c1)
      in bind_res r2 (\<lambda>c2. Inr (c2\<lparr>fc_queue := fc_queue c2 @ [k], fc_cache := dict_set k v (fc_cache c2)\<rparr>)))"

text \<open>The memoising wrapper of the decorator \<^verbatim>\<open>fifo_cache\<close>, for a method that returns values.\<close>

definition cached_call :: "('k \<Rightarrow> 'v) \<Rightarrow> 'k \<Rightarrow> ('k, 'v) fifo_cache \<Rightarrow> ('v \<times> ('k, 'v) fifo_cache) result" where
  "cached_call method key c = (case dict_get (fc_cache c) key of
       Some v \<Rightarrow> Inr (v, c)
     | None \<Rightarrow> bind_res (fifo_setitem key (method key) c) (\<lambda>c'. Inr (method key, c')))"

section \<open>Small parsers\<close>

definition build_netloc :: "string \<Rightarrow> string option \<Rightarrow> string" where
  "build_netloc host port =
     (let escaped = (if CHR '':'' \<in> set host then ''['' @ host @ '']'' else host)
      in case port of None \<Rightarrow> escaped | Some p \<Rightarrow> escaped @ '':'' @ p)"

section \<open>Reading and hashing stop at the recorded size\<close>

lemma limited_read_take:
  assumes "n \<ge> 0"
  shows "limited_read (Some n) f = (let data = take (nat n) (drop (lf_pos f) (take (nat (lf_file_size f)) (lf_content f)))
     in (data, f\<lparr>lf_pos := lf_pos f + length data\<rparr>))"
proof -
  let ?can = "max 0 (lf_file_size f - int (lf_pos f))"
  have "take (nat (min ?can n)) (drop (lf_pos f) (lf_content f))
      = take (nat n) (drop (lf_pos f) (take (nat (lf_file_size f)) (lf_content f)))"
  proof -
    have "nat (min ?can n) = min (nat n) (nat (lf_file_size f) - lf_pos f)"
      using assms by (cases "lf_file_size f - int (lf_pos f) \<le> 0") (auto simp: min_def max_def nat_diff_distrib')
    then show ?thesis by (simp only: drop_take take_take)
  qed
  then show ?thesis using assms unfolding limited_read_def raw_read_def Let_def by simp
qed

lemma read_chunks_all:
  assumes "b \<ge> 1" and "lf_pos f \<le> length (take (nat (lf_file_size f)) (lf_content f))"
  shows "read_chunks b f fed = fed @ drop (lf_pos f) (take (nat (lf_file_size f)) (lf_content f))"
  using assms
proof (induction b f fed rule: read_chunks.induct)
  case (1 b f fed)
  define all where "all = take (nat (lf_file_size f)) (lf_content f)"
  define d where "d = take (nat b) (drop (lf_pos f) all)"
  have rd: "limited_read (Some b) f = (d, f\<lparr>lf_pos := lf_pos f + length d\<rparr>)"
    using limited_read_take [of b f] 1(2) by (simp add: Let_def d_def all_def)
  have pos: "lf_pos f + length d \<le> length all" using 1(3) unfolding d_def all_def [symmetric] by simp
  show ?case
  proof (cases "d = []")
    case True
    then have "drop (lf_pos f) all = []" using 1(2) unfolding d_def by auto
    then show ?thesis using True rd by (subst read_chunks.simps) (simp add: all_def)
  next
    case False
    have "read_chunks b (f\<lparr>lf_pos := lf_pos f + length d\<rparr>) (fed @ d) = (fed @ d) @ drop (lf_pos f + length d) all"
      using 1(1) [OF rd [symmetric] False 1(2)] pos by (simp add: all_def)
    moreover have "d @ drop (lf_pos f + length d) all = drop (lf_pos f) all"
    proof -
      have "take k xs @ drop (length (take k xs)) xs = xs" for k and xs :: string
        by (cases "k \<le> length xs") auto
      from this [of "nat b" "drop (lf_pos f) all"] show ?thesis
        unfolding d_def drop_drop by (simp only: add.commute)
    qed
    ultimately show ?thesis using False rd by (subst read_chunks.simps) (simp add: all_def)
  qed
qed

lemma hash_limited:
  assumes "read_buffer \<ge> 1" and "n \<ge> 0"
  shows "hash_hexdigest_readable blake2s read_buffer (open_limited content n) = blake2s (take (nat n) content)"
  using read_chunks_all [of read_buffer "open_limited content n" "[]"] assms
  by (simp add: hash_hexdigest_readable_def open_limited_def)

text \<open>The digest of a file is the hash of its first bytes up to the recorded size, whatever the
  size of the read buffer and however much the file has grown since.\<close>

theorem hash_of_recorded_size:
  assumes "read_buffer \<ge> 1" and "n \<ge> 0"
  shows "hash_hexdigest_readable blake2s read_buffer (open_limited content n) = blake2s (take (nat n) content)
    \<and> fst (limited_read None (open_limited content n)) = take (nat n) content"
  using hash_limited [OF assms] assms(2)
  by (simp add: limited_read_def raw_read_def open_limited_def Let_def)

theorem hash_of_recorded_size_witness:
  "hash_hexdigest_readable id 2 (open_limited ''abcdef'' 5) = ''abcde''"
  using hash_of_recorded_size [of 2 5 id "''abcdef''"] by simp

text \<open>A negative count passes the limit: it reaches the underlying file, where it means everything.\<close>

lemma negative_read_passes_limit: "fst (limited_read (Some (-1)) (open_limited ''abcdef'' 2)) = ''abcdef''"
  by code_simp

section \<open>Retries stop in time\<close>

lemma backoff_delay_bounds:
  assumes "backoff_delay initial retries multiplier maximum duration start now retry = Some d"
  shows "retries = Some r \<Longrightarrow> retry \<le> r"
    and "duration = Some l \<Longrightarrow> retry \<noteq> 0 \<Longrightarrow> now + d \<le> start + l"
    and "maximum = Some m \<Longrightarrow> m \<ge> 0 \<Longrightarrow> d \<le> m"
  using assms by (auto simp: backoff_delay_def Let_def split: if_splits option.splits)

lemma backoff_run_nth:
  assumes "i < length (backoff_run initial retries multiplier maximum duration clock k fuel)"
  shows "backoff_delay initial retries multiplier maximum duration (clock 0) (clock (k + i)) (k + i)
    = Some (backoff_run initial retries multiplier maximum duration clock k fuel ! i)"
  using assms
proof (induction fuel arbitrary: k i)
  case (Suc fuel)
  then show ?case
  proof (cases i)
    case (Suc j)
    with Suc.prems obtain d where "backoff_delay initial retries multiplier maximum duration (clock 0) (clock k) k = Some d"
      by (auto split: option.splits)
    with Suc Suc.prems Suc.IH [of j "Suc k"] show ?thesis by simp
  qed (auto split: option.splits)
qed simp

text \<open>The first attempt is made at once; with a number of retries there are at most that many more
  attempts, and with a duration no delay is entered that would end after it; delays never exceed the
  maximum.\<close>

theorem backoff_bounds:
  assumes "i < length (backoff_run initial retries multiplier maximum duration clock 0 fuel)"
  shows "(i = 0 \<longrightarrow> backoff_run initial retries multiplier maximum duration clock 0 fuel ! i = 0)
    \<and> (\<forall>r. retries = Some r \<longrightarrow> i \<le> r)
    \<and> (\<forall>l. duration = Some l \<and> i \<noteq> 0 \<longrightarrow>
          clock i + backoff_run initial retries multiplier maximum duration clock 0 fuel ! i \<le> clock 0 + l)
    \<and> (\<forall>m. maximum = Some m \<and> m \<ge> 0 \<longrightarrow> backoff_run initial retries multiplier maximum duration clock 0 fuel ! i \<le> m)"
proof -
  have d: "backoff_delay initial retries multiplier maximum duration (clock 0) (clock i) i
      = Some (backoff_run initial retries multiplier maximum duration clock 0 fuel ! i)"
    using backoff_run_nth [OF assms] by simp
  have "i = 0 \<longrightarrow> backoff_run initial retries multiplier maximum duration clock 0 fuel ! i = 0"
    using d by (auto simp: backoff_delay_def split: if_splits)
  then show ?thesis using backoff_delay_bounds [OF d] by blast
qed

lemma example_backoff: "backoff_run 1 (Some 3) 2 (Some 3) (Some 10) real 0 5 = [0, 1, 2, 3]"
  by (simp add: eval_nat_numeral backoff_delay_def Let_def)

theorem backoff_bounds_witness: "real 3 + [0, 1, 2, 3] ! 3 \<le> real 0 + 10"
  using backoff_bounds [of 3 1 "Some 3" 2 "Some 3" "Some 10" real 5] unfolding example_backoff by simp

section \<open>The FIFO cache\<close>

definition fifo_inv :: "('k \<Rightarrow> 'v) \<Rightarrow> ('k, 'v) fifo_cache \<Rightarrow> bool" where
  "fifo_inv method c \<longleftrightarrow> fc_size c \<ge> 1 \<and> distinct (fc_queue c) \<and> distinct (map fst (fc_cache c))
     \<and> set (fc_queue c) = fst ` set (fc_cache c) \<and> int (length (fc_cache c)) \<le> fc_size c
     \<and> (\<forall>(k, v) \<in> set (fc_cache c). v = method k)"

lemma fifo_setitem_new:
  assumes inv: "fifo_inv method c" and new: "dict_get (fc_cache c) k = None"
  shows "\<exists>c'. fifo_setitem k (method k) c = Inr c' \<and> fifo_inv method c'"
proof -
  have k: "k \<notin> fst ` set (fc_cache c)" using new by (simp add: map_of_eq_None_iff)
  show ?thesis
  proof (cases "int (length (fc_cache c)) \<ge> fc_size c")
    case False
    have "fifo_setitem k (method k) c = Inr (c\<lparr>fc_queue := fc_queue c @ [k], fc_cache := fc_cache c @ [(k, method k)]\<rparr>)"
      using False new k by (simp add: fifo_setitem_def dict_set_new)
    moreover have "fifo_inv method (c\<lparr>fc_queue := fc_queue c @ [k], fc_cache := fc_cache c @ [(k, method k)]\<rparr>)"
      using inv False k by (auto simp: fifo_inv_def)
    ultimately show ?thesis by blast
  next
    case True
    then have "fc_cache c \<noteq> []" using inv by (auto simp: fifo_inv_def)
    then obtain q0 q where q: "fc_queue c = q0 # q" using inv by (cases "fc_queue c") (auto simp: fifo_inv_def)
    then have q0: "q0 \<in> fst ` set (fc_cache c)" using inv by (auto simp: fifo_inv_def)
    let ?d = "AList.delete q0 (fc_cache c)"
    have keys: "fst ` set ?d = fst ` set (fc_cache c) - {q0}" by (metis delete_keys set_map set_removeAll)
    then have kd: "k \<notin> fst ` set ?d" using k by simp
    have "distinct (map fst ?d)" using inv by (simp add: fifo_inv_def distinct_delete)
    then have "length ?d = card (fst ` set (fc_cache c) - {q0})"
      using keys distinct_card [of "map fst ?d"] by simp
    also have "\<dots> = length (fc_cache c) - 1"
      using inv q0 distinct_card [of "map fst (fc_cache c)"] by (simp add: fifo_inv_def card_Diff_singleton_if)
    finally have len: "length ?d = length (fc_cache c) - 1" .
    let ?c = "c\<lparr>fc_queue := q @ [k], fc_cache := ?d @ [(k, method k)]\<rparr>"
    have "fifo_setitem k (method k) c = Inr ?c"
      using True new q q0 dict_set_new [OF kd] by (simp add: fifo_setitem_def fifo_evict_def map_of_eq_None_iff)
    moreover have "fifo_inv method ?c"
    proof -
      have "set ?d \<subseteq> set (fc_cache c)" by (auto simp: AList.delete_eq)
      moreover have "set q = fst ` set ?d" "distinct (q @ [k])"
        using inv q k keys by (auto simp: fifo_inv_def)
      ultimately show ?thesis
        using inv len kd \<open>distinct (map fst ?d)\<close> \<open>fc_cache c \<noteq> []\<close> by (auto simp: fifo_inv_def)
    qed
    ultimately show ?thesis by blast
  qed
qed

fun cached_calls :: "('k \<Rightarrow> 'v) \<Rightarrow> 'k list \<Rightarrow> ('k, 'v) fifo_cache \<Rightarrow> ('v list \<times> ('k, 'v) fifo_cache) result" where
  "cached_calls method [] c = Inr ([], c)"
| "cached_calls method (k # ks) c = bind_res (cached_call method k c) (\<lambda>(v, c').
     bind_res (cached_calls method ks c') (\<lambda>(vs, c''). Inr (v # vs, c'')))"

lemma cached_calls_ok:
  assumes "fifo_inv method c"
  shows "\<exists>c'. cached_calls method ks c = Inr (map method ks, c') \<and> fifo_inv method c'"
  using assms
proof (induction ks arbitrary: c)
  case (Cons k ks)
  have "\<exists>c1. cached_call method k c = Inr (method k, c1) \<and> fifo_inv method c1"
  proof (cases "dict_get (fc_cache c) k")
    case None
    then show ?thesis using fifo_setitem_new [OF Cons.prems None] by (auto simp: cached_call_def)
  next
    case (Some v)
    then have "v = method k" using Cons.prems map_of_SomeD [OF Some] by (auto simp: fifo_inv_def)
    then show ?thesis using Some Cons.prems by (simp add: cached_call_def)
  qed
  then show ?case using Cons.IH by fastforce
qed simp

text \<open>The memoising decorator never raises and is transparent: from an empty cache, every sequence
  of calls returns what the method would return, and the cache never holds more than its size.\<close>

theorem memoised_calls_transparent:
  assumes "new_fifo_cache sz = Inr c"
  shows "\<exists>c'. cached_calls method ks c = Inr (map method ks, c') \<and> int (length (fc_cache c')) \<le> sz"
proof -
  have "fifo_inv method c" "fc_size c = sz"
    using assms by (auto simp: new_fifo_cache_def fifo_inv_def split: if_splits)
  have size: "fc_size c' = fc_size c" if "cached_calls method ks c = Inr (vs, c')" for ks vs c' c
    using that
  proof (induction ks arbitrary: c vs)
    case (Cons k ks)
    then show ?case
      by (fastforce simp: bind_res_Inr_iff cached_call_def fifo_setitem_def fifo_evict_def Let_def
          split: option.splits if_splits list.splits)
  qed simp
  obtain c' where "cached_calls method ks c = Inr (map method ks, c')" "fifo_inv method c'"
    using cached_calls_ok [OF \<open>fifo_inv method c\<close>] by blast
  then show ?thesis using size \<open>fc_size c = sz\<close> by (auto simp: fifo_inv_def)
qed

theorem memoised_calls_transparent_witness:
  "\<exists>c'. cached_calls (\<lambda>n. n * n) [1, 2, 1 :: nat, 3, 1] \<lparr>fc_size = 2, fc_cache = [], fc_queue = []\<rparr>
     = Inr ([1, 4, 1, 9, 1], c') \<and> int (length (fc_cache c')) \<le> 2"
  using memoised_calls_transparent [of 2 "\<lparr>fc_size = 2, fc_cache = [], fc_queue = []\<rparr>" "\<lambda>n. n * n" "[1, 2, 1 :: nat, 3, 1]"]
  by (simp add: new_fifo_cache_def)

text \<open>Setting a key that is present records it twice in the queue: the second eviction of the key then
  fails.\<close>

lemma overwritten_key_breaks_cache:
  "bind_res (new_fifo_cache 2) (\<lambda>c. bind_res (fifo_setitem ''a'' 1 c) (\<lambda>c. bind_res (fifo_setitem ''a'' 2 c) (\<lambda>c.
     bind_res (fifo_setitem ''b'' 3 c) (\<lambda>c. bind_res (fifo_setitem ''c'' (4 :: nat) c) (fifo_setitem ''d'' 5)))))
   = Inl KeyError"
  by code_simp

end
