(* ===== verification/Node_Snapshot.thy ===== *)
theory Node_Snapshot
  imports Ipc Utils Base64
begin

text \<open>
  The snapshot of a node's files: groups (\<^verbatim>\<open>astacus/node/snapshot_groups.py\<close>), the snapshotter and its
  database (\<^verbatim>\<open>astacus/node/snapshotter.py\<close>, \<^verbatim>\<open>astacus/node/sqlite_snapshot.py\<close>, \<^verbatim>\<open>astacus/node/snapshot.py\<close>).

  The two file trees hold entries that point to inodes, so that a hard link in the destination shares
  the content of the source file it was made from. The table of the snapshot database is a dictionary
  from paths to rows; queries sort by path as the SQL does. The glob library's matching, and the hash
  function, are parameters. The pipeline of generators is a sequence of passes over the same files:
  every pass treats every file on its own, and the order of the rows does not reach the table.
\<close>

section \<open>Paths and groups\<close>

definition base_name :: "string \<Rightarrow> string" where "base_name p = last (split_path p)"
definition dir_parts :: "string \<Rightarrow> string list" where "dir_parts p = butlast (split_path p)"

definition ASTACUS_TMPDIR :: string where "ASTACUS_TMPDIR = ''.astacus''"

type_synonym glob = "string \<Rightarrow> string \<Rightarrow> bool"

definition group_matches :: "glob \<Rightarrow> string \<Rightarrow> snapshot_group \<Rightarrow> bool" where
  "group_matches gm p g \<longleftrightarrow> gm (sg_root_glob g) p \<and> base_name p \<notin> set (sg_excluded_names g)"

definition group_glob :: "glob \<Rightarrow> string list \<Rightarrow> snapshot_group \<Rightarrow> string list" where
  "group_glob gm paths g = filter (\<lambda>p. base_name p \<notin> set (sg_excluded_names g)) (filter (gm (sg_root_glob g)) paths)"

definition get_matching :: "glob \<Rightarrow> snapshot_group list \<Rightarrow> string \<Rightarrow> snapshot_group list" where
  "get_matching gm groups p = filter (group_matches gm p) groups"

definition any_match :: "glob \<Rightarrow> snapshot_group list \<Rightarrow> string \<Rightarrow> bool" where
  "any_match gm groups p \<longleftrightarrow> list_ex (group_matches gm p) groups"

definition root_globs :: "snapshot_group list \<Rightarrow> string list" where
  "root_globs groups = map sg_root_glob groups"

section \<open>The file trees\<close>

record file_data =
  fd_content :: string
  fd_mtime_ns :: int

record src_entry =
  se_inode :: nat
  se_symlink :: bool

record node_fs =
  nf_root :: "string list"
  nf_src :: "(string \<times> src_entry) list"
  nf_dst :: "(string \<times> src_entry) list"
  nf_same_root :: bool
  nf_inode :: "nat \<Rightarrow> file_data"
  nf_next :: nat

definition dst_tree :: "node_fs \<Rightarrow> (string \<times> src_entry) list" where
  "dst_tree fs = (if nf_same_root fs then nf_src fs else nf_dst fs)"

definition src_data :: "node_fs \<Rightarrow> string \<Rightarrow> file_data option" where
  "src_data fs p = map_option (\<lambda>e. nf_inode fs (se_inode e)) (dict_get (nf_src fs) p)"

definition dst_data :: "node_fs \<Rightarrow> string \<Rightarrow> file_data option" where
  "dst_data fs p = map_option (\<lambda>e. nf_inode fs (se_inode e)) (dict_get (dst_tree fs) p)"

section \<open>Taking a snapshot\<close>

text \<open>A directory is skipped when one of its proper ancestors is the temporary directory.\<close>

definition walked :: "node_fs \<Rightarrow> string \<Rightarrow> bool" where
  "walked fs p \<longleftrightarrow> ASTACUS_TMPDIR \<notin> set (butlast (nf_root fs @ dir_parts p))"

definition list_files :: "glob \<Rightarrow> snapshot_group list \<Rightarrow> node_fs \<Rightarrow> string list" where
  "list_files gm groups fs =
     map fst (filter (\<lambda>(p, e). walked fs p \<and> \<not> se_symlink e \<and> any_match gm groups p) (nf_src fs))"

definition file_in_src :: "node_fs \<Rightarrow> string \<Rightarrow> snapshot_file result" where
  "file_in_src fs p = (case src_data fs p of None \<Rightarrow> Inl FileNotFoundError
     | Some d \<Rightarrow> Inr \<lparr>sf_relative_path = p, sf_file_size = int (length (fd_content d)), sf_mtime_ns = fd_mtime_ns d,
                     sf_hexdigest = [], sf_content_b64 = None\<rparr>)"

type_synonym snapshot_db = "(string \<times> snapshot_file) list"

text \<open>Rows of vanished files go, with their links; what is left and what is new is to be compared.\<close>

definition compare_current_snapshot :: "string list \<Rightarrow> node_fs \<Rightarrow> snapshot_db
    \<Rightarrow> (string \<times> snapshot_file option) list \<times> node_fs \<times> snapshot_db" where
  "compare_current_snapshot files fs db =
     (let db' = filter (\<lambda>(p, r). p \<in> set files) db;
          removed = map fst (filter (\<lambda>(p, r). p \<notin> set files) db);
          fs' = (if nf_same_root fs then fs else fs\<lparr>nf_dst := filter (\<lambda>(p, e). p \<notin> set removed) (nf_dst fs)\<rparr>)
      in (map (\<lambda>(p, r). (p, Some r)) db' @ map (\<lambda>p. (p, None)) (filter (\<lambda>p. p \<notin> fst ` set db') files), fs', db'))"

text \<open>The old link goes first; linking a vanished file raises, which \<^verbatim>\<open>_compare_with_src\<close> catches like the
  missing file itself.\<close>

definition maybe_link :: "string \<Rightarrow> node_fs \<Rightarrow> node_fs" where
  "maybe_link p fs = (if nf_same_root fs then fs
     else case dict_get (nf_src fs) p of None \<Rightarrow> fs\<lparr>nf_dst := AList.delete p (nf_dst fs)\<rparr> | Some e \<Rightarrow> fs\<lparr>nf_dst := dict_set p e (nf_dst fs)\<rparr>)"

fun compare_with_src :: "(string \<times> snapshot_file option) list \<Rightarrow> node_fs \<Rightarrow> snapshot_file list \<times> node_fs" where
  "compare_with_src [] fs = ([], fs)"
| "compare_with_src ((p, existing) # rest) fs =
     (case file_in_src fs p of
        Inl e \<Rightarrow> compare_with_src rest fs
      | Inr new \<Rightarrow>
          if (case existing of None \<Rightarrow> True | Some old \<Rightarrow> \<not> underlying_file_is_the_same old new)
          then map_prod (Cons new) id (compare_with_src rest (maybe_link p fs))
          else compare_with_src rest fs)"

definition embedded_file_size_max_for_file :: "glob \<Rightarrow> snapshot_group list \<Rightarrow> string \<Rightarrow> int option result" where
  "embedded_file_size_max_for_file gm groups p = (case get_matching gm groups p of
       [] \<Rightarrow> Inl AssertionError
     | g # gs \<Rightarrow> if list_all (\<lambda>h. sg_embedded_file_size_max h = sg_embedded_file_size_max g) gs
                then Inr (sg_embedded_file_size_max g) else Inl ValueError)"

definition read_buffer_size :: int where "read_buffer_size = 1000000"

definition compute_digest :: "(string \<Rightarrow> string) \<Rightarrow> glob \<Rightarrow> snapshot_group list \<Rightarrow> node_fs \<Rightarrow> snapshot_file \<Rightarrow> snapshot_file result" where
  "compute_digest blake2s gm groups fs f =
     (case dst_data fs (sf_relative_path f) of
        None \<Rightarrow> Inl FileNotFoundError
      | Some d \<Rightarrow> let file = open_limited (fd_content d) (sf_file_size f)
          in bind_res (embedded_file_size_max_for_file gm groups (sf_relative_path f)) (\<lambda>mx.
               if (case mx of None \<Rightarrow> True | Some m \<Rightarrow> sf_file_size f \<le> m)
               then Inr (if sf_content_b64 f = None then f\<lparr>sf_content_b64 := Some (b64encode (fst (limited_read None file)))\<rparr> else f)
               else Inr (if sf_hexdigest f = [] then f\<lparr>sf_hexdigest := hash_hexdigest_readable blake2s read_buffer_size file\<rparr> else f)))"

definition upsert_files :: "snapshot_file list \<Rightarrow> snapshot_db \<Rightarrow> snapshot_db" where
  "upsert_files fs db = fold (\<lambda>f. dict_set (sf_relative_path f) f) fs db"

text \<open>The whole snapshot. The files are listed in the tree \<open>seen\<close> of the start; later passes look at the
  tree as it is then. An exception rolls the table back, not the links.\<close>

type_synonym snap = "node_fs \<times> snapshot_db"

definition perform_snapshot :: "(string \<Rightarrow> string) \<Rightarrow> glob \<Rightarrow> snapshot_group list \<Rightarrow> node_fs \<Rightarrow> (snap, unit) stateful" where
  "perform_snapshot blake2s gm groups seen s =
     (let files = list_files gm groups seen;
          (rows, fs1, db1) = compare_current_snapshot files (fst s) (snd s);
          (todo, fs2) = compare_with_src rows fs1
      in case map_res (compute_digest blake2s gm groups fs2) todo of
           Inl e \<Rightarrow> (Inl e, (fs2, snd s))
         | Inr ups \<Rightarrow> (Inr (), (fs2, upsert_files ups db1)))"

section \<open>Queries\<close>

definition get_file :: "snapshot_db \<Rightarrow> string \<Rightarrow> snapshot_file option" where
  "get_file db p = dict_get db p"

definition get_all_files :: "snapshot_db \<Rightarrow> snapshot_file list" where
  "get_all_files db = map snd (sort_key fst db)"

definition get_all_paths :: "snapshot_db \<Rightarrow> string list" where
  "get_all_paths db = map fst (sort_key fst db)"

definition get_files_for_digest :: "snapshot_db \<Rightarrow> string \<Rightarrow> snapshot_file list" where
  "get_files_for_digest db h = filter (\<lambda>f. sf_hexdigest f = h) (get_all_files db)"

definition get_total_size :: "snapshot_db \<Rightarrow> int" where
  "get_total_size db = sum_list (map sf_file_size (map snd db))"

definition get_all_digests :: "snapshot_db \<Rightarrow> snapshot_hash list" where
  "get_all_digests db = map (\<lambda>f. \<lparr>sh_hexdigest = sf_hexdigest f, sh_size = sf_file_size f\<rparr>)
     (sort_key sf_hexdigest (filter (\<lambda>f. sf_hexdigest f \<noteq> []) (map snd db)))"

definition get_snapshot_state :: "snapshot_group list \<Rightarrow> snapshot_db \<Rightarrow> snapshot_state" where
  "get_snapshot_state groups db = \<lparr>ss_root_globs = root_globs groups, ss_files = get_all_files db\<rparr>"

text \<open>Releasing removes the links of the uploaded contents; the rows stay.\<close>

definition release :: "string list \<Rightarrow> snap \<Rightarrow> snap" where
  "release hexdigests s =
     (let hs = set (filter (\<lambda>h. h \<noteq> []) hexdigests);
          paths = map fst (filter (\<lambda>(p, f). sf_hexdigest f \<in> hs) (snd s));
          cut = filter (\<lambda>(p, e). p \<notin> set paths)
      in ((if nf_same_root (fst s) then (fst s)\<lparr>nf_src := cut (nf_src (fst s))\<rparr>
           else (fst s)\<lparr>nf_dst := cut (nf_dst (fst s))\<rparr>), snd s))"

section \<open>The snapshot is exact\<close>

text \<open>The row that a file should have: its metadata, and its content or its digest.\<close>

definition expected_row :: "(string \<Rightarrow> string) \<Rightarrow> glob \<Rightarrow> snapshot_group list \<Rightarrow> node_fs \<Rightarrow> string \<Rightarrow> snapshot_file result" where
  "expected_row blake2s gm groups fs p = (case src_data fs p of None \<Rightarrow> Inl FileNotFoundError
     | Some d \<Rightarrow> bind_res (embedded_file_size_max_for_file gm groups p) (\<lambda>mx.
         let embed = (case mx of None \<Rightarrow> True | Some m \<Rightarrow> int (length (fd_content d)) \<le> m)
         in Inr \<lparr>sf_relative_path = p, sf_file_size = int (length (fd_content d)), sf_mtime_ns = fd_mtime_ns d,
                 sf_hexdigest = (if embed then [] else blake2s (fd_content d)),
                 sf_content_b64 = (if embed then Some (b64encode (fd_content d)) else None)\<rparr>))"

lemma limited_read_all [simp]: "fst (limited_read None (open_limited c (int (length c)))) = c"
  by (simp add: limited_read_def raw_read_def open_limited_def Let_def)

lemma compute_digest_expected:
  assumes "file_in_src fs p = Inr f" and "dst_data fs' p = src_data fs p"
  shows "compute_digest blake2s gm groups fs' f = expected_row blake2s gm groups fs p"
proof -
  obtain d where d: "src_data fs p = Some d" and f: "f = \<lparr>sf_relative_path = p, sf_file_size = int (length (fd_content d)),
      sf_mtime_ns = fd_mtime_ns d, sf_hexdigest = [], sf_content_b64 = None\<rparr>"
    using assms(1) by (auto simp: file_in_src_def split: option.splits)
  have h: "hash_hexdigest_readable blake2s read_buffer_size (open_limited (fd_content d) (int (length (fd_content d))))
      = blake2s (fd_content d)"
    using read_chunks_all [of read_buffer_size "open_limited (fd_content d) (int (length (fd_content d)))" "[]"]
    by (simp add: hash_hexdigest_readable_def open_limited_def read_buffer_size_def)
  show ?thesis
    using d assms(2) h by (cases "embedded_file_size_max_for_file gm groups p")
      (auto simp: compute_digest_def expected_row_def f Let_def split: option.splits)
qed

text \<open>What the passes leave alone.\<close>

definition same_sources :: "node_fs \<Rightarrow> node_fs \<Rightarrow> bool" where
  "same_sources fs fs' \<longleftrightarrow> nf_root fs' = nf_root fs \<and> nf_src fs' = nf_src fs \<and> nf_same_root fs' = nf_same_root fs
     \<and> nf_inode fs' = nf_inode fs \<and> nf_next fs' = nf_next fs"

lemma same_sources_simps:
  assumes "same_sources fs fs'"
  shows "src_data fs' = src_data fs" "file_in_src fs' = file_in_src fs" "list_files gm groups fs' = list_files gm groups fs"
    "expected_row blake2s gm groups fs' = expected_row blake2s gm groups fs"
  using assms by (auto simp: same_sources_def src_data_def file_in_src_def list_files_def walked_def expected_row_def fun_eq_iff)

lemma same_sources_refl [simp]: "same_sources fs fs"
  by (simp add: same_sources_def)

lemma same_sources_trans: "same_sources a b \<Longrightarrow> same_sources b c \<Longrightarrow> same_sources a c"
  by (simp add: same_sources_def)

lemma same_sources_link: "same_sources fs (maybe_link p fs)"
  by (auto simp: same_sources_def maybe_link_def split: option.splits)

lemma dst_data_link:
  assumes "src_data fs p \<noteq> None"
  shows "dst_data (maybe_link p fs) q = (if q = p then src_data fs p else dst_data fs q)"
  using assms by (auto simp: dst_data_def src_data_def dst_tree_def maybe_link_def update_conv' split: option.splits)

definition needs_row :: "node_fs \<Rightarrow> string \<times> snapshot_file option \<Rightarrow> bool" where
  "needs_row fs row = (case file_in_src fs (fst row) of Inl _ \<Rightarrow> False
     | Inr new \<Rightarrow> (case snd row of None \<Rightarrow> True | Some old \<Rightarrow> \<not> underlying_file_is_the_same old new))"

lemma compare_with_src_result:
  assumes "distinct (map fst rows)"
  shows "fst (compare_with_src rows fs) = map (\<lambda>r. projr (file_in_src fs (fst r))) (filter (needs_row fs) rows)
    \<and> same_sources fs (snd (compare_with_src rows fs))
    \<and> (\<forall>q. dst_data (snd (compare_with_src rows fs)) q
         = (if q \<in> fst ` set (filter (needs_row fs) rows) then src_data fs q else dst_data fs q))"
  using assms
proof (induction rows arbitrary: fs)
  case (Cons row rows)
  obtain p ex where row: "row = (p, ex)" by (cases row)
  show ?case
  proof (cases "needs_row fs row")
    case False
    then have "compare_with_src (row # rows) fs = compare_with_src rows fs"
      by (auto simp: needs_row_def row split: sum.splits option.splits)
    with False Cons show ?thesis by simp
  next
    case True
    then obtain new where new: "file_in_src fs p = Inr new" by (auto simp: needs_row_def row split: sum.splits)
    then have sd: "src_data fs p \<noteq> None" by (auto simp: file_in_src_def split: option.splits)
    let ?fs = "maybe_link p fs"
    have ss: "same_sources fs ?fs" by (rule same_sources_link)
    have nr: "needs_row ?fs = needs_row fs" by (simp add: fun_eq_iff needs_row_def same_sources_simps [OF ss])
    have step: "compare_with_src (row # rows) fs = map_prod (Cons new) id (compare_with_src rows ?fs)"
      using True new by (auto simp: needs_row_def row split: option.splits)
    have "distinct (map fst rows)" using Cons.prems by simp
    note IH = Cons.IH [OF this, of ?fs, unfolded nr same_sources_simps [OF ss]]
    have pn: "p \<notin> fst ` set (filter (needs_row fs) rows)" using Cons.prems row by auto
    show ?thesis
      unfolding step
      using IH True new row same_sources_trans [OF ss] pn
      by (auto simp: dst_data_link [OF sd] simp del: compare_with_src.simps)
  qed
qed simp

lemma map_of_upsert:
  assumes "distinct (map sf_relative_path fs)"
  shows "map_of (upsert_files fs db) p = (case find (\<lambda>f. sf_relative_path f = p) fs of Some f \<Rightarrow> Some f | None \<Rightarrow> map_of db p)"
  using assms
proof (induction fs arbitrary: db)
  case (Cons f fs)
  have "find (\<lambda>g. sf_relative_path g = sf_relative_path f) fs = None"
    using Cons.prems by (auto simp: find_None_iff image_iff)
  with Cons show ?case by (auto simp: upsert_files_def update_conv' split: option.splits)
qed (simp add: upsert_files_def)

lemma distinct_upsert: "distinct (map fst db) \<Longrightarrow> distinct (map fst (upsert_files fs db))"
  by (induction fs arbitrary: db) (auto simp: upsert_files_def distinct_update)

text \<open>A table is coherent with the files if every row whose file looks unchanged is right, and the link
  of that file is still there with the same content.\<close>

definition snap_coherent :: "(string \<Rightarrow> string) \<Rightarrow> glob \<Rightarrow> snapshot_group list \<Rightarrow> snap \<Rightarrow> bool" where
  "snap_coherent blake2s gm groups s \<longleftrightarrow> distinct (map fst (snd s))
     \<and> (\<forall>p row new. map_of (snd s) p = Some row \<and> p \<in> set (list_files gm groups (fst s))
          \<and> file_in_src (fst s) p = Inr new \<and> underlying_file_is_the_same row new
          \<longrightarrow> expected_row blake2s gm groups (fst s) p = Inr row \<and> dst_data (fst s) p = src_data (fst s) p)"

lemma list_files_src:
  "p \<in> set (list_files gm groups fs) \<Longrightarrow> \<exists>d f. src_data fs p = Some d \<and> file_in_src fs p = Inr f"
  by (force simp: list_files_def src_data_def file_in_src_def weak_map_of_SomeI split: option.splits)

lemma distinct_list_files: "distinct (map fst (nf_src fs)) \<Longrightarrow> distinct (list_files gm groups fs)"
  unfolding list_files_def by (simp add: distinct_map_filter)

lemma file_in_src_path: "file_in_src fs p = Inr f \<Longrightarrow> sf_relative_path f = p"
  by (auto simp: file_in_src_def split: option.splits)

lemma expected_row_path: "expected_row blake2s gm groups fs p = Inr f \<Longrightarrow> sf_relative_path f = p"
  by (auto simp: expected_row_def bind_res_Inr_iff Let_def split: option.splits)

lemma expected_row_same:
  "expected_row blake2s gm groups fs p = Inr row \<Longrightarrow> file_in_src fs p = Inr new \<Longrightarrow> underlying_file_is_the_same row new"
  by (auto simp: expected_row_def file_in_src_def underlying_file_is_the_same_def bind_res_Inr_iff Let_def split: option.splits)

lemma compare_current_rows:
  assumes "compare_current_snapshot files fs db = (rows, fs1, db1)" and "distinct files" and "distinct (map fst db)"
  shows "distinct (map fst rows)" and "fst ` set rows = set files"
    and "\<And>p. map_of db1 p = (if p \<in> set files then map_of db p else None)" and "distinct (map fst db1)"
    and "\<And>p ex. (p, ex) \<in> set rows \<Longrightarrow> ex = map_of db p"
    and "same_sources fs fs1" and "\<And>p. p \<in> set files \<Longrightarrow> dst_data fs1 p = dst_data fs p"
proof -
  have rows: "rows = map (\<lambda>(p, r). (p, Some r)) db1 @ map (\<lambda>p. (p, None)) (filter (\<lambda>p. p \<notin> fst ` set db1) files)"
    and db1: "db1 = filter (\<lambda>(p, r). p \<in> set files) db"
    and fs1: "fs1 = (if nf_same_root fs then fs else fs\<lparr>nf_dst := filter (\<lambda>(p, e). p \<notin> fst ` set (filter (\<lambda>(p, r). p \<notin> set files) db)) (nf_dst fs)\<rparr>)"
    using assms(1) by (auto simp: compare_current_snapshot_def Let_def)
  have f1: "map fst (map (\<lambda>(p, r). (p, Some r)) db1) = map fst db1" by (simp add: split_beta comp_def)
  show d1: "distinct (map fst db1)" using assms(3) by (simp add: db1 distinct_map_filter)
  show m: "map_of db1 p = (if p \<in> set files then map_of db p else None)" for p
    unfolding db1 by (rule map_of_filter_key)
  show "distinct (map fst rows)"
    using d1 assms(2) unfolding rows map_append f1 by (auto simp: comp_def)
  have sub: "fst ` set db1 \<subseteq> set files" unfolding db1 by auto
  have "fst ` set rows = fst ` set db1 \<union> {p \<in> set files. p \<notin> fst ` set db1}"
    unfolding rows set_append image_Un set_map [symmetric] f1 by auto
  then show "fst ` set rows = set files" using sub by auto
  show "ex = map_of db p" if mem: "(p, ex) \<in> set rows" for p ex
  proof -
    consider r where "(p, r) \<in> set db1" "ex = Some r" | "p \<in> set files" "p \<notin> fst ` set db1" "ex = None"
      using mem unfolding rows by auto
    then show ?thesis
    proof cases
      case 1
      then have "map_of db1 p = Some r" using d1 by simp
      then show ?thesis using 1 m [of p] by (auto split: if_splits)
    next
      case 2
      then have "map_of db1 p = None" by (simp add: map_of_eq_None_iff)
      then show ?thesis using 2 m [of p] by simp
    qed
  qed
  show "same_sources fs fs1" by (simp add: fs1 same_sources_def)
  show "dst_data fs1 p = dst_data fs p" if "p \<in> set files" for p
  proof -
    let ?gone = "fst ` set (filter (\<lambda>(p, r). p \<notin> set files) db)"
    have "p \<notin> ?gone" using that by auto
    then have "map_of (filter (\<lambda>(p, e). p \<notin> ?gone) (nf_dst fs)) p = map_of (nf_dst fs) p"
      by (subst map_of_filter_key) simp
    then show ?thesis unfolding fs1 by (simp add: dst_data_def dst_tree_def)
  qed
qed

lemma find_path_map:
  assumes "\<And>p. p \<in> set ps \<Longrightarrow> sf_relative_path (g p) = p"
  shows "find (\<lambda>f. sf_relative_path f = p) (map g ps) = (if p \<in> set ps then Some (g p) else None)"
  using assms by (induction ps) auto

text \<open>A file that needs no new row has a right one already.\<close>

lemma unchanged_file:
  assumes "snap_coherent blake2s gm groups s" and "distinct (map fst (nf_src (fst s)))"
    and "compare_current_snapshot (list_files gm groups (fst s)) (fst s) (snd s) = (rows, fs1, db1)"
    and p: "p \<in> set (list_files gm groups (fst s))" and "p \<notin> fst ` set (filter (needs_row fs1) rows)"
  shows "\<exists>row. map_of (snd s) p = Some row \<and> expected_row blake2s gm groups (fst s) p = Inr row
    \<and> dst_data (fst s) p = src_data (fst s) p"
proof -
  have dist: "distinct (map fst (snd s))" using assms(1) by (simp add: snap_coherent_def)
  note cur = compare_current_rows [OF assms(3) distinct_list_files [OF assms(2)] dist]
  obtain ex where ex: "(p, ex) \<in> set rows" using p cur(2) by force
  obtain new where new: "file_in_src (fst s) p = Inr new" using list_files_src [OF p] by blast
  have "\<not> needs_row fs1 (p, ex)" using assms(5) ex by force
  then obtain row where row: "ex = Some row" "underlying_file_is_the_same row new"
    using new by (auto simp: needs_row_def same_sources_simps [OF cur(6)] split: option.splits)
  then have "map_of (snd s) p = Some row" using cur(5) [OF ex] by simp
  then show ?thesis using assms(1) p new row(2) unfolding snap_coherent_def by metis
qed

text \<open>The files that need a row get the right one.\<close>

lemma digests_of_changed:
  assumes rows: "distinct (map fst rows)" "fst ` set rows \<subseteq> set (list_files gm groups fs)" and ss: "same_sources fs fs1"
    and E: "\<And>p. p \<in> set (list_files gm groups fs) \<Longrightarrow> expected_row blake2s gm groups fs p = Inr (E p)"
  shows "map_res (compute_digest blake2s gm groups (snd (compare_with_src rows fs1))) (fst (compare_with_src rows fs1))
    = Inr (map E (map fst (filter (needs_row fs1) rows)))"
proof -
  let ?need = "map fst (filter (needs_row fs1) rows)" and ?fs2 = "snd (compare_with_src rows fs1)"
  note cmp = compare_with_src_result [OF rows(1), of fs1, unfolded same_sources_simps [OF ss]]
  have todo: "fst (compare_with_src rows fs1) = map (\<lambda>p. projr (file_in_src fs p)) ?need"
    using cmp by (simp add: comp_def)
  have fin: "file_in_src fs p = Inr (projr (file_in_src fs p))" if "p \<in> set ?need" for p
    using list_files_src [of p gm groups fs] that rows(2) by fastforce
  have "compute_digest blake2s gm groups ?fs2 (projr (file_in_src fs p)) = Inr (E p)" if "p \<in> set ?need" for p
  proof -
    have "dst_data ?fs2 p = src_data fs p" using cmp that by simp
    from compute_digest_expected [OF fin [OF that] this] show ?thesis using E that rows(2) by fastforce
  qed
  then have "list_all2 (\<lambda>f e. compute_digest blake2s gm groups ?fs2 f = Inr e)
      (map (\<lambda>p. projr (file_in_src fs p)) ?need) (map E ?need)"
    unfolding list.rel_map by (intro list.rel_refl_strong) simp
  then show ?thesis unfolding todo map_res_Inr_iff .
qed

lemma perform_snapshot_exact:
  assumes "snap_coherent blake2s gm groups s" and "distinct (map fst (nf_src (fst s)))"
    and "\<forall>p \<in> set (list_files gm groups (fst s)). \<exists>row. expected_row blake2s gm groups (fst s) p = Inr row"
    and "perform_snapshot blake2s gm groups (fst s) s = (r, (fs', db'))"
  shows "r = Inr ()
    \<and> (\<forall>p. map_of db' p = (if p \<in> set (list_files gm groups (fst s))
                          then Some (projr (expected_row blake2s gm groups (fst s) p)) else None))
    \<and> (\<forall>p \<in> set (list_files gm groups (fst s)). dst_data fs' p = src_data (fst s) p)
    \<and> same_sources (fst s) fs' \<and> snap_coherent blake2s gm groups (fs', db')"
proof -
  let ?fs = "fst s" and ?files = "list_files gm groups (fst s)" and ?E = "\<lambda>p. projr (expected_row blake2s gm groups (fst s) p)"
  obtain rows fs1 db1 where cc: "compare_current_snapshot ?files ?fs (snd s) = (rows, fs1, db1)" by (metis prod.exhaust)
  have "distinct (map fst (snd s))" using assms(1) by (simp add: snap_coherent_def)
  note cur = compare_current_rows [OF cc distinct_list_files [OF assms(2)] this]
  let ?need = "filter (needs_row fs1) rows" and ?fs2 = "snd (compare_with_src rows fs1)"
  define ups where "ups = map ?E (map fst ?need)"
  note cmp = compare_with_src_result [OF cur(1), of fs1, unfolded same_sources_simps [OF cur(6)]]
  have sub: "p \<in> set ?files" if "p \<in> fst ` set ?need" for p using that cur(2) by force
  have E: "expected_row blake2s gm groups ?fs p = Inr (?E p)" if "p \<in> set ?files" for p using assms(3) that by force
  have path: "sf_relative_path (?E p) = p" if "p \<in> set ?files" for p using expected_row_path [OF E [OF that]] .
  have "map sf_relative_path ups = map fst ?need"
    unfolding ups_def map_map by (rule map_cong [OF refl]) (use path sub in auto)
  then have dups: "distinct (map sf_relative_path ups)" using distinct_map_filter [OF cur(1)] by simp
  have found: "find (\<lambda>f. sf_relative_path f = p) ups = (if p \<in> fst ` set ?need then Some (?E p) else None)" for p
    unfolding ups_def by (subst find_path_map) (use sub path in auto)
  have "map_res (compute_digest blake2s gm groups ?fs2) (fst (compare_with_src rows fs1)) = Inr ups"
    unfolding ups_def by (rule digests_of_changed [OF cur(1) _ cur(6) E]) (use cur(2) in auto)
  then have res: "r = Inr ()" "fs' = ?fs2" "db' = upsert_files ups db1"
    using assms(4) cc by (auto simp: perform_snapshot_def split_beta)
  note old = unchanged_file [OF assms(1,2) cc]
  have db': "map_of db' p = (if p \<in> set ?files then Some (?E p) else None)" for p
    unfolding res(3) map_of_upsert [OF dups] found using sub old [of p] cur(3) [of p] by auto
  have dst: "dst_data fs' p = src_data ?fs p" if "p \<in> set ?files" for p
    using cmp res(2) old [OF that] cur(7) [OF that] by auto
  have ss: "same_sources ?fs fs'" using cmp cur(6) res(2) same_sources_trans by metis
  have "distinct (map fst db')" unfolding res(3) by (rule distinct_upsert [OF cur(4)])
  then have "snap_coherent blake2s gm groups (fs', db')"
    using db' dst E by (simp add: snap_coherent_def same_sources_simps [OF ss])
  then show ?thesis using res(1) db' dst ss by blast
qed


definition any_glob :: glob where "any_glob g p \<longleftrightarrow> True"

definition example_groups :: "snapshot_group list" where
  "example_groups = [\<lparr>sg_root_glob = ''**'', sg_excluded_names = [''lock''], sg_embedded_file_size_max = Some 3\<rparr>]"

definition example_fs :: node_fs where
  "example_fs = \<lparr>nf_root = [''srv''], nf_src = [(''d/a'', \<lparr>se_inode = 0, se_symlink = False\<rparr>),
      (''b'', \<lparr>se_inode = 1, se_symlink = False\<rparr>), (''lock'', \<lparr>se_inode = 1, se_symlink = False\<rparr>)],
     nf_dst = [], nf_same_root = False,
     nf_inode = (\<lambda>n. if n = 0 then \<lparr>fd_content = ''large'', fd_mtime_ns = 7\<rparr> else \<lparr>fd_content = ''abc'', fd_mtime_ns = 8\<rparr>),
     nf_next = 2\<rparr>"

lemma example_list: "list_files any_glob example_groups example_fs = [''d/a'', ''b'']"
  by code_simp

lemma example_snapshot_premises:
  "snap_coherent rev any_glob example_groups (example_fs, [])" "distinct (map fst (nf_src (fst (example_fs, [] :: snapshot_db))))"
  "\<forall>p \<in> set (list_files any_glob example_groups (fst (example_fs, [] :: snapshot_db))). \<exists>row. expected_row rev any_glob example_groups (fst (example_fs, [] :: snapshot_db)) p = Inr row"
  by (simp_all add: snap_coherent_def example_list)
     (simp_all add: example_fs_def expected_row_def src_data_def embedded_file_size_max_for_file_def get_matching_def
        example_groups_def group_matches_def any_glob_def base_name_def Let_def)


end
