(* ===== verification/Node_Upload.thy ===== *)
theory Node_Upload
  imports Node_Snapshot Storage
begin

text \<open>
  A node's upload of the contents that the coordinator asked for (\<^verbatim>\<open>astacus/node/uploader.py\<close>), and the
  snapshot, upload, release and clear operations that run it (\<^verbatim>\<open>astacus/node/snapshot_op.py\<close>,
  \<^verbatim>\<open>astacus/node/clear.py\<close>).

  The files may change while they are uploaded: \<open>look p k\<close> is the content that the file at path \<open>p\<close> of
  the destination tree has when it is looked at for the \<open>k\<close>-th time (0: is it a file, 1: the hash before,
  2: the upload, 3: the hash after), or none if it is not there. The uploads run one after the other,
  in the order in which their results are taken.
\<close>

section \<open>One content\<close>

type_synonym looks = "string \<Rightarrow> nat \<Rightarrow> string option"

datatype upload_outcome = UploadSuccess int int | UploadMissing | UploadFailure

definition recorded_digest :: "(string \<Rightarrow> string) \<Rightarrow> snapshot_file \<Rightarrow> string \<Rightarrow> string" where
  "recorded_digest blake2s f content = hash_hexdigest_readable blake2s read_buffer_size (open_limited content (sf_file_size f))"

text \<open>What happens to one file of the content: go on to the next file, or an outcome.\<close>

definition upload_one :: "'s hexdigest_ops \<Rightarrow> (string \<Rightarrow> string) \<Rightarrow> looks \<Rightarrow> bool \<Rightarrow> string \<Rightarrow> snapshot_file
    \<Rightarrow> ('s, upload_outcome option) stateful" where
  "upload_one ops blake2s look validate h f s =
     (let p = sf_relative_path f in
      case look p 0 of None \<Rightarrow> (Inr None, s)
      | Some _ \<Rightarrow>
        (case (if validate then map_option (\<lambda>c. recorded_digest blake2s f c = sf_hexdigest f) (look p 1) else Some True) of
           None \<Rightarrow> (Inl FileNotFoundError, s)
         | Some False \<Rightarrow> (Inr None, s)
         | Some True \<Rightarrow>
           (case look p 2 of None \<Rightarrow> (Inl FileNotFoundError, s)
            | Some c \<Rightarrow>
              (case upload_hexdigest_from_file ops h (fst (limited_read None (open_limited c (sf_file_size f)))) s of
                 (Inl e, s1) \<Rightarrow> if is_astacus e then (Inr (Some UploadFailure), s1) else (Inl e, s1)
               | (Inr u, s1) \<Rightarrow>
                 (case (if validate then map_option (\<lambda>c. recorded_digest blake2s f c = sf_hexdigest f) (look p 3) else Some True) of
                    None \<Rightarrow> (Inl FileNotFoundError, s1)
                  | Some True \<Rightarrow> (Inr (Some (UploadSuccess (su_size u) (su_stored_size u))), s1)
                  | Some False \<Rightarrow> bind_st (delete_hexdigest ops h) (\<lambda>_ s2. (Inr None, s2)) s1)))))"

fun upload_files :: "'s hexdigest_ops \<Rightarrow> (string \<Rightarrow> string) \<Rightarrow> looks \<Rightarrow> bool \<Rightarrow> string \<Rightarrow> snapshot_file list
    \<Rightarrow> ('s, upload_outcome) stateful" where
  "upload_files ops blake2s look validate h [] s = (Inr UploadMissing, s)"
| "upload_files ops blake2s look validate h (f # fs) s =
     (case upload_one ops blake2s look validate h f s of
        (Inl e, s1) \<Rightarrow> (Inl e, s1)
      | (Inr (Some out), s1) \<Rightarrow> (Inr out, s1)
      | (Inr None, s1) \<Rightarrow> upload_files ops blake2s look validate h fs s1)"

definition upload_hexdigest :: "'s hexdigest_ops \<Rightarrow> (string \<Rightarrow> string) \<Rightarrow> looks \<Rightarrow> bool \<Rightarrow> snapshot_db \<Rightarrow> string
    \<Rightarrow> ('s, upload_outcome) stateful" where
  "upload_hexdigest ops blake2s look validate db h s =
     (if h = [] then (Inl AssertionError, s) else upload_files ops blake2s look validate h (get_files_for_digest db h) s)"

section \<open>All contents\<close>

record 's upload_run =
  ur_store :: 's
  ur_progress :: progress
  ur_total :: int
  ur_stored :: int

definition on_progress :: "(progress, 'a) stateful \<Rightarrow> ('s upload_run, 'a) stateful" where
  "on_progress f r = (case f (ur_progress r) of (x, p) \<Rightarrow> (x, r\<lparr>ur_progress := p\<rparr>))"

fun outcome_sizes :: "upload_outcome \<Rightarrow> int \<times> int" where
  "outcome_sizes (UploadSuccess a b) = (a, b)"
| "outcome_sizes _ = (0, 0)"

fun outcome_callback :: "upload_outcome \<Rightarrow> (progress, unit) stateful" where
  "outcome_callback (UploadSuccess a b) = upload_success"
| "outcome_callback UploadMissing = upload_missing"
| "outcome_callback UploadFailure = upload_failure"

text \<open>The loop over the results; \<open>running\<close> are the answers of the still-running callback. It returns
  whether all results were taken.\<close>

fun upload_loop :: "'s hexdigest_ops \<Rightarrow> (string \<Rightarrow> string) \<Rightarrow> looks \<Rightarrow> bool \<Rightarrow> snapshot_db \<Rightarrow> (nat \<Rightarrow> bool) \<Rightarrow> string list
    \<Rightarrow> ('s upload_run, bool) stateful" where
  "upload_loop ops blake2s look validate db running [] r = (Inr True, r)"
| "upload_loop ops blake2s look validate db running (h # hs) r =
     (case upload_hexdigest ops blake2s look validate db h (ur_store r) of
        (Inl e, s) \<Rightarrow> (Inl e, r\<lparr>ur_store := s\<rparr>)
      | (Inr out, s) \<Rightarrow>
          bind_st (on_progress (outcome_callback out)) (\<lambda>_.
            if running (length hs) then upload_loop ops blake2s look validate db running hs else (\<lambda>r. (Inr False, r)))
          (r\<lparr>ur_store := s, ur_total := ur_total r + fst (outcome_sizes out), ur_stored := ur_stored r + snd (outcome_sizes out)\<rparr>))"

text \<open>The contents in descending order of size; \<open>it\<close> is the order in which the set of digests is
  iterated. Sorting looks at the first file of every digest and raises when there is none.\<close>

definition upload_order :: "(string set \<Rightarrow> string list) \<Rightarrow> snapshot_db \<Rightarrow> snapshot_hash list \<Rightarrow> string list result" where
  "upload_order it db hashes =
     (let hs = it (set (map sh_hexdigest hashes))
      in if list_ex (\<lambda>h. get_files_for_digest db h = []) hs then Inl IndexError
         else Inr (sort_key (\<lambda>h. - sf_file_size (hd (get_files_for_digest db h))) hs))"

definition write_hashes_to_storage :: "'s hexdigest_ops \<Rightarrow> (string \<Rightarrow> string) \<Rightarrow> looks \<Rightarrow> (string set \<Rightarrow> string list) \<Rightarrow> bool
    \<Rightarrow> snapshot_db \<Rightarrow> (nat \<Rightarrow> bool) \<Rightarrow> snapshot_hash list \<Rightarrow> ('s upload_run, int \<times> int) stateful" where
  "write_hashes_to_storage ops blake2s look it validate db running hashes r =
     (case upload_order it db hashes of
        Inl e \<Rightarrow> (Inl e, r)
      | Inr todo \<Rightarrow>
          bind_st (on_progress (start_progress (int (length todo)))) (\<lambda>_.
          bind_st (upload_loop ops blake2s look validate db running todo) (\<lambda>ok.
          bind_st (if ok then (\<lambda>r. (Inr (), r)) else on_progress (add_fail 1)) (\<lambda>_ r.
            (Inr (ur_total r, ur_stored r), r)))) (r\<lparr>ur_total := 0, ur_stored := 0\<rparr>))"

section \<open>The operations of a node\<close>

text \<open>\<^verbatim>\<open>SnapshotOp.perform_snapshot\<close>, after the check of the operation id.\<close>

definition snapshot_op_result :: "snapshot_group list \<Rightarrow> snapshot_db \<Rightarrow> int \<Rightarrow> snapshot_result \<Rightarrow> snapshot_result" where
  "snapshot_op_result groups db now r =
     (let st = get_snapshot_state groups db
      in r\<lparr>sr_state := Some st,
           sr_hashes := Some (map (\<lambda>f. \<lparr>sh_hexdigest = sf_hexdigest f, sh_size = sf_file_size f\<rparr>)
             (filter (\<lambda>f. sf_hexdigest f \<noteq> []) (ss_files st))),
           sr_files := int (length (ss_files st)),
           sr_total_size := sum_list (map sf_file_size (ss_files st)),
           sr_end := Some now\<rparr>)"

definition snapshot_op :: "(string \<Rightarrow> string) \<Rightarrow> glob \<Rightarrow> snapshot_group list \<Rightarrow> node_fs \<Rightarrow> int
    \<Rightarrow> (snap \<times> snapshot_result, unit) stateful" where
  "snapshot_op blake2s gm groups seen now s =
     (case perform_snapshot blake2s gm groups seen (fst s) of
        (Inl e, sn) \<Rightarrow> (Inl e, (sn, snd s))
      | (Inr _, sn) \<Rightarrow>
          (let res = snapshot_op_result groups (snd sn) now (snd s)
           in case done_progress (nr_progress res) of (x, p) \<Rightarrow> (x, (sn, res\<lparr>nr_progress := p\<rparr>))))"

definition upload_op :: "'s hexdigest_ops \<Rightarrow> (string \<Rightarrow> string) \<Rightarrow> looks \<Rightarrow> (string set \<Rightarrow> string list) \<Rightarrow> bool
    \<Rightarrow> snapshot_db \<Rightarrow> (nat \<Rightarrow> bool) \<Rightarrow> snapshot_hash list \<Rightarrow> ('s \<times> upload_result, unit) stateful" where
  "upload_op ops blake2s look it validate db running hashes s =
     (case write_hashes_to_storage ops blake2s look it validate db running hashes
             \<lparr>ur_store = fst s, ur_progress = nr_progress (snd s), ur_total = 0, ur_stored = 0\<rparr> of
        (Inl e, r) \<Rightarrow> (Inl e, (ur_store r, (snd s)\<lparr>nr_progress := ur_progress r\<rparr>))
      | (Inr (t, st), r) \<Rightarrow> (case done_progress (ur_progress r) of
          (x, p) \<Rightarrow> (x, (ur_store r, (snd s)\<lparr>nr_progress := p, ur_total_size := t, ur_total_stored_size := st\<rparr>))))"

definition release_op :: "string list \<Rightarrow> (snap \<times> progress, unit) stateful" where
  "release_op hexdigests s = (case done_progress (snd s) of (x, p) \<Rightarrow> (x, (release hexdigests (fst s), p)))"

text \<open>\<^verbatim>\<open>ClearOp.clear\<close>: every file of the snapshot is removed from the root.\<close>

fun clear_loop :: "string list \<Rightarrow> (node_fs \<times> progress, unit) stateful" where
  "clear_loop [] s = (Inr (), s)"
| "clear_loop (p # ps) s =
     (case add_success 1 (snd s) of
        (Inl e, pr) \<Rightarrow> (Inl e, ((fst s)\<lparr>nf_src := AList.delete p (nf_src (fst s))\<rparr>, pr))
      | (Inr _, pr) \<Rightarrow> clear_loop ps ((fst s)\<lparr>nf_src := AList.delete p (nf_src (fst s))\<rparr>, pr))"

definition clear_op :: "(string \<Rightarrow> string) \<Rightarrow> glob \<Rightarrow> snapshot_group list \<Rightarrow> bool \<Rightarrow> node_fs \<Rightarrow> (snap \<times> progress, unit) stateful" where
  "clear_op blake2s gm groups outdated seen s =
     (case (if outdated then perform_snapshot blake2s gm groups seen (fst s) else (Inr (), fst s)) of
        (Inl e, sn) \<Rightarrow> (Inl e, (sn, snd s))
      | (Inr _, sn) \<Rightarrow>
          (case bind_st (\<lambda>fp. case start_progress (int (length (snd sn))) (snd fp) of (x, p) \<Rightarrow> (x, (fst fp, p))) (\<lambda>_.
                bind_st (clear_loop (get_all_paths (snd sn))) (\<lambda>_ fp.
                  case done_progress (snd fp) of (x, p) \<Rightarrow> (x, (fst fp, p)))) (fst sn, snd s) of
             (x, (fs, p)) \<Rightarrow> (x, ((fs, snd sn), p))))"

section \<open>Uploads are what their digest says\<close>

lemma recorded_digest_take: "sf_file_size f \<ge> 0 \<Longrightarrow> recorded_digest blake2s f c = blake2s (take (nat (sf_file_size f)) c)"
  by (simp add: recorded_digest_def hash_limited read_buffer_size_def)

lemma limited_read_take_size: "n \<ge> 0 \<Longrightarrow> fst (limited_read None (open_limited c n)) = take (nat n) c"
  by (simp add: limited_read_def raw_read_def open_limited_def Let_def)

text \<open>A change of a file during the upload is there to stay: if the file has the same digest before and
  after, it had it in between.\<close>

definition steady :: "(string \<Rightarrow> string) \<Rightarrow> looks \<Rightarrow> snapshot_file \<Rightarrow> bool" where
  "steady blake2s look f \<longleftrightarrow> (\<forall>c1 c2 c3. look (sf_relative_path f) 1 = Some c1 \<and> look (sf_relative_path f) 2 = Some c2
     \<and> look (sf_relative_path f) 3 = Some c3 \<and> recorded_digest blake2s f c1 = recorded_digest blake2s f c3
     \<longrightarrow> recorded_digest blake2s f c2 = recorded_digest blake2s f c1)"

text \<open>A file that has its recorded size and digest whenever it is looked at.\<close>

definition resting :: "(string \<Rightarrow> string) \<Rightarrow> looks \<Rightarrow> snapshot_file \<Rightarrow> bool" where
  "resting blake2s look f \<longleftrightarrow> (\<exists>c. (\<forall>k. look (sf_relative_path f) k = Some c) \<and> sf_file_size f = int (length c)
     \<and> blake2s c = sf_hexdigest f)"

definition uploads_hold :: "(string \<Rightarrow> string) \<Rightarrow> (string \<rightharpoonup> string) \<Rightarrow> (string \<rightharpoonup> string) \<Rightarrow> bool" where
  "uploads_hold blake2s before after \<longleftrightarrow> (\<forall>h b. after h = Some b \<longrightarrow> before h = Some b \<or> blake2s b = h)"

lemma uploads_hold_simps [simp]:
  "uploads_hold blake2s m m"
  "uploads_hold blake2s m m' \<Longrightarrow> uploads_hold blake2s m (m'(h := None))"
  "uploads_hold blake2s m m' \<Longrightarrow> blake2s b = h \<Longrightarrow> uploads_hold blake2s m (m'(h \<mapsto> b))"
  by (auto simp: uploads_hold_def)

lemma uploads_hold_trans: "uploads_hold blake2s a b \<Longrightarrow> uploads_hold blake2s b c \<Longrightarrow> uploads_hold blake2s a c"
  unfolding uploads_hold_def by metis

context hexdigest_storage
begin

lemma upload_one_sound:
  assumes "hinv s" and "h \<noteq> []" and f: "sf_hexdigest f = h" "sf_file_size f \<ge> 0" "steady blake2s look f"
    and "upload_one hops blake2s look True h f s = (Inr out, s')"
  shows "hinv s' \<and> uploads_hold blake2s (blobs s) (blobs s')"
proof (cases "look (sf_relative_path f) 0")
  case None
  then show ?thesis using assms by (simp add: upload_one_def Let_def)
next
  case (Some c0)
  show ?thesis
  proof (cases "look (sf_relative_path f) 1")
    case None
    then show ?thesis using assms Some by (simp add: upload_one_def Let_def)
  next
    case c1: (Some c1)
    show ?thesis
    proof (cases "recorded_digest blake2s f c1 = h")
      case False
      then show ?thesis using assms Some c1 by (simp add: upload_one_def Let_def)
    next
      case eq: True
      then obtain c2 where c2: "look (sf_relative_path f) 2 = Some c2"
        using assms(6) Some c1 f by (auto simp: upload_one_def Let_def split: option.splits)
      let ?b = "take (nat (sf_file_size f)) c2"
      obtain r1 s1 where u: "upload_hexdigest_from_file hops h ?b s = (r1, s1)" by fastforce
      from upload_hexdigest_law [OF assms(1) u assms(2)] obtain x where
        l: "hinv s1" "blobs s1 = (blobs s)(h \<mapsto> ?b)" "r1 = Inr x" by blast
      obtain c3 where c3: "look (sf_relative_path f) 3 = Some c3"
        using assms(6) Some c1 c2 eq u l f by (auto simp: upload_one_def Let_def limited_read_take_size split: option.splits)
      show ?thesis
      proof (cases "recorded_digest blake2s f c3 = h")
        case True
        then have "blake2s ?b = h"
          using f(3) c1 c2 c3 eq recorded_digest_take [OF f(2)] unfolding steady_def by metis
        then show ?thesis using assms(6) Some c1 c2 c3 eq u l f True
          by (auto simp: upload_one_def Let_def limited_read_take_size)
      next
        case False
        obtain r2 s2 where d: "delete_hexdigest hops h s1 = (r2, s2)" by fastforce
        have "hinv s2" "blobs s2 = (blobs s)(h := None)" "r2 = Inr ()"
          using delete_hexdigest_law [OF l(1) d assms(2)] l(2) by auto
        then show ?thesis using assms(6) Some c1 c2 c3 eq u l f False d
          by (auto simp: upload_one_def Let_def limited_read_take_size bind_st_def)
      qed
    qed
  qed
qed

lemma upload_files_sound:
  assumes "hinv s" and "h \<noteq> []" and "\<forall>f \<in> set fs. sf_hexdigest f = h \<and> sf_file_size f \<ge> 0 \<and> steady blake2s look f"
    and "upload_files hops blake2s look True h fs s = (Inr out, s')"
  shows "hinv s' \<and> uploads_hold blake2s (blobs s) (blobs s')"
  using assms
proof (induction fs arbitrary: s)
  case (Cons f fs)
  obtain r s1 where one: "upload_one hops blake2s look True h f s = (r, s1)" by fastforce
  with Cons.prems(4) obtain o1 where r: "r = Inr o1" by (cases r) auto
  have s1: "hinv s1" "uploads_hold blake2s (blobs s) (blobs s1)"
    using upload_one_sound [OF Cons.prems(1,2) _ _ _ one [unfolded r]] Cons.prems(3) by auto
  show ?case
  proof (cases o1)
    case None
    with Cons.prems(4) one r have "upload_files hops blake2s look True h fs s1 = (Inr out, s')" by simp
    then show ?thesis using Cons.IH [OF s1(1) Cons.prems(2)] Cons.prems(3) s1(2) uploads_hold_trans by (metis list.set_intros(2))
  qed (use Cons.prems(4) one r s1 in auto)
qed simp

lemma upload_loop_sound:
  assumes "hinv (ur_store r)" and "\<forall>f \<in> set (map snd db). sf_file_size f \<ge> 0 \<and> steady blake2s look f"
    and "upload_loop hops blake2s look True db running hs r = (Inr ok, r')"
  shows "hinv (ur_store r') \<and> uploads_hold blake2s (blobs (ur_store r)) (blobs (ur_store r'))"
  using assms
proof (induction hs arbitrary: r)
  case (Cons h hs)
  obtain x s1 where up: "upload_hexdigest hops blake2s look True db h (ur_store r) = (x, s1)" by fastforce
  with Cons.prems(3) obtain out where x: "x = Inr out" by (cases x) auto
  have h: "h \<noteq> []" using up x by (auto simp: upload_hexdigest_def split: if_splits)
  have files: "\<forall>f \<in> set (get_files_for_digest db h). sf_hexdigest f = h \<and> sf_file_size f \<ge> 0 \<and> steady blake2s look f"
    using Cons.prems(2) by (auto simp: get_files_for_digest_def get_all_files_def)
  have s1: "hinv s1" "uploads_hold blake2s (blobs (ur_store r)) (blobs s1)"
    using upload_files_sound [OF Cons.prems(1) h files] up x h by (auto simp: upload_hexdigest_def)
  let ?r = "r\<lparr>ur_store := s1, ur_total := ur_total r + fst (outcome_sizes out), ur_stored := ur_stored r + snd (outcome_sizes out)\<rparr>"
  obtain y p where cb: "outcome_callback out (ur_progress r) = (y, p)" by fastforce
  with Cons.prems(3) up x have y: "y = Inr ()" by (cases y) (auto simp: bind_st_def on_progress_def)
  have st: "ur_store (?r\<lparr>ur_progress := p\<rparr>) = s1" by simp
  show ?case
  proof (cases "running (length hs)")
    case True
    then have "upload_loop hops blake2s look True db running hs (?r\<lparr>ur_progress := p\<rparr>) = (Inr ok, r')"
      using Cons.prems(3) up x cb y by (simp add: bind_st_def on_progress_def)
    then have "hinv (ur_store r') \<and> uploads_hold blake2s (blobs s1) (blobs (ur_store r'))"
      using Cons.IH [of "?r\<lparr>ur_progress := p\<rparr>"] s1(1) Cons.prems(2) st by metis
    then show ?thesis using s1(2) uploads_hold_trans by blast
  next
    case False
    then have "r' = ?r\<lparr>ur_progress := p\<rparr>"
      using Cons.prems(3) up x cb y by (simp add: bind_st_def on_progress_def)
    then show ?thesis using s1 st by simp
  qed
qed simp

lemma write_hashes_sound:
  assumes "hinv (ur_store r)" and "\<forall>f \<in> set (map snd db). sf_file_size f \<ge> 0 \<and> steady blake2s look f"
    and run: "write_hashes_to_storage hops blake2s look it True db running hashes r = (Inr sizes, r')"
  shows "hinv (ur_store r') \<and> uploads_hold blake2s (blobs (ur_store r)) (blobs (ur_store r'))"
proof -
  obtain todo where todo: "upload_order it db hashes = Inr todo"
    using run by (auto simp: write_hashes_to_storage_def split: sum.splits)
  obtain p1 where "start_progress (int (length todo)) (ur_progress r) = (Inr (), p1)"
    using run todo by (cases "start_progress (int (length todo)) (ur_progress r)"; cases "fst (start_progress (int (length todo)) (ur_progress r))")
      (auto simp: write_hashes_to_storage_def bind_st_def on_progress_def)
  note p1 = this
  let ?r = "r\<lparr>ur_total := 0, ur_stored := 0, ur_progress := p1\<rparr>"
  obtain x r1 where l: "upload_loop hops blake2s look True db running todo ?r = (x, r1)" by fastforce
  obtain ok where x: "x = Inr ok"
    using run todo p1 l by (cases x) (auto simp: write_hashes_to_storage_def bind_st_def on_progress_def)
  have "hinv (ur_store r1) \<and> uploads_hold blake2s (blobs (ur_store ?r)) (blobs (ur_store r1))"
    using upload_loop_sound [OF _ assms(2) l [unfolded x]] assms(1) by simp
  moreover have "ur_store r' = ur_store r1"
    using run todo p1 l x by (auto simp: write_hashes_to_storage_def bind_st_def on_progress_def split: if_splits prod.splits sum.splits)
  ultimately show ?thesis by simp
qed

text \<open>The upload of files that do not change.\<close>

lemma upload_resting_file:
  assumes "hinv s" and "h \<noteq> []" and f: "sf_hexdigest f = h" "resting blake2s look f"
  shows "\<exists>st s'. upload_one hops blake2s look validate h f s = (Inr (Some (UploadSuccess (sf_file_size f) st)), s')
    \<and> hinv s' \<and> blobs s' = (blobs s)(h \<mapsto> the (look (sf_relative_path f) 0))"
proof -
  obtain c where c: "\<And>k. look (sf_relative_path f) k = Some c" "sf_file_size f = int (length c)" "blake2s c = h"
    using f by (auto simp: resting_def)
  obtain r1 s1 where u: "upload_hexdigest_from_file hops h c s = (r1, s1)" by fastforce
  from upload_hexdigest_law [OF assms(1) u assms(2)] obtain x where
    l: "hinv s1" "blobs s1 = (blobs s)(h \<mapsto> c)" "r1 = Inr x" "su_size x = int (length c)" by blast
  have d: "recorded_digest blake2s f c = h" using c by (simp add: recorded_digest_take)
  show ?thesis using u l c d f by (simp add: upload_one_def Let_def)
qed

lemma upload_loop_resting:
  assumes "hinv (ur_store r)" and "\<forall>k. running k" and "distinct hs"
    and "\<forall>h \<in> set hs. h \<noteq> [] \<and> get_files_for_digest db h \<noteq> [] \<and> resting blake2s look (hd (get_files_for_digest db h))"
    and "pr_handled (ur_progress r) + int (length hs) \<le> pr_total (ur_progress r)" and "\<not> pr_final (ur_progress r)"
  shows "\<exists>r'. upload_loop hops blake2s look validate db running hs r = (Inr True, r') \<and> hinv (ur_store r')
    \<and> (\<forall>h. blobs (ur_store r') h = (if h \<in> set hs then look (sf_relative_path (hd (get_files_for_digest db h))) 0 else blobs (ur_store r) h))
    \<and> ur_progress r' = (ur_progress r)\<lparr>pr_handled := pr_handled (ur_progress r) + int (length hs)\<rparr>
    \<and> ur_total r' = ur_total r + (\<Sum>h\<leftarrow>hs. sf_file_size (hd (get_files_for_digest db h)))"
  using assms
proof (induction hs arbitrary: r)
  case (Cons h hs)
  obtain f fs where files: "get_files_for_digest db h = f # fs" using Cons.prems(4) by (cases "get_files_for_digest db h") auto
  then have fh: "sf_hexdigest f = h" "resting blake2s look f" "h \<noteq> []"
    using Cons.prems(4) filter_eq_ConsD [of "\<lambda>f. sf_hexdigest f = h" "get_all_files db" f fs] by (auto simp: get_files_for_digest_def)
  obtain st s1 where up: "upload_one hops blake2s look validate h f (ur_store r) = (Inr (Some (UploadSuccess (sf_file_size f) st)), s1)"
    and s1: "hinv s1" "blobs s1 = (blobs (ur_store r))(h \<mapsto> the (look (sf_relative_path f) 0))"
    using upload_resting_file [OF Cons.prems(1) fh(3,1,2)] by blast
  have some: "look (sf_relative_path f) 0 = Some (the (look (sf_relative_path f) 0))" using fh(2) by (auto simp: resting_def)
  let ?p = "(ur_progress r)\<lparr>pr_handled := pr_handled (ur_progress r) + 1\<rparr>"
  let ?r = "r\<lparr>ur_store := s1, ur_total := ur_total r + sf_file_size f, ur_stored := ur_stored r + st, ur_progress := ?p\<rparr>"
  have "upload_loop hops blake2s look validate db running (h # hs) r = upload_loop hops blake2s look validate db running hs ?r"
    using up files fh(3) Cons.prems(2,5,6)
    by (simp add: upload_hexdigest_def bind_st_def on_progress_def upload_success_def add_success_def)
  moreover have "\<exists>r'. upload_loop hops blake2s look validate db running hs ?r = (Inr True, r') \<and> hinv (ur_store r')
    \<and> (\<forall>h. blobs (ur_store r') h = (if h \<in> set hs then look (sf_relative_path (hd (get_files_for_digest db h))) 0 else blobs (ur_store ?r) h))
    \<and> ur_progress r' = (ur_progress ?r)\<lparr>pr_handled := pr_handled (ur_progress ?r) + int (length hs)\<rparr>
    \<and> ur_total r' = ur_total ?r + (\<Sum>h\<leftarrow>hs. sf_file_size (hd (get_files_for_digest db h)))"
    using Cons.prems s1(1) by (intro Cons.IH) auto
  ultimately show ?case using s1(2) some files Cons.prems(3) by (auto simp: algebra_simps)
qed simp

lemma write_hashes_resting:
  assumes "hinv (ur_store r)" and "\<forall>k. running k" and it: "set_order it"
    and rest: "\<forall>h \<in> set (map sh_hexdigest hashes). h \<noteq> [] \<and> get_files_for_digest db h \<noteq> [] \<and> resting blake2s look (hd (get_files_for_digest db h))"
    and pr: "ur_progress r = new_progress"
  shows "\<exists>r' t. write_hashes_to_storage hops blake2s look it validate db running hashes r = (Inr t, r') \<and> hinv (ur_store r')
    \<and> (\<forall>h. blobs (ur_store r') h = (if h \<in> set (map sh_hexdigest hashes)
          then look (sf_relative_path (hd (get_files_for_digest db h))) 0 else blobs (ur_store r) h))
    \<and> fst t = (\<Sum>h \<in> set (map sh_hexdigest hashes). sf_file_size (hd (get_files_for_digest db h)))
    \<and> pr_handled (ur_progress r') = pr_total (ur_progress r') \<and> pr_failed (ur_progress r') = 0 \<and> \<not> pr_final (ur_progress r')"
proof -
  let ?H = "set (map sh_hexdigest hashes)" and ?size = "\<lambda>h. sf_file_size (hd (get_files_for_digest db h))"
  define todo where "todo = sort_key (\<lambda>h. - ?size h) (it ?H)"
  have set: "set todo = ?H" "distinct todo" using set_orderD [OF it, of ?H] by (simp_all add: todo_def)
  have order: "upload_order it db hashes = Inr todo"
    using rest set_orderD(1) [OF it, of ?H] by (auto simp: upload_order_def todo_def list_ex_iff Let_def)
  let ?p = "new_progress\<lparr>pr_total := int (length todo)\<rparr>"
  let ?r = "r\<lparr>ur_total := 0, ur_stored := 0, ur_progress := ?p\<rparr>"
  have st: "start_progress (int (length todo)) new_progress = (Inr (), ?p)"
    by (simp add: start_progress_def add_total_def new_progress_def)
  have "\<exists>r'. upload_loop hops blake2s look validate db running todo ?r = (Inr True, r') \<and> hinv (ur_store r')
    \<and> (\<forall>h. blobs (ur_store r') h = (if h \<in> set todo then look (sf_relative_path (hd (get_files_for_digest db h))) 0 else blobs (ur_store ?r) h))
    \<and> ur_progress r' = (ur_progress ?r)\<lparr>pr_handled := pr_handled (ur_progress ?r) + int (length todo)\<rparr>
    \<and> ur_total r' = ur_total ?r + (\<Sum>h\<leftarrow>todo. ?size h)"
    using assms set by (intro upload_loop_resting) (auto simp: new_progress_def)
  moreover have "(\<Sum>h\<leftarrow>todo. ?size h) = (\<Sum>h \<in> ?H. ?size h)" using set sum_list_distinct_conv_sum_set by metis
  ultimately show ?thesis using order st pr set
    by (auto simp: write_hashes_to_storage_def bind_st_def on_progress_def new_progress_def)
qed

end


definition example_row :: snapshot_file where
  "example_row = \<lparr>sf_relative_path = ''a'', sf_file_size = 3, sf_mtime_ns = 7, sf_hexdigest = ''cba'', sf_content_b64 = None\<rparr>"

definition example_upload :: "file_storage upload_run" where
  "example_upload = \<lparr>ur_store = new_file_storage, ur_progress = new_progress, ur_total = 0, ur_stored = 0\<rparr>"

definition example_hashes :: "snapshot_hash list" where
  "example_hashes = [\<lparr>sh_hexdigest = ''cba'', sh_size = 3\<rparr>, \<lparr>sh_hexdigest = ''cba'', sh_size = 3\<rparr>]"

lemma example_upload_inv: "file_inv (ur_store example_upload)"
  by (simp add: example_upload_def file_inv_def new_file_storage_def good_suffix_def)

text \<open>A file that is overwritten between the upload and the second hash.\<close>

definition overwritten :: looks where
  "overwritten p k = Some (if k \<le> 2 then ''abc'' else ''xyz'')"


text \<open>C12. While the files of the requested contents rest and nothing cancels the operation, the upload
  returns: every requested content is in the storage, everything else there is as before, the reported
  size is the sum of the sizes of the distinct contents, and the progress is complete without failures.\<close>

theorem upload_complete:
  assumes "hexdigest_storage ops hinv blobs" and "hinv (ur_store r)" and "\<forall>k. running k" and "set_order it"
    and "\<forall>h \<in> set (map sh_hexdigest hashes). h \<noteq> [] \<and> get_files_for_digest db h \<noteq> [] \<and> resting blake2s look (hd (get_files_for_digest db h))"
    and "ur_progress r = new_progress"
  shows "\<exists>r' t. write_hashes_to_storage ops blake2s look it validate db running hashes r = (Inr t, r')
    \<and> (\<forall>h \<in> set (map sh_hexdigest hashes). \<exists>b. blobs (ur_store r') h = Some b \<and> blake2s b = h)
    \<and> (\<forall>h. h \<notin> set (map sh_hexdigest hashes) \<longrightarrow> blobs (ur_store r') h = blobs (ur_store r) h)
    \<and> fst t = (\<Sum>h \<in> set (map sh_hexdigest hashes). sf_file_size (hd (get_files_for_digest db h)))
    \<and> pr_handled (ur_progress r') = pr_total (ur_progress r') \<and> pr_failed (ur_progress r') = 0 \<and> hinv (ur_store r')"
proof -
  obtain r' t where run: "write_hashes_to_storage ops blake2s look it validate db running hashes r = (Inr t, r')" "hinv (ur_store r')"
    "\<forall>h. blobs (ur_store r') h = (if h \<in> set (map sh_hexdigest hashes)
          then look (sf_relative_path (hd (get_files_for_digest db h))) 0 else blobs (ur_store r) h)"
    "fst t = (\<Sum>h \<in> set (map sh_hexdigest hashes). sf_file_size (hd (get_files_for_digest db h)))"
    "pr_handled (ur_progress r') = pr_total (ur_progress r')" "pr_failed (ur_progress r') = 0"
    using hexdigest_storage.write_hashes_resting [OF assms] by blast
  have "\<exists>b. blobs (ur_store r') h = Some b \<and> blake2s b = h" if h: "h \<in> set (map sh_hexdigest hashes)" for h
  proof -
    have "sf_hexdigest (hd (get_files_for_digest db h)) = h"
      using assms(5) h hd_in_set [of "get_files_for_digest db h"] by (auto simp: get_files_for_digest_def)
    then show ?thesis using assms(5) h run(3) by (auto simp: resting_def)
  qed
  then show ?thesis using run by auto
qed

theorem upload_complete_witness:
  "\<exists>r' t. write_hashes_to_storage file_hexdigest_ops rev (\<lambda>p k. Some ''abc'') sorted_list_of_set True [(''a'', example_row)] (\<lambda>_. True)
       example_hashes example_upload = (Inr t, r')
     \<and> fst t = 3 \<and> (\<exists>b. file_blobs (ur_store r') ''cba'' = Some b \<and> rev b = ''cba'')"
proof -
  have files: "get_files_for_digest [(''a'', example_row)] ''cba'' = [example_row]" by code_simp
  have rest: "\<forall>h \<in> set (map sh_hexdigest example_hashes). h \<noteq> [] \<and> get_files_for_digest [(''a'', example_row)] h \<noteq> []
      \<and> resting rev (\<lambda>p k. Some ''abc'') (hd (get_files_for_digest [(''a'', example_row)] h))"
    by (simp add: example_hashes_def files) (simp add: resting_def example_row_def)
  have pr: "ur_progress example_upload = new_progress" by (simp add: example_upload_def)
  have hs: "set (map sh_hexdigest example_hashes) = {''cba''}" by (simp add: example_hashes_def)
  have sum: "(\<Sum>h \<in> set (map sh_hexdigest example_hashes). sf_file_size (hd (get_files_for_digest [(''a'', example_row)] h))) = 3"
    unfolding hs by (simp add: files) (simp add: example_row_def)
  from upload_complete [OF fhex.hexdigest_storage_axioms example_upload_inv _ set_order_sorted_list_of_set rest pr, of "\<lambda>_. True" True]
  obtain r' t where run: "write_hashes_to_storage file_hexdigest_ops rev (\<lambda>p k. Some ''abc'') sorted_list_of_set True [(''a'', example_row)] (\<lambda>_. True)
       example_hashes example_upload = (Inr t, r')" and t: "fst t = 3"
    and b: "\<forall>h \<in> set (map sh_hexdigest example_hashes). \<exists>b. file_blobs (ur_store r') h = Some b \<and> rev b = h"
    unfolding sum by blast
  from b [unfolded hs] have "\<exists>b. file_blobs (ur_store r') ''cba'' = Some b \<and> rev b = ''cba''" by blast
  with run t show ?thesis by blast
qed

text \<open>When the file is overwritten and then vanishes before the second hash, the unchecked content stays
  in the storage under the digest of the old one.\<close>

lemma vanished_file_leaves_unchecked_content:
  "case write_hashes_to_storage file_hexdigest_ops rev (\<lambda>p k. if k = 2 then Some ''xyz'' else if k = 3 then None else Some ''abc'')
      sorted_list_of_set True [(''a'', example_row)] (\<lambda>_. True) example_hashes example_upload of
    (r, s) \<Rightarrow> r = Inl FileNotFoundError \<and> file_blobs (ur_store s) ''cba'' = Some ''xyz''"
  by code_simp

text \<open>When the snapshot's destination is the data directory itself, releasing removes the data files.\<close>

lemma release_in_place_removes_sources:
  "dict_get (nf_src (fst (release [''egral''] (example_fs\<lparr>nf_same_root := True\<rparr>,
     [(''d/a'', \<lparr>sf_relative_path = ''d/a'', sf_file_size = 5, sf_mtime_ns = 7, sf_hexdigest = ''egral'', sf_content_b64 = None\<rparr>)])))) ''d/a'' = None"
  by code_simp

end
