(* ===== verification/Node_Download.thy ===== *)
theory Node_Download
  imports Node_Upload Caching_Storage
begin

text \<open>
  The restoration of a node's files from a backup (\<^verbatim>\<open>astacus/node/download.py\<close>). The root directory is
  the source tree of \<^theory_text>\<open>node_fs\<close>. A downloaded file is a new inode that replaces the entry of its
  path (\<^verbatim>\<open>open_path_with_atomic_rename\<close>); a copied one is written in place when the path exists
  (\<^verbatim>\<open>shutil.copy\<close>), so that other names of the same inode change with it. File modes are not modelled.
\<close>

section \<open>Writing one file\<close>

record 's restore =
  rs_fs :: node_fs
  rs_store :: 's
  rs_progress :: progress

definition snapshotfile_already_exists :: "snapshot_db \<Rightarrow> snapshot_file \<Rightarrow> bool" where
  "snapshotfile_already_exists db f = (case get_file db (sf_relative_path f) of
     None \<Rightarrow> False | Some g \<Rightarrow> equals_excluding_mtime g f)"

text \<open>A new file takes the place of the entry.\<close>

definition replace_file :: "string \<Rightarrow> file_data \<Rightarrow> node_fs \<Rightarrow> node_fs" where
  "replace_file p d fs = fs\<lparr>nf_inode := (nf_inode fs)(nf_next fs := d), nf_next := Suc (nf_next fs),
     nf_src := dict_set p \<lparr>se_inode = nf_next fs, se_symlink = False\<rparr> (nf_src fs)\<rparr>"

text \<open>\<^verbatim>\<open>shutil.copy\<close> followed by \<^verbatim>\<open>os.utime\<close>; copying a file onto itself raises.\<close>

definition copy_file :: "string \<Rightarrow> string \<Rightarrow> int \<Rightarrow> (node_fs, unit) stateful" where
  "copy_file from to mtime fs = (case dict_get (nf_src fs) from of
       None \<Rightarrow> (Inl FileNotFoundError, fs)
     | Some e \<Rightarrow> let d = \<lparr>fd_content = fd_content (nf_inode fs (se_inode e)), fd_mtime_ns = mtime\<rparr>
         in (case dict_get (nf_src fs) to of
               None \<Rightarrow> (Inr (), replace_file to d fs)
             | Some e' \<Rightarrow> if se_inode e' = se_inode e then (Inl OSError, fs)
                 else (Inr (), fs\<lparr>nf_inode := (nf_inode fs)(se_inode e' := d)\<rparr>)))"

definition download_snapshotfile :: "'s hexdigest_ops \<Rightarrow> snapshot_db \<Rightarrow> snapshot_file \<Rightarrow> ('s restore, unit) stateful" where
  "download_snapshotfile ops db f r =
     (if snapshotfile_already_exists db f then (Inr (), r)
      else if sf_hexdigest f \<noteq> [] then
        (case download_hexdigest_to_file ops (sf_hexdigest f) (rs_store r) of
           (Inl e, s) \<Rightarrow> (Inl e, r\<lparr>rs_store := s\<rparr>)
         | (Inr c, s) \<Rightarrow> (Inr (), r\<lparr>rs_store := s, rs_fs := replace_file (sf_relative_path f)
             \<lparr>fd_content = c, fd_mtime_ns = sf_mtime_ns f\<rparr> (rs_fs r)\<rparr>))
      else (case sf_content_b64 f of None \<Rightarrow> (Inl AssertionError, r)
         | Some t \<Rightarrow> (case b64decode t of Inl e \<Rightarrow> (Inl e, r)
             | Inr c \<Rightarrow> (Inr (), r\<lparr>rs_fs := replace_file (sf_relative_path f)
                 \<lparr>fd_content = c, fd_mtime_ns = sf_mtime_ns f\<rparr> (rs_fs r)\<rparr>))))"

definition copy_snapshotfile :: "snapshot_db \<Rightarrow> snapshot_file \<Rightarrow> snapshot_file \<Rightarrow> ('s restore, unit) stateful" where
  "copy_snapshotfile db f0 f r =
     (if snapshotfile_already_exists db f then (Inr (), r)
      else case copy_file (sf_relative_path f0) (sf_relative_path f) (sf_mtime_ns f) (rs_fs r) of
        (x, fs) \<Rightarrow> (x, r\<lparr>rs_fs := fs\<rparr>))"

fun download_snapshotfiles_from_storage :: "'s hexdigest_ops \<Rightarrow> snapshot_db \<Rightarrow> snapshot_file list \<Rightarrow> ('s restore, unit) stateful" where
  "download_snapshotfiles_from_storage ops db [] r = (Inl IndexError, r)"
| "download_snapshotfiles_from_storage ops db (f # fs) r =
     bind_st (download_snapshotfile ops db f) (\<lambda>_.
     bind_st (map_st (copy_snapshotfile db f) fs) (\<lambda>_ r. (Inr (), r))) r"

section \<open>Restoring all files\<close>

definition hexdigest_to_snapshotfiles :: "snapshot_file list \<Rightarrow> (string \<times> snapshot_file list) list" where
  "hexdigest_to_snapshotfiles files =
     fold (\<lambda>f d. if sf_hexdigest f \<noteq> [] then dict_append (sf_hexdigest f) f d else d) files []"

definition on_restore_progress :: "(progress, 'a) stateful \<Rightarrow> ('s restore, 'a) stateful" where
  "on_restore_progress g r = (case g (rs_progress r) of (x, p) \<Rightarrow> (x, r\<lparr>rs_progress := p\<rparr>))"

definition download_embedded :: "'s hexdigest_ops \<Rightarrow> snapshot_db \<Rightarrow> snapshot_file \<Rightarrow> ('s restore, unit) stateful" where
  "download_embedded ops db f =
     (if sf_hexdigest f \<noteq> [] then (\<lambda>r. (Inr (), r))
      else bind_st (download_snapshotfile ops db f) (\<lambda>_. on_restore_progress (download_success (sf_file_size f + 1))))"

text \<open>The groups of files with the same content; the result says whether all groups were handled.\<close>

fun download_groups :: "'s hexdigest_ops \<Rightarrow> snapshot_db \<Rightarrow> (nat \<Rightarrow> bool) \<Rightarrow> snapshot_file list list \<Rightarrow> ('s restore, bool) stateful" where
  "download_groups ops db running [] r = (Inr True, r)"
| "download_groups ops db running (g # gs) r =
     bind_st (download_snapshotfiles_from_storage ops db g) (\<lambda>_.
     bind_st (on_restore_progress (download_success ((sf_file_size (hd g) + 1) * int (length g)))) (\<lambda>_.
       if running (length gs) then download_groups ops db running gs else (\<lambda>r. (Inr False, r)))) r"

definition remove_paths :: "string set \<Rightarrow> node_fs \<Rightarrow> node_fs" where
  "remove_paths ps fs = fs\<lparr>nf_src := filter (\<lambda>(p, e). p \<notin> ps) (nf_src fs)\<rparr>"

text \<open>The paths to be given to the owner of the root directory: a file and its parents, up to the first
  that has the owner already. \<open>uid\<close> gives the owner of a path, as the list of its parts from the root;
  \<open>chown\<close> is the external command on one chunk of paths.\<close>

function chown_candidates :: "(string list \<Rightarrow> int) \<Rightarrow> int \<Rightarrow> string list \<Rightarrow> string list list" where
  "chown_candidates uid owner parts =
     (if parts = [] \<or> uid parts = owner then [] else parts # chown_candidates uid owner (butlast parts))"
  by pat_completeness auto
termination by (relation "measure (\<lambda>(_, _, parts). length parts)") auto

declare chown_candidates.simps [simp del]

definition chowned_paths :: "(string list \<Rightarrow> int) \<Rightarrow> int \<Rightarrow> snapshot_file list \<Rightarrow> string list" where
  "chowned_paths uid owner files = sorted_list_of_set (set (map join_parts
     (concat (map (\<lambda>f. chown_candidates uid owner (split_path (sf_relative_path f))) files))))"

function chunks_of :: "nat \<Rightarrow> 'a list \<Rightarrow> 'a list list" where
  "chunks_of n xs = (if xs = [] \<or> n = 0 then [] else take n xs # chunks_of n (drop n xs))"
  by pat_completeness auto
termination by (relation "measure (\<lambda>(_, xs). length xs)") auto

declare chunks_of.simps [simp del]

definition adjust_owners :: "(string list \<Rightarrow> int) \<Rightarrow> int \<Rightarrow> (string list \<Rightarrow> unit result) \<Rightarrow> snapshot_file list \<Rightarrow> unit result" where
  "adjust_owners uid owner chown files =
     bind_res (map_res chown (chunks_of 1000 (chowned_paths uid owner files))) (\<lambda>_. Inr ())"

record chown_env =
  ce_uid :: "string list \<Rightarrow> int"
  ce_owner :: int
  ce_chown :: "string list \<Rightarrow> unit result"

text \<open>\<^verbatim>\<open>download_from_storage\<close> after the snapshot has been refreshed. \<open>env\<close> is there when the owner is copied.\<close>

definition restore_files :: "'s hexdigest_ops \<Rightarrow> snapshot_db \<Rightarrow> (nat \<Rightarrow> bool) \<Rightarrow> chown_env option \<Rightarrow> snapshot_file list
    \<Rightarrow> ('s restore, unit) stateful" where
  "restore_files ops db running env files =
     bind_st (on_restore_progress (start_progress (\<Sum>f\<leftarrow>files. 1 + sf_file_size f))) (\<lambda>_.
     bind_st (map_st (download_embedded ops db) files) (\<lambda>_.
     bind_st (download_groups ops db running
         (sort_key (\<lambda>g. - sf_file_size (hd g)) (map snd (hexdigest_to_snapshotfiles files)))) (\<lambda>ok.
       if \<not> ok then bind_st (on_restore_progress (add_fail 1)) (\<lambda>_. on_restore_progress done_progress)
       else (\<lambda>r. let r1 = r\<lparr>rs_fs := remove_paths (set (get_all_paths db) - sf_relative_path ` set files) (rs_fs r)\<rparr>
         in case (case env of None \<Rightarrow> Inr () | Some c \<Rightarrow> adjust_owners (ce_uid c) (ce_owner c) (ce_chown c) files) of
              Inl e \<Rightarrow> (Inl e, r1)
            | Inr _ \<Rightarrow> on_restore_progress done_progress r1))))"

definition download_from_storage :: "'s hexdigest_ops \<Rightarrow> (string \<Rightarrow> string) \<Rightarrow> glob \<Rightarrow> snapshot_group list \<Rightarrow> (nat \<Rightarrow> bool)
    \<Rightarrow> chown_env option \<Rightarrow> node_fs \<Rightarrow> snapshot_state \<Rightarrow> ('s restore \<times> snapshot_db, unit) stateful" where
  "download_from_storage ops blake2s gm groups running env seen st s =
     (case perform_snapshot blake2s gm groups seen (rs_fs (fst s), snd s) of
        (Inl e, (fs, db)) \<Rightarrow> (Inl e, ((fst s)\<lparr>rs_fs := fs\<rparr>, db))
      | (Inr _, (fs, db)) \<Rightarrow> (case restore_files ops db running env (ss_files st) ((fst s)\<lparr>rs_fs := fs\<rparr>) of
          (x, r) \<Rightarrow> (x, (r, db))))"

text \<open>\<^verbatim>\<open>download_snapshot\<close>: the decoder takes the index of the result that it keeps.\<close>

definition download_snapshot :: "'j json_ops \<Rightarrow> (nat \<Rightarrow> string \<Rightarrow> snapshot_result result) \<Rightarrow> string \<Rightarrow> nat \<Rightarrow> ('j, snapshot_result) stateful" where
  "download_snapshot jops decode backup_name index = download_json jops (decode index) backup_name"

definition download_op :: "'j json_ops \<Rightarrow> (nat \<Rightarrow> string \<Rightarrow> snapshot_result result) \<Rightarrow> 's hexdigest_ops \<Rightarrow> (string \<Rightarrow> string) \<Rightarrow> glob
    \<Rightarrow> snapshot_group list \<Rightarrow> (nat \<Rightarrow> bool) \<Rightarrow> chown_env option \<Rightarrow> node_fs \<Rightarrow> string \<Rightarrow> nat
    \<Rightarrow> ('j \<times> ('s restore \<times> snapshot_db), unit) stateful" where
  "download_op jops decode ops blake2s gm groups running env seen backup_name index s =
     (case download_snapshot jops decode backup_name index (fst s) of
        (Inl e, j) \<Rightarrow> (Inl e, (j, snd s))
      | (Inr res, j) \<Rightarrow> (case sr_state res of None \<Rightarrow> (Inl AssertionError, (j, snd s))
          | Some st \<Rightarrow> (case download_from_storage ops blake2s gm groups running env seen st (snd s) of
              (x, r) \<Rightarrow> (x, (j, r)))))"

section \<open>The groups\<close>

lemma mset_dict_append: "mset (concat (map snd (dict_append k v d))) = add_mset v (mset (concat (map snd d)))"
  by (induction d) (auto simp: dict_append_def split: option.splits)

lemma mset_groups:
  "mset (concat (map snd (hexdigest_to_snapshotfiles files))) = mset (filter (\<lambda>f. sf_hexdigest f \<noteq> []) files)"
proof -
  have "mset (concat (map snd (fold (\<lambda>f d. if sf_hexdigest f \<noteq> [] then dict_append (sf_hexdigest f) f d else d) files d)))
      = mset (filter (\<lambda>f. sf_hexdigest f \<noteq> []) files) + mset (concat (map snd d))" for d
    by (induction files arbitrary: d) (auto simp: mset_dict_append)
  from this [of "[]"] show ?thesis by (simp add: hexdigest_to_snapshotfiles_def)
qed

lemma in_group:
  assumes "(h, g) \<in> set (hexdigest_to_snapshotfiles files)"
  shows "h \<noteq> [] \<and> g = filter (\<lambda>f. sf_hexdigest f = h) files \<and> g \<noteq> []"
proof -
  let ?F = "fold (\<lambda>f d. if sf_hexdigest f \<noteq> [] then dict_append (sf_hexdigest f) f d else d)"
  have m: "map_of (?F files d) h = (if h = [] \<or> filter (\<lambda>f. sf_hexdigest f = h) files = [] then map_of d h
      else Some ((case map_of d h of None \<Rightarrow> [] | Some g \<Rightarrow> g) @ filter (\<lambda>f. sf_hexdigest f = h) files))" for d
    by (induction files arbitrary: d) (auto simp: map_of_dict_append split: option.splits)
  have d: "distinct (map fst d) \<Longrightarrow> distinct (map fst (?F files d))" for d
    by (induction files arbitrary: d) (auto simp: distinct_dict_append)
  have "map_of (?F files []) h = Some g"
    using assms d [of "[]"] by (simp add: hexdigest_to_snapshotfiles_def)
  then show ?thesis using m [of "[]"] by (auto split: if_splits)
qed

lemma group_of:
  assumes "g \<in> set (map snd (hexdigest_to_snapshotfiles files))"
  obtains h where "h \<noteq> []" "g = filter (\<lambda>f. sf_hexdigest f = h) files" "g \<noteq> []"
proof -
  obtain h where "(h, g) \<in> set (hexdigest_to_snapshotfiles files)" using assms by auto
  then show ?thesis using in_group that by blast
qed

text \<open>What a restored file holds: the embedded content, or one with the recorded digest, which is the one
  in the storage \<open>m\<close> or that of a file that was there before (in \<open>fs0\<close>).\<close>

definition holds_file :: "(string \<Rightarrow> string) \<Rightarrow> (string \<rightharpoonup> string) \<Rightarrow> node_fs \<Rightarrow> node_fs \<Rightarrow> snapshot_file \<Rightarrow> bool" where
  "holds_file blake2s m fs0 fs f \<longleftrightarrow> (\<exists>d. src_data fs (sf_relative_path f) = Some d
     \<and> (if sf_hexdigest f = [] then \<exists>t. sf_content_b64 f = Some t \<and> b64decode t = Inr (fd_content d)
        else blake2s (fd_content d) = sf_hexdigest f
          \<and> (m (sf_hexdigest f) = Some (fd_content d) \<or> (\<exists>q d0. src_data fs0 q = Some d0 \<and> fd_content d0 = fd_content d))))"

text \<open>No restored path shares its inode with another path, and new inodes are new.\<close>

definition unshared :: "string set \<Rightarrow> node_fs \<Rightarrow> bool" where
  "unshared P fs \<longleftrightarrow> (\<forall>q e. dict_get (nf_src fs) q = Some e \<longrightarrow> se_inode e < nf_next fs)
     \<and> (\<forall>p \<in> P. \<forall>q e e'. dict_get (nf_src fs) p = Some e \<and> dict_get (nf_src fs) q = Some e' \<and> p \<noteq> q
          \<longrightarrow> se_inode e \<noteq> se_inode e')"

lemma unshared_cong: "nf_src fs' = nf_src fs \<Longrightarrow> nf_next fs' = nf_next fs \<Longrightarrow> unshared P fs' = unshared P fs"
  by (simp only: unshared_def)

lemma unshared_fresh: "unshared P fs \<Longrightarrow> dict_get (nf_src fs) q = Some e \<Longrightarrow> se_inode e \<noteq> nf_next fs"
  unfolding unshared_def by fastforce

lemma unshared_distinct:
  "\<lbrakk>unshared P fs; p \<in> P; p \<noteq> q; dict_get (nf_src fs) p = Some e; dict_get (nf_src fs) q = Some e'\<rbrakk> \<Longrightarrow> se_inode e \<noteq> se_inode e'"
  unfolding unshared_def by metis

lemma src_data_replace:
  assumes "unshared P fs"
  shows "src_data (replace_file p d fs) q = (if q = p then Some d else src_data fs q)"
  using unshared_fresh [OF assms, of q]
  by (cases "dict_get (nf_src fs) q") (auto simp: src_data_def replace_file_def update_conv')

lemma unshared_replace:
  assumes "unshared P fs"
  shows "unshared P (replace_file p d fs)"
proof -
  let ?fs = "replace_file p d fs"
  have get: "dict_get (nf_src ?fs) q = (if q = p then Some \<lparr>se_inode = nf_next fs, se_symlink = False\<rparr> else dict_get (nf_src fs) q)" for q
    by (simp add: replace_file_def update_conv')
  have "se_inode e < Suc (nf_next fs)" if "dict_get (nf_src ?fs) q = Some e" for q e
    using that assms by (auto simp: get unshared_def less_Suc_eq split: if_splits)
  moreover have "se_inode e \<noteq> se_inode e'"
    if "a \<in> P" "a \<noteq> q" "dict_get (nf_src ?fs) a = Some e" "dict_get (nf_src ?fs) q = Some e'" for a q e e'
    using that unshared_fresh [OF assms] unshared_distinct [OF assms] by (fastforce simp: get split: if_splits)
  moreover have "nf_next ?fs = Suc (nf_next fs)" by (simp add: replace_file_def)
  ultimately show ?thesis unfolding unshared_def by (intro conjI allI ballI impI; (elim conjE)?; metis)
qed

lemma copy_file_ok:
  assumes "unshared P fs" and "to \<in> P" and "to \<noteq> from" and "src_data fs from = Some d"
  shows "\<exists>fs'. copy_file from to mtime fs = (Inr (), fs') \<and> unshared P fs'
    \<and> (\<forall>q. src_data fs' q = (if q = to then Some (d\<lparr>fd_mtime_ns := mtime\<rparr>) else src_data fs q))"
proof -
  obtain e where e: "dict_get (nf_src fs) from = Some e" "d = nf_inode fs (se_inode e)"
    using assms(4) by (auto simp: src_data_def)
  let ?d = "\<lparr>fd_content = fd_content d, fd_mtime_ns = mtime\<rparr>"
  have d: "?d = d\<lparr>fd_mtime_ns := mtime\<rparr>" by simp
  show ?thesis
  proof (cases "dict_get (nf_src fs) to")
    case None
    then show ?thesis using e src_data_replace [OF assms(1), of to ?d] unshared_replace [OF assms(1), of to ?d] d
      by (simp add: copy_file_def)
  next
    case (Some e')
    have ne: "se_inode e' \<noteq> se_inode e" using unshared_distinct [OF assms(1-3) Some e(1)] .
    let ?fs = "fs\<lparr>nf_inode := (nf_inode fs)(se_inode e' := ?d)\<rparr>"
    have "src_data ?fs q = (if q = to then Some ?d else src_data fs q)" for q
      using Some unshared_distinct [OF assms(1,2) _ Some, of q] by (cases "dict_get (nf_src fs) q") (auto simp: src_data_def)
    moreover have "unshared P ?fs" using assms(1) unshared_cong [of ?fs fs P] by simp
    ultimately show ?thesis using e Some ne d by (simp add: copy_file_def Let_def)
  qed
qed

section \<open>Every file is restored\<close>

text \<open>The files of a backup, and the storage they are restored from.\<close>

definition restorable :: "(string \<Rightarrow> string) \<Rightarrow> (string \<rightharpoonup> string) \<Rightarrow> snapshot_file list \<Rightarrow> bool" where
  "restorable blake2s m files \<longleftrightarrow> distinct (map sf_relative_path files)
     \<and> (\<forall>f \<in> set files. sf_file_size f \<ge> 0
          \<and> (if sf_hexdigest f = [] then \<exists>t c. sf_content_b64 f = Some t \<and> b64decode t = Inr c
             else \<exists>b. m (sf_hexdigest f) = Some b \<and> blake2s b = sf_hexdigest f))
     \<and> (\<forall>f \<in> set files. \<forall>g \<in> set files. sf_hexdigest f = sf_hexdigest g \<and> sf_hexdigest f \<noteq> [] \<longrightarrow> sf_file_size f = sf_file_size g)"

lemma restorable_embedded:
  assumes "restorable blake2s m files" and "f \<in> set files"
  shows "sf_hexdigest f = [] \<Longrightarrow> \<exists>t. sf_content_b64 f = Some t"
  using assms unfolding restorable_def by metis

text \<open>The state while the files are written: those of \<open>D\<close> are there, as are those that the snapshot
  found, and nothing but restored paths has changed.\<close>

definition restoring :: "('s \<Rightarrow> bool) \<Rightarrow> ('s \<Rightarrow> string \<rightharpoonup> string) \<Rightarrow> (string \<Rightarrow> string) \<Rightarrow> (string \<rightharpoonup> string) \<Rightarrow> snapshot_db
    \<Rightarrow> snapshot_file list \<Rightarrow> node_fs \<Rightarrow> snapshot_file set \<Rightarrow> 's restore \<Rightarrow> bool" where
  "restoring hinv blobs blake2s m db files fs0 D r \<longleftrightarrow> hinv (rs_store r) \<and> blobs (rs_store r) = m
     \<and> unshared (sf_relative_path ` set files) (rs_fs r)
     \<and> (\<forall>f \<in> set files. f \<in> D \<or> snapshotfile_already_exists db f \<longrightarrow> holds_file blake2s m fs0 (rs_fs r) f)
     \<and> (\<forall>q. q \<notin> sf_relative_path ` set files \<longrightarrow> src_data (rs_fs r) q = src_data fs0 q)"

lemma restoring_progress [simp]:
  "restoring hinv blobs blake2s m db files fs0 D (r\<lparr>rs_progress := p\<rparr>) = restoring hinv blobs blake2s m db files fs0 D r"
  by (simp add: restoring_def)

text \<open>Writing the content of a file at its path restores it and keeps the others.\<close>

lemma restoring_write:
  assumes "restoring hinv blobs blake2s m db files fs0 D r" and f: "f \<in> set files" and dist: "distinct (map sf_relative_path files)"
    and r': "hinv (rs_store r')" "blobs (rs_store r') = m" "unshared (sf_relative_path ` set files) (rs_fs r')"
      "\<And>q. q \<noteq> sf_relative_path f \<Longrightarrow> src_data (rs_fs r') q = src_data (rs_fs r) q" "holds_file blake2s m fs0 (rs_fs r') f"
  shows "restoring hinv blobs blake2s m db files fs0 (insert f D) r'"
proof -
  have "holds_file blake2s m fs0 (rs_fs r') g" if g: "g \<in> set files" "g \<in> insert f D \<or> snapshotfile_already_exists db g" for g
  proof (cases "g = f")
    case False
    then have "sf_relative_path g \<noteq> sf_relative_path f" using f g(1) dist by (metis distinct_map inj_onD)
    moreover have "holds_file blake2s m fs0 (rs_fs r) g" using assms(1) g False by (auto simp: restoring_def)
    ultimately show ?thesis using r'(4) by (simp add: holds_file_def)
  qed (use r'(5) in simp)
  moreover have "src_data (rs_fs r') q = src_data fs0 q" if "q \<notin> sf_relative_path ` set files" for q
  proof -
    have "q \<noteq> sf_relative_path f" using that f by blast
    then show ?thesis using r'(4) assms(1) that by (simp add: restoring_def)
  qed
  ultimately show ?thesis using r' by (simp add: restoring_def)
qed

context hexdigest_storage
begin

lemma download_snapshotfile_ok:
  assumes inv: "restoring hinv blobs blake2s m db files fs0 D r" and "restorable blake2s m files" and f: "f \<in> set files"
  shows "\<exists>r'. download_snapshotfile hops db f r = (Inr (), r') \<and> rs_progress r' = rs_progress r
    \<and> restoring hinv blobs blake2s m db files fs0 (insert f D) r'"
proof (cases "snapshotfile_already_exists db f")
  case True
  then show ?thesis using inv f by (auto simp: download_snapshotfile_def restoring_def)
next
  case new: False
  have dist: "distinct (map sf_relative_path files)" using assms(2) by (simp add: restorable_def)
  have un: "unshared (sf_relative_path ` set files) (rs_fs r)" using inv by (simp add: restoring_def)
  note rep = src_data_replace [OF un] unshared_replace [OF un]
  show ?thesis
  proof (cases "sf_hexdigest f = []")
    case True
    then obtain t c where t: "sf_content_b64 f = Some t" "b64decode t = Inr c"
      using assms(2) f by (force simp: restorable_def)
    let ?r = "r\<lparr>rs_fs := replace_file (sf_relative_path f) \<lparr>fd_content = c, fd_mtime_ns = sf_mtime_ns f\<rparr> (rs_fs r)\<rparr>"
    have "restoring hinv blobs blake2s m db files fs0 (insert f D) ?r"
      by (rule restoring_write [OF inv f dist]) (use inv rep t True in \<open>auto simp: holds_file_def restoring_def\<close>)
    then show ?thesis using new True t by (simp add: download_snapshotfile_def)
  next
    case False
    then obtain b where b: "m (sf_hexdigest f) = Some b" "blake2s b = sf_hexdigest f"
      using assms(2) f by (force simp: restorable_def)
    obtain x s where d: "download_hexdigest_to_file hops (sf_hexdigest f) (rs_store r) = (x, s)" by fastforce
    have s: "hinv s" "blobs s = m" "x = Inr b"
      using download_hexdigest_law [OF _ d False] inv b by (auto simp: restoring_def)
    let ?r = "r\<lparr>rs_store := s, rs_fs := replace_file (sf_relative_path f) \<lparr>fd_content = b, fd_mtime_ns = sf_mtime_ns f\<rparr> (rs_fs r)\<rparr>"
    have "restoring hinv blobs blake2s m db files fs0 (insert f D) ?r"
      by (rule restoring_write [OF inv f dist]) (use rep s b False in \<open>auto simp: holds_file_def\<close>)
    then show ?thesis using new False d s by (simp add: download_snapshotfile_def)
  qed
qed

lemma copy_snapshotfile_ok:
  assumes inv: "restoring hinv blobs blake2s m db files fs0 D r" and "restorable blake2s m files" and f: "f \<in> set files"
    and f0: "f0 \<in> set files" "f0 \<in> D" "sf_relative_path f \<noteq> sf_relative_path f0"
    and h: "sf_hexdigest f = sf_hexdigest f0" "sf_hexdigest f \<noteq> []"
  shows "\<exists>r'. copy_snapshotfile db f0 f r = (Inr (), r') \<and> rs_progress r' = rs_progress r
    \<and> restoring hinv blobs blake2s m db files fs0 (insert f D) r'"
proof (cases "snapshotfile_already_exists db f")
  case True
  then show ?thesis using inv f by (auto simp: copy_snapshotfile_def restoring_def)
next
  case False
  have dist: "distinct (map sf_relative_path files)" using assms(2) by (simp add: restorable_def)
  have un: "unshared (sf_relative_path ` set files) (rs_fs r)" using inv by (simp add: restoring_def)
  obtain d where d: "src_data (rs_fs r) (sf_relative_path f0) = Some d" "blake2s (fd_content d) = sf_hexdigest f"
    "m (sf_hexdigest f) = Some (fd_content d) \<or> (\<exists>q d0. src_data fs0 q = Some d0 \<and> fd_content d0 = fd_content d)"
    using inv f0 h by (auto simp: restoring_def holds_file_def)
  obtain fs' where c: "copy_file (sf_relative_path f0) (sf_relative_path f) (sf_mtime_ns f) (rs_fs r) = (Inr (), fs')"
    "unshared (sf_relative_path ` set files) fs'"
    "\<forall>q. src_data fs' q = (if q = sf_relative_path f then Some (d\<lparr>fd_mtime_ns := sf_mtime_ns f\<rparr>) else src_data (rs_fs r) q)"
    using copy_file_ok [OF un _ f0(3) d(1)] f by blast
  have "restoring hinv blobs blake2s m db files fs0 (insert f D) (r\<lparr>rs_fs := fs'\<rparr>)"
    by (rule restoring_write [OF inv f dist]) (use inv c d h in \<open>auto simp: holds_file_def restoring_def\<close>)
  then show ?thesis using False c by (simp add: copy_snapshotfile_def)
qed

lemma copies_ok:
  assumes "restoring hinv blobs blake2s m db files fs0 D r" and "restorable blake2s m files" and "f0 \<in> set files" "f0 \<in> D"
    and "\<forall>f \<in> set fs. f \<in> set files \<and> sf_relative_path f \<noteq> sf_relative_path f0 \<and> sf_hexdigest f = sf_hexdigest f0 \<and> sf_hexdigest f \<noteq> []"
  shows "\<exists>us r'. map_st (copy_snapshotfile db f0) fs r = (Inr us, r') \<and> rs_progress r' = rs_progress r
    \<and> restoring hinv blobs blake2s m db files fs0 (set fs \<union> D) r'"
  using assms
proof (induction fs arbitrary: r D)
  case (Cons f fs)
  obtain r1 where r1: "copy_snapshotfile db f0 f r = (Inr (), r1)" "rs_progress r1 = rs_progress r"
    "restoring hinv blobs blake2s m db files fs0 (insert f D) r1"
    using copy_snapshotfile_ok [OF Cons.prems(1,2) _ Cons.prems(3,4)] Cons.prems(5) by (metis list.set_intros(1))
  obtain us r2 where "map_st (copy_snapshotfile db f0) fs r1 = (Inr us, r2)" "rs_progress r2 = rs_progress r1"
    "restoring hinv blobs blake2s m db files fs0 (set fs \<union> insert f D) r2"
    using Cons.IH [OF r1(3) Cons.prems(2,3)] Cons.prems(4,5) by (metis insertI2 list.set_intros(2))
  with r1 show ?case by (simp add: bind_st_def)
qed simp

lemma group_ok:
  assumes "restoring hinv blobs blake2s m db files fs0 D r" and "restorable blake2s m files"
    and g: "g \<noteq> []" "set g \<subseteq> set files" "distinct (map sf_relative_path g)"
      "\<forall>f \<in> set g. sf_hexdigest f = h" "h \<noteq> []"
  shows "\<exists>r'. download_snapshotfiles_from_storage hops db g r = (Inr (), r') \<and> rs_progress r' = rs_progress r
    \<and> restoring hinv blobs blake2s m db files fs0 (set g \<union> D) r'"
proof (cases g)
  case (Cons f fs)
  obtain r1 where r1: "download_snapshotfile hops db f r = (Inr (), r1)" "rs_progress r1 = rs_progress r"
    "restoring hinv blobs blake2s m db files fs0 (insert f D) r1"
    using download_snapshotfile_ok [OF assms(1,2)] g Cons by (metis list.set_intros(1) subset_code(1))
  have rest: "\<forall>x \<in> set fs. x \<in> set files \<and> sf_relative_path x \<noteq> sf_relative_path f \<and> sf_hexdigest x = sf_hexdigest f \<and> sf_hexdigest x \<noteq> []"
  proof
    fix x assume x: "x \<in> set fs"
    then have "sf_relative_path x \<in> sf_relative_path ` set fs" by blast
    then have "sf_relative_path x \<noteq> sf_relative_path f" using g(3) Cons by auto
    then show "x \<in> set files \<and> sf_relative_path x \<noteq> sf_relative_path f \<and> sf_hexdigest x = sf_hexdigest f \<and> sf_hexdigest x \<noteq> []"
      using g x Cons by auto
  qed
  have "\<exists>us r'. map_st (copy_snapshotfile db f) fs r1 = (Inr us, r') \<and> rs_progress r' = rs_progress r1
    \<and> restoring hinv blobs blake2s m db files fs0 (set fs \<union> insert f D) r'"
    by (rule copies_ok [OF r1(3) assms(2) _ _ rest]) (use g Cons in auto)
  then show ?thesis using r1 Cons by (auto simp: bind_st_def)
qed (use g in simp)

definition group_bytes :: "snapshot_file list list \<Rightarrow> int" where
  "group_bytes gs = (\<Sum>g\<leftarrow>gs. (sf_file_size (hd g) + 1) * int (length g))"

lemma groups_ok:
  assumes "restoring hinv blobs blake2s m db files fs0 D r" and "restorable blake2s m files" and "\<forall>k. running k"
    and "\<forall>g \<in> set gs. g \<noteq> [] \<and> set g \<subseteq> set files \<and> distinct (map sf_relative_path g) \<and> (\<exists>h. h \<noteq> [] \<and> (\<forall>f \<in> set g. sf_hexdigest f = h))"
    and "pr_handled (rs_progress r) + group_bytes gs \<le> pr_total (rs_progress r)" and "\<not> pr_final (rs_progress r)"
  shows "\<exists>r'. download_groups hops db running gs r = (Inr True, r')
    \<and> restoring hinv blobs blake2s m db files fs0 (set (concat gs) \<union> D) r'
    \<and> rs_progress r' = (rs_progress r)\<lparr>pr_handled := pr_handled (rs_progress r) + group_bytes gs\<rparr>"
  using assms
proof (induction gs arbitrary: r D)
  case Nil
  then show ?case by (simp add: group_bytes_def)
next
  case (Cons g gs)
  obtain h where g: "g \<noteq> []" "set g \<subseteq> set files" "distinct (map sf_relative_path g)" "\<forall>f \<in> set g. sf_hexdigest f = h" "h \<noteq> []"
    using Cons.prems(4) by auto
  obtain r1 where r1: "download_snapshotfiles_from_storage hops db g r = (Inr (), r1)" "rs_progress r1 = rs_progress r"
    "restoring hinv blobs blake2s m db files fs0 (set g \<union> D) r1"
    using group_ok [OF Cons.prems(1,2) g] by blast
  have size: "sf_file_size f \<ge> 0" if "f \<in> set files" for f using Cons.prems(2) that by (simp add: restorable_def)
  have "hd x \<in> set files" if "x \<in> set (g # gs)" for x
    using Cons.prems(4) that hd_in_set by (meson subsetD)
  then have pos: "(sf_file_size (hd x) + 1) * int (length x) \<ge> 0" if "x \<in> set (g # gs)" for x
    using size that by (simp add: add_nonneg_nonneg)
  have bytes: "group_bytes gs \<ge> 0" unfolding group_bytes_def by (rule sum_list_nonneg) (use pos in auto)
  let ?n = "(sf_file_size (hd g) + 1) * int (length g)"
  have "sf_file_size (hd g) \<ge> 0" using size g(1,2) by (meson hd_in_set subsetD)
  then have n: "?n > 0" using g(1) by simp
  let ?p = "(rs_progress r)\<lparr>pr_handled := pr_handled (rs_progress r) + ?n\<rparr>"
  let ?r = "r1\<lparr>rs_progress := ?p\<rparr>"
  have gb: "group_bytes (g # gs) = ?n + group_bytes gs" by (simp add: group_bytes_def)
  have "download_groups hops db running (g # gs) r = download_groups hops db running gs ?r"
    using r1 n Cons.prems(3,5,6) bytes gb
    by (simp add: bind_st_def on_restore_progress_def download_success_def add_success_def assert_res_def)
  moreover have "\<exists>r'. download_groups hops db running gs ?r = (Inr True, r')
    \<and> restoring hinv blobs blake2s m db files fs0 (set (concat gs) \<union> (set g \<union> D)) r'
    \<and> rs_progress r' = (rs_progress ?r)\<lparr>pr_handled := pr_handled (rs_progress ?r) + group_bytes gs\<rparr>"
    by (rule Cons.IH) (use r1 Cons.prems gb in auto)
  ultimately show ?case using gb by (auto simp: Un_ac algebra_simps)
qed

lemma embedded_ok:
  assumes "restoring hinv blobs blake2s m db files fs0 D r" and "restorable blake2s m files" and "set fs \<subseteq> set files"
    and "pr_handled (rs_progress r) + (\<Sum>f\<leftarrow>filter (\<lambda>f. sf_hexdigest f = []) fs. 1 + sf_file_size f) \<le> pr_total (rs_progress r)"
    and "\<not> pr_final (rs_progress r)"
  shows "\<exists>us r'. map_st (download_embedded hops db) fs r = (Inr us, r')
    \<and> restoring hinv blobs blake2s m db files fs0 ({f \<in> set fs. sf_hexdigest f = []} \<union> D) r'
    \<and> rs_progress r' = (rs_progress r)\<lparr>pr_handled := pr_handled (rs_progress r) + (\<Sum>f\<leftarrow>filter (\<lambda>f. sf_hexdigest f = []) fs. 1 + sf_file_size f)\<rparr>"
  using assms
proof (induction fs arbitrary: r D)
  case (Cons f fs)
  show ?case
  proof (cases "sf_hexdigest f = []")
    case False
    have "{x \<in> set (f # fs). sf_hexdigest x = []} = {x \<in> set fs. sf_hexdigest x = []}" using False by auto
    moreover have "\<exists>us r'. map_st (download_embedded hops db) fs r = (Inr us, r')
      \<and> restoring hinv blobs blake2s m db files fs0 ({f \<in> set fs. sf_hexdigest f = []} \<union> D) r'
      \<and> rs_progress r' = (rs_progress r)\<lparr>pr_handled := pr_handled (rs_progress r) + (\<Sum>f\<leftarrow>filter (\<lambda>f. sf_hexdigest f = []) fs. 1 + sf_file_size f)\<rparr>"
      by (rule Cons.IH) (use Cons.prems False in auto)
    moreover have "download_embedded hops db f r = (Inr (), r)" using False by (simp add: download_embedded_def)
    ultimately show ?thesis using False by (auto simp: bind_st_def)
  next
    case True
    let ?rest = "\<Sum>f\<leftarrow>filter (\<lambda>f. sf_hexdigest f = []) fs. 1 + sf_file_size f"
    have size: "sf_file_size x \<ge> 0" if "x \<in> set (f # fs)" for x using Cons.prems(2,3) that by (auto simp: restorable_def)
    have rest: "?rest \<ge> 0" by (rule sum_list_nonneg) (use size in fastforce)
    obtain r1 where r1: "download_snapshotfile hops db f r = (Inr (), r1)" "rs_progress r1 = rs_progress r"
      "restoring hinv blobs blake2s m db files fs0 (insert f D) r1"
      using download_snapshotfile_ok [OF Cons.prems(1,2)] Cons.prems(3) by (meson list.set_intros(1) subsetD)
    let ?p = "(rs_progress r)\<lparr>pr_handled := pr_handled (rs_progress r) + (sf_file_size f + 1)\<rparr>"
    let ?r = "r1\<lparr>rs_progress := ?p\<rparr>"
    have step: "download_embedded hops db f r = (Inr (), ?r)"
      using True r1 Cons.prems(4,5) rest size [of f]
      by (simp add: download_embedded_def bind_st_def on_restore_progress_def download_success_def add_success_def assert_res_def)
    have set: "{x \<in> set (f # fs). sf_hexdigest x = []} \<union> D = {x \<in> set fs. sf_hexdigest x = []} \<union> insert f D" using True by auto
    have "\<exists>us r'. map_st (download_embedded hops db) fs ?r = (Inr us, r')
      \<and> restoring hinv blobs blake2s m db files fs0 ({f \<in> set fs. sf_hexdigest f = []} \<union> insert f D) r'
      \<and> rs_progress r' = (rs_progress ?r)\<lparr>pr_handled := pr_handled (rs_progress ?r) + ?rest\<rparr>"
      by (rule Cons.IH) (use r1 Cons.prems True in auto)
    then show ?thesis using True step unfolding set by (auto simp: bind_st_def algebra_simps)
  qed
qed simp

lemma sum_list_concat_map: "(\<Sum>f\<leftarrow>concat gs. k f) = (\<Sum>g\<leftarrow>gs. \<Sum>f\<leftarrow>g. k f :: int)"
  by (induction gs) auto

lemma bytes_of_groups:
  assumes "restorable blake2s m files"
  shows "group_bytes (map snd (hexdigest_to_snapshotfiles files)) = (\<Sum>f\<leftarrow>filter (\<lambda>f. sf_hexdigest f \<noteq> []) files. 1 + sf_file_size f)"
proof -
  let ?gs = "map snd (hexdigest_to_snapshotfiles files)"
  have "(sf_file_size (hd g) + 1) * int (length g) = (\<Sum>f\<leftarrow>g. 1 + sf_file_size f)" if g: "g \<in> set ?gs" for g
  proof -
    obtain h where h: "h \<noteq> []" "g = filter (\<lambda>f. sf_hexdigest f = h) files" "g \<noteq> []" using group_of [OF g] .
    then have "sf_file_size f = sf_file_size (hd g)" if "f \<in> set g" for f
      using assms that hd_in_set [OF h(3)] unfolding restorable_def by auto
    then have "map (\<lambda>f. 1 + sf_file_size f) g = map (\<lambda>f. 1 + sf_file_size (hd g)) g" by simp
    then have "(\<Sum>f\<leftarrow>g. 1 + sf_file_size f) = (\<Sum>f\<leftarrow>g. 1 + sf_file_size (hd g))" by (rule arg_cong)
    also have "\<dots> = int (length g) * (1 + sf_file_size (hd g))" by (rule sum_list_triv)
    finally have "(\<Sum>f\<leftarrow>g. 1 + sf_file_size f) = int (length g) * (1 + sf_file_size (hd g))" .
    then show ?thesis by (simp add: algebra_simps)
  qed
  then have "group_bytes ?gs = (\<Sum>g\<leftarrow>?gs. \<Sum>f\<leftarrow>g. 1 + sf_file_size f)"
    unfolding group_bytes_def by (intro arg_cong [of _ _ sum_list] map_cong refl) simp
  also have "\<dots> = (\<Sum>f\<leftarrow>concat ?gs. 1 + sf_file_size f)" by (simp add: sum_list_concat_map)
  also have "\<dots> = (\<Sum>f\<leftarrow>filter (\<lambda>f. sf_hexdigest f \<noteq> []) files. 1 + sf_file_size f)"
  proof -
    have "mset (map (\<lambda>f. 1 + sf_file_size f) (concat ?gs)) = mset (map (\<lambda>f. 1 + sf_file_size f) (filter (\<lambda>f. sf_hexdigest f \<noteq> []) files))"
      unfolding mset_map mset_groups ..
    then show ?thesis unfolding sum_mset_sum_list [symmetric] by (rule arg_cong)
  qed
  finally show ?thesis .
qed

lemma group_bytes_sort: "group_bytes (sort_key k gs) = group_bytes gs"
  unfolding group_bytes_def by (simp flip: sum_mset_sum_list)

lemma sum_list_split: "(\<Sum>f\<leftarrow>filter P xs. k f) + (\<Sum>f\<leftarrow>filter (\<lambda>x. \<not> P x) xs. k f) = (\<Sum>f\<leftarrow>xs. k f :: int)"
  by (induction xs) auto

lemma group_files:
  assumes "restorable blake2s m files" and "g \<in> set (map snd (hexdigest_to_snapshotfiles files))"
  shows "g \<noteq> [] \<and> set g \<subseteq> set files \<and> distinct (map sf_relative_path g) \<and> (\<exists>h. h \<noteq> [] \<and> (\<forall>f \<in> set g. sf_hexdigest f = h))"
proof -
  obtain h where "h \<noteq> []" "g = filter (\<lambda>f. sf_hexdigest f = h) files" "g \<noteq> []" using group_of [OF assms(2)] .
  then show ?thesis using assms(1) by (auto simp: restorable_def distinct_map_filter)
qed

lemma restore_files_ok:
  assumes inv: "restoring hinv blobs blake2s m db files fs0 {} r" and ok: "restorable blake2s m files" and "\<forall>k. running k"
    and pr: "rs_progress r = new_progress" and env: "case env of None \<Rightarrow> True | Some c \<Rightarrow> \<forall>ps. ce_chown c ps = Inr ()"
  shows "\<exists>r'. restore_files hops db running env files r = (Inr (), r') \<and> hinv (rs_store r') \<and> blobs (rs_store r') = m
    \<and> (\<forall>f \<in> set files. holds_file blake2s m fs0 (rs_fs r') f)
    \<and> (\<forall>q. q \<notin> sf_relative_path ` set files \<longrightarrow> src_data (rs_fs r') q = (if q \<in> fst ` set db then None else src_data fs0 q))
    \<and> finished_successfully (rs_progress r')"
proof -
  let ?P = "sf_relative_path ` set files" and ?total = "\<Sum>f\<leftarrow>files. 1 + sf_file_size f"
  let ?emb = "\<Sum>f\<leftarrow>filter (\<lambda>f. sf_hexdigest f = []) files. 1 + sf_file_size f"
  let ?gs = "sort_key (\<lambda>g. - sf_file_size (hd g)) (map snd (hexdigest_to_snapshotfiles files))"
  have sizes: "?emb + group_bytes ?gs = ?total"
    unfolding group_bytes_sort bytes_of_groups [OF ok] by (rule sum_list_split)
  have nonneg: "group_bytes ?gs \<ge> 0"
    unfolding group_bytes_sort bytes_of_groups [OF ok]
    by (rule sum_list_nonneg) (use ok in \<open>fastforce simp: restorable_def\<close>)
  let ?p0 = "new_progress\<lparr>pr_total := ?total\<rparr>"
  let ?r0 = "r\<lparr>rs_progress := ?p0\<rparr>"
  have s0: "on_restore_progress (start_progress ?total) r = (Inr (), ?r0)"
    by (simp add: on_restore_progress_def start_progress_def add_total_def pr new_progress_def)
  obtain us r1 where r1: "map_st (download_embedded hops db) files ?r0 = (Inr us, r1)"
    "restoring hinv blobs blake2s m db files fs0 ({f \<in> set files. sf_hexdigest f = []} \<union> {}) r1"
    "rs_progress r1 = ?p0\<lparr>pr_handled := ?emb\<rparr>"
    using embedded_ok [of blake2s m db files fs0 "{}" ?r0 files] inv ok sizes nonneg by (auto simp: new_progress_def)
  have "\<exists>r'. download_groups hops db running ?gs r1 = (Inr True, r')
    \<and> restoring hinv blobs blake2s m db files fs0 (set (concat ?gs) \<union> ({f \<in> set files. sf_hexdigest f = []} \<union> {})) r'
    \<and> rs_progress r' = (rs_progress r1)\<lparr>pr_handled := pr_handled (rs_progress r1) + group_bytes ?gs\<rparr>"
    by (rule groups_ok [OF r1(2) ok assms(3)]) (use group_files [OF ok] r1(3) sizes in \<open>auto simp: new_progress_def\<close>)
  then obtain r2 where r2: "download_groups hops db running ?gs r1 = (Inr True, r2)"
    "restoring hinv blobs blake2s m db files fs0 (set (concat ?gs) \<union> {f \<in> set files. sf_hexdigest f = []}) r2"
    "rs_progress r2 = ?p0\<lparr>pr_handled := ?total\<rparr>"
    using r1(3) sizes by auto
  have all: "f \<in> set (concat ?gs) \<union> {f \<in> set files. sf_hexdigest f = []}" if "f \<in> set files" for f
    using that arg_cong [OF mset_groups [of files], of set_mset] by auto
  let ?r3 = "r2\<lparr>rs_fs := remove_paths (set (get_all_paths db) - ?P) (rs_fs r2), rs_progress := ?p0\<lparr>pr_handled := ?total, pr_final := True\<rparr>\<rparr>"
  have env_ok: "(case env of None \<Rightarrow> Inr () | Some c \<Rightarrow> adjust_owners (ce_uid c) (ce_owner c) (ce_chown c) files) = Inr ()"
  proof (cases env)
    case (Some c)
    then have "map_res (ce_chown c) xs = Inr (map (\<lambda>_. ()) xs)" for xs using env by (intro map_res_total) simp
    then show ?thesis using Some by (simp add: adjust_owners_def)
  qed simp
  have "restore_files hops db running env files r = (Inr (), ?r3)"
    using s0 r1(1) r2(1,3) env_ok
    by (simp add: restore_files_def bind_st_def on_restore_progress_def done_progress_def new_progress_def Let_def)
  moreover have data: "src_data (rs_fs ?r3) q = (if q \<in> fst ` set db - ?P then None else src_data (rs_fs r2) q)" for q
    by (simp add: src_data_def remove_paths_def get_all_paths_def map_of_filter_key)
  moreover have "holds_file blake2s m fs0 (rs_fs ?r3) f" if "f \<in> set files" for f
  proof -
    have "holds_file blake2s m fs0 (rs_fs r2) f" using r2(2) all [OF that] that unfolding restoring_def by blast
    then show ?thesis using data [of "sf_relative_path f"] that by (simp add: holds_file_def)
  qed
  ultimately show ?thesis using r2(2) by (auto simp: restoring_def finished_successfully_def new_progress_def)
qed

end

text \<open>What an exact snapshot says about a file that is there.\<close>

lemma existing_holds:
  assumes row: "expected_row blake2s gm groups fs0 (sf_relative_path f) = Inr g" and "equals_excluding_mtime g f"
    and "sf_hexdigest f = [] \<Longrightarrow> sf_content_b64 f \<noteq> None"
  shows "holds_file blake2s m fs0 fs0 f"
proof -
  obtain d where d: "src_data fs0 (sf_relative_path f) = Some d"
    using row by (cases "src_data fs0 (sf_relative_path f)") (auto simp: expected_row_def)
  then obtain mx where g: "sf_hexdigest g = (if mx then [] else blake2s (fd_content d))"
    "sf_content_b64 g = (if mx then Some (b64encode (fd_content d)) else None)"
    using row by (auto simp: expected_row_def bind_res_Inr_iff Let_def)
  have "sf_hexdigest f = sf_hexdigest g" "sf_content_b64 f = sf_content_b64 g"
    using assms(2) by (auto simp: equals_excluding_mtime_def)
  then show ?thesis using d g assms(3) by (auto simp: holds_file_def split: if_splits)
qed

lemma download_restores:
  assumes "hexdigest_storage ops hinv blobs" and "hinv (rs_store r)"
    and "snap_coherent blake2s gm groups (rs_fs r, db)" and "distinct (map fst (nf_src (rs_fs r)))"
    and "\<forall>p \<in> set (list_files gm groups (rs_fs r)). \<exists>row. expected_row blake2s gm groups (rs_fs r) p = Inr row"
    and "restorable blake2s (blobs (rs_store r)) (ss_files st)"
    and "unshared (sf_relative_path ` set (ss_files st)) (rs_fs r)"
    and "\<forall>k. running k" and "rs_progress r = new_progress"
    and "case env of None \<Rightarrow> True | Some c \<Rightarrow> \<forall>ps. ce_chown c ps = Inr ()"
  shows "\<exists>r' db'. download_from_storage ops blake2s gm groups running env (rs_fs r) st (r, db) = (Inr (), (r', db'))
    \<and> (\<forall>f \<in> set (ss_files st). holds_file blake2s (blobs (rs_store r)) (rs_fs r) (rs_fs r') f)
    \<and> (\<forall>p. p \<notin> sf_relative_path ` set (ss_files st) \<longrightarrow> src_data (rs_fs r') p =
          (if p \<in> set (list_files gm groups (rs_fs r)) then None else src_data (rs_fs r) p))
    \<and> hinv (rs_store r') \<and> blobs (rs_store r') = blobs (rs_store r)
    \<and> finished_successfully (rs_progress r')"
proof -
  let ?files = "ss_files st" and ?m = "blobs (rs_store r)"
  obtain x fs1 db1 where snap: "perform_snapshot blake2s gm groups (fst (rs_fs r, db)) (rs_fs r, db) = (x, (fs1, db1))"
    by (metis prod.exhaust)
  note ex = perform_snapshot_exact [OF assms(3) _ _ snap, unfolded fst_conv, OF assms(4,5)]
  have x: "x = Inr ()" and ss: "same_sources (rs_fs r) fs1"
    and rows: "\<And>p. map_of db1 p = (if p \<in> set (list_files gm groups (rs_fs r))
        then Some (projr (expected_row blake2s gm groups (rs_fs r) p)) else None)"
    using ex by blast+
  have db1: "fst ` set db1 = set (list_files gm groups (rs_fs r))"
    unfolding dom_map_of_conv_image_fst [symmetric] by (auto simp: dom_def rows split: if_splits)
  have "holds_file blake2s ?m (rs_fs r) (rs_fs r) f" if f: "f \<in> set ?files" "snapshotfile_already_exists db1 f" for f
  proof -
    obtain g where g: "map_of db1 (sf_relative_path f) = Some g" "equals_excluding_mtime g f"
      using f(2) by (auto simp: snapshotfile_already_exists_def get_file_def split: option.splits)
    then have "expected_row blake2s gm groups (rs_fs r) (sf_relative_path f) = Inr g"
      using rows [of "sf_relative_path f"] assms(5) by (force split: if_splits)
    then show ?thesis by (rule existing_holds [OF _ g(2)]) (use restorable_embedded [OF assms(6) f(1)] in simp)
  qed
  moreover have "src_data fs1 = src_data (rs_fs r)" using same_sources_simps(1) [OF ss] .
  ultimately have inv: "restoring hinv blobs blake2s ?m db1 ?files (rs_fs r) {} (r\<lparr>rs_fs := fs1\<rparr>)"
    using assms(2,7) ss unshared_cong [of fs1 "rs_fs r"] by (auto simp: restoring_def holds_file_def same_sources_def)
  obtain r' where "restore_files ops db1 running env ?files (r\<lparr>rs_fs := fs1\<rparr>) = (Inr (), r')" "hinv (rs_store r')" "blobs (rs_store r') = ?m"
    "\<forall>f \<in> set ?files. holds_file blake2s ?m (rs_fs r) (rs_fs r') f"
    "\<forall>q. q \<notin> sf_relative_path ` set ?files \<longrightarrow> src_data (rs_fs r') q = (if q \<in> fst ` set db1 then None else src_data (rs_fs r) q)"
    "finished_successfully (rs_progress r')"
    using hexdigest_storage.restore_files_ok [OF assms(1) inv assms(6,8) _ assms(10)] assms(9) by auto
  then show ?thesis using snap x db1 by (simp add: download_from_storage_def)
qed


definition example_restore :: "file_storage restore" where
  "example_restore = \<lparr>rs_fs = example_fs, rs_store = new_file_storage\<lparr>fs_files := [(''wen.dat'', ''new'')]\<rparr>, rs_progress = new_progress\<rparr>"

definition example_backup :: snapshot_state where
  "example_backup = \<lparr>ss_root_globs = [''**''], ss_files =
     [\<lparr>sf_relative_path = ''d/a'', sf_file_size = 3, sf_mtime_ns = 1, sf_hexdigest = ''wen'', sf_content_b64 = None\<rparr>,
      \<lparr>sf_relative_path = ''e'', sf_file_size = 3, sf_mtime_ns = 2, sf_hexdigest = ''wen'', sf_content_b64 = None\<rparr>,
      \<lparr>sf_relative_path = ''f'', sf_file_size = 1, sf_mtime_ns = 3, sf_hexdigest = [], sf_content_b64 = Some (b64encode ''q'')\<rparr>]\<rparr>"

lemma example_restore_premises:
  "file_inv (rs_store example_restore)"
  "restorable rev (file_blobs (rs_store example_restore)) (ss_files example_backup)"
  "unshared (sf_relative_path ` set (ss_files example_backup)) (rs_fs example_restore)"
  by (simp_all add: example_restore_def example_backup_def file_inv_def new_file_storage_def good_suffix_def restorable_def
        file_blobs_def hexdigest_to_path_def unshared_def example_fs_def path_suffix_def split_suffix_def)


end
