(* ===== verification/Cluster.thy ===== *)
theory Cluster
  imports Utils Ipc
begin

text \<open>
  Requests from the coordinator to the nodes and the wait for their results
  (\<^verbatim>\<open>astacus/coordinator/cluster.py\<close>, with the HTTP wrappers of \<^verbatim>\<open>astacus/common/utils.py\<close>). The nodes and the
  network are a world \<open>'w\<close> that answers requests and changes with them; requests that the code sends
  concurrently are sent in the order of the nodes. The polling of results counts rounds: \<open>rounds\<close> is the
  number of times that the exponential backoff lets the loop run.
\<close>

section \<open>Requests\<close>

text \<open>The outcome of one HTTP request: a response with its status and body, or a network exception.
  The wrapper returns the body unless the status is an error that is not to be ignored.\<close>

datatype 'b http = Response nat 'b | NetworkError

fun http_request :: "bool \<Rightarrow> 'b http \<Rightarrow> 'b option" where
  "http_request ignore_status_code (Response code body) = (if code < 400 then Some body else if ignore_status_code then Some body else None)"
| "http_request ignore_status_code NetworkError = None"

text \<open>What \<^verbatim>\<open>asyncio.gather(..., return_exceptions=True)\<close> collects for a node.\<close>

datatype 'b answer = Silent | Raised exn | Answered 'b

record cluster =
  cl_nodes :: "coordinator_node list"
  cl_subresult_url :: "string option"

datatype request_body = PlainRequest | SnapshotReq snapshot_request | UploadReq upload_request | DownloadReq download_request
  | ClearReq "string list" | ReleaseReq "string list" | PluginReq json

record node_request =
  rq_body :: request_body
  rq_result_url :: string

definition new_request :: "request_body \<Rightarrow> node_request" where
  "new_request b = \<lparr>rq_body = b, rq_result_url = []\<rparr>"

definition with_result_url :: "cluster \<Rightarrow> request_body \<Rightarrow> node_request" where
  "with_result_url cl b = (case cl_subresult_url cl of None \<Rightarrow> new_request b
     | Some u \<Rightarrow> if u = [] then new_request b else (new_request b)\<lparr>rq_result_url := u\<rparr>)"

type_synonym ('w, 'b) sender = "string \<Rightarrow> node_request \<Rightarrow> 'w \<Rightarrow> 'b answer \<times> 'w"

fun send_all :: "('w, 'b) sender \<Rightarrow> (node_request \<times> string) list \<Rightarrow> 'w \<Rightarrow> 'b answer list \<times> 'w" where
  "send_all send [] w = ([], w)"
| "send_all send ((q, url) # rest) w =
     (case send url q w of (a, w1) \<Rightarrow> (case send_all send rest w1 of (as, w2) \<Rightarrow> (a # as, w2)))"

definition request_from_nodes :: "cluster \<Rightarrow> ('w, 'b) sender \<Rightarrow> string \<Rightarrow> request_body option \<Rightarrow> request_body list option
    \<Rightarrow> coordinator_node list option \<Rightarrow> ('w, 'b answer list) stateful" where
  "request_from_nodes cl send url req reqs nodes w =
     (let ns = (case nodes of None \<Rightarrow> cl_nodes cl | Some ns \<Rightarrow> ns)
      in if ns = [] then (Inr [], w)
         else if reqs \<noteq> None \<and> req \<noteq> None then (Inl AssertionError, w)
         else let bodies = (case reqs of Some rs \<Rightarrow> rs
                    | None \<Rightarrow> replicate (length ns) (case req of None \<Rightarrow> PlainRequest | Some q \<Rightarrow> q));
                  qs = map (with_result_url cl) bodies;
                  urls = map (\<lambda>n. cn_url n @ ''/'' @ url) ns
              in if bodies = [] \<or> length qs \<noteq> length urls then (Inl AssertionError, w)
                 else (case send_all send (zip qs urls) w of (as, w') \<Rightarrow> (Inr as, w')))"

section \<open>Waiting for results\<close>

fun truthy :: "json \<Rightarrow> bool" where
  "truthy JNull = False"
| "truthy (JBool b) = b"
| "truthy (JInt i) = (i \<noteq> 0)"
| "truthy (JStr s) = (s \<noteq> [])"
| "truthy (JList xs) = (xs \<noteq> [])"
| "truthy (JDict d) = (d \<noteq> [])"

text \<open>\<^verbatim>\<open>Op.StartResult.parse_obj\<close> needs an operation id and a status URL.\<close>

fun parse_start_result :: "json \<Rightarrow> string result" where
  "parse_start_result (JDict d) = (case (dict_get d ''op_id'', dict_get d ''status_url'') of
     (Some (JInt _), Some (JStr u)) \<Rightarrow> Inr u | _ \<Rightarrow> Inl ValueError)"
| "parse_start_result _ = Inl ValueError"

fun start_url :: "json answer \<Rightarrow> string result" where
  "start_url (Answered j) = (if truthy j then parse_start_result j else Inl WaitResultError)"
| "start_url _ = Inl WaitResultError"

record 'r wait_state =
  ws_results :: "'r option list"
  ws_failures :: "nat list"
  ws_reports :: "progress list"

text \<open>One poll of one node. \<open>poll\<close> gives the payload, if any; \<open>decode\<close> is the JSON decoder. The progress handler
  gets the merged progress of the results so far, which are passed to it as a generator.\<close>

definition poll_node :: "nat \<Rightarrow> (string \<Rightarrow> 'w \<Rightarrow> string option \<times> 'w) \<Rightarrow> (string \<Rightarrow> 'a node_result_scheme result)
    \<Rightarrow> nat \<times> string \<Rightarrow> ('a node_result_scheme wait_state \<times> 'w, unit) stateful" where
  "poll_node maximum_failures poll decode iu s =
     (let i = fst iu; ws = fst s in
      if (case ws_results ws ! i of None \<Rightarrow> False | Some r \<Rightarrow> pr_final (nr_progress r)) then (Inr (), s)
      else case poll (snd iu) (snd s) of
        (None, w) \<Rightarrow> (let n = ws_failures ws ! i + 1; ws1 = ws\<lparr>ws_failures := (ws_failures ws)[i := n]\<rparr>
            in (if n \<ge> maximum_failures then Inl WaitResultError else Inr (), (ws1, w)))
      | (Some payload, w) \<Rightarrow> (case decode payload of
            Inl e \<Rightarrow> (Inl e, (ws, w))
          | Inr r \<Rightarrow>
              (let res = (ws_results ws)[i := Some r];
                   ws1 = ws\<lparr>ws_results := res, ws_failures := (ws_failures ws)[i := 0],
                     ws_reports := ws_reports ws @ [merge_progress (Generator (map nr_progress (List.map_filter id res)))]\<rparr>
               in (if finished_failed (nr_progress r) then Inl WaitResultError else Inr (), (ws1, w)))))"

definition poll_round where
  "poll_round maximum_failures poll decode urls = map_st (poll_node maximum_failures poll decode) (enumerate0 urls)"

definition all_final :: "'a node_result_scheme option list \<Rightarrow> bool" where
  "all_final rs \<longleftrightarrow> list_all (\<lambda>r. case r of None \<Rightarrow> False | Some x \<Rightarrow> pr_final (nr_progress x)) rs"

fun wait_rounds :: "nat \<Rightarrow> nat \<Rightarrow> (string \<Rightarrow> 'w \<Rightarrow> string option \<times> 'w) \<Rightarrow> (string \<Rightarrow> 'a node_result_scheme result)
    \<Rightarrow> string list \<Rightarrow> ('a node_result_scheme wait_state \<times> 'w, 'a node_result_scheme list) stateful" where
  "wait_rounds 0 maximum_failures poll decode urls s = (Inl WaitResultError, s)"
| "wait_rounds (Suc n) maximum_failures poll decode urls s =
     bind_st (poll_round maximum_failures poll decode urls) (\<lambda>_ s1.
       if all_final (ws_results (fst s1)) then (Inr (map the (ws_results (fst s1))), s1)
       else wait_rounds n maximum_failures poll decode urls s1) s"

definition wait_successful_results :: "nat \<Rightarrow> nat \<Rightarrow> (string \<Rightarrow> 'w \<Rightarrow> string option \<times> 'w) \<Rightarrow> (string \<Rightarrow> 'a node_result_scheme result)
    \<Rightarrow> json answer list \<Rightarrow> ('w, 'a node_result_scheme list) stateful" where
  "wait_successful_results rounds maximum_failures poll decode start_results w =
     (case map_res start_url start_results of
        Inl e \<Rightarrow> (Inl e, w)
      | Inr urls \<Rightarrow>
          (case wait_rounds rounds maximum_failures poll decode urls
              (\<lparr>ws_results = replicate (length urls) None, ws_failures = replicate (length urls) 0, ws_reports = []\<rparr>, w) of
             (x, (_, w')) \<Rightarrow> (x, w')))"

section \<open>What a successful wait means\<close>

text \<open>What is collected so far: one place per node, holding a decoded answer that does not report a failure.\<close>

definition wait_inv :: "(string \<Rightarrow> 'a node_result_scheme result) \<Rightarrow> nat \<Rightarrow> 'a node_result_scheme wait_state \<Rightarrow> bool" where
  "wait_inv decode n ws \<longleftrightarrow> length (ws_results ws) = n \<and> length (ws_failures ws) = n
     \<and> (\<forall>r. Some r \<in> set (ws_results ws) \<longrightarrow> \<not> finished_failed (nr_progress r) \<and> (\<exists>b. decode b = Inr r))"

lemma wait_inv_update:
  assumes "wait_inv decode n ws" and "\<not> finished_failed (nr_progress r)" and "decode b = Inr r"
    and "ws_results ws' = (ws_results ws)[i := Some r]" and "length (ws_failures ws') = n"
  shows "wait_inv decode n ws'"
  using assms set_update_subset_insert [of "ws_results ws" i "Some r"] by (fastforce simp: wait_inv_def)

lemma poll_node_inv:
  assumes "wait_inv decode n (fst s)" and "poll_node mf poll decode iu s = (Inr u, s')"
  shows "wait_inv decode n (fst s')"
proof (cases "case ws_results (fst s) ! fst iu of None \<Rightarrow> False | Some r \<Rightarrow> pr_final (nr_progress r)")
  case True
  then show ?thesis using assms by (simp add: poll_node_def Let_def)
next
  case False
  obtain a w where a: "poll (snd iu) (snd s) = (a, w)" by fastforce
  show ?thesis
  proof (cases a)
    case None
    then show ?thesis using assms False a by (auto simp: poll_node_def Let_def wait_inv_def split: if_splits)
  next
    case (Some payload)
    then obtain r where r: "decode payload = Inr r" using assms(2) False a by (cases "decode payload") (auto simp: poll_node_def Let_def)
    then have nf: "\<not> finished_failed (nr_progress r)"
      and s': "ws_results (fst s') = (ws_results (fst s))[fst iu := Some r]" "length (ws_failures (fst s')) = length (ws_failures (fst s))"
      using assms(2) False a Some by (auto simp: poll_node_def Let_def split: if_splits)
    show ?thesis by (rule wait_inv_update [OF assms(1) nf r s'(1)]) (use s'(2) assms(1) in \<open>simp add: wait_inv_def\<close>)
  qed
qed

lemma map_st_inv:
  assumes "P s" and "map_st f xs s = (Inr ys, s')" and "\<And>x s y s'. P s \<Longrightarrow> f x s = (Inr y, s') \<Longrightarrow> P s'"
  shows "P s'"
  using assms(1,2)
proof (induction xs arbitrary: s ys)
  case (Cons x xs)
  obtain r s1 where one: "f x s = (r, s1)" by fastforce
  then obtain y where y: "r = Inr y" using Cons.prems(2) by (cases r) (auto simp: bind_st_def)
  obtain r2 s2 where two: "map_st f xs s1 = (r2, s2)" by fastforce
  then obtain zs where zs: "r2 = Inr zs" using Cons.prems(2) one y by (cases r2) (auto simp: bind_st_def)
  have "s2 = s'" using Cons.prems(2) one y two zs by (simp add: bind_st_def)
  then show ?case using Cons.IH [of s1 zs] assms(3) [OF Cons.prems(1) one [unfolded y]] two zs by simp
qed simp

lemma all_final_the:
  assumes "wait_inv decode n ws" and "all_final (ws_results ws)"
  shows "length (map the (ws_results ws)) = n
    \<and> (\<forall>r \<in> set (map the (ws_results ws)). finished_successfully (nr_progress r) \<and> (\<exists>b. decode b = Inr r))"
proof -
  have "finished_successfully (nr_progress (the x)) \<and> (\<exists>b. decode b = Inr (the x))" if "x \<in> set (ws_results ws)" for x
  proof -
    have "case x of None \<Rightarrow> False | Some r \<Rightarrow> pr_final (nr_progress r)"
      using assms(2) that unfolding all_final_def list_all_iff by blast
    then obtain r where r: "x = Some r" "pr_final (nr_progress r)" by (cases x) auto
    then show ?thesis using assms(1) that by (auto simp: wait_inv_def finished_failed_def)
  qed
  then show ?thesis using assms(1) by (auto simp: wait_inv_def)
qed

lemma wait_rounds_sound:
  assumes "wait_inv decode n (fst s)" and "wait_rounds k mf poll decode urls s = (Inr rs, s')"
  shows "length rs = n \<and> (\<forall>r \<in> set rs. finished_successfully (nr_progress r) \<and> (\<exists>b. decode b = Inr r))"
  using assms
proof (induction k arbitrary: s)
  case (Suc k)
  obtain x s1 where round: "poll_round mf poll decode urls s = (x, s1)" by (rule prod.exhaust)
  then obtain us where us: "x = Inr us" using Suc.prems(2) by (cases x) (auto simp: bind_st_def)
  have s1: "wait_inv decode n (fst s1)"
    using map_st_inv [of "\<lambda>s. wait_inv decode n (fst s)", OF Suc.prems(1) round [unfolded us poll_round_def]] poll_node_inv by blast
  show ?case
  proof (cases "all_final (ws_results (fst s1))")
    case True
    then have "rs = map the (ws_results (fst s1))" using Suc.prems(2) round us by (auto simp: bind_st_def)
    then show ?thesis using all_final_the [OF s1 True] by simp
  next
    case False
    then show ?thesis using Suc.IH [OF s1] Suc.prems(2) round us by (simp add: bind_st_def)
  qed
qed simp

lemma start_wait_inv:
  "wait_inv decode n \<lparr>ws_results = replicate n None, ws_failures = replicate n 0, ws_reports = []\<rparr>"
  by (auto simp: wait_inv_def)


definition done_answer :: json where
  "done_answer = JDict [(''op_id'', JInt 1), (''status_url'', JStr ''u'')]"

text \<open>A node that reports one item less than all at the first poll, and all of them at the second.\<close>

definition example_progress :: "int \<Rightarrow> bool \<Rightarrow> progress" where
  "example_progress n fin = \<lparr>pr_handled = n, pr_failed = 0, pr_total = 2, pr_final = fin\<rparr>"

definition example_decode :: "string \<Rightarrow> node_result result" where
  "example_decode b = (if b = ''busy'' then Inr \<lparr>nr_hostname = ''h'', nr_az = ''z'', nr_progress = example_progress 1 False\<rparr>
     else if b = ''done'' then Inr \<lparr>nr_hostname = ''h'', nr_az = ''z'', nr_progress = example_progress 2 True\<rparr> else Inl ValueError)"

definition example_poll :: "string \<Rightarrow> nat \<Rightarrow> string option \<times> nat" where
  "example_poll url w = (case w of 0 \<Rightarrow> (Some ''done'', 0) | Suc n \<Rightarrow> (Some ''busy'', n))"


section \<open>Waiting ends\<close>

text \<open>A world in which every poll of a running request is answered without a failure, and every answer that
  is not final brings the work closer to its end.\<close>

definition advancing :: "(string \<Rightarrow> 'w \<Rightarrow> string option \<times> 'w) \<Rightarrow> (string \<Rightarrow> 'a node_result_scheme result) \<Rightarrow> ('w \<Rightarrow> nat) \<Rightarrow> bool" where
  "advancing poll decode left \<longleftrightarrow> (\<forall>url w. \<exists>b w' r. poll url w = (Some b, w') \<and> decode b = Inr r
     \<and> \<not> finished_failed (nr_progress r) \<and> left w' \<le> left w \<and> (pr_final (nr_progress r) \<or> left w' < left w))"

definition final_at :: "'a node_result_scheme wait_state \<Rightarrow> nat \<Rightarrow> bool" where
  "final_at ws i \<longleftrightarrow> (case ws_results ws ! i of None \<Rightarrow> False | Some r \<Rightarrow> pr_final (nr_progress r))"

lemma poll_node_advances:
  assumes "advancing poll decode left" and "i < length (ws_results (fst s))"
  shows "\<exists>s'. poll_node mf poll decode (i, url) s = (Inr (), s') \<and> left (snd s') \<le> left (snd s)
    \<and> length (ws_results (fst s')) = length (ws_results (fst s))
    \<and> (\<forall>j. j \<noteq> i \<longrightarrow> final_at (fst s') j = final_at (fst s) j) \<and> (final_at (fst s') i \<or> left (snd s') < left (snd s))"
proof (cases "final_at (fst s) i")
  case True
  then show ?thesis by (auto simp: poll_node_def final_at_def Let_def)
next
  case False
  obtain b w' r where "poll url (snd s) = (Some b, w')" "decode b = Inr r" "\<not> finished_failed (nr_progress r)"
    "left w' \<le> left (snd s)" "pr_final (nr_progress r) \<or> left w' < left (snd s)"
    using assms(1) unfolding advancing_def by blast
  then show ?thesis using False assms(2) by (simp add: poll_node_def final_at_def Let_def)
qed

lemma poll_nodes_advance:
  assumes "advancing poll decode left" and "\<forall>(i, url) \<in> set ius. i < length (ws_results (fst s))" and "distinct (map fst ius)"
  shows "\<exists>us s'. map_st (poll_node mf poll decode) ius s = (Inr us, s') \<and> left (snd s') \<le> left (snd s)
    \<and> length (ws_results (fst s')) = length (ws_results (fst s))
    \<and> (\<forall>j. j \<notin> fst ` set ius \<longrightarrow> final_at (fst s') j = final_at (fst s) j)
    \<and> ((\<forall>i \<in> fst ` set ius. final_at (fst s') i) \<or> left (snd s') < left (snd s))"
  using assms(2,3)
proof (induction ius arbitrary: s)
  case (Cons iu ius)
  obtain i url where iu: "iu = (i, url)" by fastforce
  obtain s1 where s1: "poll_node mf poll decode iu s = (Inr (), s1)" "left (snd s1) \<le> left (snd s)"
    "length (ws_results (fst s1)) = length (ws_results (fst s))"
    "\<forall>j. j \<noteq> i \<longrightarrow> final_at (fst s1) j = final_at (fst s) j" "final_at (fst s1) i \<or> left (snd s1) < left (snd s)"
    using poll_node_advances [OF assms(1), of i s mf url] Cons.prems(1) iu by auto
  obtain us s2 where s2: "map_st (poll_node mf poll decode) ius s1 = (Inr us, s2)" "left (snd s2) \<le> left (snd s1)"
    "length (ws_results (fst s2)) = length (ws_results (fst s1))"
    "\<forall>j. j \<notin> fst ` set ius \<longrightarrow> final_at (fst s2) j = final_at (fst s1) j"
    "(\<forall>i \<in> fst ` set ius. final_at (fst s2) i) \<or> left (snd s2) < left (snd s1)"
    using Cons.IH [of s1] Cons.prems s1(3) by auto
  have "final_at (fst s2) i = final_at (fst s1) i" using s2(4) Cons.prems(2) iu by auto
  then have "(\<forall>j \<in> fst ` set (iu # ius). final_at (fst s2) j) \<or> left (snd s2) < left (snd s)"
    using s1(2,5) s2(2,5) iu by auto
  moreover have "\<forall>j. j \<notin> fst ` set (iu # ius) \<longrightarrow> final_at (fst s2) j = final_at (fst s) j"
    using s1(4) s2(4) iu by auto
  moreover have "map_st (poll_node mf poll decode) (iu # ius) s = (Inr (() # us), s2)" using s1(1) s2(1) by (simp add: bind_st_def)
  ultimately show ?case using s1(2,3) s2(2,3) by fastforce
qed simp

lemma wait_rounds_end:
  assumes "advancing poll decode left" and "length (ws_results (fst s)) = length urls" and "left (snd s) < k"
  shows "\<exists>rs s'. wait_rounds k mf poll decode urls s = (Inr rs, s')"
  using assms(2,3)
proof (induction k arbitrary: s)
  case (Suc k)
  let ?ius = "enumerate0 urls"
  have ids: "map fst ?ius = [0..<length urls]" by simp
  then have set: "fst ` set ?ius = {0..<length urls}" by (metis set_map set_upt)
  have "\<forall>(i, url) \<in> set ?ius. i < length (ws_results (fst s))" using Suc.prems(1) by (auto simp: in_set_enumerate_eq)
  moreover have "distinct (map fst ?ius)" unfolding ids by (rule distinct_upt)
  ultimately obtain us s1 where s1: "poll_round mf poll decode urls s = (Inr us, s1)" "length (ws_results (fst s1)) = length urls"
    "(\<forall>i \<in> fst ` set ?ius. final_at (fst s1) i) \<or> left (snd s1) < left (snd s)"
    using poll_nodes_advance [OF assms(1), of ?ius s mf] Suc.prems(1) unfolding poll_round_def by auto
  show ?case
  proof (cases "all_final (ws_results (fst s1))")
    case True
    then show ?thesis using s1(1) by (simp add: bind_st_def)
  next
    case False
    have "\<not> (\<forall>i \<in> fst ` set ?ius. final_at (fst s1) i)"
    proof
      assume "\<forall>i \<in> fst ` set ?ius. final_at (fst s1) i"
      then have "all_final (ws_results (fst s1))"
        using s1(2) by (auto simp: set all_final_def list_all_length final_at_def)
      then show False using False by simp
    qed
    then have "left (snd s1) < k" using s1(3) Suc.prems(2) by linarith
    then show ?thesis using Suc.IH [OF s1(2)] s1(1) False by (simp add: bind_st_def)
  qed
qed simp

text \<open>The wait ends with the results: when every request was started, every poll is answered without a
  failure and unfinished work advances, then at most as many rounds as there is work left, and one more,
  are needed.\<close>

theorem wait_results_end:
  assumes "advancing poll decode left" and "map_res start_url start_results = Inr urls" and "left w < rounds"
  shows "\<exists>rs w'. wait_successful_results rounds maximum_failures poll decode start_results w = (Inr rs, w')"
proof -
  let ?s = "(\<lparr>ws_results = replicate (length urls) None, ws_failures = replicate (length urls) 0, ws_reports = []\<rparr>, w)"
  have "\<exists>rs s'. wait_rounds rounds maximum_failures poll decode urls ?s = (Inr rs, s')"
    by (rule wait_rounds_end [OF assms(1)]) (use assms(3) in auto)
  then obtain rs ws w' where "wait_rounds rounds maximum_failures poll decode urls ?s = (Inr rs, (ws, w'))" by force
  then show ?thesis using assms(2) by (simp add: wait_successful_results_def)
qed

theorem wait_results_end_witness:
  "\<exists>rs w'. wait_successful_results 3 5 example_poll example_decode [Answered done_answer, Answered done_answer] 2 = (Inr rs, w')"
proof -
  have "\<exists>b w' r. example_poll url w = (Some b, w') \<and> example_decode b = Inr r
     \<and> \<not> finished_failed (nr_progress r) \<and> w' \<le> w \<and> (pr_final (nr_progress r) \<or> w' < w)" for url w
    by (cases w) (simp_all add: example_poll_def example_decode_def finished_failed_def finished_successfully_def example_progress_def)
  then have "advancing example_poll example_decode id" by (simp add: advancing_def)
  moreover have "map_res start_url [Answered done_answer, Answered done_answer] = Inr [''u'', ''u'']" by code_simp
  ultimately show ?thesis by (rule wait_results_end) simp
qed

end
