(* ===== verification/Stepped_Op.thy ===== *)
theory Stepped_Op
  imports Op_State
begin

text \<open>
  Operations that run a sequence of steps under the cluster lock (\<^verbatim>\<open>SteppedCoordinatorOp\<close> and \<^verbatim>\<open>RestoreOp\<close> of
  \<^verbatim>\<open>astacus/coordinator/coordinator.py\<close>, \<^verbatim>\<open>StepsContext\<close> of \<^verbatim>\<open>astacus/coordinator/plugins/base.py\<close>).

  A step is the name of its class and the body of \<^verbatim>\<open>run_step\<close>, which sees the context and changes the
  world \<open>'w\<close> (the cluster, the storages and the shared operation info). Results are \<open>'v option\<close>, \<open>None\<close> being
  Python's. Statistics and the progress of the steps are left out.
\<close>

section \<open>The context of an attempt\<close>

record 'v steps_context =
  sc_attempt :: nat
  sc_attempt_start :: int
  sc_step_results :: "(string \<times> 'v option) list"

definition new_context :: "nat \<Rightarrow> int \<Rightarrow> 'v steps_context" where
  "new_context attempt start = \<lparr>sc_attempt = attempt, sc_attempt_start = start, sc_step_results = []\<rparr>"

definition get_result :: "'v steps_context \<Rightarrow> string \<Rightarrow> 'v option result" where
  "get_result c cls = (case dict_get (sc_step_results c) cls of None \<Rightarrow> Inl KeyError | Some v \<Rightarrow> Inr v)"

definition set_result :: "string \<Rightarrow> 'v option \<Rightarrow> 'v steps_context \<Rightarrow> 'v steps_context result" where
  "set_result cls v c =
     (case dict_get (sc_step_results c) cls of
        Some old \<Rightarrow> if old \<noteq> None \<or> v \<noteq> None then Inl RuntimeError
          else Inr (c\<lparr>sc_step_results := dict_set cls v (sc_step_results c)\<rparr>)
      | None \<Rightarrow> Inr (c\<lparr>sc_step_results := dict_set cls v (sc_step_results c)\<rparr>))"

section \<open>Attempts\<close>

record ('w, 'v) step =
  step_class :: string
  run_step :: "'v steps_context \<Rightarrow> ('w, 'v option) stateful"

fun try_run :: "('w \<Rightarrow> bool) \<Rightarrow> ('w, 'v) step list \<Rightarrow> 'v steps_context \<Rightarrow> ('w, bool) stateful" where
  "try_run shutting_down [] c w = (Inr True, w)"
| "try_run shutting_down (st # sts) c w =
     (if shutting_down w then (Inr False, w)
      else case run_step st c w of
        (Inl e, w1) \<Rightarrow> if e = StepFailedError \<or> e = WaitResultError then (Inr False, w1) else (Inl e, w1)
      | (Inr r, w1) \<Rightarrow> (case set_result (step_class st) r c of
            Inl e \<Rightarrow> (Inl e, w1)
          | Inr c1 \<Rightarrow> try_run shutting_down sts c1 w1))"

text \<open>The loop over the attempts, numbered from \<open>k\<close>, with \<open>n\<close> of them left; \<open>now\<close> is the start of an attempt. The
  result says whether an attempt succeeded; the exceptions that leave the loop are the result of the loop.\<close>

fun attempt_loop :: "(nat \<Rightarrow> int) \<Rightarrow> ('w \<Rightarrow> bool) \<Rightarrow> ('w, 'v) step list \<Rightarrow> nat \<Rightarrow> nat \<Rightarrow> ('w, bool) stateful" where
  "attempt_loop now shutting_down steps k 0 w = (Inr False, w)"
| "attempt_loop now shutting_down steps k (Suc n) w =
     (case try_run shutting_down steps (new_context k (now k)) w of
        (Inr True, w1) \<Rightarrow> (Inr True, w1)
      | (Inr False, w1) \<Rightarrow> attempt_loop now shutting_down steps (Suc k) n w1
      | (Inl e, w1) \<Rightarrow> if is_transient e then attempt_loop now shutting_down steps (Suc k) n w1 else (Inl e, w1))"

definition run_with_lock :: "(op_status \<Rightarrow> op_status option \<Rightarrow> ('w, bool) stateful) \<Rightarrow> (nat \<Rightarrow> int) \<Rightarrow> ('w \<Rightarrow> bool)
    \<Rightarrow> ('w, 'v) step list \<Rightarrow> nat \<Rightarrow> ('w, unit) stateful" where
  "run_with_lock ss now shutting_down steps attempts w =
     (case attempt_loop now shutting_down steps 1 attempts w of
        (Inr True, w1) \<Rightarrow> (Inr (), w1)
      | (Inr False, w1) \<Rightarrow> set_status_fail ss w1
      | (Inl e, w1) \<Rightarrow> if is_permanent e then set_status_fail ss w1 else (Inl e, w1))"

text \<open>\<^verbatim>\<open>RestoreOp\<close> makes one attempt and may stop after a named step.\<close>

fun index_of :: "'a \<Rightarrow> 'a list \<Rightarrow> nat result" where
  "index_of x [] = Inl ValueError"
| "index_of x (y # ys) = (if x = y then Inr 0 else bind_res (index_of x ys) (\<lambda>i. Inr (Suc i)))"

definition steps_until :: "string option \<Rightarrow> ('w, 'v) step list \<Rightarrow> ('w, 'v) step list result" where
  "steps_until stop_after_step steps = (case stop_after_step of None \<Rightarrow> Inr steps
     | Some name \<Rightarrow> bind_res (index_of name (map step_class steps)) (\<lambda>i. Inr (take (i + 1) steps)))"

section \<open>What a successful attempt has done\<close>

text \<open>A run of steps one after the other, each with the results of the earlier ones in its context.\<close>

inductive steps_done :: "('w, 'v) step list \<Rightarrow> 'v steps_context \<Rightarrow> 'w \<Rightarrow> 'v steps_context \<Rightarrow> 'w \<Rightarrow> bool" where
  no_steps: "steps_done [] c w c w"
| next_step: "\<lbrakk>run_step st c w = (Inr r, w1); set_result (step_class st) r c = Inr c1; steps_done sts c1 w1 c2 w2\<rbrakk>
    \<Longrightarrow> steps_done (st # sts) c w c2 w2"

lemma try_run_done:
  assumes "try_run shutting_down steps c w = (Inr True, w')"
  shows "\<exists>c'. steps_done steps c w c' w'"
  using assms
proof (induction steps arbitrary: c w)
  case (Cons st sts)
  obtain x w1 where one: "run_step st c w = (x, w1)" by fastforce
  have nd: "\<not> shutting_down w" using Cons.prems by auto
  then obtain r where r: "x = Inr r" using Cons.prems one by (cases x) (auto split: if_splits)
  then obtain c1 where c1: "set_result (step_class st) r c = Inr c1"
    using Cons.prems one nd by (cases "set_result (step_class st) r c") auto
  then have "try_run shutting_down sts c1 w1 = (Inr True, w')" using Cons.prems one nd r by simp
  then show ?case using Cons.IH next_step [OF one [unfolded r] c1] by blast
qed (auto intro: no_steps)

lemma set_result_ok:
  assumes "set_result cls v c = Inr c'"
  shows "get_result c' cls = Inr v" and "sc_attempt c' = sc_attempt c" "sc_attempt_start c' = sc_attempt_start c"
    and "\<And>other x. get_result c other = Inr x \<Longrightarrow> x \<noteq> None \<Longrightarrow> get_result c' other = Inr x"
  using assms by (auto simp: set_result_def get_result_def update_conv' split: option.splits if_splits)

lemma steps_done_keeps:
  assumes "steps_done steps c w c' w'"
  shows "sc_attempt c' = sc_attempt c \<and> sc_attempt_start c' = sc_attempt_start c
    \<and> (\<forall>other x. get_result c other = Inr x \<and> x \<noteq> None \<longrightarrow> get_result c' other = Inr x)"
  using assms by induction (auto dest: set_result_ok)

text \<open>Every result that is not \<open>None\<close> is set once and read back unchanged by all later steps.\<close>

lemma steps_done_results:
  assumes "steps_done steps c w c' w'" and "st \<in> set steps"
  shows "\<exists>c1 w1 r w2. run_step st c1 w1 = (Inr r, w2) \<and> (r = None \<or> get_result c' (step_class st) = Inr r)"
  using assms
proof induction
  case (next_step s c w r w1 c1 sts c2 w2)
  show ?case
  proof (cases "st = s")
    case True
    have "r = None \<or> get_result c2 (step_class s) = Inr r"
      using steps_done_keeps [OF next_step.hyps(3)] set_result_ok(1) [OF next_step.hyps(2)] by blast
    then show ?thesis using next_step.hyps(1) True by blast
  next
    case False
    then show ?thesis using next_step.IH next_step.prems by simp
  qed
qed simp

section \<open>Attempts end\<close>

text \<open>The attempts as a relation: from attempt \<open>k\<close>, after a number of attempts that are to be repeated, the
  last one has the given outcome.\<close>

definition repeated :: "bool result \<Rightarrow> bool" where
  "repeated x \<longleftrightarrow> x = Inr False \<or> x = Inl TransientException"

inductive attempts_made :: "(nat \<Rightarrow> int) \<Rightarrow> ('w \<Rightarrow> bool) \<Rightarrow> ('w, 'v) step list \<Rightarrow> nat \<Rightarrow> 'w \<Rightarrow> nat \<Rightarrow> 'w \<Rightarrow> bool"
  for now shutting_down steps where
  none_made: "attempts_made now shutting_down steps k w k w"
| one_more: "\<lbrakk>try_run shutting_down steps (new_context k (now k)) w = (x, w1); repeated x;
      attempts_made now shutting_down steps (Suc k) w1 m w2\<rbrakk> \<Longrightarrow> attempts_made now shutting_down steps k w m w2"

lemma attempts_made_le: "attempts_made now shutting_down steps k w m w2 \<Longrightarrow> k \<le> m"
  by (induction rule: attempts_made.induct) auto

lemma attempt_loop_outcome:
  assumes "attempt_loop now shutting_down steps k n w = (x, w')"
  shows "\<exists>m w1. attempts_made now shutting_down steps k w m w1 \<and> m \<le> k + n
    \<and> (if m = k + n then x = Inr False \<and> w' = w1
       else try_run shutting_down steps (new_context m (now m)) w1 = (x, w') \<and> \<not> repeated x)"
  using assms
proof (induction n arbitrary: k w)
  case 0
  then show ?case by (auto intro: none_made)
next
  case (Suc n)
  obtain y w1 where y: "try_run shutting_down steps (new_context k (now k)) w = (y, w1)" by fastforce
  show ?case
  proof (cases "repeated y")
    case True
    then have "attempt_loop now shutting_down steps (Suc k) n w1 = (x, w')"
      using Suc.prems y by (auto simp: repeated_def is_transient_def)
    from Suc.IH [OF this] obtain m w2 where m: "attempts_made now shutting_down steps (Suc k) w1 m w2" "m \<le> Suc k + n"
      "if m = Suc k + n then x = Inr False \<and> w' = w2
       else try_run shutting_down steps (new_context m (now m)) w2 = (x, w') \<and> \<not> repeated x" by blast
    have "attempts_made now shutting_down steps k w m w2" by (rule one_more [OF y True m(1)])
    then show ?thesis using m(2,3) by (intro exI [of _ m] exI [of _ w2]) simp
  next
    case False
    then have "y = x" "w1 = w'" using Suc.prems y
      by (cases y; auto simp: repeated_def is_transient_def split: bool.splits)+
    then show ?thesis using y False by (intro exI [of _ k] exI [of _ w]) (auto intro: none_made)
  qed
qed

text \<open>C8. An operation of steps ends after at most the configured number of attempts, each from an empty
  context. It returns without a status change only when the last attempt ran every step, in order, each
  after the results of the earlier ones, and earlier attempts only failed in a way that is to be repeated.
  Otherwise its status is set to failed (attempts used up, or a permanent failure), or the exception that
  is neither transient nor permanent leaves it.\<close>

theorem stepped_operation_ends:
  assumes "run_with_lock ss now shutting_down steps attempts w = (x, w')"
  shows "\<exists>m w1. attempts_made now shutting_down steps 1 w m w1 \<and> m \<le> attempts + 1
    \<and> ((m \<le> attempts \<and> x = Inr () \<and> (\<exists>c'. steps_done steps (new_context m (now m)) w1 c' w'))
     \<or> (m = attempts + 1 \<and> set_status_fail ss w1 = (x, w'))
     \<or> (m \<le> attempts \<and> (\<exists>e w2. try_run shutting_down steps (new_context m (now m)) w1 = (Inl e, w2)
          \<and> (if is_permanent e then set_status_fail ss w2 = (x, w') else x = Inl e \<and> w' = w2 \<and> \<not> is_transient e))))"
proof -
  obtain y w2 where loop: "attempt_loop now shutting_down steps 1 attempts w = (y, w2)" by fastforce
  obtain m w1 where m: "attempts_made now shutting_down steps 1 w m w1" "m \<le> 1 + attempts"
    "if m = 1 + attempts then y = Inr False \<and> w2 = w1
       else try_run shutting_down steps (new_context m (now m)) w1 = (y, w2) \<and> \<not> repeated y"
    using attempt_loop_outcome [OF loop] by blast
  show ?thesis
  proof (cases "m = attempts + 1")
    case True
    then show ?thesis using m assms loop by (auto simp: run_with_lock_def)
  next
    case False
    then have run: "try_run shutting_down steps (new_context m (now m)) w1 = (y, w2)" "\<not> repeated y" "m \<le> attempts" using m by auto
    show ?thesis
    proof (cases y)
      case (Inl e)
      then have "\<not> is_transient e" using run(2) by (auto simp: repeated_def is_transient_def)
      moreover have "if is_permanent e then set_status_fail ss w2 = (x, w') else x = Inl e \<and> w' = w2"
        using assms loop Inl by (auto simp: run_with_lock_def split: if_splits)
      ultimately have "if is_permanent e then set_status_fail ss w2 = (x, w') else x = Inl e \<and> w' = w2 \<and> \<not> is_transient e"
        by (auto split: if_splits)
      then show ?thesis using m(1) run(1,3) Inl m(2) by (intro exI [of _ m] exI [of _ w1] conjI disjI2) auto
    next
      case (Inr b)
      then have b: "b" using run(2) by (simp add: repeated_def)
      then have "x = Inr ()" "w' = w2" using assms loop Inr by (auto simp: run_with_lock_def)
      moreover have "\<exists>c'. steps_done steps (new_context m (now m)) w1 c' w2" using try_run_done run(1) b Inr by metis
      ultimately show ?thesis using m(1,2) run(3) by (intro exI [of _ m] exI [of _ w1] conjI disjI1) auto
    qed
  qed
qed

text \<open>A step that fails once and then returns the number of the attempt, and a step that reads it.\<close>

definition example_steps :: "(nat, nat) step list" where
  "example_steps = [\<lparr>step_class = ''A'', run_step = (\<lambda>c w. if w = 0 then (Inl TransientException, 1) else (Inr (Some (sc_attempt c)), w))\<rparr>,
     \<lparr>step_class = ''B'', run_step = (\<lambda>c w. case get_result c ''A'' of Inr (Some n) \<Rightarrow> (Inr None, w + n) | _ \<Rightarrow> (Inl KeyError, w))\<rparr>]"

theorem stepped_operation_ends_witness:
  "\<exists>m w1. attempts_made (\<lambda>_. 0) (\<lambda>_. False) example_steps 1 0 m w1 \<and> m \<le> 4
     \<and> (\<exists>c'. steps_done example_steps (new_context m 0) w1 c' 3)"
proof -
  let ?ss = "\<lambda>(st :: op_status) (from :: op_status option) (w :: nat). (Inr True, w + 100)"
  have run: "run_with_lock ?ss (\<lambda>_. 0) (\<lambda>_. False) example_steps 3 0 = (Inr (), 3)" by code_simp
  have fail: "set_status_fail ?ss w1 \<noteq> (Inr (), 3)" for w1 :: nat by (simp add: set_status_fail_def)
  from stepped_operation_ends [OF run] obtain m w1 where
    "attempts_made (\<lambda>_. 0) (\<lambda>_. False) example_steps 1 0 m w1" "m \<le> 4" "\<exists>c'. steps_done example_steps (new_context m 0) w1 c' 3"
    using fail by (auto split: if_splits)
  then show ?thesis by blast
qed

end
