(* ===== verification/Upload_Plan.thy ===== *)
theory Upload_Plan
  imports Ipc
begin

text \<open>
  Which node uploads which file contents (\<^verbatim>\<open>build_node_index_datas\<close> in
  \<^verbatim>\<open>astacus/coordinator/plugins/base.py\<close>). Every content that the object storage lacks is given to one
  node that has it: rare contents first, large before small, always to the least loaded candidate.
\<close>

section \<open>Definitions\<close>

record node_index_data =
  nid_node_index :: nat
  nid_sshashes :: "snapshot_hash list"
  nid_total_size :: int

definition new_node_index_data :: "nat \<Rightarrow> node_index_data" where
  "new_node_index_data i = \<lparr>nid_node_index = i, nid_sshashes = [], nid_total_size = 0\<rparr>"

definition append_sshash :: "snapshot_hash \<Rightarrow> node_index_data \<Rightarrow> node_index_data" where
  "append_sshash h d = d\<lparr>nid_total_size := nid_total_size d + sh_size h, nid_sshashes := nid_sshashes d @ [h]\<rparr>"

text \<open>\<^verbatim>\<open>snapshot_result.hashes or []\<close>\<close>

definition hashes_of :: "snapshot_result \<Rightarrow> snapshot_hash list" where
  "hashes_of r = (case sr_hashes r of None \<Rightarrow> [] | Some hs \<Rightarrow> hs)"

definition add_snapshot :: "nat \<times> snapshot_result \<Rightarrow> (snapshot_hash \<times> nat list) list \<Rightarrow> (snapshot_hash \<times> nat list) list" where
  "add_snapshot x = fold (\<lambda>h. dict_append h (fst x)) (hashes_of (snd x))"

definition sshash_to_node_indexes :: "snapshot_result list \<Rightarrow> (snapshot_hash \<times> nat list) list" where
  "sshash_to_node_indexes snapshots =
     fold add_snapshot (enumerate0 snapshots) []"

definition sshash_to_node_indexes_key :: "snapshot_hash \<times> nat list \<Rightarrow> nat \<times> int" where
  "sshash_to_node_indexes_key item = (length (snd item), - sh_size (fst item))"

definition least_loaded :: "node_index_data list \<Rightarrow> nat list \<Rightarrow> nat" where
  "least_loaded datas node_indexes = snd (Min (set (map (\<lambda>i. (nid_total_size (datas ! i), i)) node_indexes)))"

definition assign_hash :: "string set \<Rightarrow> snapshot_hash \<times> nat list \<Rightarrow> node_index_data list \<Rightarrow> node_index_data list" where
  "assign_hash hexdigests item datas =
     (if sh_hexdigest (fst item) \<in> hexdigests then datas
      else let k = least_loaded datas (snd item) in datas[k := append_sshash (fst item) (datas ! k)])"

definition build_node_index_datas :: "string set \<Rightarrow> snapshot_result list \<Rightarrow> nat list \<Rightarrow> node_index_data list result" where
  "build_node_index_datas hexdigests snapshots node_indices =
     (if length snapshots \<noteq> length node_indices then Inl AssertionError
      else let todo = sort_key sshash_to_node_indexes_key (sshash_to_node_indexes snapshots);
               datas = fold (assign_hash hexdigests) todo (map new_node_index_data node_indices)
           in Inr (filter (\<lambda>d. nid_sshashes d \<noteq> []) datas))"

section \<open>The table of candidates\<close>

lemma candidates_inner:
  "distinct (map fst d) \<Longrightarrow> distinct (map fst (fold (\<lambda>h. dict_append h i) hs d))"
  "(\<exists>is. map_of (fold (\<lambda>h. dict_append h i) hs d) h = Some is \<and> j \<in> set is)
     \<longleftrightarrow> (\<exists>is. map_of d h = Some is \<and> j \<in> set is) \<or> (h \<in> set hs \<and> j = i)"
  "map_of (fold (\<lambda>h. dict_append h i) hs d) h = Some [] \<Longrightarrow> map_of d h = Some []"
proof (induction hs arbitrary: d)
  case (Cons a hs)
  { case 1 then show ?case using Cons(1) [of "dict_append a i d"] by (simp add: distinct_dict_append) }
  { case 2 show ?case using Cons(2) [of "dict_append a i d"]
      by (auto simp: map_of_dict_append split: option.splits if_splits) }
  { case 3 then show ?case using Cons(3) [of "dict_append a i d"]
      by (auto simp: map_of_dict_append split: option.splits if_splits) }
qed simp_all

lemma candidates_outer:
  "distinct (map fst d) \<Longrightarrow>
     distinct (map fst (fold add_snapshot xs d))"
  "(\<exists>is. map_of (fold add_snapshot xs d) h = Some is \<and> j \<in> set is)
     \<longleftrightarrow> (\<exists>is. map_of d h = Some is \<and> j \<in> set is) \<or> (\<exists>r. (j, r) \<in> set xs \<and> h \<in> set (hashes_of r))"
  "map_of (fold add_snapshot xs d) h = Some [] \<Longrightarrow> map_of d h = Some []"
proof (induction xs arbitrary: d)
  case (Cons x xs)
  obtain i r where x: "x = (i, r)" by (cases x)
  have d: "add_snapshot x d = fold (\<lambda>h. dict_append h i) (hashes_of r) d" for d by (simp add: add_snapshot_def x)
  { case 1 show ?case unfolding fold_simps d by (rule Cons(1) [OF candidates_inner(1) [OF 1]]) }
  { case 2 show ?case unfolding fold_simps d Cons(2) candidates_inner(2) using x by auto }
  { case 3 show ?case by (rule candidates_inner(3), rule Cons(3)) (use 3 d in simp) }
qed simp_all

text \<open>Every content of a snapshot has one row, with exactly the nodes that have it.\<close>

lemma candidates_distinct: "distinct (map fst (sshash_to_node_indexes snapshots))"
  unfolding sshash_to_node_indexes_def by (rule candidates_outer(1)) simp

lemma candidates_row:
  assumes "(h, is) \<in> set (sshash_to_node_indexes snapshots)"
  shows "is \<noteq> [] \<and> (\<forall>i. i \<in> set is \<longleftrightarrow> i < length snapshots \<and> h \<in> set (hashes_of (snapshots ! i)))"
proof -
  have m: "map_of (sshash_to_node_indexes snapshots) h = Some is"
    using assms candidates_distinct by simp
  have "i \<in> set is \<longleftrightarrow> i < length snapshots \<and> h \<in> set (hashes_of (snapshots ! i))" for i
    using m candidates_outer(2) [of "enumerate0 snapshots" "[]" h i]
    by (auto simp: sshash_to_node_indexes_def in_set_enumerate_eq)
  moreover have "is \<noteq> []"
    using m candidates_outer(3) [of "enumerate0 snapshots" "[]" h] by (auto simp: sshash_to_node_indexes_def)
  ultimately show ?thesis by blast
qed

lemma candidates_keys: "fst ` set (sshash_to_node_indexes snapshots) = (\<Union>r \<in> set snapshots. set (hashes_of r))"
proof -
  have "h \<in> fst ` set (sshash_to_node_indexes snapshots) \<longleftrightarrow> (\<exists>i < length snapshots. h \<in> set (hashes_of (snapshots ! i)))" for h
  proof
    assume "h \<in> fst ` set (sshash_to_node_indexes snapshots)"
    then obtain "is" where "(h, is) \<in> set (sshash_to_node_indexes snapshots)" by auto
    from candidates_row [OF this] show "\<exists>i < length snapshots. h \<in> set (hashes_of (snapshots ! i))"
      by (metis last_in_set)
  next
    assume "\<exists>i < length snapshots. h \<in> set (hashes_of (snapshots ! i))"
    then obtain i where "i < length snapshots" "h \<in> set (hashes_of (snapshots ! i))" by blast
    then obtain "is" where "map_of (sshash_to_node_indexes snapshots) h = Some is"
      using candidates_outer(2) [of "enumerate0 snapshots" "[]" h i]
      by (auto simp: sshash_to_node_indexes_def in_set_enumerate_eq)
    then show "h \<in> fst ` set (sshash_to_node_indexes snapshots)" by (force dest: map_of_SomeD)
  qed
  then show ?thesis unfolding set_eq_iff UN_iff by (metis in_set_conv_nth)
qed

section \<open>One assignment\<close>

lemma least_loaded_props:
  assumes "is \<noteq> []"
  shows "least_loaded datas is \<in> set is"
    and "j \<in> set is \<Longrightarrow> nid_total_size (datas ! least_loaded datas is) \<le> nid_total_size (datas ! j)"
proof -
  let ?S = "set (map (\<lambda>i. (nid_total_size (datas ! i), i)) is)"
  have "Min ?S \<in> ?S" using assms by (intro Min_in) auto
  then obtain k where k: "k \<in> set is" "Min ?S = (nid_total_size (datas ! k), k)" by auto
  then show "least_loaded datas is \<in> set is" by (simp add: least_loaded_def)
  assume "j \<in> set is"
  then have "Min ?S \<le> (nid_total_size (datas ! j), j)" by (intro Min_le) auto
  then show "nid_total_size (datas ! least_loaded datas is) \<le> nid_total_size (datas ! j)"
    using k by (auto simp: least_loaded_def less_eq_prod_def)
qed

text \<open>What holds of the plan after the rows \<open>todo\<close> have been assigned, for a table of candidates
  \<open>cand\<close>: the positions keep their node, the sizes are sums, the contents are those of the rows, each
  with a candidate, and a node's load before its last content was no larger than what any other
  candidate for that content has in the end.\<close>

definition plan_inv :: "string set \<Rightarrow> nat list \<Rightarrow> (snapshot_hash \<Rightarrow> nat set) \<Rightarrow> (snapshot_hash \<times> nat list) list
    \<Rightarrow> node_index_data list \<Rightarrow> bool" where
  "plan_inv hexdigests node_indices cand todo datas \<longleftrightarrow>
     map nid_node_index datas = node_indices
   \<and> (\<forall>d \<in> set datas. nid_total_size d = sum_list (map sh_size (nid_sshashes d)))
   \<and> mset (concat (map nid_sshashes datas)) = mset (filter (\<lambda>h. sh_hexdigest h \<notin> hexdigests) (map fst todo))
   \<and> (\<forall>i < length datas. \<forall>h \<in> set (nid_sshashes (datas ! i)). i \<in> cand h)
   \<and> (\<forall>i < length datas. \<forall>xs h. nid_sshashes (datas ! i) = xs @ [h] \<longrightarrow>
        (\<forall>j \<in> cand h. sum_list (map sh_size xs) \<le> nid_total_size (datas ! j)))"

lemma plan_inv_indices:
  assumes "plan_inv hexdigests node_indices cand todo datas"
  shows "length datas = length node_indices" and "i < length datas \<Longrightarrow> node_indices ! i = nid_node_index (datas ! i)"
proof -
  have "map nid_node_index datas = node_indices" using assms by (simp add: plan_inv_def)
  then show "length datas = length node_indices" "i < length datas \<Longrightarrow> node_indices ! i = nid_node_index (datas ! i)"
    by auto
qed

lemma mset_concat_update:
  assumes "k < length ds"
  shows "mset (concat (map f (ds[k := d]))) + mset (f (ds ! k)) = mset (concat (map f ds)) + mset (f d)"
  using assms
proof (induction ds arbitrary: k)
  case (Cons a ds)
  then show ?case by (cases k) (auto simp: ac_simps)
qed simp

lemma plan_inv_step:
  assumes inv: "plan_inv hexdigests node_indices cand todo datas"
    and row: "is \<noteq> []" "set is = cand h" and range: "\<And>i g. i \<in> cand g \<Longrightarrow> i < length node_indices"
    and size: "sh_size h \<ge> 0"
  shows "plan_inv hexdigests node_indices cand (todo @ [(h, is)]) (assign_hash hexdigests (h, is) datas)"
proof (cases "sh_hexdigest h \<in> hexdigests")
  case True
  then show ?thesis using inv by (simp add: plan_inv_def assign_hash_def)
next
  case False
  define k where "k = least_loaded datas is"
  let ?D = "datas[k := append_sshash h (datas ! k)]"
  have D: "assign_hash hexdigests (h, is) datas = ?D" using False by (simp add: assign_hash_def k_def Let_def)
  note len = plan_inv_indices(1) [OF inv]
  have k: "k < length datas" "k \<in> cand h"
    using least_loaded_props(1) [OF row(1)] row(2) range len by (auto simp: k_def)
  have grow: "nid_total_size (datas ! j) \<le> nid_total_size (?D ! j)" if "j < length datas" for j
    using that k size by (cases "j = k") (auto simp: append_sshash_def)
  have last: "sum_list (map sh_size xs) \<le> nid_total_size (?D ! j)"
    if i: "i < length datas" and xs: "nid_sshashes (?D ! i) = xs @ [g]" and j: "j \<in> cand g" "j < length datas" for i xs g j
  proof (cases "i = k")
    case True
    then have "g = h" "xs = nid_sshashes (datas ! k)" using xs k by (auto simp: append_sshash_def)
    then have "sum_list (map sh_size xs) = nid_total_size (datas ! k)"
      using inv k by (simp add: plan_inv_def)
    also have "\<dots> \<le> nid_total_size (datas ! j)"
      using least_loaded_props(2) [OF row(1), of j datas] row(2) j(1) \<open>g = h\<close> by (simp add: k_def)
    finally show ?thesis using grow [OF j(2)] by simp
  next
    case False
    then have "nid_sshashes (datas ! i) = xs @ [g]" using xs by simp
    then have "sum_list (map sh_size xs) \<le> nid_total_size (datas ! j)" using inv i j(1) by (auto simp: plan_inv_def)
    then show ?thesis using grow [OF j(2)] by simp
  qed
  have "mset (concat (map nid_sshashes ?D)) = mset (concat (map nid_sshashes datas)) + {#h#}"
    using mset_concat_update [OF k(1), of nid_sshashes "append_sshash h (datas ! k)"] by (simp add: append_sshash_def)
  then have cont: "mset (concat (map nid_sshashes ?D))
      = mset (filter (\<lambda>h. sh_hexdigest h \<notin> hexdigests) (map fst (todo @ [(h, is)])))"
    using inv False by (simp add: plan_inv_def)
  have sizes: "nid_total_size (?D ! i) = sum_list (map sh_size (nid_sshashes (?D ! i)))
      \<and> (\<forall>g \<in> set (nid_sshashes (?D ! i)). i \<in> cand g)" if "i < length datas" for i
    using inv k that by (cases "i = k") (auto simp: plan_inv_def append_sshash_def)
  have idx: "map nid_node_index ?D = node_indices"
    by (rule nth_equalityI) (use inv k in \<open>auto simp: plan_inv_def append_sshash_def nth_list_update\<close>)
  show ?thesis
    unfolding D plan_inv_def
    using idx cont sizes last range len by (auto simp: all_set_conv_all_nth)
qed

section \<open>The whole plan\<close>

definition snapshot_hashes :: "snapshot_result list \<Rightarrow> snapshot_hash set" where
  "snapshot_hashes snapshots = (\<Union>r \<in> set snapshots. set (hashes_of r))"

definition has_hash :: "snapshot_result list \<Rightarrow> snapshot_hash \<Rightarrow> nat set" where
  "has_hash snapshots h = {i. i < length snapshots \<and> h \<in> set (hashes_of (snapshots ! i))}"

lemma plan_inv_fold:
  assumes "plan_inv hexdigests node_indices (has_hash snapshots) start datas"
    and "set rows \<subseteq> set (sshash_to_node_indexes snapshots)" and "length snapshots = length node_indices"
    and "\<forall>h \<in> snapshot_hashes snapshots. sh_size h \<ge> 0"
  shows "plan_inv hexdigests node_indices (has_hash snapshots) (start @ rows) (fold (assign_hash hexdigests) rows datas)"
  using assms
proof (induction rows arbitrary: start datas)
  case (Cons row rows)
  obtain h "is" where row: "row = (h, is)" by (cases row)
  then have mem: "(h, is) \<in> set (sshash_to_node_indexes snapshots)" using Cons.prems(2) by simp
  then have "h \<in> snapshot_hashes snapshots"
    unfolding snapshot_hashes_def candidates_keys [symmetric] by force
  moreover note candidates_row [OF mem]
  ultimately have "plan_inv hexdigests node_indices (has_hash snapshots) (start @ [row]) (assign_hash hexdigests row datas)"
    unfolding row using Cons.prems(3,4)
    by (intro plan_inv_step [OF Cons.prems(1)]) (auto simp: has_hash_def)
  from Cons.IH [OF this] show ?case using Cons.prems by simp
qed simp

lemma build_plan_inv:
  assumes "length snapshots = length node_indices" and "\<forall>h \<in> snapshot_hashes snapshots. sh_size h \<ge> 0"
  defines "todo \<equiv> sort_key sshash_to_node_indexes_key (sshash_to_node_indexes snapshots)"
  shows "plan_inv hexdigests node_indices (has_hash snapshots) todo
    (fold (assign_hash hexdigests) todo (map new_node_index_data node_indices))"
proof -
  have "plan_inv hexdigests node_indices (has_hash snapshots) [] (map new_node_index_data node_indices)"
    by (auto simp: plan_inv_def new_node_index_data_def comp_def)
  from plan_inv_fold [OF this, of todo] show ?thesis using assms(1,2) by (simp add: todo_def)
qed

lemma concat_map_filter_nonempty: "concat (map f (filter (\<lambda>x. f x \<noteq> []) xs)) = concat (map f xs)"
  by (induction xs) auto

lemma build_contents:
  assumes "build_node_index_datas hexdigests snapshots node_indices = Inr datas"
    and "\<forall>h \<in> snapshot_hashes snapshots. sh_size h \<ge> 0"
  shows "distinct (concat (map nid_sshashes datas))
    \<and> set (concat (map nid_sshashes datas)) = {h \<in> snapshot_hashes snapshots. sh_hexdigest h \<notin> hexdigests}"
proof -
  let ?todo = "sort_key sshash_to_node_indexes_key (sshash_to_node_indexes snapshots)"
  let ?all = "fold (assign_hash hexdigests) ?todo (map new_node_index_data node_indices)"
  have len: "length snapshots = length node_indices" and datas: "datas = filter (\<lambda>d. nid_sshashes d \<noteq> []) ?all"
    using assms(1) by (auto simp: build_node_index_datas_def Let_def split: if_splits)
  have m: "mset (concat (map nid_sshashes datas)) = mset (filter (\<lambda>h. sh_hexdigest h \<notin> hexdigests) (map fst ?todo))"
    using build_plan_inv [OF len assms(2), of hexdigests] unfolding plan_inv_def datas concat_map_filter_nonempty by blast
  have d: "distinct (map fst ?todo)"
    using candidates_distinct [of snapshots] by (metis mset_eq_imp_distinct_iff mset_map mset_sort)
  have "set (map fst ?todo) = snapshot_hashes snapshots"
    by (simp add: candidates_keys snapshot_hashes_def)
  then show ?thesis
    using mset_eq_setD [OF m] mset_eq_imp_distinct_iff [OF m] distinct_filter [OF d] by auto
qed

text \<open>C4. The upload plan is exact: every content of the snapshots that the object storage lacks is
  uploaded once and only once, nothing else is uploaded, no node is asked to upload nothing, every
  node is asked only for contents of its own snapshot, and the announced size is the sum of the
  sizes.\<close>

theorem upload_plan_exact:
  assumes "build_node_index_datas hexdigests snapshots node_indices = Inr datas"
    and "\<forall>h \<in> snapshot_hashes snapshots. sh_size h \<ge> 0"
  shows "distinct (concat (map nid_sshashes datas))
    \<and> set (concat (map nid_sshashes datas)) = {h \<in> snapshot_hashes snapshots. sh_hexdigest h \<notin> hexdigests}
    \<and> (\<forall>d \<in> set datas. nid_sshashes d \<noteq> [] \<and> nid_total_size d = sum_list (map sh_size (nid_sshashes d))
         \<and> (\<exists>i < length snapshots. nid_node_index d = node_indices ! i
              \<and> set (nid_sshashes d) \<subseteq> set (hashes_of (snapshots ! i))))"
proof -
  let ?todo = "sort_key sshash_to_node_indexes_key (sshash_to_node_indexes snapshots)"
  let ?all = "fold (assign_hash hexdigests) ?todo (map new_node_index_data node_indices)"
  have len: "length snapshots = length node_indices" and datas: "datas = filter (\<lambda>d. nid_sshashes d \<noteq> []) ?all"
    using assms(1) by (auto simp: build_node_index_datas_def Let_def split: if_splits)
  note inv = build_plan_inv [OF len assms(2), of hexdigests]
  have "nid_sshashes d \<noteq> [] \<and> nid_total_size d = sum_list (map sh_size (nid_sshashes d))
         \<and> (\<exists>i < length snapshots. nid_node_index d = node_indices ! i
              \<and> set (nid_sshashes d) \<subseteq> set (hashes_of (snapshots ! i)))" if "d \<in> set datas" for d
  proof -
    from that datas obtain i where i: "i < length ?all" "d = ?all ! i" and ne: "nid_sshashes d \<noteq> []"
      by (auto simp: in_set_conv_nth)
    moreover have "length ?all = length node_indices" "node_indices ! i = nid_node_index d"
      using plan_inv_indices [OF inv] i by simp_all
    moreover have "set (nid_sshashes d) \<subseteq> set (hashes_of (snapshots ! i))"
      using inv i by (auto simp: plan_inv_def has_hash_def)
    moreover have "nid_total_size d = sum_list (map sh_size (nid_sshashes d))"
      using inv i by (simp add: plan_inv_def)
    ultimately show ?thesis using len by metis
  qed
  with build_contents [OF assms] show ?thesis by blast
qed

definition planned_load :: "node_index_data list \<Rightarrow> nat \<Rightarrow> int" where
  "planned_load datas k = sum_list (map nid_total_size (filter (\<lambda>d. nid_node_index d = k) datas))"

lemma planned_load_filter:
  assumes "\<forall>d \<in> set ds. nid_total_size d = sum_list (map sh_size (nid_sshashes d))"
  shows "planned_load (filter (\<lambda>d. nid_sshashes d \<noteq> []) ds) k = planned_load ds k"
  using assms by (induction ds) (auto simp: planned_load_def)

lemma planned_load_nth:
  assumes "distinct (map nid_node_index ds)" and "j < length ds"
  shows "planned_load ds (nid_node_index (ds ! j)) = nid_total_size (ds ! j)"
  using assms
proof (induction ds arbitrary: j)
  case (Cons d ds)
  show ?case
  proof (cases j)
    case 0
    with Cons.prems have "filter (\<lambda>x. nid_node_index x = nid_node_index d) ds = []"
      by (auto simp: filter_empty_conv) (metis imageI)
    with 0 show ?thesis by (simp add: planned_load_def)
  next
    case (Suc j')
    with Cons.prems have "nid_node_index d \<noteq> nid_node_index (ds ! j')"
      using nth_mem [of j' ds] by auto
    with Suc Cons show ?thesis by (simp add: planned_load_def)
  qed
qed simp

text \<open>The upload work is spread over the nodes: for the content that was given to a node last,
  the node's other work together is no more than the whole work of any other node that could have
  uploaded that content.\<close>

theorem upload_plan_balanced:
  assumes "build_node_index_datas hexdigests snapshots node_indices = Inr datas"
    and "\<forall>h \<in> snapshot_hashes snapshots. sh_size h \<ge> 0"
    and "distinct node_indices"
    and "d \<in> set datas" and "nid_sshashes d = xs @ [h]"
    and "j < length snapshots" and "h \<in> set (hashes_of (snapshots ! j))"
  shows "sum_list (map sh_size xs) \<le> planned_load datas (node_indices ! j)"
proof -
  let ?todo = "sort_key sshash_to_node_indexes_key (sshash_to_node_indexes snapshots)"
  let ?all = "fold (assign_hash hexdigests) ?todo (map new_node_index_data node_indices)"
  have len: "length snapshots = length node_indices" and datas: "datas = filter (\<lambda>d. nid_sshashes d \<noteq> []) ?all"
    using assms(1) by (auto simp: build_node_index_datas_def Let_def split: if_splits)
  note inv = build_plan_inv [OF len assms(2), of hexdigests]
  obtain i where i: "i < length ?all" "d = ?all ! i" using assms(4) datas by (auto simp: in_set_conv_nth)
  have j: "j < length ?all" "node_indices ! j = nid_node_index (?all ! j)"
    using plan_inv_indices [OF inv] assms(6) len by auto
  have "planned_load datas (node_indices ! j) = planned_load ?all (nid_node_index (?all ! j))"
    unfolding datas j(2) by (rule planned_load_filter) (use inv in \<open>simp add: plan_inv_def\<close>)
  also have "\<dots> = nid_total_size (?all ! j)"
    by (rule planned_load_nth) (use inv assms(3) j in \<open>auto simp: plan_inv_def\<close>)
  finally show ?thesis
    using inv i assms(5,6,7) by (auto simp: plan_inv_def has_hash_def)
qed

section \<open>Witnesses\<close>

definition example_hash :: "string \<Rightarrow> int \<Rightarrow> snapshot_hash" where
  "example_hash h n = \<lparr>sh_hexdigest = h, sh_size = n\<rparr>"

definition example_snapshots :: "snapshot_result list" where
  "example_snapshots = map (\<lambda>hs. \<lparr>nr_hostname = [], nr_az = [], nr_progress = new_progress, sr_start = 0,
      sr_end = None, sr_state = None, sr_files = 0, sr_total_size = 0, sr_hashes = hs\<rparr>)
     [Some [example_hash ''a'' 5, example_hash ''b'' 7], Some [example_hash ''a'' 5, example_hash ''c'' 1], None]"

lemma example_plan:
  "build_node_index_datas {''c''} example_snapshots [0, 1, 2] =
     Inr [\<lparr>nid_node_index = 0, nid_sshashes = [example_hash ''b'' 7], nid_total_size = 7\<rparr>,
          \<lparr>nid_node_index = 1, nid_sshashes = [example_hash ''a'' 5], nid_total_size = 5\<rparr>]"
  by code_simp

lemma example_sizes: "\<forall>h \<in> snapshot_hashes example_snapshots. sh_size h \<ge> 0"
  by (auto simp: snapshot_hashes_def example_snapshots_def hashes_of_def example_hash_def)

theorem upload_plan_exact_witness:
  "{example_hash ''b'' 7, example_hash ''a'' 5} =
     {h \<in> snapshot_hashes example_snapshots. sh_hexdigest h \<notin> {''c''}}"
  using upload_plan_exact [OF example_plan example_sizes] by simp

theorem upload_plan_balanced_witness:
  "sum_list (map sh_size ([] :: snapshot_hash list)) \<le> planned_load [\<lparr>nid_node_index = 0, nid_sshashes = [example_hash ''b'' 7], nid_total_size = 7\<rparr>,
          \<lparr>nid_node_index = 1, nid_sshashes = [example_hash ''a'' 5], nid_total_size = 5\<rparr>] ([0, 1, 2] ! 0)"
  by (rule upload_plan_balanced [OF example_plan example_sizes, where d = "\<lparr>nid_node_index = 1, nid_sshashes = [example_hash ''a'' 5], nid_total_size = 5\<rparr>" and h = "example_hash ''a'' 5"])
     (simp_all add: example_snapshots_def hashes_of_def)

end
