(* ===== verification/Backup_Steps.thy ===== *)
theory Backup_Steps
  imports Cluster Stepped_Op Upload_Plan Node_Map Cleanup
begin

text \<open>
  The steps that the plugins share (\<^verbatim>\<open>astacus/coordinator/plugins/base.py\<close>) for backups, restores and deltas,
  and the plugin for plain files (\<^verbatim>\<open>astacus/coordinator/plugins/files.py\<close>). The steps of the cleanup are in
  \<^theory_text>\<open>Cleanup\<close>.

  A step runs in a world of nodes, a JSON storage and a content storage. The environment holds what the
  code reaches through its objects: the cluster, the network, the JSON codecs and the storages.
\<close>

section \<open>World and environment\<close>

record ('w, 'j, 'h) world =
  wd_nodes :: 'w
  wd_json :: 'j
  wd_hex :: 'h

definition on_nodes :: "('w, 'a) stateful \<Rightarrow> (('w, 'j, 'h) world, 'a) stateful" where
  "on_nodes m s = (case m (wd_nodes s) of (x, w) \<Rightarrow> (x, s\<lparr>wd_nodes := w\<rparr>))"

definition on_jsons :: "('j, 'a) stateful \<Rightarrow> (('w, 'j, 'h) world, 'a) stateful" where
  "on_jsons m s = (case m (wd_json s) of (x, j) \<Rightarrow> (x, s\<lparr>wd_json := j\<rparr>))"

definition on_hexes :: "('h, 'a) stateful \<Rightarrow> (('w, 'j, 'h) world, 'a) stateful" where
  "on_hexes m s = (case m (wd_hex s) of (x, h) \<Rightarrow> (x, s\<lparr>wd_hex := h\<rparr>))"

record ('w, 'j, 'h) env =
  ev_cluster :: cluster
  ev_send :: "('w, json) sender"
  ev_send_raw :: "('w, string) sender"
  ev_poll :: "string \<Rightarrow> 'w \<Rightarrow> string option \<times> 'w"
  ev_rounds :: nat
  ev_maximum_failures :: nat
  ev_decode_snapshot :: "string \<Rightarrow> snapshot_result result"
  ev_decode_upload :: "string \<Rightarrow> upload_result result"
  ev_decode_node :: "string \<Rightarrow> node_result result"
  ev_decode_features :: "string \<Rightarrow> string list result"
  ev_decode_manifest :: "string \<Rightarrow> backup_manifest result"
  ev_encode_manifest :: "backup_manifest \<Rightarrow> string"
  ev_isoformat :: "int \<Rightarrow> string"
  ev_jops :: "'j json_ops"
  ev_hops :: "'h hexdigest_ops"

definition step_request :: "('w, 'j, 'h) env \<Rightarrow> string \<Rightarrow> request_body option \<Rightarrow> request_body list option
    \<Rightarrow> coordinator_node list option \<Rightarrow> (('w, 'j, 'h) world, json answer list) stateful" where
  "step_request ev url req reqs nodes = on_nodes (request_from_nodes (ev_cluster ev) (ev_send ev) url req reqs nodes)"

definition step_wait :: "('w, 'j, 'h) env \<Rightarrow> (string \<Rightarrow> 'a node_result_scheme result) \<Rightarrow> json answer list
    \<Rightarrow> (('w, 'j, 'h) world, 'a node_result_scheme list) stateful" where
  "step_wait ev decode start_results =
     on_nodes (wait_successful_results (ev_rounds ev) (ev_maximum_failures ev) (ev_poll ev) decode start_results)"

text \<open>The results of the steps, and their typed lookup.\<close>

datatype step_value =
    VSnapshots "snapshot_result list" | VHexdigests "string set" | VUploads "upload_result list" | VNodes "node_result list"
  | VName string | VManifest backup_manifest | VMapping "nat option list" | VDeltas "backup_manifest list" | VPlugin json

definition typed_result :: "(step_value \<Rightarrow> 'a option) \<Rightarrow> step_value steps_context \<Rightarrow> string \<Rightarrow> ('s, 'a) stateful" where
  "typed_result sel c cls s = (case get_result c cls of Inl e \<Rightarrow> (Inl e, s)
     | Inr (Some v) \<Rightarrow> (case sel v of Some x \<Rightarrow> (Inr x, s) | None \<Rightarrow> (Inl TypeError, s))
     | Inr None \<Rightarrow> (Inl TypeError, s))"

fun sel_snapshots where "sel_snapshots (VSnapshots x) = Some x" | "sel_snapshots _ = None"
fun sel_hexdigests where "sel_hexdigests (VHexdigests x) = Some x" | "sel_hexdigests _ = None"
fun sel_uploads where "sel_uploads (VUploads x) = Some x" | "sel_uploads _ = None"
fun sel_name where "sel_name (VName x) = Some x" | "sel_name _ = None"
fun sel_manifest where "sel_manifest (VManifest x) = Some x" | "sel_manifest _ = None"
fun sel_mapping where "sel_mapping (VMapping x) = Some x" | "sel_mapping _ = None"
fun sel_deltas where "sel_deltas (VDeltas x) = Some x" | "sel_deltas _ = None"
fun sel_plugin where "sel_plugin (VPlugin x) = Some x" | "sel_plugin _ = None"

definition returning :: "('a \<Rightarrow> step_value) \<Rightarrow> ('s, 'a) stateful \<Rightarrow> ('s, step_value option) stateful" where
  "returning con m = bind_st m (\<lambda>x s. (Inr (Some (con x)), s))"

abbreviation fail_st :: "exn \<Rightarrow> ('s, 'a) stateful" where "fail_st e \<equiv> (\<lambda>s. (Inl e, s))"
abbreviation return_st :: "'a \<Rightarrow> ('s, 'a) stateful" where "return_st x \<equiv> (\<lambda>s. (Inr x, s))"
abbreviation lift_res :: "'a result \<Rightarrow> ('s, 'a) stateful" where "lift_res r \<equiv> (\<lambda>s. (r, s))"

section \<open>Backup\<close>

text \<open>The features of the nodes; a node that does not answer has none.\<close>

fun metadata_of :: "(string \<Rightarrow> string list result) \<Rightarrow> string answer \<Rightarrow> string list result" where
  "metadata_of decode Silent = Inr []"
| "metadata_of decode (Raised e) = Inl AttributeError"
| "metadata_of decode (Answered b) = decode b"

definition get_nodes_metadata :: "('w, 'j, 'h) env \<Rightarrow> (('w, 'j, 'h) world, string list list) stateful" where
  "get_nodes_metadata ev =
     bind_st (on_nodes (request_from_nodes (ev_cluster ev) (ev_send_raw ev) ''metadata'' None None None)) (\<lambda>as.
       lift_res (map_res (metadata_of (ev_decode_features ev)) as))"

definition snapshot_step :: "('w, 'j, 'h) env \<Rightarrow> snapshot_group list \<Rightarrow> string \<Rightarrow> coordinator_node list option
    \<Rightarrow> step_value steps_context \<Rightarrow> (('w, 'j, 'h) world, step_value option) stateful" where
  "snapshot_step ev groups url nodes c = returning VSnapshots
     (bind_st (get_nodes_metadata ev) (\<lambda>metadata.
        if metadata = [] then fail_st TypeError
        else bind_st (step_request ev url (Some (SnapshotReq (create_snapshot_request groups (\<Inter> (set ` set metadata))))) None nodes)
               (step_wait ev (ev_decode_snapshot ev))))"

definition list_hexdigests_step :: "('w, 'j, 'h) env \<Rightarrow> step_value steps_context \<Rightarrow> (('w, 'j, 'h) world, step_value option) stateful" where
  "list_hexdigests_step ev c = returning VHexdigests (bind_st (on_hexes (list_hexdigests (ev_hops ev))) (\<lambda>hs. return_st (set hs)))"

text \<open>One upload request per node with work, in the version that the node understands.\<close>

definition upload_body :: "string \<Rightarrow> bool \<Rightarrow> string list \<Rightarrow> node_index_data \<Rightarrow> request_body" where
  "upload_body storage_name validate features d = UploadReq \<lparr>uq_hashes = nid_sshashes d, uq_storage = storage_name,
     uq_validate_file_hashes = (if feature_value FValidateFileHashes \<in> set features then Some validate else None)\<rparr>"

fun start_uploads :: "('w, 'j, 'h) env \<Rightarrow> string \<Rightarrow> bool \<Rightarrow> string \<Rightarrow> string list list \<Rightarrow> node_index_data list
    \<Rightarrow> (('w, 'j, 'h) world, json answer list) stateful" where
  "start_uploads ev storage_name validate url metadata [] = return_st []"
| "start_uploads ev storage_name validate url metadata (d # ds) =
     (if nid_node_index d \<ge> length metadata \<or> nid_node_index d \<ge> length (cl_nodes (ev_cluster ev)) then fail_st IndexError
      else bind_st (step_request ev url (Some (upload_body storage_name validate (metadata ! nid_node_index d) d)) None
             (Some [cl_nodes (ev_cluster ev) ! nid_node_index d])) (\<lambda>r.
        if length r \<noteq> 1 then fail_st StepFailedError
        else bind_st (start_uploads ev storage_name validate url metadata ds) (\<lambda>rs. return_st (r @ rs))))"

definition upload_node_index_datas :: "('w, 'j, 'h) env \<Rightarrow> string \<Rightarrow> node_index_data list \<Rightarrow> bool \<Rightarrow> string
    \<Rightarrow> (('w, 'j, 'h) world, upload_result list) stateful" where
  "upload_node_index_datas ev storage_name datas validate url =
     bind_st (get_nodes_metadata ev) (\<lambda>metadata.
     bind_st (start_uploads ev storage_name validate url metadata datas) (step_wait ev (ev_decode_upload ev)))"

definition upload_blocks_step :: "('w, 'j, 'h) env \<Rightarrow> string \<Rightarrow> bool \<Rightarrow> string \<Rightarrow> string
    \<Rightarrow> step_value steps_context \<Rightarrow> (('w, 'j, 'h) world, step_value option) stateful" where
  "upload_blocks_step ev storage_name validate url list_class c = returning VUploads
     (bind_st (typed_result sel_hexdigests c list_class) (\<lambda>hexdigests.
      bind_st (typed_result sel_snapshots c ''SnapshotStep'') (\<lambda>snapshots.
      bind_st (lift_res (build_node_index_datas hexdigests snapshots [0..<length (cl_nodes (ev_cluster ev))])) (\<lambda>datas.
        upload_node_index_datas ev storage_name datas validate url))))"

text \<open>The globs of a snapshot's state, which has to be there.\<close>

definition result_globs :: "snapshot_result \<Rightarrow> string list result" where
  "result_globs r = (case sr_state r of None \<Rightarrow> Inl AssertionError | Some st \<Rightarrow> Inr (ss_root_globs st))"

definition first_globs :: "snapshot_result list \<Rightarrow> string list result" where
  "first_globs rs = (case rs of [] \<Rightarrow> Inl IndexError | r # _ \<Rightarrow> result_globs r)"

definition snapshot_clear_step :: "('w, 'j, 'h) env \<Rightarrow> string \<Rightarrow> step_value steps_context \<Rightarrow> (('w, 'j, 'h) world, step_value option) stateful" where
  "snapshot_clear_step ev url c = returning VNodes
     (bind_st (typed_result sel_snapshots c ''SnapshotStep'') (\<lambda>snapshots.
      bind_st (lift_res (first_globs snapshots)) (\<lambda>globs.
      bind_st (step_request ev url (Some (ClearReq globs)) None None) (step_wait ev (ev_decode_node ev)))))"

definition hexdigests_from_hashes :: "snapshot_result \<Rightarrow> request_body result" where
  "hexdigests_from_hashes r = (case sr_hashes r of None \<Rightarrow> Inl AssertionError | Some hs \<Rightarrow> Inr (ReleaseReq (map sh_hexdigest hs)))"

definition snapshot_release_step :: "('w, 'j, 'h) env \<Rightarrow> step_value steps_context \<Rightarrow> (('w, 'j, 'h) world, step_value option) stateful" where
  "snapshot_release_step ev c = returning VNodes
     (bind_st (typed_result sel_snapshots c ''SnapshotStep'') (\<lambda>snapshots.
      bind_st (get_nodes_metadata ev) (\<lambda>metadata.
        if metadata = [] \<or> \<not> list_all (\<lambda>fs. feature_value FReleaseSnapshotFiles \<in> set fs) metadata then return_st []
        else bind_st (lift_res (map_res hexdigests_from_hashes snapshots)) (\<lambda>reqs.
             bind_st (step_request ev ''release'' None (Some reqs) None) (step_wait ev (ev_decode_node ev))))))"

text \<open>\<open>now\<close> is the end of the backup, which the manifest takes when it is made.\<close>

definition make_backup_name :: "('w, 'j, 'h) env \<Rightarrow> string \<Rightarrow> step_value steps_context \<Rightarrow> string" where
  "make_backup_name ev backup_prefix c = backup_prefix @ ev_isoformat ev (sc_attempt_start c)"

definition optional_result :: "(step_value \<Rightarrow> 'a option) \<Rightarrow> 'a \<Rightarrow> step_value steps_context \<Rightarrow> string option \<Rightarrow> ('s, 'a) stateful" where
  "optional_result sel dflt c cls = (case cls of None \<Rightarrow> return_st dflt | Some k \<Rightarrow> typed_result sel c k)"

definition upload_manifest_step :: "('w, 'j, 'h) env \<Rightarrow> plugin \<Rightarrow> string option \<Rightarrow> string option \<Rightarrow> string option \<Rightarrow> string \<Rightarrow> int
    \<Rightarrow> step_value steps_context \<Rightarrow> (('w, 'j, 'h) world, step_value option) stateful" where
  "upload_manifest_step ev plugin plugin_class snapshot_class upload_class backup_prefix now c =
     bind_st (optional_result sel_plugin (JDict []) c plugin_class) (\<lambda>plugin_data.
     bind_st (optional_result sel_snapshots [] c snapshot_class) (\<lambda>snapshots.
     bind_st (optional_result sel_uploads [] c upload_class) (\<lambda>uploads.
     bind_st (on_jsons (upload_json_bytes (ev_jops ev) (make_backup_name ev backup_prefix c)
         (ev_encode_manifest ev \<lparr>bm_start = sc_attempt_start c, bm_end = now, bm_attempt = int (sc_attempt c),
            bm_snapshot_results = snapshots, bm_upload_results = uploads, bm_plugin = plugin,
            bm_plugin_data = plugin_data, bm_filename = []\<rparr>))) (\<lambda>_. return_st None))))"

section \<open>Restore\<close>

definition backup_name_step :: "('w, 'j, 'h) env \<Rightarrow> string \<Rightarrow> step_value steps_context \<Rightarrow> (('w, 'j, 'h) world, step_value option) stateful" where
  "backup_name_step ev requested_name c = returning VName
     (if requested_name = [] then bind_st (on_jsons (list_jsons (ev_jops ev))) (\<lambda>ns.
        lift_res (py_index (sort ns) (-1)))
      else if startswith requested_name JSON_BACKUP_PREFIX then return_st requested_name
      else return_st (JSON_BACKUP_PREFIX @ requested_name))"

definition backup_manifest_step :: "('w, 'j, 'h) env \<Rightarrow> step_value steps_context \<Rightarrow> (('w, 'j, 'h) world, step_value option) stateful" where
  "backup_manifest_step ev c = returning VManifest
     (bind_st (typed_result sel_name c ''BackupNameStep'') (\<lambda>name.
        if name = [] then fail_st AssertionError
        else on_jsons (download_backup_manifest (ev_jops ev) (ev_decode_manifest ev) name)))"

definition map_nodes_step :: "('w, 'j, 'h) env \<Rightarrow> partial_restore_node list option \<Rightarrow> step_value steps_context
    \<Rightarrow> (('w, 'j, 'h) world, step_value option) stateful" where
  "map_nodes_step ev partial c = returning VMapping
     (bind_st (typed_result sel_manifest c ''BackupManifestStep'') (\<lambda>m.
        lift_res (get_node_to_backup_index partial (bm_snapshot_results m) (cl_nodes (ev_cluster ev)))))"

text \<open>What a node is asked to do: download its part of the backup, clear its files, or nothing.\<close>

definition restore_request :: "string \<Rightarrow> string \<Rightarrow> bool \<Rightarrow> snapshot_result list \<Rightarrow> nat option \<Rightarrow> (string \<times> request_body) option result" where
  "restore_request storage_name backup_name partial results index =
     (case index of
        Some i \<Rightarrow> if i \<ge> length results then Inl IndexError
          else bind_res (result_globs (results ! i)) (\<lambda>globs. Inr (Some (''download'', DownloadReq
            \<lparr>dq_storage = storage_name, dq_backup_name = backup_name, dq_snapshot_index = int i, dq_root_globs = globs\<rparr>)))
      | None \<Rightarrow> if partial then Inr None
          else bind_res (first_globs results) (\<lambda>globs. Inr (Some (''clear'', ClearReq globs))))"

text \<open>The loop over the nodes; \<open>None\<close> stands for its early return of the empty list.\<close>

fun start_restores :: "('w, 'j, 'h) env \<Rightarrow> string \<Rightarrow> string \<Rightarrow> bool \<Rightarrow> snapshot_result list \<Rightarrow> (coordinator_node \<times> nat option) list
    \<Rightarrow> (('w, 'j, 'h) world, json answer list option) stateful" where
  "start_restores ev storage_name backup_name partial results [] = return_st (Some [])"
| "start_restores ev storage_name backup_name partial results ((node, index) # rest) =
     bind_st (lift_res (restore_request storage_name backup_name partial results index)) (\<lambda>r. case r of
       None \<Rightarrow> start_restores ev storage_name backup_name partial results rest
     | Some (url, body) \<Rightarrow> bind_st (step_request ev url (Some body) None (Some [node])) (\<lambda>a.
         if length a \<noteq> 1 then return_st None
         else bind_st (start_restores ev storage_name backup_name partial results rest) (\<lambda>as.
           return_st (map_option (\<lambda>xs. a @ xs) as))))"

definition restore_step :: "('w, 'j, 'h) env \<Rightarrow> string \<Rightarrow> partial_restore_node list option \<Rightarrow> step_value steps_context
    \<Rightarrow> (('w, 'j, 'h) world, step_value option) stateful" where
  "restore_step ev storage_name partial c = returning VNodes
     (bind_st (typed_result sel_name c ''BackupNameStep'') (\<lambda>name.
      bind_st (typed_result sel_manifest c ''BackupManifestStep'') (\<lambda>m.
      bind_st (typed_result sel_mapping c ''MapNodesStep'') (\<lambda>mapping.
        if bm_snapshot_results m = [] then fail_st MissingSnapshotResultsException
        else bind_st (start_restores ev storage_name name (partial \<noteq> None \<and> partial \<noteq> Some [])
               (bm_snapshot_results m) (zip (cl_nodes (ev_cluster ev)) mapping)) (\<lambda>as. case as of
             None \<Rightarrow> return_st []
           | Some xs \<Rightarrow> step_wait ev (ev_decode_node ev) xs)))))"

section \<open>Deltas\<close>

definition delta_manifests_step :: "('w, 'j, 'h) env \<Rightarrow> step_value steps_context \<Rightarrow> (('w, 'j, 'h) world, step_value option) stateful" where
  "delta_manifests_step ev c = returning VDeltas
     (bind_st (typed_result sel_manifest c ''BackupManifestStep'') (\<lambda>base.
      bind_st (on_jsons (list_jsons (ev_jops ev))) (\<lambda>ns.
      bind_st (map_st (\<lambda>n. on_jsons (download_backup_manifest (ev_jops ev) (ev_decode_manifest ev) n))
          (sort (filter (\<lambda>n. startswith n JSON_DELTA_PREFIX) ns))) (\<lambda>ms.
        return_st (sort_key bm_start (filter (\<lambda>m. bm_start m \<ge> bm_start base) ms))))))"

definition contains_partial_restore_hostnames :: "partial_restore_node list \<Rightarrow> backup_manifest \<Rightarrow> bool" where
  "contains_partial_restore_hostnames partial m \<longleftrightarrow>
     list_ex (\<lambda>r. Some (nr_hostname r) \<in> pn_backup_hostname ` set partial) (bm_snapshot_results m)"

text \<open>Each of the three phases of a delta starts requests on the mapped nodes and waits for them.\<close>

definition delta_phase :: "('w, 'j, 'h) env \<Rightarrow> string \<Rightarrow> request_body option \<Rightarrow> request_body list option \<Rightarrow> coordinator_node list
    \<Rightarrow> (('w, 'j, 'h) world, unit) stateful" where
  "delta_phase ev url req reqs nodes =
     bind_st (step_request ev url req reqs (Some nodes)) (\<lambda>as.
       if as = [] then fail_st StepFailedError
       else bind_st (step_wait ev (ev_decode_node ev) as) (\<lambda>_. return_st ()))"

definition mapped_globs :: "backup_manifest \<Rightarrow> nat \<Rightarrow> string list result" where
  "mapped_globs m i = (if i \<ge> length (bm_snapshot_results m) then Inl IndexError else result_globs (bm_snapshot_results m ! i))"

definition restore_one_delta :: "('w, 'j, 'h) env \<Rightarrow> string \<Rightarrow> string \<Rightarrow> request_body \<Rightarrow> partial_restore_node list option
    \<Rightarrow> backup_manifest \<Rightarrow> (('w, 'j, 'h) world, unit) stateful" where
  "restore_one_delta ev storage_name delta_url delta_request partial m =
     (if (case partial of None \<Rightarrow> False | Some ps \<Rightarrow> ps \<noteq> [] \<and> \<not> contains_partial_restore_hostnames ps m) then return_st ()
      else bind_st (lift_res (get_node_to_backup_index partial (bm_snapshot_results m) (cl_nodes (ev_cluster ev)))) (\<lambda>mapping.
        let nodes = map fst (filter (\<lambda>(n, i). i \<noteq> None) (zip (cl_nodes (ev_cluster ev)) mapping));
            indexes = List.map_filter id mapping
        in bind_st (lift_res (map_res (\<lambda>i. bind_res (mapped_globs m i) (\<lambda>globs. Inr (DownloadReq \<lparr>dq_storage = storage_name,
               dq_backup_name = bm_filename m, dq_snapshot_index = int i, dq_root_globs = globs\<rparr>))) indexes)) (\<lambda>downloads.
           bind_st (delta_phase ev ''delta/download'' None (Some downloads) nodes) (\<lambda>_.
           bind_st (delta_phase ev delta_url (Some delta_request) None nodes) (\<lambda>_.
           bind_st (lift_res (map_res (\<lambda>i. bind_res (mapped_globs m i) (\<lambda>globs. Inr (ClearReq globs))) indexes)) (\<lambda>clears.
             delta_phase ev ''delta/clear'' None (Some clears) nodes))))))"

definition restore_deltas_step :: "('w, 'j, 'h) env \<Rightarrow> string \<Rightarrow> string \<Rightarrow> request_body \<Rightarrow> partial_restore_node list option \<Rightarrow> string
    \<Rightarrow> step_value steps_context \<Rightarrow> (('w, 'j, 'h) world, step_value option) stateful" where
  "restore_deltas_step ev storage_name delta_url delta_request partial manifests_class c =
     bind_st (typed_result sel_deltas c manifests_class) (\<lambda>ms.
     bind_st (map_st (restore_one_delta ev storage_name delta_url delta_request partial) (sort_key bm_start ms)) (\<lambda>_. return_st None))"

section \<open>The plugin for files\<close>

definition files_backup_steps :: "('w, 'j, 'h) env \<Rightarrow> string \<Rightarrow> string list \<Rightarrow> int \<Rightarrow> (('w, 'j, 'h) world, step_value) step list" where
  "files_backup_steps ev storage_name globs now =
     [\<lparr>step_class = ''SnapshotStep'', run_step = snapshot_step ev (map make_snapshot_group globs) ''snapshot'' None\<rparr>,
      \<lparr>step_class = ''ListHexdigestsStep'', run_step = list_hexdigests_step ev\<rparr>,
      \<lparr>step_class = ''UploadBlocksStep'', run_step = upload_blocks_step ev storage_name True ''upload'' ''ListHexdigestsStep''\<rparr>,
      \<lparr>step_class = ''UploadManifestStep'', run_step = upload_manifest_step ev PFiles None (Some ''SnapshotStep'')
         (Some ''UploadBlocksStep'') JSON_BACKUP_PREFIX now\<rparr>]"

definition files_restore_steps :: "('w, 'j, 'h) env \<Rightarrow> string \<Rightarrow> string \<Rightarrow> partial_restore_node list option
    \<Rightarrow> (('w, 'j, 'h) world, step_value) step list" where
  "files_restore_steps ev storage_name name partial =
     [\<lparr>step_class = ''BackupNameStep'', run_step = backup_name_step ev name\<rparr>,
      \<lparr>step_class = ''BackupManifestStep'', run_step = backup_manifest_step ev\<rparr>,
      \<lparr>step_class = ''MapNodesStep'', run_step = map_nodes_step ev partial\<rparr>,
      \<lparr>step_class = ''RestoreStep'', run_step = restore_step ev storage_name partial\<rparr>]"

section \<open>A manifest is restored as it was stored\<close>

lemma bind_simps: "bind_st (return_st x) f s = f x s" "bind_st (fail_st e) f s = (Inl e, s)"
  by (simp_all add: bind_st_def)

lemma typed_result_set:
  assumes "set_result cls (Some v) c = Inr c'"
  shows "typed_result sel c' cls s = (case sel v of Some x \<Rightarrow> (Inr x, s) | None \<Rightarrow> (Inl TypeError, s))"
  using set_result_ok(1) [OF assms] by (simp add: typed_result_def)


section \<open>A restore asks the right nodes\<close>

text \<open>The requests that a list of (possibly absent) actions on nodes amounts to.\<close>

definition planned :: "('w, 'j, 'h) env \<Rightarrow> (coordinator_node \<times> (string \<times> request_body) option) list \<Rightarrow> (node_request \<times> string) list" where
  "planned ev = List.map_filter (\<lambda>(n, r). map_option (\<lambda>(url, b). (with_result_url (ev_cluster ev) b, cn_url n @ ''/'' @ url)) r)"

lemma request_one_node:
  "request_from_nodes cl send url (Some b) None (Some [n]) w =
     (case send (cn_url n @ ''/'' @ url) (with_result_url cl b) w of (a, w') \<Rightarrow> (Inr [a], w'))"
  by (simp add: request_from_nodes_def Let_def split: prod.splits)

lemma start_restores_sends:
  assumes "list_all2 (\<lambda>i r. restore_request storage_name backup_name partial results i = Inr r) mapping rs" and "length nodes = length mapping"
  shows "start_restores ev storage_name backup_name partial results (zip nodes mapping) s =
    (case send_all (ev_send ev) (planned ev (zip nodes rs)) (wd_nodes s) of (as, w) \<Rightarrow> (Inr (Some as), s\<lparr>wd_nodes := w\<rparr>))"
  using assms
proof (induction mapping rs arbitrary: nodes s rule: list_all2_induct)
  case (Cons i mapping r rs)
  obtain n ns where nodes: "nodes = n # ns" "length ns = length mapping" using Cons.prems by (cases nodes) auto
  show ?case
  proof (cases r)
    case None
    then show ?thesis using Cons.hyps(1) Cons.IH [OF nodes(2)] nodes(1) by (simp add: bind_st_def planned_def map_filter_simps)
  next
    case (Some ub)
    obtain url b where ub: "ub = (url, b)" by fastforce
    let ?q = "with_result_url (ev_cluster ev) b" and ?u = "cn_url n @ ''/'' @ url"
    obtain a w1 where a: "ev_send ev ?u ?q (wd_nodes s) = (a, w1)" by fastforce
    obtain as w2 where as: "send_all (ev_send ev) (planned ev (zip ns rs)) w1 = (as, w2)" by fastforce
    have "planned ev (zip nodes (r # rs)) = (?q, ?u) # planned ev (zip ns rs)"
      using Some ub nodes(1) by (simp add: planned_def map_filter_simps)
    then show ?thesis using Cons.hyps(1) Cons.IH [OF nodes(2), of "s\<lparr>wd_nodes := w1\<rparr>"] nodes(1) Some ub a as
      by (simp add: bind_st_def step_request_def on_nodes_def request_one_node)
  qed
qed (simp add: planned_def map_filter_simps)

lemma planned_all:
  "planned ev (map (\<lambda>(n, i). (n, Some (f i))) xs) = map (\<lambda>(n, i). case f i of
     (url, b) \<Rightarrow> (with_result_url (ev_cluster ev) b, cn_url n @ ''/'' @ url)) xs"
  by (induction xs) (auto simp: planned_def map_filter_simps split: prod.splits)

definition download_body :: "string \<Rightarrow> string \<Rightarrow> snapshot_result list \<Rightarrow> nat \<Rightarrow> request_body" where
  "download_body storage_name backup_name results i = DownloadReq \<lparr>dq_storage = storage_name, dq_backup_name = backup_name,
     dq_snapshot_index = int i, dq_root_globs = ss_root_globs (the (sr_state (results ! i)))\<rparr>"

definition restore_action :: "string \<Rightarrow> string \<Rightarrow> snapshot_result list \<Rightarrow> nat option \<Rightarrow> string \<times> request_body" where
  "restore_action storage_name backup_name results index = (case index of
     Some i \<Rightarrow> (''download'', download_body storage_name backup_name results i)
   | None \<Rightarrow> (''clear'', ClearReq (ss_root_globs (the (sr_state (hd results))))))"

lemma count_list_nth_card: "count_list xs x = card {i. i < length xs \<and> xs ! i = x}"
  unfolding count_list_eq_length_filter length_filter_conv_card by (rule arg_cong [of _ _ card]) auto

text \<open>C7. A full restore asks every node exactly once: from a mapping that the node assignment found, the restore
  step sends to each node of the cluster, in order, either the download of one part of the backup or the
  removal of its files, and every part of the backup is downloaded by exactly one node.\<close>

theorem full_restore_requests:
  assumes "get_node_to_backup_index None results (cl_nodes (ev_cluster ev)) = Inr mapping" and "results \<noteq> []"
    and "\<forall>r \<in> set results. sr_state r \<noteq> None"
  shows "\<exists>plan. start_restores ev storage_name backup_name False results (zip (cl_nodes (ev_cluster ev)) mapping) s =
      (case send_all (ev_send ev) plan (wd_nodes s) of (as, w) \<Rightarrow> (Inr (Some as), s\<lparr>wd_nodes := w\<rparr>))
    \<and> plan = map (\<lambda>(n, i). case restore_action storage_name backup_name results i of
        (url, b) \<Rightarrow> (with_result_url (ev_cluster ev) b, cn_url n @ ''/'' @ url)) (zip (cl_nodes (ev_cluster ev)) mapping)
    \<and> length plan = length (cl_nodes (ev_cluster ev))
    \<and> (\<forall>i < length results. card {j. j < length plan \<and> mapping ! j = Some i} = 1)"
proof -
  let ?nodes = "cl_nodes (ev_cluster ev)" and ?act = "restore_action storage_name backup_name results"
  have len: "length mapping = length ?nodes" and cnt: "\<And>i. count_list mapping (Some i) = (if i < length results then 1 else 0)"
    using full_restore_mapping [OF assms(1)] by auto
  have "restore_request storage_name backup_name False results i = Inr (Some (?act i))" if i: "i \<in> set mapping" for i
  proof (cases i)
    case None
    then show ?thesis using assms(2,3) by (cases results) (auto simp: restore_request_def first_globs_def result_globs_def restore_action_def)
  next
    case (Some k)
    then have "k < length results" using cnt [of k] i count_list_0_iff [of mapping "Some k"] by (auto split: if_splits)
    then obtain st where "sr_state (results ! k) = Some st" "k < length results" using assms(3) nth_mem by blast
    then show ?thesis using Some by (simp add: restore_request_def result_globs_def restore_action_def download_body_def)
  qed
  then have "list_all2 (\<lambda>i r. restore_request storage_name backup_name False results i = Inr r) mapping (map (\<lambda>i. Some (?act i)) mapping)"
    unfolding list.rel_map by (intro list.rel_refl_strong) simp
  note sends = start_restores_sends [OF this len [symmetric], of ev s]
  have plan: "planned ev (zip ?nodes (map (\<lambda>i. Some (?act i)) mapping)) = map (\<lambda>(n, i). case ?act i of
        (url, b) \<Rightarrow> (with_result_url (ev_cluster ev) b, cn_url n @ ''/'' @ url)) (zip ?nodes mapping)"
    unfolding zip_map2 by (rule planned_all)
  show ?thesis using sends len cnt unfolding plan by (auto simp: count_list_nth_card)
qed

text \<open>Two nodes, a backup of one of them, and a world that records the requests.\<close>

definition example_node :: "string \<Rightarrow> coordinator_node" where
  "example_node u = \<lparr>cn_url = u, cn_az = ''z''\<rparr>"

definition example_result :: snapshot_result where
  "example_result = \<lparr>nr_hostname = ''h'', nr_az = ''z'', nr_progress = new_progress, sr_start = 0, sr_end = None,
     sr_state = Some \<lparr>ss_root_globs = [''*''], ss_files = []\<rparr>, sr_files = 0, sr_total_size = 0, sr_hashes = Some []\<rparr>"

definition example_manifest_codec :: "backup_manifest \<Rightarrow> string" where
  "example_manifest_codec m = ''m''"

definition example_manifest_of :: backup_manifest where
  "example_manifest_of = \<lparr>bm_start = 5, bm_end = 6, bm_attempt = 1, bm_snapshot_results = [example_result], bm_upload_results = [],
     bm_plugin = PFiles, bm_plugin_data = JDict [], bm_filename = []\<rparr>"

definition example_env :: "((string \<times> node_request) list, file_storage, file_storage) env" where
  "example_env = \<lparr>ev_cluster = \<lparr>cl_nodes = [example_node ''a'', example_node ''b''], cl_subresult_url = None\<rparr>,
     ev_send = (\<lambda>url q w. (Answered done_answer, w @ [(url, q)])), ev_send_raw = (\<lambda>url q w. (Silent, w)),
     ev_poll = (\<lambda>url w. (None, w)), ev_rounds = 1, ev_maximum_failures = 1,
     ev_decode_snapshot = (\<lambda>b. Inl ValueError), ev_decode_upload = (\<lambda>b. Inl ValueError), ev_decode_node = (\<lambda>b. Inl ValueError),
     ev_decode_features = (\<lambda>b. Inl ValueError), ev_decode_manifest = (\<lambda>b. Inr example_manifest_of),
     ev_encode_manifest = example_manifest_codec, ev_isoformat = (\<lambda>t. ''2020''),
     ev_jops = file_json_ops, ev_hops = file_hexdigest_ops\<rparr>"

definition example_world :: "((string \<times> node_request) list, file_storage, file_storage) world" where
  "example_world = \<lparr>wd_nodes = [], wd_json = new_file_storage, wd_hex = new_file_storage\<rparr>"

theorem full_restore_requests_witness:
  "\<exists>as. start_restores example_env ''s'' ''backup-1'' False [example_result] (zip (cl_nodes (ev_cluster example_env)) [Some 0, None]) example_world
     = (Inr (Some as), example_world\<lparr>wd_nodes :=
         [(''a/download'', new_request (DownloadReq \<lparr>dq_storage = ''s'', dq_backup_name = ''backup-1'', dq_snapshot_index = 0, dq_root_globs = [''*'']\<rparr>)),
          (''b/clear'', new_request (ClearReq [''*'']))]\<rparr>)
     \<and> card {j. j < 2 \<and> [Some (0 :: nat), None] ! j = Some 0} = 1"
proof -
  have m: "get_node_to_backup_index None [example_result] (cl_nodes (ev_cluster example_env)) = Inr [Some 0, None]" by code_simp
  have st: "\<forall>r \<in> set [example_result]. sr_state r \<noteq> None" by (simp add: example_result_def)
  from full_restore_requests [OF m _ st, of "''s''" "''backup-1''" example_world] show ?thesis
    by (auto simp: example_env_def example_world_def restore_action_def download_body_def example_result_def with_result_url_def
        example_node_def numeral_2_eq_2)
qed

definition example_context :: "step_value steps_context" where
  "example_context = \<lparr>sc_attempt = 1, sc_attempt_start = 5, sc_step_results = [(''SnapshotStep'', Some (VSnapshots [example_result])),
     (''UploadBlocksStep'', Some (VUploads []))]\<rparr>"


text \<open>Without a requested name the last name in the storage is taken, which is a delta when there is one.\<close>

lemma latest_name_may_be_a_delta:
  "fst (backup_name_step example_env [] example_context
     (example_world\<lparr>wd_json := new_file_storage\<lparr>fs_files := [(''backup-1.json'', ''m''), (''delta-2.json'', ''m'')]\<rparr>\<rparr>))
   = Inr (Some (VName ''delta-2''))"
  by code_simp

end
