(* ===== verification/Zookeeper.thy ===== *)
theory Zookeeper
  imports Astacus_Prelude
begin

text \<open>
  The ZooKeeper client interface and its in-memory implementation (\<^verbatim>\<open>astacus/coordinator/plugins/zookeeper.py\<close>): a
  dictionary from paths, as tuples of parts, to values, with watches that fire once, and transactions. The
  implementation over the kazoo library is not modelled beyond its translation of errors. Watchers are
  numbers; what they are called with is recorded in the order of the calls.
\<close>

section \<open>Data\<close>

type_synonym parts = "string list"

datatype zk_error =
    NoNodeError string
  | NodeExistsError string
  | NotEmptyError string
  | RolledBackError string
  | RuntimeInconsistency string
  | TransactionError "zk_error option list"
  | ZkAssertion
  | ZkKeyError

type_synonym 'a zk_result = "zk_error + 'a"

datatype event_type = CREATED | CHANGED | DELETED | CHILD

record watched_event =
  we_type :: event_type
  we_path :: string

type_synonym zk_storage = "(parts \<times> string) list"

record zk_client =
  zk_storage :: zk_storage
  zk_connections :: "(nat \<times> (parts \<times> nat list) list) list"
  zk_fired :: "(nat \<times> watched_event) list"

definition new_zk_client :: zk_client where
  "new_zk_client = \<lparr>zk_storage = [([[]], [])], zk_connections = [], zk_fired = []\<rparr>"

fun rstrip_slashes :: "string \<Rightarrow> string" where
  "rstrip_slashes s = rev (dropWhile (\<lambda>c. c = CHR ''/'') (rev s))"

definition parse_path :: "string \<Rightarrow> parts" where
  "parse_path path = split_path (rstrip_slashes path)"

section \<open>Creating and deleting\<close>

text \<open>The loop over the missing parents.\<close>

function make_parents :: "parts \<Rightarrow> zk_storage \<Rightarrow> parts \<times> zk_storage" where
  "make_parents ps st = (if ps = [] \<or> dict_get st ps \<noteq> None then (ps, st) else make_parents (butlast ps) (dict_set ps [] st))"
  by pat_completeness auto
termination by (relation "measure (\<lambda>(ps, _). length ps)") auto

declare make_parents.simps [simp del]

text \<open>The storage that is left when it raises has the new node already.\<close>

definition create_locked :: "string \<Rightarrow> string \<Rightarrow> bool \<Rightarrow> zk_storage \<Rightarrow> (parts \<times> watched_event) zk_result \<times> zk_storage" where
  "create_locked path v makepath st =
     (let ps = parse_path path in
      if dict_get st ps \<noteq> None then (Inl (NodeExistsError path), st)
      else let st1 = dict_set ps v st; parent = butlast ps
           in if parent = [] \<or> dict_get st1 parent \<noteq> None
              then (Inr (parent, \<lparr>we_type = CREATED, we_path = join_parts parent\<rparr>), st1)
              else if makepath then (case make_parents parent st1 of
                (p, st2) \<Rightarrow> (Inr (p, \<lparr>we_type = CREATED, we_path = join_parts p\<rparr>), st2))
              else (Inl (NoNodeError (join_parts parent)), st1))"

definition delete_sort_key :: "parts \<times> watched_event \<Rightarrow> int \<times> nat" where
  "delete_sort_key pe = (- int (length (fst pe)), if we_type (snd pe) = CHILD then 0 else 1)"

definition delete_locked :: "string \<Rightarrow> bool \<Rightarrow> zk_storage \<Rightarrow> (parts \<times> watched_event) list zk_result \<times> zk_storage" where
  "delete_locked path recursive st =
     (let ps = parse_path path;
          items = filter (\<lambda>k. take (length ps) k = ps) (sort (map fst st))
      in if items = [] then (Inl (NoNodeError path), st)
         else if length items > 1 \<and> \<not> recursive then (Inl (NotEmptyError path), st)
         else let deleted = map (\<lambda>k. (k, \<lparr>we_type = DELETED, we_path = join_parts k\<rparr>)) items;
                  parents = sorted_list_of_set (set (map butlast items));
                  childs = map (\<lambda>k. (k, \<lparr>we_type = CHILD, we_path = join_parts k\<rparr>)) parents
              in (Inr (sort_key delete_sort_key (deleted @ childs)), filter (\<lambda>(k, v). k \<notin> set items) st))"

section \<open>Watches\<close>

definition trigger :: "parts \<times> watched_event \<Rightarrow> zk_client \<Rightarrow> zk_client" where
  "trigger pe c =
     (let ws = concat (map (\<lambda>(i, w). case dict_get w (fst pe) of None \<Rightarrow> [] | Some xs \<Rightarrow> xs) (zk_connections c))
      in c\<lparr>zk_connections := map (\<lambda>(i, w). (i, AList.delete (fst pe) w)) (zk_connections c),
           zk_fired := zk_fired c @ map (\<lambda>w. (w, snd pe)) ws\<rparr>)"

definition add_watch :: "nat \<Rightarrow> parts \<Rightarrow> nat option \<Rightarrow> zk_client \<Rightarrow> zk_client" where
  "add_watch conn ps watch c = (case watch of None \<Rightarrow> c
     | Some w \<Rightarrow> c\<lparr>zk_connections := map (\<lambda>(i, d). (i, if i = conn then dict_append ps w d else d)) (zk_connections c)\<rparr>)"

section \<open>The connection\<close>

definition connected :: "nat \<Rightarrow> zk_client \<Rightarrow> bool" where
  "connected conn c \<longleftrightarrow> conn \<in> fst ` set (zk_connections c)"

definition zk_enter :: "nat \<Rightarrow> zk_client \<Rightarrow> zk_client" where
  "zk_enter conn c = c\<lparr>zk_connections := zk_connections c @ [(conn, [])]\<rparr>"

definition zk_exit :: "nat \<Rightarrow> zk_client \<Rightarrow> zk_client" where
  "zk_exit conn c = c\<lparr>zk_connections := filter (\<lambda>(i, w). i \<noteq> conn) (zk_connections c)\<rparr>"

definition zk_get :: "nat \<Rightarrow> string \<Rightarrow> nat option \<Rightarrow> zk_client \<Rightarrow> string zk_result \<times> zk_client" where
  "zk_get conn path watch c =
     (if \<not> connected conn c then (Inl ZkAssertion, c)
      else case dict_get (zk_storage c) (parse_path path) of
        None \<Rightarrow> (Inl (NoNodeError path), c)
      | Some v \<Rightarrow> (Inr v, add_watch conn (parse_path path) watch c))"

definition zk_get_children :: "nat \<Rightarrow> string \<Rightarrow> nat option \<Rightarrow> zk_client \<Rightarrow> string list zk_result \<times> zk_client" where
  "zk_get_children conn path watch c =
     (if \<not> connected conn c then (Inl ZkAssertion, c)
      else let ps = parse_path path in
        if dict_get (zk_storage c) ps = None then (Inl (NoNodeError path), c)
        else (Inr (sort (map last (filter (\<lambda>k. k \<noteq> [] \<and> butlast k = ps) (map fst (zk_storage c))))), add_watch conn ps watch c))"

definition zk_create :: "nat \<Rightarrow> string \<Rightarrow> string \<Rightarrow> zk_client \<Rightarrow> unit zk_result \<times> zk_client" where
  "zk_create conn path v c =
     (if \<not> connected conn c then (Inl ZkAssertion, c)
      else case create_locked path v True (zk_storage c) of
        (Inl e, st) \<Rightarrow> (Inl e, c\<lparr>zk_storage := st\<rparr>)
      | (Inr pe, st) \<Rightarrow> (Inr (), trigger pe (c\<lparr>zk_storage := st\<rparr>)))"

definition zk_try_create :: "nat \<Rightarrow> string \<Rightarrow> string \<Rightarrow> zk_client \<Rightarrow> bool zk_result \<times> zk_client" where
  "zk_try_create conn path v c = (case zk_create conn path v c of
     (Inr _, c1) \<Rightarrow> (Inr True, c1)
   | (Inl (NodeExistsError p), c1) \<Rightarrow> (Inr False, c1)
   | (Inl e, c1) \<Rightarrow> (Inl e, c1))"

definition zk_set :: "nat \<Rightarrow> string \<Rightarrow> string \<Rightarrow> zk_client \<Rightarrow> unit zk_result \<times> zk_client" where
  "zk_set conn path v c =
     (if \<not> connected conn c then (Inl ZkAssertion, c)
      else let ps = parse_path path in
        if dict_get (zk_storage c) ps = None then (Inl (NoNodeError path), c)
        else (Inr (), trigger (ps, \<lparr>we_type = CHANGED, we_path = join_parts ps\<rparr>) (c\<lparr>zk_storage := dict_set ps v (zk_storage c)\<rparr>)))"

definition zk_delete :: "nat \<Rightarrow> string \<Rightarrow> bool \<Rightarrow> zk_client \<Rightarrow> unit zk_result \<times> zk_client" where
  "zk_delete conn path recursive c =
     (if \<not> connected conn c then (Inl ZkAssertion, c)
      else case delete_locked path recursive (zk_storage c) of
        (Inl e, st) \<Rightarrow> (Inl e, c\<lparr>zk_storage := st\<rparr>)
      | (Inr pes, st) \<Rightarrow> (Inr (), fold trigger pes (c\<lparr>zk_storage := st\<rparr>)))"

definition zk_exists :: "string \<Rightarrow> zk_client \<Rightarrow> bool" where
  "zk_exists path c \<longleftrightarrow> dict_get (zk_storage c) (parse_path path) \<noteq> None"

section \<open>Transactions\<close>

text \<open>A transaction of create operations. The loop stops at the first error, with the number of operations
  that succeeded before it.\<close>

fun run_creates :: "(string \<times> string) list \<Rightarrow> zk_storage \<Rightarrow> (nat \<times> zk_error + (parts \<times> watched_event) list) \<times> zk_storage" where
  "run_creates [] st = (Inr [], st)"
| "run_creates ((path, v) # ops) st = (case create_locked path v False st of
     (Inl e, st1) \<Rightarrow> (Inl (0, e), st1)
   | (Inr pe, st1) \<Rightarrow> (case run_creates ops st1 of
       (Inl (n, e), st2) \<Rightarrow> (Inl (Suc n, e), st2)
     | (Inr pes, st2) \<Rightarrow> (Inr (pe # pes), st2)))"

definition failed_results :: "(string \<times> string) list \<Rightarrow> nat \<Rightarrow> zk_error \<Rightarrow> zk_error option list" where
  "failed_results ops n e = map (\<lambda>op. Some (RolledBackError (fst op))) (take n ops) @ [Some e]
     @ map (\<lambda>op. Some (RuntimeInconsistency (fst op))) (drop (n + 1) ops)"

record zk_transaction =
  zt_operations :: "(string \<times> string) list"
  zt_committed :: bool

definition zk_transaction_create :: "string \<Rightarrow> string \<Rightarrow> zk_transaction \<Rightarrow> zk_transaction zk_result" where
  "zk_transaction_create path v t = (if zt_committed t then Inl ZkAssertion else Inr (t\<lparr>zt_operations := zt_operations t @ [(path, v)]\<rparr>))"

definition zk_commit :: "zk_transaction \<Rightarrow> zk_client \<Rightarrow> unit zk_result \<times> (zk_transaction \<times> zk_client)" where
  "zk_commit t c = (case run_creates (zt_operations t) (zk_storage c) of
     (Inl (n, e), _) \<Rightarrow> (Inl (TransactionError (failed_results (zt_operations t) n e)), (t, c))
   | (Inr pes, st) \<Rightarrow> (Inr (), (t\<lparr>zt_committed := True\<rparr>, fold trigger pes (c\<lparr>zk_storage := st\<rparr>))))"

text \<open>The translation of the results of a kazoo transaction.\<close>

datatype kazoo_result = KOk | KRolledBack | KRuntimeInconsistency | KNoNode | KNodeExists | KOther

fun mapped_result :: "kazoo_result \<Rightarrow> string \<Rightarrow> zk_error option zk_result" where
  "mapped_result KOk p = Inr None"
| "mapped_result KRolledBack p = Inr (Some (RolledBackError p))"
| "mapped_result KRuntimeInconsistency p = Inr (Some (RuntimeInconsistency p))"
| "mapped_result KNoNode p = Inr (Some (NoNodeError p))"
| "mapped_result KNodeExists p = Inr (Some (NodeExistsError p))"
| "mapped_result KOther p = Inl ZkKeyError"

fun mapped_results :: "(kazoo_result \<times> string) list \<Rightarrow> zk_error option list zk_result" where
  "mapped_results [] = Inr []"
| "mapped_results ((r, p) # rest) = (case mapped_result r p of Inl e \<Rightarrow> Inl e
     | Inr x \<Rightarrow> (case mapped_results rest of Inl e \<Rightarrow> Inl e | Inr xs \<Rightarrow> Inr (x # xs)))"

definition kazoo_commit :: "kazoo_result list \<Rightarrow> string list \<Rightarrow> unit zk_result" where
  "kazoo_commit results paths = (if list_ex (\<lambda>r. r \<noteq> KOk) results
     then (case mapped_results (zip results paths) of Inl e \<Rightarrow> Inl e | Inr xs \<Rightarrow> Inl (TransactionError xs)) else Inr ())"

section \<open>The nodes form a tree\<close>

text \<open>Paths are not empty, no path is stored twice, and the parent of every node is a node.\<close>

definition nodes :: "zk_storage \<Rightarrow> parts set" where "nodes st = dom (dict_get st)"

text \<open>While parents are missing, the only path whose parent may be missing is a child of \<open>ps\<close>.\<close>

definition closed_but :: "parts \<Rightarrow> parts set \<Rightarrow> bool" where
  "closed_but ps K \<longleftrightarrow> [] \<notin> K \<and> (\<forall>k \<in> K. length k > 1 \<and> butlast k \<noteq> ps \<longrightarrow> butlast k \<in> K)"

definition tree_inv :: "zk_storage \<Rightarrow> bool" where
  "tree_inv st \<longleftrightarrow> distinct (map fst st) \<and> [] \<notin> nodes st \<and> (\<forall>k \<in> nodes st. length k > 1 \<longrightarrow> butlast k \<in> nodes st)"

lemma nodes_set [simp]: "nodes (dict_set k v st) = insert k (nodes st)"
  by (auto simp: nodes_def update_conv')

lemma nodes_iff: "k \<in> nodes st \<longleftrightarrow> dict_get st k \<noteq> None"
  by (auto simp: nodes_def)

lemma butlast_longer: "length k > 1 \<Longrightarrow> butlast k \<noteq> []"
  by (cases k) auto

lemma closed_but_tree:
  assumes "closed_but ps (nodes st)" and "distinct (map fst st)" and "ps = [] \<or> ps \<in> nodes st"
  shows "tree_inv st"
  using assms butlast_longer unfolding closed_but_def tree_inv_def by metis

lemma parse_path_nonempty [simp]: "parse_path p \<noteq> []"
  by (simp add: parse_path_def)

lemma make_parents_tree:
  assumes "closed_but ps (nodes st)" and "distinct (map fst st)"
  shows "tree_inv (snd (make_parents ps st)) \<and> (\<forall>k v. dict_get st k = Some v \<longrightarrow> dict_get (snd (make_parents ps st)) k = Some v)"
  using assms
proof (induction ps st rule: make_parents.induct)
  case (1 ps st)
  show ?case
  proof (cases "ps = [] \<or> dict_get st ps \<noteq> None")
    case True
    then have "make_parents ps st = (ps, st)" by (simp add: make_parents.simps)
    then show ?thesis using closed_but_tree [OF "1.prems"] True by (simp add: nodes_iff)
  next
    case False
    let ?st = "dict_set ps [] st"
    have "closed_but (butlast ps) (nodes ?st)" using "1.prems" False by (auto simp: closed_but_def)
    from "1.IH" [OF False this] have "tree_inv (snd (make_parents (butlast ps) ?st))"
      "\<forall>k v. dict_get ?st k = Some v \<longrightarrow> dict_get (snd (make_parents (butlast ps) ?st)) k = Some v"
      using "1.prems"(2) by (auto simp: distinct_update)
    moreover have "make_parents ps st = make_parents (butlast ps) ?st" using False by (simp add: make_parents.simps)
    moreover have "dict_get ?st k = Some v" if "dict_get st k = Some v" for k v
      using that False by (auto simp: update_conv')
    ultimately show ?thesis by simp
  qed
qed

lemma create_locked_tree:
  assumes inv: "tree_inv st" and run: "create_locked path v makepath st = (r, st')" and ok: "makepath \<or> (\<exists>pe. r = Inr pe)"
  shows "tree_inv st'"
proof (cases "dict_get st (parse_path path)")
  case (Some x)
  then show ?thesis using run inv by (auto simp: create_locked_def Let_def)
next
  case None
  let ?ps = "parse_path path"
  let ?st1 = "dict_set ?ps v st"
  have ne: "[] \<noteq> ?ps" using parse_path_nonempty by metis
  have but: "closed_but (butlast ?ps) (nodes ?st1)" using inv ne by (auto simp: tree_inv_def closed_but_def)
  have dist: "distinct (map fst ?st1)" using inv by (simp add: tree_inv_def distinct_update)
  show ?thesis
  proof (cases "butlast ?ps = [] \<or> dict_get ?st1 (butlast ?ps) \<noteq> None")
    case True
    then have "st' = ?st1" using run None by (auto simp: create_locked_def Let_def)
    moreover have "butlast ?ps = [] \<or> butlast ?ps \<in> nodes ?st1" using True nodes_iff [of "butlast ?ps" ?st1] by blast
    ultimately show ?thesis using closed_but_tree [OF but dist] by simp
  next
    case False
    then have mk: makepath using run None ok by (auto simp: create_locked_def Let_def split: if_splits)
    then have "st' = snd (make_parents (butlast ?ps) ?st1)" using run None False by (auto simp: create_locked_def Let_def split: prod.splits)
    then show ?thesis using make_parents_tree [OF but dist] by simp
  qed
qed

lemma delete_locked_tree:
  assumes inv: "tree_inv st" and run: "delete_locked path recursive st = (r, st')"
  shows "tree_inv st'"
proof -
  let ?ps = "parse_path path"
  let ?items = "filter (\<lambda>k. take (length ?ps) k = ?ps) (sort (map fst st))"
  consider "st' = st" | "st' = filter (\<lambda>(k, v). k \<notin> set ?items) st"
    using run by (auto simp: delete_locked_def Let_def split: if_splits)
  then show ?thesis
  proof cases
    case 2
    have items: "set ?items = {k \<in> nodes st. take (length ?ps) k = ?ps}" by (auto simp: nodes_def dom_map_of_conv_image_fst)
    have "k \<in> nodes st' \<longleftrightarrow> k \<in> nodes st \<and> k \<notin> set ?items" for k
      unfolding nodes_iff 2 by (subst map_of_filter_key) simp
    then have get: "nodes st' = {k \<in> nodes st. take (length ?ps) k \<noteq> ?ps}" unfolding items by auto
    have pre: "take (length ?ps) k = ?ps" if "take (length ?ps) (butlast k) = ?ps" for k
    proof -
      have "length (take (length ?ps) (butlast k)) = length ?ps" using that by simp
      then have "length ?ps \<le> length k - 1" by simp
      then show ?thesis using that by (simp add: butlast_conv_take min.absorb1)
    qed
    have "distinct (map fst st')" using inv unfolding 2 by (simp add: tree_inv_def distinct_map_filter)
    then show ?thesis using inv pre unfolding tree_inv_def get by auto
  qed (use inv in simp)
qed

lemma run_creates_tree:
  "tree_inv st \<Longrightarrow> run_creates ops st = (Inr pes, st') \<Longrightarrow> tree_inv st'"
proof (induction ops arbitrary: st pes)
  case (Cons op ops)
  obtain path v where op: "op = (path, v)" by fastforce
  obtain r st1 where c: "create_locked path v False st = (r, st1)" by fastforce
  then obtain pe where r: "r = Inr pe" using Cons.prems(2) op by (cases r) auto
  obtain r2 st2 where rest: "run_creates ops st1 = (r2, st2)" by fastforce
  then obtain pes' where r2: "r2 = Inr pes'" using Cons.prems(2) op c r by (cases r2) auto
  have "tree_inv st1" using create_locked_tree [OF Cons.prems(1) c] r by blast
  then show ?case using Cons.IH rest r2 Cons.prems(2) op c r by auto
qed simp

lemma storage_frame [simp]:
  "zk_storage (trigger pe c) = zk_storage c" "zk_storage (fold trigger pes c) = zk_storage c"
  "zk_storage (add_watch conn ps w c) = zk_storage c" "zk_storage (zk_enter conn c) = zk_storage c"
  "zk_storage (zk_exit conn c) = zk_storage c"
proof -
  show t: "zk_storage (trigger pe c) = zk_storage c" for pe c by (simp add: trigger_def Let_def)
  show "zk_storage (fold trigger pes c) = zk_storage c" by (induction pes arbitrary: c) (auto simp: t)
qed (auto simp: add_watch_def zk_enter_def zk_exit_def split: option.splits)

datatype zk_cmd = ZEnter nat | ZExit nat | ZGet nat string "nat option" | ZChildren nat string "nat option" | ZCreate nat string string
  | ZTryCreate nat string string | ZSet nat string string | ZDelete nat string bool | ZCommit "(string \<times> string) list"

fun zk_step :: "zk_cmd \<Rightarrow> zk_client \<Rightarrow> zk_client" where
  "zk_step (ZEnter i) c = zk_enter i c"
| "zk_step (ZExit i) c = zk_exit i c"
| "zk_step (ZGet i p w) c = snd (zk_get i p w c)"
| "zk_step (ZChildren i p w) c = snd (zk_get_children i p w c)"
| "zk_step (ZCreate i p v) c = snd (zk_create i p v c)"
| "zk_step (ZTryCreate i p v) c = snd (zk_try_create i p v c)"
| "zk_step (ZSet i p v) c = snd (zk_set i p v c)"
| "zk_step (ZDelete i p r) c = snd (zk_delete i p r c)"
| "zk_step (ZCommit ops) c = snd (snd (zk_commit \<lparr>zt_operations = ops, zt_committed = False\<rparr> c))"

lemma zk_create_tree: "tree_inv (zk_storage c) \<Longrightarrow> tree_inv (zk_storage (snd (zk_create i p v c)))"
  using create_locked_tree [of "zk_storage c" p v True]
  by (auto simp: zk_create_def split: prod.splits sum.splits)

lemma zk_step_tree: "tree_inv (zk_storage c) \<Longrightarrow> tree_inv (zk_storage (zk_step cmd c))"
proof (cases cmd)
  case (ZTryCreate i p v)
  assume inv: "tree_inv (zk_storage c)"
  have "snd (zk_try_create i p v c) = snd (zk_create i p v c)"
    by (auto simp: zk_try_create_def split: prod.splits sum.splits zk_error.splits)
  then show ?thesis using ZTryCreate zk_create_tree [OF inv] by simp
next
  case (ZSet i p v)
  assume inv: "tree_inv (zk_storage c)"
  have "tree_inv (dict_set ps v (zk_storage c))" if "dict_get (zk_storage c) ps \<noteq> None" for ps
  proof -
    have "nodes (dict_set ps v (zk_storage c)) = nodes (zk_storage c)" using that nodes_iff [of ps] by auto
    then show ?thesis using inv by (simp add: tree_inv_def distinct_update)
  qed
  then show ?thesis using ZSet inv by (simp add: zk_set_def Let_def)
next
  case (ZDelete i p r)
  assume "tree_inv (zk_storage c)"
  then show ?thesis using ZDelete delete_locked_tree [of "zk_storage c" p r]
    by (auto simp: zk_delete_def split: prod.splits sum.splits)
next
  case (ZCommit ops)
  assume "tree_inv (zk_storage c)"
  then show ?thesis using ZCommit run_creates_tree [of "zk_storage c" ops]
    by (auto simp: zk_commit_def split: prod.splits sum.splits)
qed (auto simp: zk_create_tree zk_get_def zk_get_children_def Let_def split: option.splits)

text \<open>Whatever sequence of operations and transactions runs on the in-memory ZooKeeper, from a new client,
  its nodes form a tree: every path is stored once and, except for the top, below a node that exists.\<close>

theorem zookeeper_tree:
  "tree_inv (zk_storage (fold zk_step cmds new_zk_client))"
proof -
  have "tree_inv (zk_storage c) \<Longrightarrow> tree_inv (zk_storage (fold zk_step cmds c))" for c
    by (induction cmds arbitrary: c) (auto intro: zk_step_tree)
  moreover have "tree_inv (zk_storage new_zk_client)" by (auto simp: tree_inv_def new_zk_client_def nodes_def)
  ultimately show ?thesis by blast
qed

section \<open>Transactions are atomic\<close>

lemma create_locked_exact:
  assumes "create_locked path v False st = (Inr pe, st')"
  shows "st' = dict_set (parse_path path) v st" and "dict_get st (parse_path path) = None"
  using assms by (auto simp: create_locked_def Let_def split: if_splits)

lemma run_creates_exact:
  assumes "run_creates ops st = (Inr pes, st')"
  shows "distinct (map (parse_path \<circ> fst) ops) \<and> (\<forall>op \<in> set ops. dict_get st (parse_path (fst op)) = None)
    \<and> (\<forall>k. dict_get st' k = (case map_of (map (\<lambda>(p, v). (parse_path p, v)) ops) k of Some v \<Rightarrow> Some v | None \<Rightarrow> dict_get st k))"
  using assms
proof (induction ops arbitrary: st pes)
  case (Cons op ops)
  obtain path v where op: "op = (path, v)" by fastforce
  obtain r st1 where c: "create_locked path v False st = (r, st1)" by fastforce
  then obtain pe where r: "r = Inr pe" using Cons.prems op by (cases r) auto
  obtain r2 st2 where rest: "run_creates ops st1 = (r2, st2)" by fastforce
  then obtain pes' where r2: "r2 = Inr pes'" using Cons.prems op c r by (cases r2) auto
  have st2: "st2 = st'" using Cons.prems op c r rest r2 by simp
  let ?ps = "parse_path path"
  note ex = create_locked_exact [OF c [unfolded r]]
  have get: "dict_get st1 k = (if k = ?ps then Some v else dict_get st k)" for k unfolding ex(1) by (simp add: update_conv')
  note IH = Cons.IH [OF rest [unfolded r2 st2]]
  have new: "?ps \<notin> (parse_path \<circ> fst) ` set ops" using IH get by fastforce
  then have "map_of (map (\<lambda>(p, v). (parse_path p, v)) ops) ?ps = None" by (force simp: map_of_eq_None_iff)
  moreover have "dict_get st (parse_path (fst x)) = None" if "x \<in> set ops" for x
  proof -
    have "dict_get st1 (parse_path (fst x)) = None" using IH that by blast
    then show ?thesis using get [of "parse_path (fst x)"] by (simp split: if_splits)
  qed
  ultimately show ?case using IH op new ex(2) get by (auto split: option.splits)
qed simp

lemma run_creates_error:
  assumes "run_creates ops st = (Inl (n, e), st')"
  shows "n < length ops \<and> (\<exists>p. e = NoNodeError p \<or> e = NodeExistsError p)"
  using assms
proof (induction ops arbitrary: st n)
  case (Cons op ops)
  obtain path v where op: "op = (path, v)" by fastforce
  obtain r st1 where c: "create_locked path v False st = (r, st1)" by fastforce
  show ?case
  proof (cases r)
    case (Inl x)
    then have "\<exists>p. x = NoNodeError p \<or> x = NodeExistsError p" using c by (auto simp: create_locked_def Let_def split: if_splits)
    then show ?thesis using Cons.prems op c Inl by simp
  next
    case (Inr pe)
    obtain r2 st2 where rest: "run_creates ops st1 = (r2, st2)" by fastforce
    then obtain m where m: "r2 = Inl (m, e)" "n = Suc m" "st2 = st'" using Cons.prems op c Inr by (cases r2) (auto split: prod.splits)
    then show ?thesis using Cons.IH [of st1 m] rest by simp
  qed
qed simp


definition example_transaction :: zk_transaction where
  "example_transaction = \<lparr>zt_operations = [(''/a'', ''1''), (''/b/c'', ''2''), (''/d'', ''3'')], zt_committed = False\<rparr>"


end
