(* ===== verification/Clickhouse_Names.thy ===== *)
theory Clickhouse_Names
  imports Astacus_Prelude
begin

text \<open>
  Byte strings in file names and in queries: \<^verbatim>\<open>astacus/coordinator/plugins/clickhouse/escaping.py\<close> and the
  escaping functions of \<^verbatim>\<open>client.py\<close> beside it. A Python \<^verbatim>\<open>bytes\<close> is a list of characters here, one per
  byte, like a \<^verbatim>\<open>str\<close>; \<^verbatim>\<open>decode()\<close> is then the check that the bytes are valid UTF-8. The regular
  expressions that the code gives to \<^verbatim>\<open>re.sub\<close> are written out as recursive functions that take the
  alternatives in their order. Shown: both escapings can be undone, so that different names never share
  a file or a query text, and an escaped identifier cannot be left from inside.
\<close>

section \<open>UTF-8 and hexadecimal digits\<close>

definition utf8_cont :: "nat \<Rightarrow> bool" where
  "utf8_cont b \<longleftrightarrow> 128 \<le> b \<and> b < 192"

fun utf8_valid :: "nat list \<Rightarrow> bool" where
  "utf8_valid [] \<longleftrightarrow> True"
| "utf8_valid (a # xs) \<longleftrightarrow>
     (if a < 128 then utf8_valid xs
      else if 194 \<le> a \<and> a < 224 then (case xs of b # ys \<Rightarrow> utf8_cont b \<and> utf8_valid ys | _ \<Rightarrow> False)
      else if 224 \<le> a \<and> a < 240 then (case xs of b # c # ys \<Rightarrow> utf8_cont b \<and> utf8_cont c
        \<and> (a = 224 \<longrightarrow> 160 \<le> b) \<and> (a = 237 \<longrightarrow> b < 160) \<and> utf8_valid ys | _ \<Rightarrow> False)
      else if 240 \<le> a \<and> a < 245 then (case xs of b # c # d # ys \<Rightarrow> utf8_cont b \<and> utf8_cont c \<and> utf8_cont d
        \<and> (a = 240 \<longrightarrow> 144 \<le> b) \<and> (a = 244 \<longrightarrow> b < 144) \<and> utf8_valid ys | _ \<Rightarrow> False)
      else False)"

definition decode :: "string \<Rightarrow> string option" where
  "decode bs = (if utf8_valid (map of_char bs) then Some bs else None)"

lemma utf8_valid_ascii: "\<forall>b \<in> set bs. b < 128 \<Longrightarrow> utf8_valid bs"
  by (induction bs) auto

lemma decode_ascii: "(\<And>c. c \<in> set s \<Longrightarrow> (of_char c :: nat) < 128) \<Longrightarrow> decode s = Some s"
  by (simp add: decode_def utf8_valid_ascii)

definition upper_hex :: string where "upper_hex = ''0123456789ABCDEF''"
definition lower_hex :: string where "lower_hex = ''0123456789abcdef''"

definition hex_val :: "char \<Rightarrow> nat option" where
  "hex_val c = map_of (zip upper_hex [0..<16] @ zip lower_hex [0..<16]) c"

definition hex_byte :: "string \<Rightarrow> nat \<Rightarrow> string" where
  "hex_byte digits n = [digits ! (n div 16), digits ! (n mod 16)]"

lemma hex_digits_facts:
  "\<forall>n \<in> set [0..<16]. hex_val (upper_hex ! n) = Some n \<and> hex_val (lower_hex ! n) = Some n
     \<and> upper_hex ! n \<in> set upper_hex \<and> (of_char (upper_hex ! n) :: nat) < 128 \<and> (of_char (lower_hex ! n) :: nat) < 128"
  by code_simp

lemma hex_val_digit [simp]:
  assumes "n < 16"
  shows "hex_val (upper_hex ! n) = Some n" and "hex_val (lower_hex ! n) = Some n" and "upper_hex ! n \<in> set upper_hex"
    and "(of_char (upper_hex ! n) :: nat) < 128" and "(of_char (lower_hex ! n) :: nat) < 128"
  using hex_digits_facts assms by (auto simp: Ball_def)

section \<open>Names of files\<close>

definition file_name_char :: "char \<Rightarrow> bool" where
  "file_name_char c \<longleftrightarrow> c \<in> set ''abcdefghijklmnopqrstuvwxyzABCDEFGHIJKLMNOPQRSTUVWXYZ0123456789_''"

definition percent_encode_byte :: "char \<Rightarrow> string" where
  "percent_encode_byte c = CHR ''%'' # hex_byte upper_hex (of_char c)"

definition escape_for_file_name :: "string \<Rightarrow> string" where
  "escape_for_file_name name = concat (map (\<lambda>c. if file_name_char c then [c] else percent_encode_byte c) name)"

definition percent_decode_byte :: "char \<Rightarrow> char \<Rightarrow> char" where
  "percent_decode_byte h l = char_of (16 * the (hex_val h) + the (hex_val l))"

fun unescape_from_file_name :: "string \<Rightarrow> string" where
  "unescape_from_file_name (p # h # l # rest) =
     (if p = CHR ''%'' \<and> h \<in> set upper_hex \<and> l \<in> set upper_hex
      then percent_decode_byte h l # unescape_from_file_name rest
      else p # unescape_from_file_name (h # l # rest))"
| "unescape_from_file_name s = s"

lemma unescape_other:
  assumes "c \<noteq> CHR ''%''"
  shows "unescape_from_file_name (c # rest) = c # unescape_from_file_name rest"
  using assms by (cases "(c # rest)" rule: unescape_from_file_name.cases) auto

lemma file_name_char_not_percent: "file_name_char c \<Longrightarrow> c \<noteq> CHR ''%''"
  by (auto simp: file_name_char_def)

lemma byte_of_digits: "char_of (16 * (of_char c div 16) + of_char c mod (16 :: nat)) = c"
proof -
  have "16 * (of_char c div 16) + of_char c mod (16 :: nat) = of_char c" by simp
  then show ?thesis by (metis char_of_char)
qed

lemma byte_digits_less: "of_char c div (16 :: nat) < 16" "of_char c mod (16 :: nat) < 16"
proof -
  have "(of_char c :: nat) < 256" by simp
  then show "of_char c div (16 :: nat) < 16" by linarith
qed simp

lemma unescape_percent_encoded: "unescape_from_file_name (percent_encode_byte c @ rest) = c # unescape_from_file_name rest"
  by (simp add: percent_encode_byte_def hex_byte_def percent_decode_byte_def byte_digits_less byte_of_digits)

lemma unescape_escape: "unescape_from_file_name (escape_for_file_name name) = name"
  by (induction name)
    (simp_all add: escape_for_file_name_def unescape_other file_name_char_not_percent unescape_percent_encoded)

lemma escape_alphabet:
  assumes "c \<in> set (escape_for_file_name name)"
  shows "file_name_char c \<or> c = CHR ''%''"
proof -
  have "\<forall>n \<in> set [0..<16]. file_name_char (upper_hex ! n)" by code_simp
  then have "file_name_char (upper_hex ! n)" if "n < 16" for n using that by auto
  then show ?thesis using assms
    by (auto simp: escape_for_file_name_def percent_encode_byte_def hex_byte_def byte_digits_less split: if_splits)
qed

lemma escape_no_slash: "CHR ''/'' \<notin> set (escape_for_file_name name)"
  using escape_alphabet [of "CHR ''/''" name] by (auto simp: file_name_char_def)

lemma escape_empty_iff [simp]: "escape_for_file_name name = [] \<longleftrightarrow> name = []"
  by (cases name) (auto simp: escape_for_file_name_def percent_encode_byte_def)

section \<open>Identifiers and strings in queries\<close>

definition backslash :: char where "backslash = CHR 0x5C"

definition common_escapes :: "(char \<times> char) list" where
  "common_escapes = [(CHR 0x08, CHR ''b''), (CHR 0x0C, CHR ''f''), (CHR 0x0D, CHR ''r''), (CHR 0x0A, CHR ''n''),
     (CHR 0x09, CHR ''t''), (CHR 0x00, CHR ''0''), (backslash, backslash)]"

definition IDENTIFIER_ESCAPE_MAP :: "char \<Rightarrow> string option" where
  "IDENTIFIER_ESCAPE_MAP c = map_option (\<lambda>e. [backslash, e]) (map_of (common_escapes @ [(CHR 0x60, CHR 0x60)]) c)"

definition STRING_ESCAPE_MAP :: "char \<Rightarrow> string option" where
  "STRING_ESCAPE_MAP c = map_option (\<lambda>e. [backslash, e]) (map_of (common_escapes @ [(CHR 0x27, CHR 0x27)]) c)"

definition escape_byte :: "(char \<Rightarrow> string option) \<Rightarrow> char \<Rightarrow> string" where
  "escape_byte escape_map byte = (case escape_map byte of Some escape_sequence \<Rightarrow> escape_sequence
     | None \<Rightarrow> if of_char byte < (0x20 :: nat) \<or> of_char byte > (0x7E :: nat)
         then [backslash, CHR ''x''] @ hex_byte lower_hex (of_char byte) else [byte])"

definition escape_bytes :: "string \<Rightarrow> (char \<Rightarrow> string option) \<Rightarrow> char \<Rightarrow> string" where
  "escape_bytes v escape_map quote_char = [quote_char] @ concat (map (escape_byte escape_map) v) @ [quote_char]"

definition escape_sql_identifier :: "string \<Rightarrow> string" where
  "escape_sql_identifier identifier = escape_bytes identifier IDENTIFIER_ESCAPE_MAP (CHR 0x60)"

definition escape_sql_string :: "string \<Rightarrow> string" where
  "escape_sql_string s = escape_bytes s STRING_ESCAPE_MAP (CHR 0x27)"

text \<open>The replacement of \<^verbatim>\<open>_unescape_sql_char\<close>, alternative by alternative: two hexadecimal digits after
  \<^verbatim>\<open>\x\<close>, any other escaped character, an incomplete \<^verbatim>\<open>\x\<close>, an ordinary character, and a stray backslash or quote.\<close>

definition translate_escaped :: "char \<Rightarrow> char" where
  "translate_escaped c = (case map_of (zip ''bfrnt0'' [CHR 0x08, CHR 0x0C, CHR 0x0D, CHR 0x0A, CHR 0x09, CHR 0x00]) c of
     Some d \<Rightarrow> d | None \<Rightarrow> c)"

function unescape_sql_chars :: "string \<Rightarrow> string result" where
  "unescape_sql_chars [] = Inr []"
| "unescape_sql_chars (c # s) =
     (if c = backslash then
        (case s of [] \<Rightarrow> Inl ValueError
         | d # s' \<Rightarrow>
             if d = CHR ''x'' then
               (case s' of h # l # s'' \<Rightarrow>
                  (case (hex_val h, hex_val l) of
                     (Some m, Some n) \<Rightarrow> bind_res (unescape_sql_chars s'') (\<lambda>r. Inr (char_of (16 * m + n) # r))
                   | _ \<Rightarrow> Inl ValueError)
                | _ \<Rightarrow> Inl ValueError)
             else bind_res (unescape_sql_chars s') (\<lambda>r. Inr (translate_escaped d # r)))
      else if c = CHR 0x27 then Inl ValueError
      else bind_res (unescape_sql_chars s) (\<lambda>r. Inr (c # r)))"
  by pat_completeness auto
termination by (relation "measure length") auto

definition unescape_sql_string :: "string \<Rightarrow> string result" where
  "unescape_sql_string s = (if length s \<ge> 2 \<and> take 1 s = [CHR 0x27] \<and> drop (length s - 1) s = [CHR 0x27]
     then unescape_sql_chars (take (length s - 2) (drop 1 s)) else Inl ValueError)"

lemma escape_map_entry:
  "map_option (\<lambda>e. [backslash, e]) (map_of xs b) = Some s \<Longrightarrow> \<exists>f. s = [backslash, f] \<and> (b, f) \<in> set xs"
  by (auto dest: map_of_SomeD)

lemma string_escapes_translate:
  assumes "STRING_ESCAPE_MAP c = Some x"
  shows "\<exists>e. x = [backslash, e] \<and> translate_escaped e = c \<and> e \<noteq> CHR ''x''"
proof -
  have all: "\<forall>p \<in> set (common_escapes @ [(CHR 0x27, CHR 0x27)]). translate_escaped (snd p) = fst p \<and> snd p \<noteq> CHR ''x''"
    by code_simp
  obtain e where e: "x = [backslash, e]" "(c, e) \<in> set (common_escapes @ [(CHR 0x27, CHR 0x27)])"
    using escape_map_entry [OF assms [unfolded STRING_ESCAPE_MAP_def]] by blast
  show ?thesis using bspec [OF all e(2)] e(1) by simp
qed

lemma unescape_escape_byte:
  "unescape_sql_chars (escape_byte STRING_ESCAPE_MAP c @ s) = bind_res (unescape_sql_chars s) (\<lambda>r. Inr (c # r))"
proof (cases "STRING_ESCAPE_MAP c")
  case (Some x)
  then show ?thesis using string_escapes_translate [OF Some] by (auto simp: escape_byte_def)
next
  case None
  then have "c \<noteq> backslash" "c \<noteq> CHR 0x27" by (auto simp: STRING_ESCAPE_MAP_def common_escapes_def split: if_splits)
  with None show ?thesis by (auto simp: escape_byte_def hex_byte_def byte_digits_less byte_of_digits)
qed

lemma unescape_sql_escaped: "unescape_sql_chars (concat (map (escape_byte STRING_ESCAPE_MAP) s)) = Inr s"
  by (induction s) (simp_all add: unescape_escape_byte)

lemma escape_bytes_ascii:
  assumes "c \<in> set (escape_bytes v m q)" and "(of_char q :: nat) < 128"
    and "\<And>b e d. m b = Some e \<Longrightarrow> d \<in> set e \<Longrightarrow> (of_char d :: nat) < 128"
  shows "(of_char c :: nat) < 128"
proof -
  have "(of_char d :: nat) < 128" if "d \<in> set (escape_byte m b)" for b d
  proof (cases "m b")
    case None
    then show ?thesis using that by (auto simp: escape_byte_def hex_byte_def byte_digits_less backslash_def split: if_splits)
  qed (use that assms(3) in \<open>auto simp: escape_byte_def\<close>)
  then show ?thesis using assms(1,2) by (auto simp: escape_bytes_def)
qed

text \<open>The inside of an escaped identifier, read byte by byte: true when a backtick ends the identifier
  before the text does.\<close>

fun leaves_quote :: "char \<Rightarrow> string \<Rightarrow> bool" where
  "leaves_quote q [] = False"
| "leaves_quote q (c # s) = (if c = backslash then (case s of [] \<Rightarrow> True | _ # s' \<Rightarrow> leaves_quote q s') else c = q \<or> leaves_quote q s)"

lemma escaped_stays_inside:
  assumes q: "m q = Some [backslash, e]" and b: "m backslash = Some [backslash, e']"
    and m: "\<And>b s. m b = Some s \<Longrightarrow> \<exists>d. s = [backslash, d]" and digits: "\<And>n. n < 16 \<Longrightarrow> lower_hex ! n \<noteq> q"
    "\<And>n. n < 16 \<Longrightarrow> lower_hex ! n \<noteq> backslash"
  shows "\<not> leaves_quote q (concat (map (escape_byte m) v))"
proof -
  have "leaves_quote q (escape_byte m c @ s) = leaves_quote q s" for c s
  proof (cases "m c")
    case None
    then have "c \<noteq> q" "c \<noteq> backslash" using q b by auto
    with None digits show ?thesis by (simp add: escape_byte_def hex_byte_def byte_digits_less)
  next
    case (Some x)
    then show ?thesis using m [OF Some] by (auto simp: escape_byte_def)
  qed
  then show ?thesis by (induction v) simp_all
qed

text \<open>Escaping for a query loses nothing and cannot be abused: a string escaped for a query is read back
  as the same bytes, the escaped text is ASCII, and inside an escaped identifier no byte ends the
  identifier early, whatever the name is.\<close>

theorem sql_escaping_safe:
  "unescape_sql_string (escape_sql_string s) = Inr s
    \<and> decode (escape_sql_identifier s) = Some (escape_sql_identifier s) \<and> decode (escape_sql_string s) = Some (escape_sql_string s)
    \<and> (\<exists>body. escape_sql_identifier s = CHR 0x60 # body @ [CHR 0x60] \<and> \<not> leaves_quote (CHR 0x60) body)"
proof (intro conjI)
  show "unescape_sql_string (escape_sql_string s) = Inr s"
    by (simp add: unescape_sql_string_def escape_sql_string_def escape_bytes_def unescape_sql_escaped)
next
  have all: "\<forall>p \<in> set (common_escapes @ [(CHR 0x60, CHR 0x60), (CHR 0x27, CHR 0x27)]). (of_char (snd p) :: nat) < 128"
    by code_simp
  have "(of_char d :: nat) < 128" if "IDENTIFIER_ESCAPE_MAP b = Some e \<or> STRING_ESCAPE_MAP b = Some e" "d \<in> set e" for b e d
  proof -
    from that obtain f where f: "e = [backslash, f]" "(b, f) \<in> set (common_escapes @ [(CHR 0x60, CHR 0x60), (CHR 0x27, CHR 0x27)])"
      unfolding IDENTIFIER_ESCAPE_MAP_def STRING_ESCAPE_MAP_def by (elim disjE) (drule escape_map_entry; auto)+
    from bspec [OF all f(2)] that(2) f(1) show ?thesis by (auto simp: backslash_def)
  qed
  then show "decode (escape_sql_identifier s) = Some (escape_sql_identifier s)" "decode (escape_sql_string s) = Some (escape_sql_string s)"
    unfolding escape_sql_identifier_def escape_sql_string_def
    by (intro decode_ascii; elim escape_bytes_ascii; simp; blast)+
next
  have d: "\<forall>n \<in> set [0..<16]. lower_hex ! n \<noteq> CHR 0x60 \<and> lower_hex ! n \<noteq> backslash" by code_simp
  have "\<not> leaves_quote (CHR 0x60) (concat (map (escape_byte IDENTIFIER_ESCAPE_MAP) s))"
    by (rule escaped_stays_inside [where e = "CHR 0x60" and e' = backslash])
      (use d in \<open>auto simp: IDENTIFIER_ESCAPE_MAP_def common_escapes_def backslash_def\<close>)
  then show "\<exists>body. escape_sql_identifier s = CHR 0x60 # body @ [CHR 0x60] \<and> \<not> leaves_quote (CHR 0x60) body"
    by (simp add: escape_sql_identifier_def escape_bytes_def)
qed

end
