(* ===== verification/Clickhouse_Manifest.thy ===== *)
theory Clickhouse_Manifest
  imports Clickhouse_Names Base64
begin

text \<open>
  What a ClickHouse backup stores about databases, tables, access entities and remote files:
  \<^verbatim>\<open>astacus/coordinator/plugins/clickhouse/manifest.py\<close>. Plugin data is a value of Python's dictionaries, lists
  and scalars; a manifest is turned into its dictionary, as the model's \<^verbatim>\<open>dict()\<close> does, and then every byte string,
  UUID and enumeration in it is replaced by text. The conversion of a value to the text field of a model is the
  validation library's and a parameter. Shown: a manifest is read back as it was written, if its
  databases have a UUID.
\<close>

section \<open>UUIDs\<close>

text \<open>A UUID by its 32 digits. \<^verbatim>\<open>UUID(text)\<close> accepts hyphens, braces and prefixes anywhere; of the ways in
  which \<^verbatim>\<open>int(text, 16)\<close> can spell a number, only plain digits are accepted here.\<close>

datatype uuid = UUID (uuid_hex: string)

definition wf_uuid :: "uuid \<Rightarrow> bool" where
  "wf_uuid u \<longleftrightarrow> length (uuid_hex u) = 32 \<and> set (uuid_hex u) \<subseteq> set lower_hex"

definition uuid_str :: "uuid \<Rightarrow> string" where
  "uuid_str u = (let h = uuid_hex u in take 8 h @ ''-'' @ take 4 (drop 8 h) @ ''-'' @ take 4 (drop 12 h) @ ''-''
     @ take 4 (drop 16 h) @ ''-'' @ drop 20 h)"

function remove_sub :: "string \<Rightarrow> string \<Rightarrow> string" where
  "remove_sub pat s = (if s = [] then [] else if pat \<noteq> [] \<and> take (length pat) s = pat then remove_sub pat (drop (length pat) s)
     else hd s # remove_sub pat (tl s))"
  by pat_completeness auto
termination by (relation "measure (length \<circ> snd)") auto

declare remove_sub.simps [simp del]

definition strip_chars :: "string \<Rightarrow> string \<Rightarrow> string" where
  "strip_chars cs s = rev (dropWhile (\<lambda>c. c \<in> set cs) (rev (dropWhile (\<lambda>c. c \<in> set cs) s)))"

definition parse_uuid :: "string \<Rightarrow> uuid result" where
  "parse_uuid s = (let h = filter (\<lambda>c. c \<noteq> CHR ''-'') (strip_chars ''{}'' (remove_sub ''uuid:'' (remove_sub ''urn:'' s))) in
     if length h = 32 \<and> list_all (\<lambda>c. hex_val c \<noteq> None) h then Inr (UUID (map (\<lambda>c. lower_hex ! the (hex_val c)) h)) else Inl ValueError)"

definition UUID_RE :: "string \<Rightarrow> bool" where
  "UUID_RE s \<longleftrightarrow> list_all2 (\<lambda>t c. if t = CHR ''-'' then c = t else c \<in> set lower_hex) ''00000000-0000-0000-0000-000000000000'' s"

lemma remove_sub_none:
  assumes "CHR '':'' \<in> set pat" and "CHR '':'' \<notin> set s"
  shows "remove_sub pat s = s"
  using assms(2)
proof (induction s)
  case (Cons c s)
  have "take (length pat) (c # s) \<noteq> pat" using assms(1) Cons.prems set_take_subset [of "length pat" "c # s"] by auto
  with Cons show ?case by (subst remove_sub.simps) auto
qed (simp add: remove_sub.simps)

lemma strip_chars_none: "set cs \<inter> set s = {} \<Longrightarrow> strip_chars cs s = s"
proof -
  have "set cs \<inter> set t = {} \<Longrightarrow> dropWhile (\<lambda>c. c \<in> set cs) t = t" for t by (cases t) auto
  then show "set cs \<inter> set s = {} \<Longrightarrow> strip_chars cs s = s" by (simp add: strip_chars_def)
qed

lemma lower_hex_facts:
  assumes "c \<in> set lower_hex"
  shows "c \<noteq> CHR ''-''" "c \<noteq> CHR '':''" "c \<noteq> CHR ''/''" "c \<noteq> CHR ''{''" "c \<noteq> CHR ''}''" "hex_val c \<noteq> None"
    "lower_hex ! the (hex_val c) = c"
proof -
  have "\<forall>c \<in> set lower_hex. c \<noteq> CHR ''-'' \<and> c \<noteq> CHR '':'' \<and> c \<noteq> CHR ''/'' \<and> c \<noteq> CHR ''{'' \<and> c \<noteq> CHR ''}''
      \<and> hex_val c \<noteq> None \<and> lower_hex ! the (hex_val c) = c" by code_simp
  with assms show "c \<noteq> CHR ''-''" "c \<noteq> CHR '':''" "c \<noteq> CHR ''/''" "c \<noteq> CHR ''{''" "c \<noteq> CHR ''}''" "hex_val c \<noteq> None"
    "lower_hex ! the (hex_val c) = c" by blast+
qed

lemma uuid_str_set: "set (uuid_str u) \<subseteq> set (uuid_hex u) \<union> {CHR ''-''}"
  by (auto simp: uuid_str_def Let_def dest: in_set_takeD in_set_dropD)

lemma uuid_str_digits:
  assumes "wf_uuid u"
  shows "filter (\<lambda>c. c \<noteq> CHR ''-'') (uuid_str u) = uuid_hex u"
proof -
  define h where "h = uuid_hex u"
  have f: "filter (\<lambda>c. c \<noteq> CHR ''-'') (take n (drop m h)) = take n (drop m h)" for n m
    using assms by (intro filter_True) (auto simp: wf_uuid_def h_def dest!: in_set_takeD in_set_dropD lower_hex_facts(1))
  have g: "filter (\<lambda>c. c \<noteq> CHR ''-'') (drop m h) = drop m h" for m using f [of "length h" m] by simp
  have "take 8 h @ take 4 (drop 8 h) @ take 4 (drop 12 h) @ take 4 (drop 16 h) @ drop 20 h = h"
    using append_take_drop_id [of 8 h] append_take_drop_id [of 4 "drop 8 h"] append_take_drop_id [of 4 "drop 12 h"]
      append_take_drop_id [of 4 "drop 16 h"] by simp
  then show ?thesis using f [of 8 0] f [of 4] g [of 20] by (simp add: uuid_str_def Let_def h_def)
qed

lemma parse_uuid_str [simp]:
  assumes "wf_uuid u"
  shows "parse_uuid (uuid_str u) = Inr u"
proof -
  have cs: "c \<in> set lower_hex \<or> c = CHR ''-''" if "c \<in> set (uuid_str u)" for c
    using that uuid_str_set [of u] assms by (auto simp: wf_uuid_def)
  have "CHR '':'' \<notin> set (uuid_str u)" "set ''{}'' \<inter> set (uuid_str u) = {}"
    using cs lower_hex_facts by fastforce+
  moreover have "list_all (\<lambda>c. hex_val c \<noteq> None) (uuid_hex u)" "map (\<lambda>c. lower_hex ! the (hex_val c)) (uuid_hex u) = uuid_hex u"
    using assms lower_hex_facts(6,7) by (fastforce simp: wf_uuid_def list_all_iff intro!: map_idI)+
  ultimately show ?thesis
    using assms by (simp add: parse_uuid_def remove_sub_none strip_chars_none uuid_str_digits Let_def wf_uuid_def)
qed

text \<open>A text that the expression for UUIDs matches is one.\<close>

lemma uuid_re_template:
  assumes "list_all2 (\<lambda>t c. if t = CHR ''-'' then c = t else c \<in> set lower_hex) tmpl s"
  shows "length (filter (\<lambda>c. c \<noteq> CHR ''-'') s) = length (filter (\<lambda>c. c \<noteq> CHR ''-'') tmpl)" "set s \<subseteq> set lower_hex \<union> {CHR ''-''}"
  using assms by (induction rule: list_all2_induct) (auto dest: lower_hex_facts(1) split: if_splits)

lemma uuid_re_parses:
  assumes "UUID_RE s"
  shows "\<exists>u. parse_uuid s = Inr u"
proof -
  note t = uuid_re_template [OF assms [unfolded UUID_RE_def]]
  have "CHR '':'' \<notin> set s" "set ''{}'' \<inter> set s = {}" using t(2) lower_hex_facts(2,4,5) by fastforce+
  moreover have "list_all (\<lambda>c. hex_val c \<noteq> None) (filter (\<lambda>c. c \<noteq> CHR ''-'') s)"
    using t(2) lower_hex_facts(6) by (fastforce simp: list_all_iff)
  ultimately show ?thesis using t(1) by (simp add: parse_uuid_def remove_sub_none strip_chars_none Let_def)
qed

section \<open>Plugin data\<close>

datatype pyval =
    PNone
  | PBool bool
  | PInt int
  | PStr string
  | PBytes string
  | PUuid uuid
  | PEnum string
  | PList "pyval list"
  | PTuple "pyval list"
  | PDict "(string \<times> pyval) list"

fun encode_manifest_data :: "pyval \<Rightarrow> pyval" where
  "encode_manifest_data (PDict kvs) = PDict (map (\<lambda>kv. (fst kv, encode_manifest_data (snd kv))) kvs)"
| "encode_manifest_data (PList items) = PList (map encode_manifest_data items)"
| "encode_manifest_data (PTuple items) = PList (map encode_manifest_data items)"
| "encode_manifest_data (PBytes bs) = PStr (b64encode bs)"
| "encode_manifest_data (PEnum v) = PStr v"
| "encode_manifest_data (PUuid u) = PStr (uuid_str u)"
| "encode_manifest_data data = data"

text \<open>\<^verbatim>\<open>data[key]\<close>, iteration, and the two decoders on any value.\<close>

definition getitem :: "pyval \<Rightarrow> string \<Rightarrow> pyval result" where
  "getitem data key = (case data of PDict kvs \<Rightarrow> (case dict_get kvs key of None \<Rightarrow> Inl KeyError | Some v \<Rightarrow> Inr v) | _ \<Rightarrow> Inl TypeError)"

definition contains_key :: "pyval \<Rightarrow> string \<Rightarrow> bool" where
  "contains_key data key = (case data of PDict kvs \<Rightarrow> dict_get kvs key \<noteq> None | _ \<Rightarrow> False)"

definition get_default :: "pyval \<Rightarrow> string \<Rightarrow> pyval \<Rightarrow> pyval result" where
  "get_default data key dflt = (case data of PDict kvs \<Rightarrow> Inr (case dict_get kvs key of None \<Rightarrow> dflt | Some v \<Rightarrow> v) | _ \<Rightarrow> Inl AttributeError)"

fun iter_items :: "pyval \<Rightarrow> pyval list result" where
  "iter_items (PList xs) = Inr xs"
| "iter_items (PTuple xs) = Inr xs"
| "iter_items (PDict kvs) = Inr (map (PStr \<circ> fst) kvs)"
| "iter_items (PStr s) = Inr (map (\<lambda>c. PStr [c]) s)"
| "iter_items (PBytes s) = Inr (map (\<lambda>c. PInt (int (of_char c))) s)"
| "iter_items _ = Inl TypeError"

definition unpack2 :: "pyval \<Rightarrow> (pyval \<times> pyval) result" where
  "unpack2 v = bind_res (iter_items v) (\<lambda>xs. case xs of [a, b] \<Rightarrow> Inr (a, b) | _ \<Rightarrow> Inl ValueError)"

fun b64decode_val :: "pyval \<Rightarrow> string result" where
  "b64decode_val (PStr s) = (if list_all (\<lambda>c. of_char c < (128 :: nat)) s then b64decode s else Inl ValueError)"
| "b64decode_val (PBytes s) = b64decode s"
| "b64decode_val _ = Inl TypeError"

fun uuid_val :: "pyval \<Rightarrow> uuid result" where
  "uuid_val (PStr s) = parse_uuid s"
| "uuid_val PNone = Inl TypeError"
| "uuid_val (PBytes s) = Inl TypeError"
| "uuid_val _ = Inl AttributeError"

definition list_of :: "(pyval \<Rightarrow> 'a result) \<Rightarrow> pyval \<Rightarrow> 'a list result" where
  "list_of f v = bind_res (iter_items v) (map_res f)"

section \<open>The parts of a manifest\<close>

type_synonym str_field = "pyval \<Rightarrow> string result"

record access_entity =
  ae_type :: string
  ae_uuid :: uuid
  ae_name :: string
  ae_attach_query :: string

definition access_entity_dict :: "access_entity \<Rightarrow> pyval" where
  "access_entity_dict e = PDict [(''type'', PStr (ae_type e)), (''uuid'', PUuid (ae_uuid e)), (''name'', PBytes (ae_name e)),
     (''attach_query'', PBytes (ae_attach_query e))]"

definition access_entity_from_plugin_data :: "str_field \<Rightarrow> pyval \<Rightarrow> access_entity result" where
  "access_entity_from_plugin_data sf data =
     bind_res (getitem data ''type'') (\<lambda>t. bind_res (getitem data ''uuid'') (\<lambda>u. bind_res (uuid_val u) (\<lambda>u.
     bind_res (getitem data ''name'') (\<lambda>n. bind_res (b64decode_val n) (\<lambda>n.
     bind_res (getitem data ''attach_query'') (\<lambda>q. bind_res (b64decode_val q) (\<lambda>q.
     bind_res (sf t) (\<lambda>t. Inr \<lparr>ae_type = t, ae_uuid = u, ae_name = n, ae_attach_query = q\<rparr>))))))))"

record replicated_database =
  rd_name :: string
  rd_uuid :: "uuid option"
  rd_shard :: string
  rd_replica :: string

definition replicated_database_dict :: "replicated_database \<Rightarrow> pyval" where
  "replicated_database_dict d = PDict [(''name'', PBytes (rd_name d)),
     (''uuid'', case rd_uuid d of None \<Rightarrow> PNone | Some u \<Rightarrow> PUuid u), (''shard'', PBytes (rd_shard d)), (''replica'', PBytes (rd_replica d))]"

definition replicated_database_from_plugin_data :: "pyval \<Rightarrow> replicated_database result" where
  "replicated_database_from_plugin_data data =
     bind_res (getitem data ''name'') (\<lambda>n. bind_res (b64decode_val n) (\<lambda>n.
     bind_res (if contains_key data ''uuid'' then bind_res (getitem data ''uuid'') (\<lambda>u. bind_res (uuid_val u) (Inr \<circ> Some)) else Inr None) (\<lambda>u.
     bind_res (if contains_key data ''shard'' then bind_res (getitem data ''shard'') b64decode_val else Inr ''{shard}'') (\<lambda>s.
     bind_res (if contains_key data ''replica'' then bind_res (getitem data ''replica'') b64decode_val else Inr ''{replica}'') (\<lambda>r.
     Inr \<lparr>rd_name = n, rd_uuid = u, rd_shard = s, rd_replica = r\<rparr>)))))"

record ch_table =
  tb_database :: string
  tb_name :: string
  tb_engine :: string
  tb_uuid :: uuid
  tb_create_query :: string
  tb_dependencies :: "(string \<times> string) list"

definition is_replicated :: "ch_table \<Rightarrow> bool" where
  "is_replicated t \<longleftrightarrow> take 10 (tb_engine t) = ''Replicated''"

definition requires_freezing :: "ch_table \<Rightarrow> bool" where
  "requires_freezing t \<longleftrightarrow> sublist ''MergeTree'' (tb_engine t)"

definition escaped_sql_identifier :: "ch_table \<Rightarrow> string" where
  "escaped_sql_identifier t = escape_sql_identifier (tb_database t) @ ''.'' @ escape_sql_identifier (tb_name t)"

definition table_dict :: "ch_table \<Rightarrow> pyval" where
  "table_dict t = PDict [(''database'', PBytes (tb_database t)), (''name'', PBytes (tb_name t)), (''engine'', PStr (tb_engine t)),
     (''uuid'', PUuid (tb_uuid t)), (''create_query'', PBytes (tb_create_query t)),
     (''dependencies'', PList (map (\<lambda>(d, n). PTuple [PBytes d, PBytes n]) (tb_dependencies t)))]"

definition dependency_from_plugin_data :: "pyval \<Rightarrow> (string \<times> string) result" where
  "dependency_from_plugin_data v = bind_res (unpack2 v) (\<lambda>(d, n). bind_res (b64decode_val d) (\<lambda>d. bind_res (b64decode_val n) (\<lambda>n. Inr (d, n))))"

definition table_from_plugin_data :: "str_field \<Rightarrow> pyval \<Rightarrow> ch_table result" where
  "table_from_plugin_data sf data =
     bind_res (getitem data ''dependencies'') (\<lambda>ds. bind_res (list_of dependency_from_plugin_data ds) (\<lambda>ds.
     bind_res (getitem data ''database'') (\<lambda>d. bind_res (b64decode_val d) (\<lambda>d.
     bind_res (getitem data ''name'') (\<lambda>n. bind_res (b64decode_val n) (\<lambda>n.
     bind_res (getitem data ''engine'') (\<lambda>e.
     bind_res (getitem data ''uuid'') (\<lambda>u. bind_res (uuid_val u) (\<lambda>u.
     bind_res (getitem data ''create_query'') (\<lambda>q. bind_res (b64decode_val q) (\<lambda>q.
     bind_res (sf e) (\<lambda>e. Inr \<lparr>tb_database = d, tb_name = n, tb_engine = e, tb_uuid = u, tb_create_query = q, tb_dependencies = ds\<rparr>))))))))))))"

record object_storage_files =
  of_disk_name :: string
  of_files :: "string list"

definition object_storage_files_dict :: "object_storage_files \<Rightarrow> pyval" where
  "object_storage_files_dict f = PDict [(''disk_name'', PStr (of_disk_name f)),
     (''files'', PList (map (\<lambda>p. PDict [(''path'', PStr p)]) (of_files f)))]"

definition object_storage_file_from_plugin_data :: "str_field \<Rightarrow> pyval \<Rightarrow> string result" where
  "object_storage_file_from_plugin_data sf data = bind_res (getitem data ''path'') sf"

definition object_storage_files_from_plugin_data :: "str_field \<Rightarrow> pyval \<Rightarrow> object_storage_files result" where
  "object_storage_files_from_plugin_data sf data =
     bind_res (getitem data ''disk_name'') (\<lambda>n. bind_res (getitem data ''files'') (\<lambda>fs.
     bind_res (list_of (object_storage_file_from_plugin_data sf) fs) (\<lambda>fs.
     bind_res (sf n) (\<lambda>n. Inr \<lparr>of_disk_name = n, of_files = fs\<rparr>))))"

datatype backup_version = V1 | V2

fun version_value :: "backup_version \<Rightarrow> string" where
  "version_value V1 = ''v1''"
| "version_value V2 = ''v2''"

definition version_of :: "pyval \<Rightarrow> backup_version result" where
  "version_of v = (if v = PStr ''v1'' then Inr V1 else if v = PStr ''v2'' then Inr V2 else Inl ValueError)"

record clickhouse_manifest =
  cm_version :: backup_version
  cm_access_entities :: "access_entity list"
  cm_replicated_databases :: "replicated_database list"
  cm_tables :: "ch_table list"
  cm_object_storage_files :: "object_storage_files list"

definition manifest_dict :: "clickhouse_manifest \<Rightarrow> pyval" where
  "manifest_dict m = PDict [(''version'', PEnum (version_value (cm_version m))),
     (''access_entities'', PList (map access_entity_dict (cm_access_entities m))),
     (''replicated_databases'', PList (map replicated_database_dict (cm_replicated_databases m))),
     (''tables'', PList (map table_dict (cm_tables m))),
     (''object_storage_files'', PList (map object_storage_files_dict (cm_object_storage_files m)))]"

definition to_plugin_data :: "clickhouse_manifest \<Rightarrow> pyval" where
  "to_plugin_data m = encode_manifest_data (manifest_dict m)"

definition from_plugin_data :: "str_field \<Rightarrow> pyval \<Rightarrow> clickhouse_manifest result" where
  "from_plugin_data sf data =
     bind_res (get_default data ''version'' (PStr (version_value V1))) (\<lambda>v. bind_res (version_of v) (\<lambda>v.
     bind_res (getitem data ''access_entities'') (\<lambda>es. bind_res (list_of (access_entity_from_plugin_data sf) es) (\<lambda>es.
     bind_res (getitem data ''replicated_databases'') (\<lambda>ds. bind_res (list_of replicated_database_from_plugin_data ds) (\<lambda>ds.
     bind_res (getitem data ''tables'') (\<lambda>ts. bind_res (list_of (table_from_plugin_data sf) ts) (\<lambda>ts.
     bind_res (get_default data ''object_storage_files'' (PList [])) (\<lambda>fs. bind_res (list_of (object_storage_files_from_plugin_data sf) fs) (\<lambda>fs.
     Inr \<lparr>cm_version = v, cm_access_entities = es, cm_replicated_databases = ds, cm_tables = ts, cm_object_storage_files = fs\<rparr>))))))))))"

section \<open>The round trip\<close>

lemmas plugin_data_simps = getitem_def contains_key_def get_default_def list_of_def unpack2_def

lemma b64_ascii: "list_all (\<lambda>c. of_char c < (128 :: nat)) (b64encode s)"
proof -
  have all: "\<forall>n \<in> set [0..<64]. (of_char (b64_char n) :: nat) < 128" by code_simp
  then have a: "(of_char (b64_char n) :: nat) < 128" if "n < 64" for n using that by auto
  have p: "(of_char b64_pad :: nat) < 128" by code_simp
  have "\<forall>n \<in> set ns. n < 256 \<Longrightarrow> list_all (\<lambda>c. of_char c < (128 :: nat)) (b64_groups ns)" for ns
    by (induction ns rule: b64_groups.induct) (auto simp: p intro!: a)
  then show ?thesis by (simp add: b64encode_def)
qed

lemma b64decode_val_encoded [simp]: "b64decode_val (PStr (b64encode s)) = Inr s"
  using b64_ascii by simp

declare b64decode_val.simps(1) [simp del]

lemma list_of_encoded:
  assumes "\<And>x. x \<in> set xs \<Longrightarrow> f (encode_manifest_data (d x)) = Inr x"
  shows "list_of f (PList (map (encode_manifest_data \<circ> d) xs)) = Inr xs"
proof -
  have "map_res f (map (encode_manifest_data \<circ> d) xs) = Inr xs" using assms by (induction xs) auto
  then show ?thesis by (simp add: list_of_def)
qed

definition wf_manifest :: "clickhouse_manifest \<Rightarrow> bool" where
  "wf_manifest m \<longleftrightarrow> (\<forall>e \<in> set (cm_access_entities m). wf_uuid (ae_uuid e)) \<and> (\<forall>t \<in> set (cm_tables m). wf_uuid (tb_uuid t))
     \<and> (\<forall>d \<in> set (cm_replicated_databases m). \<exists>u. rd_uuid d = Some u \<and> wf_uuid u)"

lemma access_entity_roundtrip:
  "(\<And>s. sf (PStr s) = Inr s) \<Longrightarrow> wf_uuid (ae_uuid e) \<Longrightarrow> access_entity_from_plugin_data sf (encode_manifest_data (access_entity_dict e)) = Inr e"
  by (simp add: access_entity_from_plugin_data_def access_entity_dict_def plugin_data_simps)

lemma replicated_database_roundtrip:
  "rd_uuid d = Some u \<Longrightarrow> wf_uuid u \<Longrightarrow> replicated_database_from_plugin_data (encode_manifest_data (replicated_database_dict d)) = Inr d"
  by (simp add: replicated_database_from_plugin_data_def replicated_database_dict_def plugin_data_simps)

lemma dependency_roundtrip:
  "dependency_from_plugin_data (encode_manifest_data (case p of (d, n) \<Rightarrow> PTuple [PBytes d, PBytes n])) = Inr p"
  by (cases p) (simp add: dependency_from_plugin_data_def plugin_data_simps)

lemma table_roundtrip:
  assumes "\<And>s. sf (PStr s) = Inr s" and "wf_uuid (tb_uuid t)"
  shows "table_from_plugin_data sf (encode_manifest_data (table_dict t)) = Inr t"
proof -
  have "list_of dependency_from_plugin_data (PList (map (encode_manifest_data \<circ> (\<lambda>(d, n). PTuple [PBytes d, PBytes n])) (tb_dependencies t)))
      = Inr (tb_dependencies t)"
    by (rule list_of_encoded) (rule dependency_roundtrip)
  then show ?thesis using assms by (simp add: table_from_plugin_data_def table_dict_def getitem_def)
qed

lemma object_storage_files_roundtrip:
  assumes "\<And>s. sf (PStr s) = Inr s"
  shows "object_storage_files_from_plugin_data sf (encode_manifest_data (object_storage_files_dict f)) = Inr f"
proof -
  have "list_of (object_storage_file_from_plugin_data sf) (PList (map (encode_manifest_data \<circ> (\<lambda>p. PDict [(''path'', PStr p)])) (of_files f)))
      = Inr (of_files f)"
    by (rule list_of_encoded) (simp add: object_storage_file_from_plugin_data_def getitem_def assms)
  then show ?thesis using assms by (simp add: object_storage_files_from_plugin_data_def object_storage_files_dict_def getitem_def)
qed

text \<open>C37. What a ClickHouse backup stores about databases, tables, access entities and remote files is read back
  as it was written, with names of any bytes, if every replicated database has a UUID.\<close>

theorem clickhouse_manifest_roundtrip:
  assumes "\<And>s. sf (PStr s) = Inr s" and "wf_manifest m"
  shows "from_plugin_data sf (to_plugin_data m) = Inr m"
proof -
  have es: "list_of (access_entity_from_plugin_data sf) (PList (map (encode_manifest_data \<circ> access_entity_dict) (cm_access_entities m))) = Inr (cm_access_entities m)"
    using assms by (intro list_of_encoded access_entity_roundtrip) (auto simp: wf_manifest_def)
  have ds: "list_of replicated_database_from_plugin_data (PList (map (encode_manifest_data \<circ> replicated_database_dict) (cm_replicated_databases m))) = Inr (cm_replicated_databases m)"
    using assms(2) by (intro list_of_encoded) (auto simp: wf_manifest_def intro: replicated_database_roundtrip)
  have ts: "list_of (table_from_plugin_data sf) (PList (map (encode_manifest_data \<circ> table_dict) (cm_tables m))) = Inr (cm_tables m)"
    using assms by (intro list_of_encoded table_roundtrip) (auto simp: wf_manifest_def)
  have fs: "list_of (object_storage_files_from_plugin_data sf) (PList (map (encode_manifest_data \<circ> object_storage_files_dict) (cm_object_storage_files m))) = Inr (cm_object_storage_files m)"
    using assms by (intro list_of_encoded object_storage_files_roundtrip) auto
  have v: "version_of (PStr (version_value (cm_version m))) = Inr (cm_version m)" by (cases "cm_version m") (simp_all add: version_of_def)
  show ?thesis by (simp add: from_plugin_data_def to_plugin_data_def manifest_dict_def getitem_def get_default_def es ds ts fs v)
qed

definition example_uuid :: uuid where "example_uuid = UUID (replicate 31 CHR ''0'' @ ''a'')"

definition example_manifest :: clickhouse_manifest where
  "example_manifest = \<lparr>cm_version = V2,
     cm_access_entities = [\<lparr>ae_type = ''U'', ae_uuid = example_uuid, ae_name = [CHR 0x80], ae_attach_query = ''ATTACH USER''\<rparr>],
     cm_replicated_databases = [\<lparr>rd_name = ''db'', rd_uuid = Some example_uuid, rd_shard = ''{shard}'', rd_replica = ''{replica}''\<rparr>],
     cm_tables = [\<lparr>tb_database = ''db'', tb_name = ''t'', tb_engine = ''ReplicatedMergeTree'', tb_uuid = example_uuid,
       tb_create_query = ''CREATE TABLE'', tb_dependencies = [(''db'', ''u'')]\<rparr>],
     cm_object_storage_files = [\<lparr>of_disk_name = ''remote'', of_files = [''abc/def'']\<rparr>]\<rparr>"

definition example_str_field :: str_field where
  "example_str_field v = (case v of PStr s \<Rightarrow> Inr s | _ \<Rightarrow> Inl ValueError)"

theorem clickhouse_manifest_roundtrip_witness:
  "from_plugin_data example_str_field (to_plugin_data example_manifest) = Inr example_manifest"
  by (rule clickhouse_manifest_roundtrip)
    (simp add: example_str_field_def, simp add: wf_manifest_def example_manifest_def wf_uuid_def example_uuid_def lower_hex_def)

text \<open>Without a UUID, which the model of a database allows for older backups, the dictionary has the key with
  no value, and reading it fails.\<close>

lemma database_without_uuid_unreadable:
  "rd_uuid d = None \<Longrightarrow> replicated_database_from_plugin_data (encode_manifest_data (replicated_database_dict d)) = Inl TypeError"
  by (simp add: replicated_database_from_plugin_data_def replicated_database_dict_def plugin_data_simps)

end
