(* ===== verification/Clickhouse_Macros.thy ===== *)
theory Clickhouse_Macros
  imports Clickhouse_Manifest
begin

text \<open>
  Macro substitution: \<^verbatim>\<open>astacus/coordinator/plugins/clickhouse/macros.py\<close> and the use of it in
  \<^verbatim>\<open>get_databases_replicas\<close> of \<^verbatim>\<open>replication.py\<close>. A macro's value may hold macros again; the code bounds
  the depth and the length. Shown: expansion always ends, and exactly what it returns.
\<close>

section \<open>Macros\<close>

datatype macro_error = TooLong | TooDeep string | Unbalanced string | NoMacro string

type_synonym macros = "(string \<times> string) list"

definition macros_add :: "string \<Rightarrow> string \<Rightarrow> macros \<Rightarrow> macros" where
  "macros_add macro substitution ms = dict_set macro substitution ms"

definition from_mapping :: "(string \<times> string) list \<Rightarrow> macros" where
  "from_mapping mapping = fold (\<lambda>(macro, substitution). dict_set macro substitution) mapping []"

text \<open>The match of \<^verbatim>\<open>{([^}]+)}\<close> at an opening brace, given the text after the brace: the name and the rest.\<close>

definition macro_at :: "string \<Rightarrow> (string \<times> string) option" where
  "macro_at s = (let name = takeWhile (\<lambda>c. c \<noteq> CHR ''}'') s; rest = dropWhile (\<lambda>c. c \<noteq> CHR ''}'') s in
     if name \<noteq> [] \<and> rest \<noteq> [] then Some (name, tl rest) else None)"

lemma macro_at_shorter [termination_simp]: "macro_at s = Some (name, rest) \<Longrightarrow> length rest < length s"
proof -
  assume "macro_at s = Some (name, rest)"
  then have "rest = tl (dropWhile (\<lambda>c. c \<noteq> CHR ''}'') s)" "dropWhile (\<lambda>c. c \<noteq> CHR ''}'') s \<noteq> []"
    by (auto simp: macro_at_def Let_def split: if_splits)
  then have "length rest < length (dropWhile (\<lambda>c. c \<noteq> CHR ''}'') s)" by (cases "dropWhile (\<lambda>c. c \<noteq> CHR ''}'') s") auto
  then show ?thesis using length_dropWhile_le [of "\<lambda>c. c \<noteq> CHR ''}''" s] by linarith
qed

text \<open>One pass over the text, with the number of substitutions: \<^verbatim>\<open>re.subn\<close> with \<^verbatim>\<open>_get_substitution\<close>.\<close>

function subn :: "macros \<Rightarrow> string \<Rightarrow> macro_error + string \<times> nat" where
  "subn ms [] = Inr ([], 0)"
| "subn ms (c # s) =
     (case (if c = CHR ''{'' then macro_at s else None) of
        Some (name, rest) \<Rightarrow>
          (case dict_get ms name of
             None \<Rightarrow> Inl (NoMacro name)
           | Some substitution \<Rightarrow>
               (case subn ms rest of Inl e \<Rightarrow> Inl e | Inr (t, n) \<Rightarrow> Inr (substitution @ t, n + 1)))
      | None \<Rightarrow> (case subn ms s of Inl e \<Rightarrow> Inl e | Inr (t, n) \<Rightarrow> Inr (c # t, n)))"
  by pat_completeness auto
termination
  by (relation "measure (length \<circ> snd)") (auto dest: macro_at_shorter split: if_splits)

function expand :: "macros \<Rightarrow> nat \<Rightarrow> string \<Rightarrow> macro_error + string" where
  "expand ms level content =
     (if level > 0 \<and> length content > 65536 then Inl TooLong
      else if level \<ge> 10 then Inl (TooDeep content)
      else if CHR ''{'' \<in> set content then
        (case subn ms content of
           Inl e \<Rightarrow> Inl e
         | Inr (new_content, substitutions_count) \<Rightarrow>
             if substitutions_count > 0 then expand ms (level + 1) new_content else Inl (Unbalanced content))
      else Inr content)"
  by pat_completeness auto
termination by (relation "measure (\<lambda>(ms, level, content). 10 - level)") auto

declare expand.simps [simp del]

definition fetch_server_macros :: "(string option \<times> string option) list \<Rightarrow> macros result" where
  "fetch_server_macros rows =
     bind_res (map_res (\<lambda>(b64_macro_name, b64_macro_value).
       (case b64_macro_name of None \<Rightarrow> Inl AssertionError | Some n \<Rightarrow>
         (case b64_macro_value of None \<Rightarrow> Inl AssertionError | Some v \<Rightarrow>
           bind_res (b64decode n) (\<lambda>macro. bind_res (b64decode v) (\<lambda>substitution. Inr (macro, substitution)))))) rows)
     (\<lambda>pairs. Inr (fold (\<lambda>(macro, substitution). macros_add macro substitution) pairs []))"

section \<open>What expansion returns\<close>

text \<open>The reference: the text after a number of passes, as long as every pass finds a macro and no text
  that a pass produced is too long.\<close>

fun after_passes :: "macros \<Rightarrow> nat \<Rightarrow> string \<Rightarrow> string option" where
  "after_passes ms 0 content = Some content"
| "after_passes ms (Suc n) content =
     (case subn ms content of
        Inr (new_content, k) \<Rightarrow> if k > 0 \<and> length new_content \<le> 65536 then after_passes ms n new_content else None
      | _ \<Rightarrow> None)"

lemma subn_no_brace: "CHR ''{'' \<notin> set s \<Longrightarrow> subn ms s = Inr (s, 0)"
  by (induction s) auto

lemma after_passes_brace: "after_passes ms (Suc n) c = Some s \<Longrightarrow> CHR ''{'' \<in> set c"
  using subn_no_brace [of c ms] by (cases "CHR ''{'' \<in> set c") auto

lemma expand_after_passes:
  assumes "level = 0 \<or> length content \<le> 65536"
  shows "expand ms level content = Inr s \<longleftrightarrow>
    (\<exists>n < 10 - level. after_passes ms n content = Some s \<and> CHR ''{'' \<notin> set s)"
  using assms
proof (induction "10 - level" arbitrary: level content)
  case 0
  then show ?case by (subst expand.simps) auto
next
  case (Suc k)
  note IH = Suc.hyps(1) [of "Suc level"]
  have lev: "\<not> 10 \<le> level" "10 - level = Suc k" "10 - Suc level = k" using Suc.hyps(2) by auto
  show ?case
  proof (cases "CHR ''{'' \<in> set content")
    case False
    then have "after_passes ms n content = Some s \<longleftrightarrow> n = 0 \<and> s = content" for n
      using after_passes_brace [of ms "n - 1" content s] by (cases n) auto
    moreover have "expand ms level content = Inr content" using False lev(1) Suc.prems by (subst expand.simps) auto
    ultimately show ?thesis using lev(1) False by (auto intro!: exI [of _ 0])
  next
    case True
    have split: "(\<exists>n < Suc k. after_passes ms n content = Some s \<and> CHR ''{'' \<notin> set s)
        \<longleftrightarrow> (\<exists>n < k. after_passes ms (Suc n) content = Some s \<and> CHR ''{'' \<notin> set s)"
      using True by (metis Suc_less_eq after_passes.simps(1) not0_implies_Suc option.sel)
    show ?thesis
    proof (cases "subn ms content")
      case (Inl e)
      then have "expand ms level content = Inl e" using True lev(1) Suc.prems by (subst expand.simps) auto
      then show ?thesis unfolding lev(2) split using Inl by simp
    next
      case (Inr p)
      obtain t m where p: "p = (t, m)" by (cases p)
      have long: "expand ms (Suc level) t = Inl TooLong" if "length t > 65536" using that by (subst expand.simps) simp
      have e: "expand ms level content = (if m > 0 then expand ms (Suc level) t else Inl (Unbalanced content))"
        using True lev(1) Suc.prems Inr p by (subst expand.simps) auto
      show ?thesis unfolding lev(2) split e using lev(3) Inr p IH [of t] long
        by (cases "length t > 65536") auto
    qed
  qed
qed

text \<open>Expansion of the macros in a text always ends, and it returns a text exactly when fewer than ten
  passes of substitution lead to a text without an opening brace, every pass found a macro, every macro
  had a value, and no pass made the text longer than 65536 bytes; that text is the result.\<close>

theorem macro_expansion:
  "expand ms 0 content = Inr s \<longleftrightarrow> (\<exists>n < 10. after_passes ms n content = Some s \<and> CHR ''{'' \<notin> set s)"
  using expand_after_passes [of 0 content ms s] by simp

section \<open>Replicas of databases\<close>

record database_replica =
  shard_name :: string
  replica_name :: string

definition full_name :: "database_replica \<Rightarrow> string" where
  "full_name r = shard_name r @ ''|'' @ replica_name r"

definition server_replica :: "replicated_database \<Rightarrow> macros \<Rightarrow> database_replica result" where
  "server_replica database ms =
     (case expand ms 0 (rd_shard database) of
        Inl e \<Rightarrow> Inl StepFailedError
      | Inr shard \<Rightarrow> (case decode shard of
          None \<Rightarrow> Inl StepFailedError
        | Some shard \<Rightarrow> (case expand ms 0 (rd_replica database) of
            Inl e \<Rightarrow> Inl StepFailedError
          | Inr replica \<Rightarrow> (case decode replica of
              None \<Rightarrow> Inl StepFailedError
            | Some replica \<Rightarrow> Inr \<lparr>shard_name = shard, replica_name = replica\<rparr>))))"

fun databases_replicas_loop :: "macros list \<Rightarrow> replicated_database list \<Rightarrow> (string \<times> database_replica list) list
    \<Rightarrow> (string \<times> database_replica list) list result" where
  "databases_replicas_loop servers_macros [] databases_replicas = Inr databases_replicas"
| "databases_replicas_loop servers_macros (database # rest) databases_replicas =
     bind_res (map_res (server_replica database) servers_macros)
       (\<lambda>replicas. databases_replicas_loop servers_macros rest (dict_set (rd_name database) replicas databases_replicas))"

definition get_databases_replicas :: "replicated_database list \<Rightarrow> macros list \<Rightarrow> (string \<times> database_replica list) list result" where
  "get_databases_replicas replicated_databases servers_macros = databases_replicas_loop servers_macros replicated_databases []"

lemma databases_replicas_loop_result:
  assumes "databases_replicas_loop sm dbs acc = Inr res" and "distinct (map rd_name dbs)"
  shows "(\<forall>db \<in> set dbs. \<exists>rs. dict_get res (rd_name db) = Some rs \<and> list_all2 (\<lambda>ms r. server_replica db ms = Inr r) sm rs)
    \<and> (\<forall>k. k \<notin> rd_name ` set dbs \<longrightarrow> dict_get res k = dict_get acc k)"
  using assms
proof (induction dbs arbitrary: acc)
  case (Cons db dbs)
  obtain rs where rs: "map_res (server_replica db) sm = Inr rs"
      "databases_replicas_loop sm dbs (dict_set (rd_name db) rs acc) = Inr res"
    using Cons.prems(1) by (auto simp: bind_res_Inr_iff)
  have d: "distinct (map rd_name dbs)" "rd_name db \<notin> rd_name ` set dbs" using Cons.prems(2) by auto
  note IH = Cons.IH [OF rs(2) d(1)]
  have "dict_get res (rd_name db) = Some rs" using IH d(2) by (simp add: update_conv')
  then show ?case using IH rs(1) by (auto simp: map_res_Inr_iff update_conv')
qed auto

lemma databases_replicas:
  assumes "get_databases_replicas dbs sm = Inr res" and "distinct (map rd_name dbs)" and "db \<in> set dbs"
  shows "\<exists>rs. dict_get res (rd_name db) = Some rs \<and> list_all2 (\<lambda>ms r. server_replica db ms = Inr r) sm rs"
  using databases_replicas_loop_result [OF assms(1) [unfolded get_databases_replicas_def] assms(2)] assms(3) by blast

end
