(* ===== verification/Clickhouse_Disks.thy ===== *)
theory Clickhouse_Disks
  imports Clickhouse_Manifest Ipc
begin

text \<open>
  The files of table parts on the disks of a ClickHouse server: \<^verbatim>\<open>disks.py\<close>, \<^verbatim>\<open>parts.py\<close> and \<^verbatim>\<open>file_metadata.py\<close> under
  \<^verbatim>\<open>astacus/coordinator/plugins/clickhouse/\<close>. The object storage of a disk is a value of any type. Shown: the path of a
  part's file is parsed into the description it was made from, whatever other disks there are, and the
  parts to attach after a restore are exactly those that the snapshot has files of.
\<close>

section \<open>Disks\<close>

datatype disk_type = Local | ObjectStorage

record 'o disk =
  dk_type :: disk_type
  dk_name :: string
  dk_path_parts :: "string list"
  dk_object_storage :: "'o option"

text \<open>The configuration of a disk; its path as the parts that \<^verbatim>\<open>pathlib\<close> gives, its storages with a default.\<close>

record 'c disk_config =
  dc_type :: disk_type
  dc_name :: string
  dc_path :: "string list"
  dc_object_storage :: "(string \<times> (string \<times> 'c) list) option"

definition from_disk_config :: "('c \<Rightarrow> 'o) \<Rightarrow> string option \<Rightarrow> 'c disk_config \<Rightarrow> 'o disk result" where
  "from_disk_config mk storage_name config =
     bind_res (case dc_object_storage config of
         None \<Rightarrow> Inr None
       | Some (default_storage, storages) \<Rightarrow>
           (case dict_get storages (case storage_name of Some n \<Rightarrow> n | None \<Rightarrow> default_storage) of
              None \<Rightarrow> Inl KeyError | Some storage_config \<Rightarrow> Inr (Some (mk storage_config))))
       (\<lambda>os. Inr \<lparr>dk_type = dc_type config, dk_name = dc_name config, dk_path_parts = dc_path config, dk_object_storage = os\<rparr>)"

definition from_disk_configs :: "('c \<Rightarrow> 'o) \<Rightarrow> 'c disk_config list \<Rightarrow> string option \<Rightarrow> 'o disk list result" where
  "from_disk_configs mk disk_configs storage_name =
     bind_res (map_res (from_disk_config mk storage_name) disk_configs)
       (\<lambda>disks. Inr (sorted_reverse_by (\<lambda>disk. length (dk_path_parts disk)) disks))"

definition disk_snapshot_group :: "string \<Rightarrow> 'o disk \<Rightarrow> snapshot_group" where
  "disk_snapshot_group frozen_parts_pattern disk = \<lparr>sg_root_glob = join_parts (dk_path_parts disk @ [frozen_parts_pattern]),
     sg_excluded_names = (if dk_type disk = ObjectStorage then [''frozen_metadata.txt''] else []),
     sg_embedded_file_size_max = (if dk_type disk = ObjectStorage then None else Some default_embedded_file_size)\<rparr>"

definition get_snapshot_groups :: "'o disk list \<Rightarrow> string \<Rightarrow> snapshot_group list" where
  "get_snapshot_groups disks freeze_name =
     map (disk_snapshot_group (''shadow/'' @ escape_for_file_name freeze_name @ ''/store/**/*'')) disks"

definition get_object_storage :: "'o disk list \<Rightarrow> string \<Rightarrow> 'o option" where
  "get_object_storage disks disk_name = (case find (\<lambda>disk. dk_name disk = disk_name) disks of
     None \<Rightarrow> None | Some disk \<Rightarrow> dk_object_storage disk)"

definition get_disk :: "'o disk list \<Rightarrow> string list \<Rightarrow> 'o disk option" where
  "get_disk disks path_parts = find (\<lambda>disk. take (length (dk_path_parts disk)) path_parts = dk_path_parts disk) disks"

section \<open>Paths of parts\<close>

record 'o parsed_path =
  pp_disk :: "'o disk"
  pp_freeze_name :: "string option"
  pp_table_uuid :: uuid
  pp_detached :: bool
  pp_part_name :: string
  pp_file_parts :: "string list"

definition inner_parts :: "'o parsed_path \<Rightarrow> string list" where
  "inner_parts p = (case pp_freeze_name p of None \<Rightarrow> [] | Some n \<Rightarrow> [''shadow'', escape_for_file_name n])
     @ [''store'', take 3 (uuid_str (pp_table_uuid p)), uuid_str (pp_table_uuid p)]
     @ (if pp_detached p then [''detached''] else []) @ [escape_for_file_name (pp_part_name p)]"

definition to_path :: "'o parsed_path \<Rightarrow> string" where
  "to_path p = join_parts (dk_path_parts (pp_disk p) @ inner_parts p @ pp_file_parts p)"

definition nth_part :: "string list \<Rightarrow> nat \<Rightarrow> string result" where
  "nth_part parts i = (if i < length parts then Inr (parts ! i) else Inl IndexError)"

text \<open>\<^verbatim>\<open>PartFilePathError\<close> is a \<^verbatim>\<open>ValueError\<close>.\<close>

definition parse_from_uuid :: "'o disk \<Rightarrow> string option \<Rightarrow> string list \<Rightarrow> nat \<Rightarrow> 'o parsed_path result" where
  "parse_from_uuid disk freeze_name parts uuid_index =
     bind_res (nth_part parts uuid_index) (\<lambda>u.
     if \<not> UUID_RE u then Inl ValueError
     else bind_res (nth_part parts (uuid_index - 1)) (\<lambda>parent.
     if parent \<noteq> take 3 u then Inl ValueError
     else bind_res (nth_part parts (uuid_index + 1)) (\<lambda>d.
     let detached = (d = ''detached''); part_name_index = uuid_index + (if detached then 2 else 1) in
     bind_res (parse_uuid u) (\<lambda>table_uuid.
     bind_res (nth_part parts part_name_index) (\<lambda>part_name.
     Inr \<lparr>pp_disk = disk, pp_freeze_name = freeze_name, pp_table_uuid = table_uuid, pp_detached = detached,
       pp_part_name = unescape_from_file_name part_name, pp_file_parts = drop (part_name_index + 1) parts\<rparr>)))))"

definition parse_part_file_path :: "'o disk list \<Rightarrow> string \<Rightarrow> 'o parsed_path result" where
  "parse_part_file_path disks file_path =
     (let parts = split_path file_path in
      case get_disk disks parts of
        None \<Rightarrow> Inl ValueError
      | Some disk \<Rightarrow> let i = length (dk_path_parts disk) in
          bind_res (nth_part parts i) (\<lambda>p.
          if p = ''store'' then parse_from_uuid disk None parts (i + 2)
          else if p = ''shadow'' then bind_res (nth_part parts (i + 1)) (\<lambda>n. parse_from_uuid disk (Some (unescape_from_file_name n)) parts (i + 4))
          else Inl ValueError))"

section \<open>The round trip of paths\<close>

lemma list_all2_replicate: "list_all2 P (replicate n x) ys \<longleftrightarrow> length ys = n \<and> (\<forall>y \<in> set ys. P x y)"
  by (induction n arbitrary: ys) (auto simp: list_all2_Cons1 length_Suc_conv)

lemma uuid_str_matches:
  assumes "wf_uuid u"
  shows "UUID_RE (uuid_str u)"
proof -
  let ?P = "\<lambda>t c. if t = CHR ''-'' then c = t else c \<in> set lower_hex"
  have t: "''00000000-0000-0000-0000-000000000000'' = replicate 8 CHR ''0'' @ ''-'' @ replicate 4 CHR ''0'' @ ''-'' @ replicate 4 CHR ''0'' @ ''-''
      @ replicate 4 CHR ''0'' @ ''-'' @ replicate 12 CHR ''0''" by (simp add: numeral_eq_Suc)
  have b: "list_all2 ?P (replicate n CHR ''0'') ys" if "length ys = n" "set ys \<subseteq> set (uuid_hex u)" for n ys
    using that assms by (auto simp: list_all2_replicate wf_uuid_def)
  have len: "length (uuid_hex u) = 32" using assms by (simp add: wf_uuid_def)
  show ?thesis unfolding UUID_RE_def t uuid_str_def Let_def
    using len by (intro list_all2_appendI b) (auto dest: in_set_takeD in_set_dropD)
qed

lemma uuid_str_no_slash: "wf_uuid u \<Longrightarrow> CHR ''/'' \<notin> set (uuid_str u)"
  using uuid_str_set [of u] lower_hex_facts(3) by (auto simp: wf_uuid_def)

definition wf_path :: "'o parsed_path \<Rightarrow> bool" where
  "wf_path p \<longleftrightarrow> wf_uuid (pp_table_uuid p) \<and> (\<not> pp_detached p \<longrightarrow> pp_part_name p \<noteq> ''detached'')
     \<and> (\<forall>s \<in> set (pp_file_parts p). CHR ''/'' \<notin> set s)"

text \<open>Disks that can be told apart: no two with the same path, and no path with a slash inside a part or
  with one of the directories that ClickHouse uses inside its disks.\<close>

definition wf_disks :: "'o disk list \<Rightarrow> bool" where
  "wf_disks disks \<longleftrightarrow> distinct (map dk_path_parts disks) \<and> sorted_wrt (\<ge>) (map (\<lambda>d. length (dk_path_parts d)) disks)
     \<and> (\<forall>d \<in> set disks. \<forall>s \<in> set (dk_path_parts d). CHR ''/'' \<notin> set s \<and> s \<noteq> ''store'' \<and> s \<noteq> ''shadow'')"

lemma get_disk_own:
  assumes "wf_disks disks" and "d \<in> set disks" and "x \<in> {''store'', ''shadow''}"
  shows "get_disk disks (dk_path_parts d @ x # rest) = Some d"
  using assms(1,2)
proof (induction disks)
  case (Cons e disks)
  show ?case
  proof (cases "e = d")
    case True
    then show ?thesis by (simp add: get_disk_def)
  next
    case False
    with Cons.prems have d: "d \<in> set disks" by simp
    have ne: "dk_path_parts e \<noteq> dk_path_parts d" using Cons.prems d by (auto simp: wf_disks_def)
    have len: "length (dk_path_parts d) \<le> length (dk_path_parts e)" using Cons.prems d by (auto simp: wf_disks_def)
    have "take (length (dk_path_parts e)) (dk_path_parts d @ x # rest) \<noteq> dk_path_parts e"
    proof
      assume eq: "take (length (dk_path_parts e)) (dk_path_parts d @ x # rest) = dk_path_parts e"
      obtain k where k: "length (dk_path_parts e) - length (dk_path_parts d) = k" by blast
      have split: "dk_path_parts e = dk_path_parts d @ take k (x # rest)" using eq len k by simp
      with ne have "k > 0" by (cases k) auto
      with split have "x \<in> set (dk_path_parts e)" by (cases k) auto
      then show False using Cons.prems(1) assms(3) by (auto simp: wf_disks_def)
    qed
    then have "get_disk (e # disks) (dk_path_parts d @ x # rest) = get_disk disks (dk_path_parts d @ x # rest)"
      by (simp add: get_disk_def)
    also have "\<dots> = Some d" using Cons.IH d Cons.prems(1) by (simp add: wf_disks_def)
    finally show ?thesis .
  qed
qed simp

lemma nth_part_append: "nth_part (xs @ ys) (length xs + i) = nth_part ys i"
  by (simp add: nth_part_def)

lemma escape_detached: "escape_for_file_name n = ''detached'' \<longleftrightarrow> n = ''detached''"
proof -
  have "escape_for_file_name ''detached'' = ''detached''" by code_simp
  then show ?thesis by (metis unescape_escape)
qed

text \<open>Parsing from the identifier on, with the directories in front of it.\<close>

lemma parse_from_uuid_own:
  assumes "wf_path p"
  shows "parse_from_uuid d f (pre @ [take 3 (uuid_str (pp_table_uuid p)), uuid_str (pp_table_uuid p)]
      @ (if pp_detached p then [''detached''] else []) @ [escape_for_file_name (pp_part_name p)] @ pp_file_parts p) (length pre + 1)
    = Inr (p\<lparr>pp_disk := d, pp_freeze_name := f\<rparr>)"
proof -
  have u: "UUID_RE (uuid_str (pp_table_uuid p))" "parse_uuid (uuid_str (pp_table_uuid p)) = Inr (pp_table_uuid p)"
    using assms uuid_str_matches by (auto simp: wf_path_def)
  show ?thesis using assms
    by (cases "pp_detached p")
      (simp_all add: parse_from_uuid_def nth_part_def nth_append Let_def u unescape_escape escape_detached wf_path_def)
qed

lemma parse_part_own:
  assumes "wf_disks disks" and "pp_disk p \<in> set disks" and "wf_path p"
  shows "parse_part_file_path disks (to_path p) = Inr p"
proof -
  define pre where "pre = dk_path_parts (pp_disk p)"
  define post where "post = [take 3 (uuid_str (pp_table_uuid p)), uuid_str (pp_table_uuid p)]
      @ (if pp_detached p then [''detached''] else []) @ [escape_for_file_name (pp_part_name p)] @ pp_file_parts p"
  have slash: "\<forall>s \<in> set (pre @ inner_parts p @ pp_file_parts p). CHR ''/'' \<notin> set s"
    using assms uuid_str_no_slash [of "pp_table_uuid p"] escape_no_slash
    by (auto simp: pre_def inner_parts_def wf_disks_def wf_path_def dest: in_set_takeD split: option.splits if_splits)
  have parts: "split_path (to_path p) = pre @ inner_parts p @ pp_file_parts p"
    using slash unfolding to_path_def pre_def [symmetric] by (intro split_join) (auto simp: inner_parts_def)
  show ?thesis
  proof (cases "pp_freeze_name p")
    case None
    then have i: "inner_parts p @ pp_file_parts p = ''store'' # post" by (simp add: inner_parts_def post_def)
    have "get_disk disks (pre @ ''store'' # post) = Some (pp_disk p)" unfolding pre_def using assms(1,2) by (rule get_disk_own) simp
    moreover have "parse_from_uuid (pp_disk p) None (pre @ ''store'' # post) (length pre + 2) = Inr p"
      using parse_from_uuid_own [OF assms(3), of "pp_disk p" None "pre @ [''store'']"] None by (simp add: post_def split del: if_split)
    ultimately show ?thesis unfolding parse_part_file_path_def Let_def parts i by (simp add: pre_def [symmetric] nth_part_def)
  next
    case (Some n)
    then have i: "inner_parts p @ pp_file_parts p = ''shadow'' # escape_for_file_name n # ''store'' # post"
      by (simp add: inner_parts_def post_def)
    have "get_disk disks (pre @ ''shadow'' # escape_for_file_name n # ''store'' # post) = Some (pp_disk p)"
      unfolding pre_def using assms(1,2) by (rule get_disk_own) simp
    moreover have "parse_from_uuid (pp_disk p) (Some n) (pre @ ''shadow'' # escape_for_file_name n # ''store'' # post) (length pre + 4) = Inr p"
      using parse_from_uuid_own [OF assms(3), of "pp_disk p" "Some n" "pre @ [''shadow'', escape_for_file_name n, ''store'']"] Some
      by (simp add: post_def eval_nat_numeral split del: if_split)
    ultimately show ?thesis unfolding parse_part_file_path_def Let_def parts i
      by (simp add: pre_def [symmetric] nth_part_def nth_append unescape_escape)
  qed
qed

text \<open>C29. The path of a file of a table part tells all that it was made from: parsing it finds the disk it is on, even when
  the paths of disks are inside one another, and the name of the freeze, the table, whether the part is detached, the
  part's name of any bytes, and the file inside of the part.\<close>

theorem part_path_roundtrip:
  assumes "wf_disks disks" and "pp_disk p \<in> set disks" and "wf_path p"
  shows "parse_part_file_path disks (to_path p) = Inr p"
  using assms by (rule parse_part_own)

definition example_disks :: "unit disk list" where
  "example_disks = [\<lparr>dk_type = ObjectStorage, dk_name = ''remote'', dk_path_parts = [''disks'', ''remote''], dk_object_storage = Some ()\<rparr>,
     \<lparr>dk_type = Local, dk_name = ''default'', dk_path_parts = [], dk_object_storage = None\<rparr>]"

definition example_path :: "unit parsed_path" where
  "example_path = \<lparr>pp_disk = hd example_disks, pp_freeze_name = Some ''astacus'', pp_table_uuid = example_uuid, pp_detached = False,
     pp_part_name = ''all_1_1_0'', pp_file_parts = [''data.bin'']\<rparr>"

theorem part_path_roundtrip_witness:
  "parse_part_file_path example_disks (to_path example_path) = Inr example_path"
  by (rule part_path_roundtrip)
    (simp add: wf_disks_def example_disks_def, simp add: example_path_def example_disks_def,
     simp add: wf_path_def example_path_def wf_uuid_def example_uuid_def lower_hex_def)

text \<open>Disks made from a configuration come in the order that parsing needs.\<close>

lemma from_disk_configs_wf:
  assumes "from_disk_configs mk configs storage_name = Inr disks" and "distinct (map dc_path configs)"
    and "\<forall>c \<in> set configs. \<forall>s \<in> set (dc_path c). CHR ''/'' \<notin> set s \<and> s \<noteq> ''store'' \<and> s \<noteq> ''shadow''"
  shows "wf_disks disks"
proof -
  obtain ds where ds: "map_res (from_disk_config mk storage_name) configs = Inr ds"
      "disks = sorted_reverse_by (\<lambda>disk. length (dk_path_parts disk)) ds"
    using assms(1) by (auto simp: from_disk_configs_def bind_res_Inr_iff)
  have path: "dk_path_parts d = dc_path c" if "from_disk_config mk storage_name c = Inr d" for c d
    using that by (auto simp: from_disk_config_def bind_res_Inr_iff)
  have paths: "map dk_path_parts ds = map dc_path configs"
    using ds(1) path by (auto simp: map_res_Inr_iff list_all2_conv_all_nth intro!: nth_equalityI)
  have "mset (map dk_path_parts disks) = mset (map dc_path configs)" using ds(2) paths by (metis mset_map mset_sorted_reverse_by)
  then have "distinct (map dk_path_parts disks)" "set (map dk_path_parts disks) = set (map dc_path configs)"
    using assms(2) mset_eq_imp_distinct_iff mset_eq_setD by blast+
  then have "\<forall>d \<in> set disks. \<exists>c \<in> set configs. dk_path_parts d = dc_path c" by auto
  then show ?thesis unfolding wf_disks_def
    using \<open>distinct (map dk_path_parts disks)\<close> assms(3) ds(2) sorted_sorted_reverse_by [of "\<lambda>disk. length (dk_path_parts disk)" ds] by metis
qed

section \<open>Parts\<close>

record part_file =
  pf_snapshot_file :: snapshot_file
  pf_servers :: "int set"

fun part_servers_loop :: "int set option \<Rightarrow> part_file list \<Rightarrow> int set result" where
  "part_servers_loop part_servers [] = (case part_servers of None \<Rightarrow> Inl AssertionError | Some s \<Rightarrow> Inr s)"
| "part_servers_loop part_servers (part_file # rest) =
     (case part_servers of
        None \<Rightarrow> part_servers_loop (Some (pf_servers part_file)) rest
      | Some s \<Rightarrow> if s \<noteq> pf_servers part_file then Inl ValueError else part_servers_loop (Some s) rest)"

definition get_part_servers :: "part_file list \<Rightarrow> int set result" where
  "get_part_servers part_files = part_servers_loop None part_files"

definition list_parts_to_attach :: "snapshot_file list option \<Rightarrow> 'o disk list \<Rightarrow> (uuid \<times> ch_table) list \<Rightarrow> (string \<times> string) list result" where
  "list_parts_to_attach state disks tables_by_uuid =
     (case state of None \<Rightarrow> Inl AssertionError
      | Some files \<Rightarrow> bind_res (map_res (\<lambda>f. parse_part_file_path disks (sf_relative_path f)) files)
          (\<lambda>paths. Inr (sort (remdups (concat (map (\<lambda>p. case dict_get tables_by_uuid (pp_table_uuid p) of
             None \<Rightarrow> [] | Some table \<Rightarrow> [(escaped_sql_identifier table, pp_part_name p)]) paths))))))"

lemma part_servers_loop_Some: "part_servers_loop (Some s) fs = (if \<forall>f \<in> set fs. pf_servers f = s then Inr s else Inl ValueError)"
proof (induction fs)
  case (Cons f fs)
  then show ?case by (cases "s = pf_servers f") auto
qed simp

lemma get_part_servers_iff: "get_part_servers fs = Inr s \<longleftrightarrow> fs \<noteq> [] \<and> (\<forall>f \<in> set fs. pf_servers f = s)"
  by (cases fs) (auto simp: get_part_servers_def part_servers_loop_Some)

lemma parts_to_attach_exact:
  assumes "wf_disks disks" and "\<forall>f \<in> set files. \<exists>p. pp_disk p \<in> set disks \<and> wf_path p \<and> sf_relative_path f = to_path p"
  shows "\<exists>attach. list_parts_to_attach (Some files) disks tables = Inr attach \<and> sorted attach \<and> distinct attach
    \<and> set attach = {(escaped_sql_identifier t, pp_part_name p) | t p f. f \<in> set files \<and> parse_part_file_path disks (sf_relative_path f) = Inr p
         \<and> dict_get tables (pp_table_uuid p) = Some t}"
proof -
  have "\<exists>p. parse_part_file_path disks (sf_relative_path f) = Inr p" if mem: "f \<in> set files" for f
    using assms mem parse_part_own by fastforce
  then obtain g where g: "\<And>f. f \<in> set files \<Longrightarrow> parse_part_file_path disks (sf_relative_path f) = Inr (g f)" by metis
  have "map_res (\<lambda>f. parse_part_file_path disks (sf_relative_path f)) files = Inr (map g files)"
    using g by (rule map_res_total)
  then show ?thesis using g by (auto simp: list_parts_to_attach_def split: option.splits) (metis option.distinct(1))+
qed

section \<open>Metadata of remote files\<close>

record object_metadata =
  om_size_bytes :: nat
  om_relative_path :: string

record file_metadata =
  fm_metadata_version :: nat
  fm_objects :: "object_metadata list"
  fm_ref_count :: nat
  fm_read_only :: bool

fun split_lines :: "string \<Rightarrow> string list" where
  "split_lines [] = [[]]"
| "split_lines (c # cs) = (if c = CHR 0x0A then [] # split_lines cs
     else (case split_lines cs of [] \<Rightarrow> [[c]] | w # ws \<Rightarrow> (c # w) # ws))"

definition is_number :: "string \<Rightarrow> bool" where
  "is_number s \<longleftrightarrow> s \<noteq> [] \<and> list_all (\<lambda>c. c \<in> set ''0123456789'') s"

definition number :: "string \<Rightarrow> nat" where
  "number s = foldl (\<lambda>n c. 10 * n + (of_char c - 48)) 0 s"

text \<open>A line with a number, a tab and a text that is not empty.\<close>

definition tabbed_line :: "string \<Rightarrow> (nat \<times> string) option" where
  "tabbed_line s = (let n = takeWhile (\<lambda>c. c \<noteq> CHR 0x09) s; rest = dropWhile (\<lambda>c. c \<noteq> CHR 0x09) s in
     if is_number n \<and> length rest \<ge> 2 then Some (number n, tl rest) else None)"

text \<open>The lines of objects, then the lines after them: a line of an object has a tab, the next line is a number.\<close>

fun object_lines :: "string list \<Rightarrow> (nat \<times> string) list \<times> string list" where
  "object_lines [] = ([], [])"
| "object_lines (l # ls) = (case tabbed_line l of
     None \<Rightarrow> ([], l # ls) | Some x \<Rightarrow> (case object_lines ls of (xs, rest) \<Rightarrow> (x # xs, rest)))"

text \<open>The match of the whole content: the version, the counts, the objects, the reference count and the flag. The \<^verbatim>\<open>$\<close> at
  the end also matches before one more newline.\<close>

definition match_file_metadata :: "string \<Rightarrow> ((nat \<times> nat) \<times> (nat \<times> string) list \<times> nat \<times> bool) option" where
  "match_file_metadata content = (case split_lines content of
     version # counts # ls \<Rightarrow>
       (case tabbed_line counts of
          Some (objects_count, objects_size_bytes) \<Rightarrow>
            if version = ''3'' \<and> is_number objects_size_bytes then
              (case object_lines ls of
                 (objects, ref_count # read_only # end) \<Rightarrow>
                   if is_number ref_count \<and> (read_only = ''0'' \<or> read_only = ''1'') \<and> (end = [[]] \<or> end = [[], []])
                   then Some ((objects_count, number objects_size_bytes), objects, number ref_count, read_only = ''1'') else None
               | _ \<Rightarrow> None)
            else None
        | None \<Rightarrow> None)
   | _ \<Rightarrow> None)"

definition object_metadata_of :: "nat \<times> string \<Rightarrow> object_metadata result" where
  "object_metadata_of p = (case decode (snd p) of None \<Rightarrow> Inl ValueError | Some s \<Rightarrow> Inr \<lparr>om_size_bytes = fst p, om_relative_path = s\<rparr>)"

text \<open>\<^verbatim>\<open>InvalidFileMetadata\<close> and \<^verbatim>\<open>UnicodeDecodeError\<close> are \<^verbatim>\<open>ValueError\<close>s.\<close>

definition from_bytes :: "string \<Rightarrow> file_metadata result" where
  "from_bytes content = (case match_file_metadata content of
     None \<Rightarrow> Inl ValueError
   | Some ((expected_objects_count, expected_objects_size), objects, ref_count, read_only) \<Rightarrow>
       bind_res (map_res object_metadata_of objects) (\<lambda>objects_metadata.
       if length objects_metadata \<noteq> expected_objects_count then Inl ValueError
       else if sum_list (map om_size_bytes objects_metadata) \<noteq> expected_objects_size then Inl ValueError
       else Inr \<lparr>fm_metadata_version = 3, fm_objects = objects_metadata, fm_ref_count = ref_count, fm_read_only = read_only\<rparr>))"

text \<open>The metadata file that ClickHouse writes, given how numbers are printed, is read back.\<close>

definition object_line :: "(nat \<Rightarrow> string) \<Rightarrow> object_metadata \<Rightarrow> string" where
  "object_line pr o' = pr (om_size_bytes o') @ CHR 0x09 # om_relative_path o'"

definition metadata_lines :: "(nat \<Rightarrow> string) \<Rightarrow> file_metadata \<Rightarrow> string list" where
  "metadata_lines pr m = [''3'', pr (length (fm_objects m)) @ CHR 0x09 # pr (sum_list (map om_size_bytes (fm_objects m)))]
     @ map (object_line pr) (fm_objects m) @ [pr (fm_ref_count m), if fm_read_only m then ''1'' else ''0'']"

definition to_bytes :: "(nat \<Rightarrow> string) \<Rightarrow> file_metadata \<Rightarrow> string" where
  "to_bytes pr m = concat (map (\<lambda>l. l @ [CHR 0x0A]) (metadata_lines pr m))"

lemma split_lines_line: "CHR 0x0A \<notin> set l \<Longrightarrow> split_lines (l @ CHR 0x0A # s) = l # split_lines s"
  by (induction l) auto

lemma split_lines_lines:
  "(\<And>l. l \<in> set ls \<Longrightarrow> CHR 0x0A \<notin> set l) \<Longrightarrow> split_lines (concat (map (\<lambda>l. l @ [CHR 0x0A]) ls)) = ls @ [[]]"
  by (induction ls) (simp_all add: split_lines_line)

lemma number_no_separators: "is_number s \<Longrightarrow> CHR 0x0A \<notin> set s \<and> CHR 0x09 \<notin> set s"
proof -
  have "\<forall>c \<in> set ''0123456789''. c \<noteq> CHR 0x0A \<and> c \<noteq> CHR 0x09" by code_simp
  then show "is_number s \<Longrightarrow> CHR 0x0A \<notin> set s \<and> CHR 0x09 \<notin> set s" unfolding is_number_def list_all_iff by blast
qed

lemma tabbed_line_printed: "is_number n \<Longrightarrow> t \<noteq> [] \<Longrightarrow> tabbed_line (n @ CHR 0x09 # t) = Some (number n, t)"
proof -
  assume n: "is_number n" and t: "t \<noteq> []"
  have "takeWhile (\<lambda>c. c \<noteq> CHR 0x09) (n @ CHR 0x09 # t) = n" "dropWhile (\<lambda>c. c \<noteq> CHR 0x09) (n @ CHR 0x09 # t) = CHR 0x09 # t"
    using number_no_separators [OF n] by (auto simp: takeWhile_append dropWhile_append)
  then show ?thesis using n t by (cases t) (simp_all add: tabbed_line_def)
qed

lemma tabbed_line_number: "is_number n \<Longrightarrow> tabbed_line n = None"
proof -
  assume "is_number n"
  then have "length (dropWhile (\<lambda>c. c \<noteq> CHR 0x09) n) = 0" using number_no_separators [of n] by auto
  then show ?thesis unfolding tabbed_line_def Let_def by (simp only: if_False) simp
qed

lemma object_lines_printed:
  assumes "\<And>n. is_number (pr n) \<and> number (pr n) = n" and "\<And>o'. o' \<in> set os \<Longrightarrow> om_relative_path o' \<noteq> []" and "tabbed_line l = None"
  shows "object_lines (map (object_line pr) os @ l # ls) = (map (\<lambda>o'. (om_size_bytes o', om_relative_path o')) os, l # ls)"
  using assms(2)
proof (induction os)
  case (Cons o' os)
  then show ?case using assms(1) by (simp add: object_line_def tabbed_line_printed)
qed (use assms(3) in simp)

lemma file_metadata_roundtrip:
  assumes "\<And>n. is_number (pr n) \<and> number (pr n) = n" and "fm_metadata_version m = 3"
    and "\<And>o'. o' \<in> set (fm_objects m) \<Longrightarrow> om_relative_path o' \<noteq> [] \<and> CHR 0x0A \<notin> set (om_relative_path o') \<and> decode (om_relative_path o') = Some (om_relative_path o')"
  shows "from_bytes (to_bytes pr m) = Inr m"
proof -
  have nl: "CHR 0x0A \<notin> set (pr n)" for n using assms(1) number_no_separators by blast
  have "CHR 0x0A \<notin> set l" if "l \<in> set (metadata_lines pr m)" for l
    using that nl assms(3) by (cases "fm_read_only m") (auto simp: metadata_lines_def object_line_def)
  then have lines: "split_lines (to_bytes pr m) = metadata_lines pr m @ [[]]" unfolding to_bytes_def by (rule split_lines_lines)
  have ne: "pr n \<noteq> []" for n using assms(1) by (auto simp: is_number_def)
  have objs: "object_lines (map (object_line pr) (fm_objects m) @ pr (fm_ref_count m) # ls)
      = (map (\<lambda>o'. (om_size_bytes o', om_relative_path o')) (fm_objects m), pr (fm_ref_count m) # ls)" for ls
    using assms(1,3) tabbed_line_number by (intro object_lines_printed) auto
  have "map_res object_metadata_of (map (\<lambda>o'. (om_size_bytes o', om_relative_path o')) (fm_objects m)) = Inr (fm_objects m)"
    using assms(3) by (induction "fm_objects m") (auto simp: map_res_Inr_iff list_all2_map1 object_metadata_of_def list_all2_same)
  then show ?thesis unfolding from_bytes_def match_file_metadata_def lines
    using assms(1,2) ne by (simp add: metadata_lines_def objs tabbed_line_printed)
qed

end
