(* ===== verification/Clickhouse_Order.thy ===== *)
theory Clickhouse_Order
  imports Clickhouse_Manifest
begin

text \<open>
  The order in which tables and access entities are created on restore:
  \<^verbatim>\<open>astacus/coordinator/plugins/clickhouse/dependencies.py\<close>, with the topological sorter of the standard library that it
  uses: counts of predecessors, the nodes without predecessors first, and then, whenever a node is done, those of its
  successors whose last predecessor it was. Shown: every element comes after all that it depends on, and
  the sort fails only when the dependencies have a cycle.
\<close>

section \<open>The topological sorter\<close>

text \<open>The nodes in the order in which they were first mentioned, and the edges from a predecessor to a node.\<close>

record 'k sorter =
  ts_keys :: "'k list"
  ts_edges :: "('k \<times> 'k) list"

definition new_sorter :: "'k sorter" where "new_sorter = \<lparr>ts_keys = [], ts_edges = []\<rparr>"

definition mention :: "'k \<Rightarrow> 'k list \<Rightarrow> 'k list" where
  "mention k ks = (if k \<in> set ks then ks else ks @ [k])"

definition sorter_add :: "'k \<Rightarrow> 'k list \<Rightarrow> 'k sorter \<Rightarrow> 'k sorter" where
  "sorter_add node preds s = \<lparr>ts_keys = fold mention preds (mention node (ts_keys s)), ts_edges = ts_edges s @ map (\<lambda>p. (p, node)) preds\<rparr>"

definition succs :: "('k \<times> 'k) list \<Rightarrow> 'k \<Rightarrow> 'k list" where
  "succs es p = map snd (filter (\<lambda>e. fst e = p) es)"

fun release :: "('k \<Rightarrow> nat) \<Rightarrow> 'k list \<Rightarrow> 'k list \<times> ('k \<Rightarrow> nat)" where
  "release c [] = ([], c)"
| "release c (s # ss) = (case release (c(s := c s - 1)) ss of (r, c') \<Rightarrow> (if c s = 1 then s # r else r, c'))"

lemma release_result:
  assumes "release c ss = (r, c')"
  shows "c' k = c k - count_list ss k" and "k \<in> set r \<longleftrightarrow> 0 < c k \<and> c k \<le> count_list ss k" and "distinct r"
proof -
  have "(\<forall>k. c' k = c k - count_list ss k) \<and> (\<forall>k. k \<in> set r \<longleftrightarrow> 0 < c k \<and> c k \<le> count_list ss k) \<and> distinct r"
    using assms
  proof (induction ss arbitrary: c r c')
    case (Cons s ss)
    obtain r1 c1 where 1: "release (c(s := c s - 1)) ss = (r1, c1)" by (cases "release (c(s := c s - 1)) ss")
    note IH = Cons.IH [OF 1]
    have r: "r = (if c s = 1 then s # r1 else r1)" "c' = c1" using Cons.prems 1 by auto
    have k: "c' k = c k - count_list (s # ss) k \<and> (k \<in> set r \<longleftrightarrow> 0 < c k \<and> c k \<le> count_list (s # ss) k)" for k
    proof (cases "k = s")
      case True
      have "c1 s = c s - 1 - count_list ss s" "s \<in> set r1 \<longleftrightarrow> 0 < c s - 1 \<and> c s - 1 \<le> count_list ss s" using IH by auto
      then show ?thesis unfolding True r by (cases "c s = 1") auto
    next
      case False
      then have "c1 k = c k - count_list ss k" "k \<in> set r1 \<longleftrightarrow> 0 < c k \<and> c k \<le> count_list ss k" using IH by auto
      then show ?thesis unfolding r using False by (cases "c s = 1") auto
    qed
    have "s \<notin> set r1" if "c s = 1" using IH that by auto
    then have "distinct r" using IH r by auto
    then show ?case using k by blast
  qed auto
  then show "c' k = c k - count_list ss k" and "k \<in> set r \<longleftrightarrow> 0 < c k \<and> c k \<le> count_list ss k" and "distinct r"
    by auto
qed

lemma count_pos_in: "0 < count_list xs x \<longleftrightarrow> x \<in> set xs"
  by (induction xs) auto

function kahn :: "('k \<times> 'k) list \<Rightarrow> 'k list \<Rightarrow> ('k \<Rightarrow> nat) \<Rightarrow> 'k list" where
  "kahn es level c = (if level = [] then [] else
     (case release c (concat (map (succs es) level)) of (r, c') \<Rightarrow> level @ kahn es r c'))"
  by pat_completeness auto

termination
proof (relation "measures [\<lambda>(es, level, c). sum_list (map (c \<circ> snd) es), \<lambda>(es, level, c). length level]", goal_cases)
  case (2 es level c r c')
  then have res: "release c (concat (map (succs es) level)) = (r, c')" by simp
  note rr = release_result [OF res]
  have le: "sum_list (map (c' \<circ> snd) es) \<le> sum_list (map (c \<circ> snd) es)"
    by (rule sum_list_mono) (simp add: rr(1))
  show ?case
  proof (cases "r = []")
    case True
    then show ?thesis using le 2(1) by auto
  next
    case False
    then obtain k where k: "k \<in> set r" by (cases r) auto
    then have less: "c' k < c k" and mem: "k \<in> set (concat (map (succs es) level))"
      using rr(1,2) [of k] count_pos_in [of "concat (map (succs es) level)" k] by auto
    from mem obtain p where p: "(p, k) \<in> set es" by (auto simp: succs_def)
    obtain e1 e2 where es: "es = e1 @ (p, k) # e2" using split_list [OF p] by blast
    have "sum_list (map (c' \<circ> snd) e1) \<le> sum_list (map (c \<circ> snd) e1)" "sum_list (map (c' \<circ> snd) e2) \<le> sum_list (map (c \<circ> snd) e2)"
      by (rule sum_list_mono, simp add: rr(1))+
    then show ?thesis using less by (simp add: es)
  qed
qed simp

declare kahn.simps [simp del]

text \<open>A cycle is reported before any node is returned.\<close>

definition npredecessors :: "('k \<times> 'k) list \<Rightarrow> 'k \<Rightarrow> nat" where
  "npredecessors es k = count_list (map snd es) k"

definition static_order :: "'k sorter \<Rightarrow> 'k list result" where
  "static_order s = (let c = npredecessors (ts_edges s); order = kahn (ts_edges s) (filter (\<lambda>k. c k = 0) (ts_keys s)) c in
     if list_all (\<lambda>k. k \<in> set order) (ts_keys s) then Inr order else Inl ValueError)"

section \<open>The order respects the edges\<close>

definition remaining :: "('k \<times> 'k) list \<Rightarrow> 'k set \<Rightarrow> 'k \<Rightarrow> nat" where
  "remaining es D k = length (filter (\<lambda>e. snd e = k \<and> fst e \<notin> D) es)"

lemma remaining_zero_iff: "remaining es D k = 0 \<longleftrightarrow> (\<forall>p. (p, k) \<in> set es \<longrightarrow> p \<in> D)"
  by (auto simp: remaining_def filter_empty_conv)

lemma count_succs: "count_list (succs es p) k = length (filter (\<lambda>e. snd e = k \<and> fst e = p) es)"
  by (induction es) (auto simp: succs_def)

lemma remaining_split:
  assumes "A \<inter> D = {}"
  shows "remaining es D k = length (filter (\<lambda>e. snd e = k \<and> fst e \<in> A) es) + remaining es (D \<union> A) k"
  using assms by (induction es) (auto simp: remaining_def)

lemma count_level:
  assumes "distinct level"
  shows "count_list (concat (map (succs es) level)) k = length (filter (\<lambda>e. snd e = k \<and> fst e \<in> set level) es)"
  using assms
proof (induction level)
  case (Cons p level)
  have "length (filter (\<lambda>e. snd e = k \<and> fst e \<in> set (p # level)) es)
      = length (filter (\<lambda>e. snd e = k \<and> fst e = p) es) + length (filter (\<lambda>e. snd e = k \<and> fst e \<in> set level) es)"
    using Cons.prems by (induction es) auto
  then show ?case using Cons by (simp add: count_succs)
qed simp

definition kahn_inv :: "('k \<times> 'k) list \<Rightarrow> 'k set \<Rightarrow> 'k set \<Rightarrow> 'k list \<Rightarrow> ('k \<Rightarrow> nat) \<Rightarrow> bool" where
  "kahn_inv es keys D level c \<longleftrightarrow> (\<forall>k. c k = remaining es D k) \<and> distinct level \<and> set level \<inter> D = {} \<and> set level \<subseteq> keys
     \<and> (\<forall>k \<in> D \<union> set level. c k = 0) \<and> (\<forall>k \<in> keys. c k = 0 \<longrightarrow> k \<in> D \<union> set level) \<and> snd ` set es \<subseteq> keys"

lemma kahn_inv_step:
  assumes inv: "kahn_inv es keys D level c" and res: "release c (concat (map (succs es) level)) = (r, c')"
  shows "kahn_inv es keys (D \<union> set level) r c'"
proof -
  note rr = release_result [OF res]
  have c: "c k = remaining es D k" for k using inv by (simp add: kahn_inv_def)
  have cnt: "c k = count_list (concat (map (succs es) level)) k + remaining es (D \<union> set level) k" for k
    using inv remaining_split [of "set level" D es k] by (simp add: kahn_inv_def count_level)
  have c': "c' k = remaining es (D \<union> set level) k" for k using rr(1) [of k] cnt [of k] by simp
  have r: "k \<in> set r \<longleftrightarrow> 0 < c k \<and> c' k = 0" for k using rr(2) [of k] cnt [of k] c' [of k] by auto
  have keys: "set r \<subseteq> keys"
  proof
    fix k assume "k \<in> set r"
    then have "remaining es D k \<noteq> 0" using r c by simp
    then obtain p where "(p, k) \<in> set es" by (auto simp: remaining_zero_iff)
    then show "k \<in> keys" using inv by (force simp: kahn_inv_def)
  qed
  have zero: "c k = 0 \<Longrightarrow> c' k = 0" for k using rr(1) [of k] by simp
  have old: "c k = 0" if "k \<in> D \<union> set level" for k using inv that unfolding kahn_inv_def by blast
  have new: "k \<in> (D \<union> set level) \<union> set r" if "k \<in> keys" "c' k = 0" for k
    using inv that r unfolding kahn_inv_def by (cases "c k = 0") auto
  have "snd ` set es \<subseteq> keys" using inv by (simp add: kahn_inv_def)
  moreover have "set r \<inter> (D \<union> set level) = {}" using r old by auto
  moreover have "\<forall>k \<in> (D \<union> set level) \<union> set r. c' k = 0" using r old zero by blast
  ultimately show ?thesis unfolding kahn_inv_def using c' rr(3) keys new by blast
qed

definition ordered_after :: "('k \<times> 'k) list \<Rightarrow> 'k set \<Rightarrow> 'k list \<Rightarrow> bool" where
  "ordered_after es D xs \<longleftrightarrow> (\<forall>i < length xs. \<forall>p. (p, xs ! i) \<in> set es \<longrightarrow> p \<in> D \<union> set (take i xs))"

lemma ordered_after_append:
  assumes "\<forall>n \<in> set xs. \<forall>p. (p, n) \<in> set es \<longrightarrow> p \<in> D" and "ordered_after es (D \<union> set xs) ys"
  shows "ordered_after es D (xs @ ys)"
  unfolding ordered_after_def
proof (intro allI impI)
  fix i p assume i: "i < length (xs @ ys)" and e: "(p, (xs @ ys) ! i) \<in> set es"
  show "p \<in> D \<union> set (take i (xs @ ys))"
  proof (cases "i < length xs")
    case True
    then show ?thesis using assms(1) e nth_mem [OF True] by (auto simp: nth_append)
  next
    case False
    then have "p \<in> (D \<union> set xs) \<union> set (take (i - length xs) ys)"
      using assms(2) i e unfolding ordered_after_def by (simp add: nth_append)
    then show ?thesis using False by auto
  qed
qed

lemma kahn_correct:
  assumes "kahn_inv es keys D level c"
  shows "distinct (kahn es level c) \<and> set (kahn es level c) \<subseteq> keys - D \<and> ordered_after es D (kahn es level c)
    \<and> (\<forall>k \<in> keys - (D \<union> set (kahn es level c)). \<exists>p. (p, k) \<in> set es \<and> p \<notin> D \<union> set (kahn es level c))"
  using assms
proof (induction es level c arbitrary: D rule: kahn.induct)
  case (1 es level c)
  show ?case
  proof (cases "level = []")
    case True
    have "\<exists>p. (p, k) \<in> set es \<and> p \<notin> D" if "k \<in> keys" "k \<notin> D" for k
    proof -
      have "remaining es D k \<noteq> 0" using 1(2) that True by (auto simp: kahn_inv_def)
      then show ?thesis by (auto simp: remaining_zero_iff)
    qed
    then show ?thesis using True by (auto simp: kahn.simps ordered_after_def)
  next
    case False
    obtain r c' where res: "release c (concat (map (succs es) level)) = (r, c')"
      by (cases "release c (concat (map (succs es) level))")
    have k: "kahn es level c = level @ kahn es r c'" using False res by (simp add: kahn.simps [of es level])
    note IH = 1(1) [OF False, of r c' "D \<union> set level", OF res [symmetric] kahn_inv_step [OF 1(2) res]]
    have pre: "\<forall>n \<in> set level. \<forall>p. (p, n) \<in> set es \<longrightarrow> p \<in> D" using 1(2)
      by (simp add: kahn_inv_def) (metis UnI2 remaining_zero_iff)
    have "distinct level" "set level \<subseteq> keys - D" using 1(2) by (auto simp: kahn_inv_def)
    then show ?thesis unfolding k using IH ordered_after_append [OF pre] by auto
  qed
qed

definition wf_sorter :: "'k sorter \<Rightarrow> bool" where
  "wf_sorter s \<longleftrightarrow> distinct (ts_keys s) \<and> fst ` set (ts_edges s) \<union> snd ` set (ts_edges s) \<subseteq> set (ts_keys s)"

lemma set_mention [simp]: "set (mention k ks) = insert k (set ks)" "distinct ks \<Longrightarrow> distinct (mention k ks)"
  by (auto simp: mention_def)

lemma fold_mention: "set (fold mention ps ks) = set ps \<union> set ks" "distinct ks \<Longrightarrow> distinct (fold mention ps ks)"
  by (induction ps arbitrary: ks) auto

lemma wf_sorter_add: "wf_sorter s \<Longrightarrow> wf_sorter (sorter_add node preds s)"
  by (auto simp: wf_sorter_def sorter_add_def fold_mention)

lemma npredecessors_remaining: "npredecessors es k = remaining es {} k"
  unfolding npredecessors_def remaining_def by (induction es) auto

lemma static_order_correct:
  assumes "wf_sorter s"
  shows "static_order s = Inr order \<Longrightarrow> distinct order \<and> set order = set (ts_keys s) \<and> ordered_after (ts_edges s) {} order"
    and "acyclic (set (ts_edges s)) \<Longrightarrow> \<exists>order. static_order s = Inr order"
proof -
  let ?es = "ts_edges s" and ?c = "npredecessors (ts_edges s)"
  let ?o = "kahn ?es (filter (\<lambda>k. ?c k = 0) (ts_keys s)) ?c"
  have c: "?c k = remaining ?es {} k" for k by (rule npredecessors_remaining)
  have "kahn_inv ?es (set (ts_keys s)) {} (filter (\<lambda>k. ?c k = 0) (ts_keys s)) ?c"
    using assms c by (auto simp: kahn_inv_def wf_sorter_def)
  note K = kahn_correct [OF this]
  show "static_order s = Inr order \<Longrightarrow> distinct order \<and> set order = set (ts_keys s) \<and> ordered_after ?es {} order"
    using K by (auto simp: static_order_def Let_def list_all_iff split: if_splits)
  assume ac: "acyclic (set ?es)"
  have "set (ts_keys s) - set ?o = {}"
  proof (rule ccontr)
    assume "set (ts_keys s) - set ?o \<noteq> {}"
    then obtain z where z: "z \<in> set (ts_keys s) - set ?o" "\<And>y. (y, z) \<in> set ?es \<Longrightarrow> y \<notin> set (ts_keys s) - set ?o"
      using wfE_min [OF finite_acyclic_wf [OF _ ac]] by (metis List.finite_set equals0I)
    have "\<forall>k \<in> set (ts_keys s) - set ?o. \<exists>p. (p, k) \<in> set ?es \<and> p \<notin> set ?o" using K by simp
    then obtain p where "(p, z) \<in> set ?es" "p \<notin> set ?o" using z(1) by blast
    moreover then have "p \<in> set (ts_keys s)" using assms by (force simp: wf_sorter_def)
    ultimately show False using z(2) by blast
  qed
  then show "\<exists>order. static_order s = Inr order" by (auto simp: static_order_def Let_def list_all_iff)
qed

section \<open>Sorting tables and access entities\<close>

text \<open>The position of a key in the order, as \<^verbatim>\<open>list.index\<close> gives it for keys that occur.\<close>

fun index_of :: "'k list \<Rightarrow> 'k \<Rightarrow> nat" where
  "index_of [] k = 0"
| "index_of (x # xs) k = (if x = k then 0 else Suc (index_of xs k))"

definition add_element :: "('n \<Rightarrow> 'k) \<Rightarrow> ('n \<Rightarrow> 'k list) \<Rightarrow> ('n \<Rightarrow> 'k list) \<Rightarrow> 'n \<Rightarrow> 'k sorter \<Rightarrow> 'k sorter" where
  "add_element get_key get_dependencies get_dependants element s =
     fold (\<lambda>d. sorter_add d [get_key element]) (get_dependants element)
       (fold (\<lambda>d. sorter_add (get_key element) [d]) (get_dependencies element) (sorter_add (get_key element) [] s))"

definition build_sorter :: "('n \<Rightarrow> 'k) \<Rightarrow> ('n \<Rightarrow> 'k list) \<Rightarrow> ('n \<Rightarrow> 'k list) \<Rightarrow> 'n list \<Rightarrow> 'k sorter" where
  "build_sorter get_key get_dependencies get_dependants nodes = fold (add_element get_key get_dependencies get_dependants) nodes new_sorter"

definition sort_topologically :: "'n list \<Rightarrow> ('n \<Rightarrow> 'k) \<Rightarrow> ('n \<Rightarrow> 'k list) \<Rightarrow> ('n \<Rightarrow> 'k list) \<Rightarrow> 'n list result" where
  "sort_topologically nodes get_key get_dependencies get_dependants =
     bind_res (static_order (build_sorter get_key get_dependencies get_dependants nodes))
       (\<lambda>sort_order. Inr (sort_key (\<lambda>element. index_of sort_order (get_key element)) nodes))"

definition table_key :: "ch_table \<Rightarrow> string \<times> string" where
  "table_key t = (tb_database t, tb_name t)"

definition tables_sorted_by_dependencies :: "ch_table list \<Rightarrow> ch_table list result" where
  "tables_sorted_by_dependencies tables = sort_topologically tables table_key (\<lambda>x. []) tb_dependencies"

text \<open>The matches of the expression for entity identifiers, a fixed length of text each.\<close>

function find_ids :: "string \<Rightarrow> string list" where
  "find_ids s = (if s = [] then []
     else if take 4 s = ''ID('' @ [CHR 0x27] \<and> UUID_RE (take 36 (drop 4 s)) \<and> take 2 (drop 40 s) = [CHR 0x27, CHR '')'']
     then take 36 (drop 4 s) # find_ids (drop 42 s) else find_ids (tl s))"
  by pat_completeness auto
termination by (relation "measure length") auto

declare find_ids.simps [simp del]

text \<open>Every match is a UUID, so that its conversion does not fail.\<close>

definition entity_dependencies :: "access_entity \<Rightarrow> uuid list" where
  "entity_dependencies e = concat (map (\<lambda>t. case parse_uuid t of Inr u \<Rightarrow> [u] | Inl _ \<Rightarrow> []) (find_ids (ae_attach_query e)))"

definition access_entities_sorted_by_dependencies :: "access_entity list \<Rightarrow> access_entity list result" where
  "access_entities_sorted_by_dependencies access_entities = sort_topologically access_entities ae_uuid entity_dependencies (\<lambda>x. [])"

lemma index_of_nth: "distinct xs \<Longrightarrow> i < length xs \<Longrightarrow> index_of xs (xs ! i) = i"
  by (induction xs arbitrary: i) (auto simp: nth_Cons split: nat.splits)

lemma ordered_after_index:
  assumes "ordered_after es {} order" and "distinct order" and "(p, n) \<in> set es" and "n \<in> set order"
  shows "index_of order p < index_of order n"
proof -
  obtain i where i: "i < length order" "order ! i = n" using assms(4) by (auto simp: in_set_conv_nth)
  then have "p \<in> set (take i order)" using assms(1,3) by (auto simp: ordered_after_def)
  then obtain j where j: "j < i" "order ! j = p" using i(1) by (auto simp: in_set_conv_nth)
  then have "index_of order p = j" using index_of_nth [OF assms(2), of j] i(1) by auto
  moreover have "index_of order n = i" using index_of_nth [OF assms(2) i(1)] i(2) by simp
  ultimately show ?thesis using j(1) by simp
qed

definition dependency_edges :: "('n \<Rightarrow> 'k) \<Rightarrow> ('n \<Rightarrow> 'k list) \<Rightarrow> ('n \<Rightarrow> 'k list) \<Rightarrow> 'n list \<Rightarrow> ('k \<times> 'k) set" where
  "dependency_edges get_key get_dependencies get_dependants nodes =
     {(d, get_key n) | d n. n \<in> set nodes \<and> d \<in> set (get_dependencies n)} \<union> {(get_key n, d) | d n. n \<in> set nodes \<and> d \<in> set (get_dependants n)}"

lemma build_fold_deps:
  "wf_sorter s \<Longrightarrow> wf_sorter (fold (\<lambda>d. sorter_add k [d]) ds s)
    \<and> set (ts_edges (fold (\<lambda>d. sorter_add k [d]) ds s)) = set (ts_edges s) \<union> (\<lambda>d. (d, k)) ` set ds
    \<and> set (ts_keys s) \<subseteq> set (ts_keys (fold (\<lambda>d. sorter_add k [d]) ds s))"
proof (induction ds arbitrary: s)
  case (Cons d ds)
  from Cons.IH [OF wf_sorter_add [OF Cons.prems, of k "[d]"]] show ?case by (auto simp: sorter_add_def)
qed simp

lemma build_fold_dependants:
  "wf_sorter s \<Longrightarrow> wf_sorter (fold (\<lambda>d. sorter_add d [k]) ds s)
    \<and> set (ts_edges (fold (\<lambda>d. sorter_add d [k]) ds s)) = set (ts_edges s) \<union> (\<lambda>d. (k, d)) ` set ds
    \<and> set (ts_keys s) \<subseteq> set (ts_keys (fold (\<lambda>d. sorter_add d [k]) ds s))"
proof (induction ds arbitrary: s)
  case (Cons d ds)
  from Cons.IH [OF wf_sorter_add [OF Cons.prems, of d "[k]"]] show ?case by (auto simp: sorter_add_def)
qed simp

lemma add_element_result:
  assumes "wf_sorter s"
  shows "wf_sorter (add_element gk gd gn n s)
    \<and> set (ts_edges (add_element gk gd gn n s)) = set (ts_edges s) \<union> dependency_edges gk gd gn [n]
    \<and> insert (gk n) (set (ts_keys s)) \<subseteq> set (ts_keys (add_element gk gd gn n s))"
proof -
  let ?s1 = "sorter_add (gk n) [] s"
  note 1 = build_fold_deps [OF wf_sorter_add [OF assms, of "gk n" "[]"], of "gk n" "gd n"]
  note 2 = build_fold_dependants [of "fold (\<lambda>d. sorter_add (gk n) [d]) (gd n) ?s1" "gk n" "gn n", OF conjunct1 [OF 1]]
  have e: "set (ts_edges ?s1) = set (ts_edges s)" "insert (gk n) (set (ts_keys s)) \<subseteq> set (ts_keys ?s1)"
    by (auto simp: sorter_add_def)
  show ?thesis using 1 2 e unfolding add_element_def dependency_edges_def by auto
qed

lemma wf_new_sorter: "wf_sorter new_sorter" "ts_edges new_sorter = []"
  by (simp_all add: new_sorter_def wf_sorter_def)

lemma build_sorter_result:
  shows "wf_sorter (build_sorter gk gd gn nodes)"
    and "set (ts_edges (build_sorter gk gd gn nodes)) = dependency_edges gk gd gn nodes"
    and "gk ` set nodes \<subseteq> set (ts_keys (build_sorter gk gd gn nodes))"
proof -
  have "wf_sorter s \<Longrightarrow> wf_sorter (fold (add_element gk gd gn) nodes s)
      \<and> set (ts_edges (fold (add_element gk gd gn) nodes s)) = set (ts_edges s) \<union> dependency_edges gk gd gn nodes
      \<and> gk ` set nodes \<union> set (ts_keys s) \<subseteq> set (ts_keys (fold (add_element gk gd gn) nodes s))" for s
  proof (induction nodes arbitrary: s)
    case (Cons n nodes)
    note a = add_element_result [OF Cons.prems, of gk gd gn n]
    note IH = Cons.IH [OF conjunct1 [OF a]]
    have "dependency_edges gk gd gn (n # nodes) = dependency_edges gk gd gn [n] \<union> dependency_edges gk gd gn nodes"
      by (auto simp: dependency_edges_def)
    then show ?case using a IH by auto
  qed (auto simp: dependency_edges_def)
  from this [of new_sorter] show "wf_sorter (build_sorter gk gd gn nodes)"
    and "set (ts_edges (build_sorter gk gd gn nodes)) = dependency_edges gk gd gn nodes"
    and "gk ` set nodes \<subseteq> set (ts_keys (build_sorter gk gd gn nodes))"
    by (simp_all add: build_sorter_def wf_new_sorter)
qed

lemma sort_topologically_result:
  assumes "sort_topologically nodes gk gd gn = Inr res"
  shows "mset res = mset nodes \<and> sorted_wrt (\<lambda>a b. (gk b, gk a) \<notin> dependency_edges gk gd gn nodes) res"
proof -
  let ?s = "build_sorter gk gd gn nodes"
  obtain order where o: "static_order ?s = Inr order" and res: "res = sort_key (\<lambda>n. index_of order (gk n)) nodes"
    using assms by (auto simp: sort_topologically_def bind_res_Inr_iff)
  note O = static_order_correct(1) [OF build_sorter_result(1) o]
  have "(gk b, gk a) \<notin> dependency_edges gk gd gn nodes" if "a \<in> set res" "index_of order (gk a) \<le> index_of order (gk b)" for a b
  proof
    assume "(gk b, gk a) \<in> dependency_edges gk gd gn nodes"
    then have "index_of order (gk b) < index_of order (gk a)"
      using O that(1) res build_sorter_result(2) [of gk gd gn nodes] build_sorter_result(3) [of gk nodes gd gn] by (intro ordered_after_index [of "ts_edges ?s"]) auto
    with that(2) show False by simp
  qed
  moreover have "sorted_wrt (\<lambda>a b. index_of order (gk a) \<le> index_of order (gk b)) res"
    using sorted_sort_key [of "\<lambda>n. index_of order (gk n)" nodes] by (simp add: res sorted_wrt_map)
  ultimately have "sorted_wrt (\<lambda>a b. (gk b, gk a) \<notin> dependency_edges gk gd gn nodes) res"
    by (auto intro: sorted_wrt_mono_rel [of res "\<lambda>a b. index_of order (gk a) \<le> index_of order (gk b)"])
  then show ?thesis by (simp add: res)
qed

lemma sort_topologically_total:
  assumes "acyclic (dependency_edges gk gd gn nodes)"
  shows "\<exists>res. sort_topologically nodes gk gd gn = Inr res"
proof -
  have "\<exists>order. static_order (build_sorter gk gd gn nodes) = Inr order"
    by (rule static_order_correct(2) [OF build_sorter_result(1)]) (simp add: build_sorter_result(2) assms)
  then show ?thesis by (auto simp: sort_topologically_def)
qed

text \<open>C28. When the dependencies between tables have no cycle, the tables are sorted into an order in which each can be
  created: no table comes after one that depends on it, nothing is lost and nothing added.\<close>

theorem table_creation_order:
  assumes "acyclic {(table_key t, d) | t d. t \<in> set tables \<and> d \<in> set (tb_dependencies t)}"
  shows "\<exists>res. tables_sorted_by_dependencies tables = Inr res \<and> mset res = mset tables
    \<and> sorted_wrt (\<lambda>a b. table_key a \<notin> set (tb_dependencies b)) res"
proof -
  have e: "dependency_edges table_key (\<lambda>x. []) tb_dependencies tables = {(table_key t, d) | t d. t \<in> set tables \<and> d \<in> set (tb_dependencies t)}"
    by (auto simp: dependency_edges_def)
  obtain res where res: "sort_topologically tables table_key (\<lambda>x. []) tb_dependencies = Inr res"
    using sort_topologically_total assms unfolding e [symmetric] by blast
  note R = sort_topologically_result [OF res, unfolded e]
  have "sorted_wrt (\<lambda>a b. table_key a \<notin> set (tb_dependencies b)) res"
    using conjunct2 [OF R] by (rule sorted_wrt_mono_rel [rotated]) (use mset_eq_setD [OF conjunct1 [OF R]] in blast)
  then show ?thesis using R res by (auto simp: tables_sorted_by_dependencies_def)
qed

definition example_tables :: "ch_table list" where
  "example_tables = [\<lparr>tb_database = ''d'', tb_name = ''dist'', tb_engine = ''Distributed'', tb_uuid = example_uuid, tb_create_query = [], tb_dependencies = []\<rparr>,
     \<lparr>tb_database = ''d'', tb_name = ''base'', tb_engine = ''MergeTree'', tb_uuid = example_uuid, tb_create_query = [], tb_dependencies = [(''d'', ''dist'')]\<rparr>]"

theorem table_creation_order_witness:
  "\<exists>res. tables_sorted_by_dependencies example_tables = Inr res \<and> mset res = mset example_tables
    \<and> sorted_wrt (\<lambda>a b. table_key a \<notin> set (tb_dependencies b)) res"
proof (rule table_creation_order)
  have "{(table_key t, d) | t d. t \<in> set example_tables \<and> d \<in> set (tb_dependencies t)} \<subseteq> {((''d'', ''base''), (''d'', ''dist''))}"
    by (auto simp: example_tables_def table_key_def)
  then show "acyclic {(table_key t, d) | t d. t \<in> set example_tables \<and> d \<in> set (tb_dependencies t)}"
    by (rule acyclic_subset [rotated]) (simp add: acyclic_insert wf_acyclic)
qed

end
