(* ===== verification/Cassandra_Schema.thy ===== *)
theory Cassandra_Schema
  imports Astacus_Prelude
begin

text \<open>
  The schema of a Cassandra cluster in a backup: \<^verbatim>\<open>astacus/common/cassandra/schema.py\<close> with the execution of
  statements of \<^verbatim>\<open>client.py\<close> and the system keyspaces of \<^verbatim>\<open>utils.py\<close> beside it. The metadata of the driver is data: records of
  what the code reads from it, with the text that \<^verbatim>\<open>as_cql_query()\<close> returns as a field. The session is a world in which a
  statement is executed, with its metadata; the driver's quoting of names and the order into which \<^verbatim>\<open>sorted\<close>
  brings functions, whose comparison is not an order, are parameters. Shown: the
  loop that orders user types ends, with every type after those it refers to, or reports a loop.
\<close>

section \<open>Sessions\<close>

record ('w, 'm) cas_session =
  cas_execute :: "string \<Rightarrow> ('w, unit) stateful"
  cas_metadata :: "'w \<Rightarrow> 'm"

text \<open>\<^verbatim>\<open>statement.split(";\n\n")\<close>\<close>

definition statement_separator :: string where "statement_separator = '';'' @ [CHR 0x0A, CHR 0x0A]"

function split_statements :: "string \<Rightarrow> string \<Rightarrow> string list" where
  "split_statements acc s =
     (if s = [] then [acc]
      else if take 3 s = statement_separator then acc # split_statements [] (drop 3 s)
      else split_statements (acc @ [hd s]) (tl s))"
  by pat_completeness auto
termination by (relation "measure (length \<circ> snd)") auto

declare split_statements.simps [simp del]

definition execute_on_all :: "('w, 'm) cas_session \<Rightarrow> string \<Rightarrow> ('w, unit) stateful" where
  "execute_on_all cas statement = bind_st (map_st (cas_execute cas) (split_statements [] statement)) (\<lambda>_ w. (Inr (), w))"

definition SYSTEM_KEYSPACES :: "string list" where
  "SYSTEM_KEYSPACES = [''system'', ''system_distributed'', ''system_schema'', ''system_traces'']"

definition is_system_keyspace :: "string \<Rightarrow> bool" where
  "is_system_keyspace keyspace \<longleftrightarrow> keyspace \<in> set SYSTEM_KEYSPACES"

section \<open>Named objects\<close>

record cassandra_named =
  cn_name :: string
  cn_cql_create_self :: string

definition named_lt :: "'a cassandra_named_scheme \<Rightarrow> 'b cassandra_named_scheme \<Rightarrow> bool" where
  "named_lt a b \<longleftrightarrow> cn_name a < cn_name b"

definition restore_if_needed :: "('w, 'm) cas_session \<Rightarrow> 'a cassandra_named_scheme \<Rightarrow> string set \<Rightarrow> ('w, unit) stateful" where
  "restore_if_needed cas x existing_map w = (if cn_name x \<in> existing_map then (Inr (), w) else execute_on_all cas (cn_cql_create_self x) w)"

section \<open>Identifiers in type definitions\<close>

definition ascii_letter :: "char \<Rightarrow> bool" where
  "ascii_letter c \<longleftrightarrow> (let n = (of_char c :: nat) in (65 \<le> n \<and> n \<le> 90) \<or> (97 \<le> n \<and> n \<le> 122))"

definition identifier_char :: "char \<Rightarrow> bool" where
  "identifier_char c \<longleftrightarrow> ascii_letter c \<or> c \<in> set ''0123456789_''"

definition lower_char :: "char \<Rightarrow> char" where
  "lower_char c = (let n = (of_char c :: nat) in if 65 \<le> n \<and> n \<le> 90 then char_of (n + 32) else c)"

text \<open>The rest of a quoted identifier after its first quote: what stands before the closing quote and what follows it. A pair
  of quotes belongs to the identifier if a closing quote follows later, as backtracking decides; at least one character or
  pair has to come first.\<close>

function quoted_rest :: "bool \<Rightarrow> string \<Rightarrow> (string \<times> string) option" where
  "quoted_rest some [] = None"
| "quoted_rest some (c # s) =
     (if c \<noteq> CHR 0x22 then map_option (\<lambda>(m, r). (c # m, r)) (quoted_rest True s)
      else case (case s of d # s' \<Rightarrow> if d = CHR 0x22 then quoted_rest True s' else None | [] \<Rightarrow> None) of
        Some (m, r) \<Rightarrow> Some (CHR 0x22 # CHR 0x22 # m, r)
      | None \<Rightarrow> if some then Some ([], s) else None)"
  by pat_completeness auto
termination by (relation "measure (length \<circ> snd)") auto

lemma quoted_rest_shorter: "quoted_rest some s = Some (m, r) \<Longrightarrow> length r < length s"
proof (induction some s arbitrary: m r rule: quoted_rest.induct)
  case (2 some c s)
  show ?case
  proof (cases "c = CHR 0x22")
    case False
    then obtain m' where "quoted_rest True s = Some (m', r)" using 2(3) by (auto simp: map_option_case split: option.splits prod.splits)
    from 2(1) [OF False this] show ?thesis by simp
  next
    case True
    show ?thesis
    proof (cases "case s of d # s' \<Rightarrow> if d = CHR 0x22 then quoted_rest True s' else None | [] \<Rightarrow> None")
      case None
      then show ?thesis using 2(3) True by (simp split: if_splits)
    next
      case (Some p)
      then obtain d s' where s: "s = d # s'" "d = CHR 0x22" "quoted_rest True s' = Some p" by (auto split: list.splits if_splits)
      then have "snd p = r" using 2(3) True Some by (auto split: prod.splits)
      then have "length r < length s'" using 2(2) [of d s' "fst p" r] True s by (metis prod.collapse)
      then show ?thesis using s by simp
    qed
  qed
qed simp

text \<open>\<^verbatim>\<open>re.findall(IDENTIFIER_RE, definition)\<close>, with the treatment of each identifier in the loop over them.\<close>

fun undouble :: "string \<Rightarrow> string" where
  "undouble (c # d # s) = (if c = CHR 0x22 \<and> d = CHR 0x22 then CHR 0x22 # undouble s else c # undouble (d # s))"
| "undouble s = s"

definition collection_types :: "string list" where
  "collection_types = [''map'', ''set'', ''list'', ''frozen'', ''tuple'']"

function type_identifiers :: "string \<Rightarrow> string list" where
  "type_identifiers [] = []"
| "type_identifiers (c # s) =
     (if ascii_letter c then
        (let normalized = map lower_char (c # takeWhile identifier_char s); rest = type_identifiers (dropWhile identifier_char s)
         in if normalized \<in> set collection_types then rest else normalized # rest)
      else if c = CHR 0x22 then
        (case quoted_rest False s of Some (m, r) \<Rightarrow> undouble m # type_identifiers r | None \<Rightarrow> type_identifiers s)
      else type_identifiers s)"
  by pat_completeness auto
termination
proof (relation "measure length", goal_cases)
  case (2 c s)
  then show ?case using length_dropWhile_le [of identifier_char s] by simp
qed (auto dest: quoted_rest_shorter)

declare type_identifiers.simps(2) [simp del]

record cassandra_user_type = cassandra_named +
  ut_field_types :: "string list"

definition referred_normalized_identifiers :: "cassandra_user_type \<Rightarrow> string set" where
  "referred_normalized_identifiers t = set (concat (map type_identifiers (ut_field_types t)))"

section \<open>The restore order of user types\<close>

type_synonym pending = "(string \<times> (cassandra_user_type \<times> string set)) list"

definition is_ready :: "pending \<Rightarrow> string \<times> (cassandra_user_type \<times> string set) \<Rightarrow> bool" where
  "is_ready pending item \<longleftrightarrow> fst ` set pending \<inter> snd (snd item) = {}"

text \<open>The generator: what it yields, and the exception with which it ends if it does. A pass looks at the names that were pending
  when it started.\<close>

function user_type_passes :: "pending \<Rightarrow> cassandra_user_type list \<times> exn option" where
  "user_type_passes pending =
     (if pending = [] then ([], None)
      else let ready = filter (is_ready pending) pending; rest = filter (\<lambda>item. \<not> is_ready pending item) pending in
        if ready = [] then ([], Some ValueError)
        else case user_type_passes rest of (ts, e) \<Rightarrow> (map (fst \<circ> snd) ready @ ts, e))"
  by pat_completeness auto
termination
proof (relation "measure length", goal_cases)
  case (2 pending x xa)
  then have "xa \<noteq> pending" by (auto simp: filter_empty_conv filter_id_conv)
  then show ?case using 2 length_filter_less by (fastforce simp: filter_empty_conv)
qed simp

declare user_type_passes.simps [simp del]

definition iterate_user_types_in_restore_order :: "cassandra_user_type list \<Rightarrow> cassandra_user_type list \<times> exn option" where
  "iterate_user_types_in_restore_order user_types =
     user_type_passes (fold (\<lambda>x. dict_set (cn_name x) (x, referred_normalized_identifiers x)) user_types [])"

definition wf_pending :: "pending \<Rightarrow> bool" where
  "wf_pending P \<longleftrightarrow> distinct (map fst P) \<and> (\<forall>item \<in> set P. item = (cn_name (fst (snd item)), (fst (snd item), referred_normalized_identifiers (fst (snd item)))))"

text \<open>From a type to those that refer to it.\<close>

definition type_edges :: "cassandra_user_type set \<Rightarrow> (string \<times> string) set" where
  "type_edges T = {(cn_name b, cn_name a) | a b. a \<in> T \<and> b \<in> T \<and> cn_name b \<in> referred_normalized_identifiers a}"

abbreviation pending_types :: "pending \<Rightarrow> cassandra_user_type list" where
  "pending_types P \<equiv> map (fst \<circ> snd) P"

lemma wf_pending_filter: "wf_pending P \<Longrightarrow> wf_pending (filter Q P)"
  by (auto simp: wf_pending_def distinct_map_filter)

lemma wf_pending_item:
  assumes "wf_pending P" and "item \<in> set P"
  shows "fst item = cn_name (fst (snd item))" and "snd (snd item) = referred_normalized_identifiers (fst (snd item))"
proof -
  have "item = (cn_name (fst (snd item)), (fst (snd item), referred_normalized_identifiers (fst (snd item))))"
    using assms by (auto simp: wf_pending_def)
  then show "fst item = cn_name (fst (snd item))" and "snd (snd item) = referred_normalized_identifiers (fst (snd item))"
    by (metis fst_conv, metis snd_conv)
qed

lemma ready_refers_to_none:
  assumes "wf_pending P" and "item \<in> set P" and "is_ready P item" and "b \<in> set (pending_types P)"
  shows "cn_name b \<notin> referred_normalized_identifiers (fst (snd item))"
proof -
  obtain other where other: "other \<in> set P" "b = fst (snd other)" using assms(4) by auto
  have "fst other \<in> fst ` set P" using other(1) by (rule imageI)
  then show ?thesis using assms(3) wf_pending_item [OF assms(1) assms(2)] wf_pending_item(1) [OF assms(1) other(1)] other(2)
    by (auto simp: is_ready_def)
qed

lemma user_type_passes_cases:
  "user_type_passes [] = ([], None)"
  "P \<noteq> [] \<Longrightarrow> filter (is_ready P) P = [] \<Longrightarrow> user_type_passes P = ([], Some ValueError)"
  "filter (is_ready P) P \<noteq> [] \<Longrightarrow> user_type_passes P =
     (case user_type_passes (filter (\<lambda>item. \<not> is_ready P item) P) of (ts, e) \<Rightarrow> (pending_types (filter (is_ready P) P) @ ts, e))"
  by (subst user_type_passes.simps; auto simp: Let_def)+

lemma acyclic_has_ready:
  assumes "wf_pending P" and "P \<noteq> []" and "acyclic (type_edges (set (pending_types P)))"
  shows "\<exists>item \<in> set P. is_ready P item"
proof -
  have "finite (type_edges (set (pending_types P)))"
    by (rule finite_subset [of _ "cn_name ` set (pending_types P) \<times> cn_name ` set (pending_types P)"]) (auto simp: type_edges_def)
  then have "wf (type_edges (set (pending_types P)))" using assms(3) by (rule finite_acyclic_wf)
  moreover have "hd (map fst P) \<in> set (map fst P)" using assms(2) by (intro hd_in_set) simp
  ultimately obtain z where z: "z \<in> set (map fst P)" "\<And>y. (y, z) \<in> type_edges (set (pending_types P)) \<Longrightarrow> y \<notin> set (map fst P)"
    by (rule wfE_min) blast
  then obtain item where item: "item \<in> set P" "fst item = z" by auto
  have "n \<notin> snd (snd item)" if n: "n \<in> fst ` set P" for n
  proof
    assume r: "n \<in> snd (snd item)"
    from n obtain other where other: "other \<in> set P" "n = fst other" by blast
    have "(n, z) \<in> type_edges (set (pending_types P))"
      using r item other wf_pending_item [OF assms(1) item(1)] wf_pending_item [OF assms(1) other(1)] by (force simp: type_edges_def)
    then show False using z(2) n by auto
  qed
  then have "is_ready P item" by (auto simp: is_ready_def)
  then show ?thesis using item(1) by blast
qed

lemma sorted_wrt_ready:
  assumes "\<And>a b. a \<in> set xs \<Longrightarrow> b \<in> set xs \<union> set ys \<Longrightarrow> R a b" and "sorted_wrt R ys"
  shows "sorted_wrt R (xs @ ys)"
  using assms by (induction xs) auto

lemma user_type_passes_result:
  assumes "wf_pending P" and "user_type_passes P = (ts, e)"
  shows "set ts \<subseteq> set (pending_types P) \<and> sorted_wrt (\<lambda>a b. cn_name b \<notin> referred_normalized_identifiers a) ts
    \<and> (e = None \<longrightarrow> mset ts = mset (pending_types P)) \<and> (e = None \<or> e = Some ValueError)
    \<and> (acyclic (type_edges (set (pending_types P))) \<longrightarrow> e = None)
    \<and> (\<forall>a \<in> set ts. cn_name a \<notin> referred_normalized_identifiers a) \<and> (e \<noteq> None \<longrightarrow> length ts < length P)"
  using assms
proof (induction P arbitrary: ts e rule: user_type_passes.induct)
  case (1 P)
  let ?ready = "filter (is_ready P) P" and ?rest = "filter (\<lambda>item. \<not> is_ready P item) P"
  consider "P = []" | "P \<noteq> []" "?ready = []" | "?ready \<noteq> []" by blast
  then show ?case
  proof cases
    case 1
    then show ?thesis using \<open>user_type_passes P = (ts, e)\<close> by (simp add: user_type_passes_cases(1))
  next
    case 2
    have "\<not> acyclic (type_edges (set (pending_types P)))"
      using acyclic_has_ready [OF \<open>wf_pending P\<close> 2(1)] 2(2) by (auto simp: filter_empty_conv)
    then show ?thesis using user_type_passes_cases(2) [OF 2] \<open>user_type_passes P = (ts, e)\<close> 2(1) by simp
  next
    case False: 3
    obtain ts' where ts': "user_type_passes ?rest = (ts', e)" "ts = pending_types ?ready @ ts'"
      using 1(3) user_type_passes_cases(3) [OF False] by (auto split: prod.splits)
    have IH: "set ts' \<subseteq> set (pending_types ?rest) \<and> sorted_wrt (\<lambda>a b. cn_name b \<notin> referred_normalized_identifiers a) ts'
      \<and> (e = None \<longrightarrow> mset ts' = mset (pending_types ?rest)) \<and> (e = None \<or> e = Some ValueError)
      \<and> (acyclic (type_edges (set (pending_types ?rest))) \<longrightarrow> e = None)
      \<and> (\<forall>a \<in> set ts'. cn_name a \<notin> referred_normalized_identifiers a) \<and> (e \<noteq> None \<longrightarrow> length ts' < length ?rest)"
      using False by (intro 1(1) [OF _ refl refl _ wf_pending_filter [OF 1(2)] ts'(1)]) auto
    have sub: "set (pending_types ?rest) \<subseteq> set (pending_types P)" "set (pending_types ?ready) \<subseteq> set (pending_types P)" by auto
    have ord: "sorted_wrt (\<lambda>a b. cn_name b \<notin> referred_normalized_identifiers a) ts"
      unfolding ts'(2)
    proof (rule sorted_wrt_ready)
      fix a b assume a: "a \<in> set (pending_types ?ready)" and b: "b \<in> set (pending_types ?ready) \<union> set ts'"
      from a obtain item where item: "item \<in> set P" "is_ready P item" "a = fst (snd item)" by auto
      have "b \<in> set (pending_types P)" using b sub IH by blast
      from ready_refers_to_none [OF 1(2) item(1,2) this] show "cn_name b \<notin> referred_normalized_identifiers a" using item(3) by simp
    qed (use IH in blast)
    have part: "mset ?ready + mset ?rest = mset P" using multiset_partition [of "mset P" "is_ready P"] by simp
    then have m: "mset (pending_types ?ready) + mset (pending_types ?rest) = mset (pending_types P)"
      unfolding mset_map image_mset_union [symmetric] by (rule arg_cong)
    have len: "length ?ready + length ?rest = length P" using arg_cong [OF part, of size] by (simp only: size_union size_mset)
    have ed: "type_edges (set (pending_types ?rest)) \<subseteq> type_edges (set (pending_types P))" using sub(1) by (auto simp: type_edges_def)
    show ?thesis
    proof (intro conjI impI)
      show "set ts \<subseteq> set (pending_types P)" unfolding ts'(2) set_append using subset_trans [OF conjunct1 [OF IH] sub(1)] sub(2) by blast
      show "mset ts = mset (pending_types P)" if "e = None" unfolding ts'(2) mset_append m [symmetric] using IH that by simp
      show "e = None" if "acyclic (type_edges (set (pending_types P)))" using IH acyclic_subset [OF that ed] by blast
      show "\<forall>a \<in> set ts. cn_name a \<notin> referred_normalized_identifiers a"
      proof
        fix a assume "a \<in> set ts"
        then consider "a \<in> set (pending_types ?ready)" | "a \<in> set ts'" using ts'(2) by auto
        then show "cn_name a \<notin> referred_normalized_identifiers a"
        proof cases
          case 1
          then obtain item where "item \<in> set P" "is_ready P item" "a = fst (snd item)" by auto
          then show ?thesis using ready_refers_to_none [OF \<open>wf_pending P\<close>, of item a] by auto
        qed (use IH in blast)
      qed
      show "length ts < length P" if "e \<noteq> None" using IH ts'(2) len that by simp
    qed (use IH ord in blast)+
  qed
qed

lemma sorted_types_acyclic:
  assumes "sorted_wrt (\<lambda>a b. cn_name b \<notin> referred_normalized_identifiers a) ts" and "distinct (map cn_name ts)"
    and "\<And>a. a \<in> set ts \<Longrightarrow> cn_name a \<notin> referred_normalized_identifiers a"
  shows "acyclic (type_edges (set ts))"
proof -
  define pos where "pos n = (THE i. i < length ts \<and> cn_name (ts ! i) = n)" for n
  have pos: "pos (cn_name (ts ! i)) = i" if "i < length ts" for i
    unfolding pos_def using that assms(2) by (auto simp: distinct_conv_nth)
  have "int (pos y) < - (- int (pos x))" if edge: "(y, x) \<in> type_edges (set ts)" for x y
  proof -
    obtain i j where ij: "i < length ts" "j < length ts" "x = cn_name (ts ! i)" "y = cn_name (ts ! j)"
        "cn_name (ts ! j) \<in> referred_normalized_identifiers (ts ! i)"
      using edge unfolding type_edges_def in_set_conv_nth by blast
    then have "\<not> i < j" "i \<noteq> j" using sorted_wrt_nth_less [OF assms(1), of i j] assms(3) [of "ts ! i"] by auto
    then show ?thesis using ij pos by simp
  qed
  then show ?thesis by (intro acyclicI_order [of _ "\<lambda>n. - int (pos n)"]) force
qed

lemma pending_of_types:
  assumes "distinct (map cn_name types)"
  shows "fold (\<lambda>x. dict_set (cn_name x) (x, referred_normalized_identifiers x)) types []
    = map (\<lambda>x. (cn_name x, (x, referred_normalized_identifiers x))) types"
proof -
  have "distinct (map cn_name types) \<Longrightarrow> cn_name ` set types \<inter> fst ` set acc = {}
      \<Longrightarrow> fold (\<lambda>x. dict_set (cn_name x) (x, referred_normalized_identifiers x)) types acc
        = acc @ map (\<lambda>x. (cn_name x, (x, referred_normalized_identifiers x))) types" for acc
    by (induction types arbitrary: acc) (auto simp: dict_set_new)
  then show ?thesis using assms by simp
qed

lemma user_types_order:
  assumes "distinct (map cn_name types)"
  shows "\<exists>ts e. iterate_user_types_in_restore_order types = (ts, e) \<and> set ts \<subseteq> set types
    \<and> sorted_wrt (\<lambda>a b. cn_name b \<notin> referred_normalized_identifiers a) ts
    \<and> (e = None \<longleftrightarrow> acyclic (type_edges (set types))) \<and> (e = None \<longleftrightarrow> mset ts = mset types) \<and> (e = None \<or> e = Some ValueError)"
proof -
  let ?P = "map (\<lambda>x. (cn_name x, (x, referred_normalized_identifiers x))) types"
  obtain ts e where r: "user_type_passes ?P = (ts, e)" by (cases "user_type_passes ?P")
  have P: "wf_pending ?P" "pending_types ?P = types" using assms by (auto simp: wf_pending_def comp_def)
  note R = user_type_passes_result [OF P(1) r, unfolded P(2)]
  have "acyclic (type_edges (set types))" if "e = None"
  proof -
    have m: "mset ts = mset types" using R that by blast
    then have "distinct (map cn_name ts)" using assms by (metis mset_eq_imp_distinct_iff mset_map)
    then have "acyclic (type_edges (set ts))" using R by (intro sorted_types_acyclic) auto
    then show ?thesis using mset_eq_setD [OF m] by simp
  qed
  moreover have "e = None" if "mset ts = mset types" using R mset_eq_length [OF that] by auto
  moreover have "iterate_user_types_in_restore_order types = (ts, e)"
    unfolding iterate_user_types_in_restore_order_def pending_of_types [OF assms] by (rule r)
  ultimately show ?thesis using R by blast
qed

text \<open>C32. Whatever user types a keyspace has, the loop that orders them ends. It yields all of them exactly when their references have
  no cycle, each type after all those that it refers to; otherwise it stops with an error, and what it yielded before is ordered in
  the same way.\<close>

theorem user_types_restore_order:
  assumes "distinct (map cn_name types)"
  shows "\<exists>ts e. iterate_user_types_in_restore_order types = (ts, e) \<and> set ts \<subseteq> set types
    \<and> sorted_wrt (\<lambda>a b. cn_name b \<notin> referred_normalized_identifiers a) ts
    \<and> (e = None \<longleftrightarrow> acyclic (type_edges (set types))) \<and> (e = None \<longleftrightarrow> mset ts = mset types) \<and> (e = None \<or> e = Some ValueError)"
  using assms by (rule user_types_order)

definition example_types :: "cassandra_user_type list" where
  "example_types = [\<lparr>cn_name = ''a'', cn_cql_create_self = [], ut_field_types = [''frozen<b>'']\<rparr>,
     \<lparr>cn_name = ''b'', cn_cql_create_self = [], ut_field_types = [''text'']\<rparr>]"

theorem user_types_restore_order_witness:
  "distinct (map cn_name example_types) \<and> (\<exists>ts e. iterate_user_types_in_restore_order example_types = (ts, e) \<and> set ts \<subseteq> set example_types
    \<and> sorted_wrt (\<lambda>a b. cn_name b \<notin> referred_normalized_identifiers a) ts
    \<and> (e = None \<longleftrightarrow> acyclic (type_edges (set example_types))) \<and> (e = None \<longleftrightarrow> mset ts = mset example_types) \<and> (e = None \<or> e = Some ValueError))"
proof -
  have d: "distinct (map cn_name example_types)" by (simp add: example_types_def)
  show ?thesis using user_types_restore_order [OF d] d by blast
qed

section \<open>Functions and aggregates\<close>

record cassandra_function = cassandra_named +
  cf_argument_types :: "string list"

definition function_lt :: "cassandra_function \<Rightarrow> cassandra_function \<Rightarrow> bool" where
  "function_lt a b \<longleftrightarrow> cn_name a < cn_name b \<or> cf_argument_types a < cf_argument_types b"

text \<open>The comparison of functions is not an order: of two functions, each can come before the other.\<close>

lemma function_lt_not_asymmetric:
  "function_lt \<lparr>cn_name = ''f'', cn_cql_create_self = q, cf_argument_types = [''int'']\<rparr> \<lparr>cn_name = ''g'', cn_cql_create_self = r, cf_argument_types = [''ascii'']\<rparr>
    \<and> function_lt \<lparr>cn_name = ''g'', cn_cql_create_self = r, cf_argument_types = [''ascii'']\<rparr> \<lparr>cn_name = ''f'', cn_cql_create_self = q, cf_argument_types = [''int'']\<rparr>"
  unfolding function_lt_def cassandra_named.simps cassandra_function.simps
proof
  show "''f'' < ''g'' \<or> [''int''] < [''ascii'']" by (rule disjI1) code_simp
  show "''g'' < ''f'' \<or> [''ascii''] < [''int'']" by (rule disjI2) code_simp
qed

record md_function =
  mf_keyspace :: string
  mf_name :: string
  mf_argument_names :: "string list"
  mf_argument_types :: "string list"
  mf_return_type :: string
  mf_language :: string
  mf_body :: string
  mf_called_on_null_input :: bool

record md_aggregate =
  ma_keyspace :: string
  ma_name :: string
  ma_argument_types :: "string list"
  ma_state_func :: string
  ma_state_type :: string
  ma_final_func :: "string option"
  ma_initial_condition :: "string option"

fun join_comma :: "string list \<Rightarrow> string" where
  "join_comma [] = []"
| "join_comma [x] = x"
| "join_comma (x # y # xs) = x @ '', '' @ join_comma (y # xs)"

definition get_field_repr :: "(string \<Rightarrow> string) \<Rightarrow> string \<times> string \<Rightarrow> string" where
  "get_field_repr protect_name arg = protect_name (fst arg) @ '' '' @ snd arg"

definition function_create_statement :: "(string \<Rightarrow> string) \<Rightarrow> md_function \<Rightarrow> string" where
  "function_create_statement protect_name m =
     ''CREATE FUNCTION '' @ protect_name (mf_keyspace m) @ ''.'' @ protect_name (mf_name m) @ ''(''
       @ join_comma (map (get_field_repr protect_name) (zip (mf_argument_names m) (mf_argument_types m))) @ '') ''
       @ (if mf_called_on_null_input m then ''CALLED'' else ''RETURNS NULL'') @ '' ON NULL INPUT ''
       @ ''RETURNS '' @ mf_return_type m @ '' '' @ ''LANGUAGE '' @ mf_language m @ '' '' @ ''AS $$'' @ mf_body m @ ''$$''"

text \<open>A text is false when it is empty, as \<^verbatim>\<open>None\<close> is.\<close>

definition optional_clause :: "string \<Rightarrow> string option \<Rightarrow> (string \<Rightarrow> string) \<Rightarrow> string" where
  "optional_clause keyword v f = (case v of None \<Rightarrow> [] | Some x \<Rightarrow> if x = [] then [] else keyword @ f x)"

definition aggregate_create_statement :: "(string \<Rightarrow> string) \<Rightarrow> md_aggregate \<Rightarrow> string" where
  "aggregate_create_statement protect_name m =
     ''CREATE AGGREGATE '' @ protect_name (ma_keyspace m) @ ''.'' @ protect_name (ma_name m) @ ''('' @ join_comma (ma_argument_types m) @ '') ''
       @ ''SFUNC '' @ protect_name (ma_state_func m) @ '' '' @ ''STYPE '' @ ma_state_type m
       @ optional_clause '' FINALFUNC '' (ma_final_func m) protect_name @ optional_clause '' INITCOND '' (ma_initial_condition m) id"

definition function_from_cassandra_metadata :: "(string \<Rightarrow> string) \<Rightarrow> md_function \<Rightarrow> cassandra_function" where
  "function_from_cassandra_metadata protect_name m = \<lparr>cn_name = mf_name m, cn_cql_create_self = function_create_statement protect_name m,
     cf_argument_types = mf_argument_types m\<rparr>"

definition aggregate_from_cassandra_metadata :: "(string \<Rightarrow> string) \<Rightarrow> md_aggregate \<Rightarrow> cassandra_function" where
  "aggregate_from_cassandra_metadata protect_name m = \<lparr>cn_name = ma_name m, cn_cql_create_self = aggregate_create_statement protect_name m,
     cf_argument_types = ma_argument_types m\<rparr>"

text \<open>Functions and aggregates are looked up among the values of the keyspace's metadata, by name and argument types.\<close>

definition function_restore_in_keyspace :: "('w, 'm) cas_session \<Rightarrow> cassandra_function \<Rightarrow> (string \<times> string list) list \<Rightarrow> ('w, unit) stateful" where
  "function_restore_in_keyspace cas f existing w =
     (if list_ex (\<lambda>(n, ts). n = cn_name f \<and> ts = cf_argument_types f) existing then (Inr (), w) else execute_on_all cas (cn_cql_create_self f) w)"

section \<open>Tables, keyspaces and the schema\<close>

text \<open>The driver's metadata.\<close>

record md_object =
  mo_name :: string
  mo_as_cql_query :: string

record md_user_type = md_object +
  mu_field_types :: "string list"

record md_table = md_object +
  mt_indexes :: "(string \<times> md_object) list"
  mt_views :: "(string \<times> md_object) list"
  mt_triggers :: "(string \<times> md_object) list"

record md_keyspace = md_object +
  mk_dc_replication_factors :: "(string \<times> string) list option"
  mk_durable_writes :: "bool option"
  mk_aggregates :: "(string \<times> md_aggregate) list"
  mk_functions :: "(string \<times> md_function) list"
  mk_tables :: "(string \<times> md_table) list"
  mk_user_types :: "(string \<times> md_user_type) list"

type_synonym cluster_metadata = "(string \<times> md_keyspace) list"

definition named_from_cassandra_metadata :: "'a md_object_scheme \<Rightarrow> cassandra_named" where
  "named_from_cassandra_metadata m = \<lparr>cn_name = mo_name m, cn_cql_create_self = mo_as_cql_query m\<rparr>"

definition sorted_named :: "('a \<Rightarrow> 'b cassandra_named_scheme) \<Rightarrow> (string \<times> 'a) list \<Rightarrow> 'b cassandra_named_scheme list" where
  "sorted_named from ms = sort_key cn_name (map (from \<circ> snd) ms)"

definition user_type_from_cassandra_metadata :: "md_user_type \<Rightarrow> cassandra_user_type" where
  "user_type_from_cassandra_metadata m = \<lparr>cn_name = mo_name m, cn_cql_create_self = mo_as_cql_query m, ut_field_types = mu_field_types m\<rparr>"

record cassandra_table = cassandra_named +
  ct_indexes :: "cassandra_named list"
  ct_materialized_views :: "cassandra_named list"
  ct_triggers :: "cassandra_named list"

definition table_from_cassandra_metadata :: "md_table \<Rightarrow> cassandra_table" where
  "table_from_cassandra_metadata m = \<lparr>cn_name = mo_name m, cn_cql_create_self = mo_as_cql_query m,
     ct_indexes = sorted_named named_from_cassandra_metadata (mt_indexes m),
     ct_materialized_views = sorted_named named_from_cassandra_metadata (mt_views m),
     ct_triggers = sorted_named named_from_cassandra_metadata (mt_triggers m)\<rparr>"

definition restore_named_list :: "('w, 'm) cas_session \<Rightarrow> 'a cassandra_named_scheme list \<Rightarrow> string set \<Rightarrow> ('w, unit) stateful" where
  "restore_named_list cas xs existing = bind_st (map_st (\<lambda>x. restore_if_needed cas x existing) xs) (\<lambda>_ w. (Inr (), w))"

definition table_restore_post_data_in_keyspace :: "('w, 'm) cas_session \<Rightarrow> cassandra_table \<Rightarrow> md_keyspace \<Rightarrow> ('w, unit) stateful" where
  "table_restore_post_data_in_keyspace cas t keyspace_metadata =
     (case dict_get (mk_tables keyspace_metadata) (cn_name t) of
        None \<Rightarrow> (\<lambda>w. (Inl KeyError, w))
      | Some table_metadata \<Rightarrow>
          bind_st (restore_named_list cas (ct_indexes t) (fst ` set (mt_indexes table_metadata))) (\<lambda>_.
          bind_st (restore_named_list cas (ct_triggers t) (fst ` set (mt_triggers table_metadata))) (\<lambda>_.
          restore_named_list cas (ct_materialized_views t) (fst ` set (mt_views table_metadata)))))"

definition extract_dcs :: "'a md_keyspace_scheme \<Rightarrow> (string \<times> string) list" where
  "extract_dcs m = (case mk_dc_replication_factors m of Some dcs \<Rightarrow> dcs | None \<Rightarrow> [])"

record cassandra_keyspace = cassandra_named +
  ck_network_topology_strategy_dcs :: "(string \<times> string) list"
  ck_durable_writes :: bool
  ck_aggregates :: "cassandra_function list"
  ck_functions :: "cassandra_function list"
  ck_tables :: "cassandra_table list"
  ck_user_types :: "cassandra_user_type list"

definition keyspace_from_cassandra_metadata :: "(cassandra_function list \<Rightarrow> cassandra_function list) \<Rightarrow> (string \<Rightarrow> string) \<Rightarrow> md_keyspace \<Rightarrow> cassandra_keyspace" where
  "keyspace_from_cassandra_metadata fsort protect_name m = \<lparr>cn_name = mo_name m, cn_cql_create_self = mo_as_cql_query m,
     ck_network_topology_strategy_dcs = extract_dcs m,
     ck_durable_writes = (case mk_durable_writes m of Some b \<Rightarrow> b | None \<Rightarrow> True),
     ck_aggregates = fsort (map (aggregate_from_cassandra_metadata protect_name \<circ> snd) (mk_aggregates m)),
     ck_functions = fsort (map (function_from_cassandra_metadata protect_name \<circ> snd) (mk_functions m)),
     ck_tables = sorted_named table_from_cassandra_metadata (mk_tables m),
     ck_user_types = sorted_named user_type_from_cassandra_metadata (mk_user_types m)\<rparr>"

text \<open>The metadata of the keyspace is looked up after its creation; its dictionaries are taken as they are then.\<close>

definition keyspace_restore :: "('w, cluster_metadata) cas_session \<Rightarrow> cassandra_keyspace \<Rightarrow> ('w, unit) stateful" where
  "keyspace_restore cas k = bind_st (\<lambda>w. restore_if_needed cas k (fst ` set (cas_metadata cas w)) w) (\<lambda>_ w.
     (case dict_get (cas_metadata cas w) (cn_name k) of
        None \<Rightarrow> (Inl KeyError, w)
      | Some keyspace_metadata \<Rightarrow>
          (case iterate_user_types_in_restore_order (ck_user_types k) of (types, error) \<Rightarrow>
            bind_st (restore_named_list cas types (fst ` set (mk_user_types keyspace_metadata))) (\<lambda>_.
            case error of Some e \<Rightarrow> (\<lambda>w. (Inl e, w))
            | None \<Rightarrow> restore_named_list cas (ck_tables k) (fst ` set (mk_tables keyspace_metadata))) w)))"

definition keyspace_restore_post_data :: "('w, cluster_metadata) cas_session \<Rightarrow> cassandra_keyspace \<Rightarrow> ('w, unit) stateful" where
  "keyspace_restore_post_data cas k w =
     (case dict_get (cas_metadata cas w) (cn_name k) of
        None \<Rightarrow> (Inl KeyError, w)
      | Some m \<Rightarrow>
          bind_st (map_st (\<lambda>f. function_restore_in_keyspace cas f (map (\<lambda>(_, g). (mf_name g, mf_argument_types g)) (mk_functions m))) (ck_functions k)) (\<lambda>_.
          bind_st (map_st (\<lambda>f. function_restore_in_keyspace cas f (map (\<lambda>(_, g). (ma_name g, ma_argument_types g)) (mk_aggregates m))) (ck_aggregates k)) (\<lambda>_.
          bind_st (map_st (\<lambda>t. table_restore_post_data_in_keyspace cas t m) (ck_tables k)) (\<lambda>_ w. (Inr (), w)))) w)"

definition from_cassandra_session :: "(cassandra_function list \<Rightarrow> cassandra_function list) \<Rightarrow> (string \<Rightarrow> string) \<Rightarrow> ('w, unit) stateful
    \<Rightarrow> ('w, cluster_metadata) cas_session \<Rightarrow> ('w, cassandra_keyspace list) stateful" where
  "from_cassandra_session fsort protect_name refresh cas = bind_st refresh (\<lambda>_ w.
     if cas_metadata cas w = [] then (Inl ValueError, w)
     else (Inr (sorted_named (keyspace_from_cassandra_metadata fsort protect_name) (cas_metadata cas w)), w))"

definition restore_pre_data :: "('w, cluster_metadata) cas_session \<Rightarrow> cassandra_keyspace list \<Rightarrow> ('w, unit) stateful" where
  "restore_pre_data cas keyspaces = bind_st (map_st (keyspace_restore cas) (filter (\<lambda>k. \<not> is_system_keyspace (cn_name k)) keyspaces)) (\<lambda>_ w. (Inr (), w))"

definition restore_post_data :: "('w, cluster_metadata) cas_session \<Rightarrow> cassandra_keyspace list \<Rightarrow> ('w, unit) stateful" where
  "restore_post_data cas keyspaces = bind_st (map_st (keyspace_restore_post_data cas) (filter (\<lambda>k. \<not> is_system_keyspace (cn_name k)) keyspaces)) (\<lambda>_ w. (Inr (), w))"

section \<open>A schema that exists is left alone\<close>

lemma map_st_unchanged: "(\<And>x. x \<in> set xs \<Longrightarrow> f x w = (Inr (), w)) \<Longrightarrow> map_st f xs w = (Inr (map (\<lambda>_. ()) xs), w)"
  by (induction xs) (simp_all add: bind_st_def)

lemma restore_named_list_unchanged: "cn_name ` set xs \<subseteq> existing \<Longrightarrow> restore_named_list cas xs existing w = (Inr (), w)"
  unfolding restore_named_list_def by (simp add: bind_st_def map_st_unchanged restore_if_needed_def image_subset_iff)

lemma cn_names_from_metadata [simp]:
  "cn_name (user_type_from_cassandra_metadata u) = mo_name u" "cn_name (table_from_cassandra_metadata t) = mo_name t"
  "cn_name (keyspace_from_cassandra_metadata fsort pr m) = mo_name m"
  by (simp_all add: user_type_from_cassandra_metadata_def table_from_cassandra_metadata_def keyspace_from_cassandra_metadata_def)

text \<open>Metadata whose dictionaries have the names of the objects as keys.\<close>

definition keyed_by_name :: "(string \<times> 'a md_object_scheme) list \<Rightarrow> bool" where
  "keyed_by_name ms \<longleftrightarrow> distinct (map fst ms) \<and> (\<forall>p \<in> set ms. fst p = mo_name (snd p))"

definition wf_keyspace_metadata :: "md_keyspace \<Rightarrow> bool" where
  "wf_keyspace_metadata m \<longleftrightarrow> keyed_by_name (mk_user_types m) \<and> keyed_by_name (mk_tables m)"

lemma sorted_named_names: "keyed_by_name ms \<Longrightarrow> (\<And>x. cn_name (from x) = mo_name x) \<Longrightarrow> cn_name ` set (sorted_named from ms) = fst ` set ms"
proof -
  assume k: "keyed_by_name ms" and f: "\<And>x. cn_name (from x) = mo_name x"
  have "cn_name ` set (sorted_named from ms) = (\<lambda>p. mo_name (snd p)) ` set ms"
    by (simp add: sorted_named_def image_image f)
  also have "\<dots> = fst ` set ms" using k by (intro image_cong) (auto simp: keyed_by_name_def)
  finally show ?thesis .
qed

lemma keyspace_restore_unchanged:
  fixes fsort :: "cassandra_function list \<Rightarrow> cassandra_function list" and pr :: "string \<Rightarrow> string" and m :: md_keyspace
  defines "k \<equiv> keyspace_from_cassandra_metadata fsort pr m"
  assumes wf: "wf_keyspace_metadata m" and mem: "dict_get (cas_metadata cas w) (mo_name m) = Some m"
    and ac: "acyclic (type_edges (set (ck_user_types k)))"
  shows "keyspace_restore cas k w = (Inr (), w)"
proof -
  have uts: "ck_user_types k = sorted_named user_type_from_cassandra_metadata (mk_user_types m)"
      "ck_tables k = sorted_named table_from_cassandra_metadata (mk_tables m)" "cn_name k = mo_name m"
    by (simp_all add: k_def keyspace_from_cassandra_metadata_def)
  have names: "cn_name ` set (ck_user_types k) = fst ` set (mk_user_types m)" "cn_name ` set (ck_tables k) = fst ` set (mk_tables m)"
    unfolding uts using wf by (auto simp: wf_keyspace_metadata_def intro!: sorted_named_names)
  have "distinct (map cn_name (map (user_type_from_cassandra_metadata \<circ> snd) (mk_user_types m)))"
    using wf by (auto simp: wf_keyspace_metadata_def keyed_by_name_def comp_def cong: map_cong)
  then have "distinct (map cn_name (ck_user_types k))"
    unfolding uts sorted_named_def by (metis mset_eq_imp_distinct_iff mset_map mset_sort)
  then obtain ts where ts: "iterate_user_types_in_restore_order (ck_user_types k) = (ts, None)" "set ts \<subseteq> set (ck_user_types k)"
    using user_types_order [of "ck_user_types k"] ac by auto
  have "cn_name ` set ts \<subseteq> fst ` set (mk_user_types m)" using ts(2) names(1) by blast
  moreover have "cn_name k \<in> fst ` set (cas_metadata cas w)" using mem uts(3) by (metis map_of_SomeD fst_conv imageI)
  ultimately show ?thesis
    using names(2) mem by (simp add: keyspace_restore_def bind_st_def restore_if_needed_def uts(3) [symmetric] ts(1) restore_named_list_unchanged)
qed

section \<open>Statements with a separator inside\<close>

text \<open>The text of a function is cut at every separator, also at one inside the body of the function.\<close>

definition example_function :: md_function where
  "example_function = \<lparr>mf_keyspace = ''k'', mf_name = ''f'', mf_argument_names = [''x''], mf_argument_types = [''int''], mf_return_type = ''int'',
     mf_language = ''java'', mf_body = ''int y = x'' @ statement_separator @ ''return y;'', mf_called_on_null_input = False\<rparr>"

lemma function_body_is_cut: "length (split_statements [] (function_create_statement id example_function)) = 2"
  by code_simp

end
