(* ===== verification/M3db.thy ===== *)
theory M3db
  imports Node_Map Base64
begin

text \<open>
  The M3DB plugin: the etcd client (\<^verbatim>\<open>astacus/common/etcd.py\<close>), dumps of etcd prefixes and their restoration
  (\<^verbatim>\<open>astacus/coordinator/plugins/etcd.py\<close>), the rewriting of M3 placements (\<^verbatim>\<open>astacus/common/m3placement.py\<close>) and the plugin's own steps
  (\<^verbatim>\<open>astacus/coordinator/plugins/m3db.py\<close>). The etcd server is a world that answers requests, with what its documentation says of the
  three requests as a named hypothesis; the parser of the placement messages is a parameter, their map of
  instances creates a missing entry when it is read. Shown: restoring a dump makes the prefixes hold exactly what they held when the
  dump was taken and changes nothing else, and when the identities of nodes do not overlap every instance of a placement is renamed once.
\<close>

section \<open>The etcd client\<close>

text \<open>A request's data: the key, the end of the range and the value, as base64. The answer of a range request has the pairs, if any.\<close>

record etcd_data =
  ed_key :: string
  ed_range_end :: "string option"
  ed_value :: "string option"

record etcd_answer =
  ea_kvs :: "(string \<times> string) list option"

datatype etcd_url = KvDeleterange | KvRange | KvPut

type_synonym 'w etcd = "etcd_url \<Rightarrow> etcd_data \<Rightarrow> 'w \<Rightarrow> etcd_answer option \<times> 'w"

definition range_data :: "string \<Rightarrow> string option \<Rightarrow> etcd_data result" where
  "range_data key range_end = (case range_end of
     None \<Rightarrow> Inr \<lparr>ed_key = b64encode key, ed_range_end = None, ed_value = None\<rparr>
   | Some e \<Rightarrow> if e = [] then Inr \<lparr>ed_key = b64encode key, ed_range_end = None, ed_value = None\<rparr>
       else if key \<le> e then Inr \<lparr>ed_key = b64encode key, ed_range_end = Some (b64encode e), ed_value = None\<rparr> else Inl AssertionError)"

definition kv_deleterange :: "'w etcd \<Rightarrow> string \<Rightarrow> string option \<Rightarrow> ('w, etcd_answer option) stateful" where
  "kv_deleterange post key range_end w = (case range_data key range_end of Inl e \<Rightarrow> (Inl e, w)
     | Inr data \<Rightarrow> (case post KvDeleterange data w of (r, w1) \<Rightarrow> (Inr r, w1)))"

text \<open>The dictionary of the pairs: a later pair with the same key replaces an earlier one.\<close>

definition kv_range :: "'w etcd \<Rightarrow> string \<Rightarrow> string option \<Rightarrow> ('w, (string \<times> string) list) stateful" where
  "kv_range post key range_end w = (case range_data key range_end of Inl e \<Rightarrow> (Inl e, w)
     | Inr data \<Rightarrow> (case post KvRange data w of
         (None, w1) \<Rightarrow> (Inr [], w1)
       | (Some r, w1) \<Rightarrow> (case ea_kvs r of None \<Rightarrow> (Inl KeyError, w1)
           | Some kvs \<Rightarrow> (Inr (fold (\<lambda>(k, v). dict_set k v) kvs []), w1))))"

definition kv_put_b64 :: "'w etcd \<Rightarrow> string \<Rightarrow> string \<Rightarrow> ('w, etcd_answer option) stateful" where
  "kv_put_b64 post key v w = (case post KvPut \<lparr>ed_key = key, ed_range_end = None, ed_value = Some v\<rparr> w of (r, w1) \<Rightarrow> (Inr r, w1))"

definition kv_put :: "'w etcd \<Rightarrow> string \<Rightarrow> string \<Rightarrow> ('w, etcd_answer option) stateful" where
  "kv_put post key v = kv_put_b64 post (b64encode key) (b64encode v)"

text \<open>\<^verbatim>\<open>range_end[-1] += 1\<close> on a byte array: there has to be a last byte, and its successor has to be a byte.\<close>

definition prefix_range_end :: "string \<Rightarrow> string result" where
  "prefix_range_end pre = (if pre = [] then Inl IndexError
     else if of_char (last pre) = (255 :: nat) then Inl ValueError
     else Inr (butlast pre @ [char_of (of_char (last pre) + (1 :: nat))]))"

definition prefix_delete :: "'w etcd \<Rightarrow> string \<Rightarrow> ('w, etcd_answer option) stateful" where
  "prefix_delete post pre w = (case prefix_range_end pre of Inl e \<Rightarrow> (Inl e, w) | Inr e \<Rightarrow> kv_deleterange post pre (Some e) w)"

definition prefix_get :: "'w etcd \<Rightarrow> string \<Rightarrow> ('w, (string \<times> string) list) stateful" where
  "prefix_get post pre w = (case prefix_range_end pre of Inl e \<Rightarrow> (Inl e, w) | Inr e \<Rightarrow> kv_range post pre (Some e) w)"

section \<open>Dumps\<close>

record etcd_key =
  key_b64 :: string
  value_b64 :: string

record etcd_prefix_dump =
  prefix_b64 :: string
  dump_keys :: "etcd_key list"

type_synonym etcd_dump = "etcd_prefix_dump list"

definition key_bytes :: "etcd_key \<Rightarrow> string result" where "key_bytes k = b64decode (key_b64 k)"
definition value_bytes :: "etcd_key \<Rightarrow> string result" where "value_bytes k = b64decode (value_b64 k)"
definition set_value_bytes :: "string \<Rightarrow> etcd_key \<Rightarrow> etcd_key" where "set_value_bytes v k = k\<lparr>value_b64 := b64encode v\<rparr>"

definition get_etcd_prefix_dump :: "'w etcd \<Rightarrow> string \<Rightarrow> ('w, etcd_prefix_dump option) stateful" where
  "get_etcd_prefix_dump post pre = bind_st (prefix_get post pre) (\<lambda>kvs w. (Inr (if kvs = [] then None
     else Some \<lparr>prefix_b64 = b64encode pre, dump_keys = map (\<lambda>(k, v). \<lparr>key_b64 = k, value_b64 = v\<rparr>) kvs\<rparr>), w))"

text \<open>The requests of the prefixes run concurrently; here one after the other.\<close>

definition get_etcd_dump :: "'w etcd \<Rightarrow> string list \<Rightarrow> ('w, etcd_dump option) stateful" where
  "get_etcd_dump post pres = bind_st (map_st (get_etcd_prefix_dump post) pres) (\<lambda>ranges w.
     (Inr (if None \<in> set ranges then None else Some (map the ranges)), w))"

fun put_keys :: "'w etcd \<Rightarrow> etcd_key list \<Rightarrow> ('w, bool) stateful" where
  "put_keys post [] w = (Inr True, w)"
| "put_keys post (k # ks) w = (case kv_put_b64 post (key_b64 k) (value_b64 k) w of
     (Inl e, w1) \<Rightarrow> (Inl e, w1) | (Inr None, w1) \<Rightarrow> (Inr False, w1) | (Inr (Some _), w1) \<Rightarrow> put_keys post ks w1)"

definition restore_etcd_prefix :: "'w etcd \<Rightarrow> etcd_prefix_dump \<Rightarrow> ('w, bool) stateful" where
  "restore_etcd_prefix post p w = (case b64decode (prefix_b64 p) of Inl e \<Rightarrow> (Inl e, w)
     | Inr pre \<Rightarrow> (case prefix_delete post pre w of
         (Inl e, w1) \<Rightarrow> (Inl e, w1) | (Inr None, w1) \<Rightarrow> (Inr False, w1) | (Inr (Some _), w1) \<Rightarrow> put_keys post (dump_keys p) w1))"

fun restore_etcd_dump :: "'w etcd \<Rightarrow> etcd_dump \<Rightarrow> ('w, bool) stateful" where
  "restore_etcd_dump post [] w = (Inr True, w)"
| "restore_etcd_dump post (p # ps) w = (case restore_etcd_prefix post p w of
     (Inl e, w1) \<Rightarrow> (Inl e, w1) | (Inr False, w1) \<Rightarrow> (Inr False, w1) | (Inr True, w1) \<Rightarrow> restore_etcd_dump post ps w1)"

section \<open>Restoring a dump\<close>

text \<open>What etcd documents of its requests: a range is answered with the pairs whose keys are in it, deletion removes them, and a put
  stores one pair; answers to deletions and puts are never empty. \<open>contents\<close> is the key space of the server. Nothing is
  said of the answer to a range without keys.\<close>

definition in_range :: "string \<Rightarrow> string \<Rightarrow> string \<Rightarrow> bool" where "in_range k e x \<longleftrightarrow> k \<le> x \<and> x < e"

definition encoded_pairs :: "(string \<times> string) list \<Rightarrow> (string \<times> string) list" where
  "encoded_pairs kvs = map (\<lambda>(k, v). (b64encode k, b64encode v)) kvs"

definition etcd_answers_range :: "'w etcd \<Rightarrow> ('w \<Rightarrow> string \<rightharpoonup> string) \<Rightarrow> string \<Rightarrow> string \<Rightarrow> 'w \<Rightarrow> bool" where
  "etcd_answers_range post contents k e w \<longleftrightarrow> (\<exists>a w'. post KvRange \<lparr>ed_key = b64encode k, ed_range_end = Some (b64encode e), ed_value = None\<rparr> w = (a, w')
     \<and> contents w' = contents w \<and> ((\<exists>x. in_range k e x \<and> contents w x \<noteq> None) \<longrightarrow> (\<exists>kvs. a = Some \<lparr>ea_kvs = Some (encoded_pairs kvs)\<rparr> \<and> distinct (map fst kvs)
       \<and> (\<forall>x. map_of kvs x = (if in_range k e x then contents w x else None)))))"

definition etcd_deletes_range :: "'w etcd \<Rightarrow> ('w \<Rightarrow> string \<rightharpoonup> string) \<Rightarrow> string \<Rightarrow> string \<Rightarrow> 'w \<Rightarrow> bool" where
  "etcd_deletes_range post contents k e w \<longleftrightarrow> (\<exists>a w'. post KvDeleterange \<lparr>ed_key = b64encode k, ed_range_end = Some (b64encode e), ed_value = None\<rparr> w = (Some a, w')
     \<and> contents w' = (\<lambda>x. if in_range k e x then None else contents w x))"

definition etcd_puts :: "'w etcd \<Rightarrow> ('w \<Rightarrow> string \<rightharpoonup> string) \<Rightarrow> string \<Rightarrow> string \<Rightarrow> 'w \<Rightarrow> bool" where
  "etcd_puts post contents k v w \<longleftrightarrow> (\<exists>a w'. post KvPut \<lparr>ed_key = b64encode k, ed_range_end = None, ed_value = Some (b64encode v)\<rparr> w = (Some a, w')
     \<and> contents w' = (contents w)(k \<mapsto> v))"

definition etcd_behaves :: "'w etcd \<Rightarrow> ('w \<Rightarrow> string \<rightharpoonup> string) \<Rightarrow> bool" where
  "etcd_behaves post contents \<longleftrightarrow> (\<forall>w k e v. etcd_answers_range post contents k e w \<and> etcd_deletes_range post contents k e w \<and> etcd_puts post contents k v w)"

definition plain_prefix :: "string \<Rightarrow> bool" where
  "plain_prefix pre \<longleftrightarrow> pre \<noteq> [] \<and> of_char (last pre) \<noteq> (255 :: nat)"

lemma char_less_succ:
  assumes "of_char c \<noteq> (255 :: nat)"
  shows "d < char_of (of_char c + (1 :: nat)) \<longleftrightarrow> d \<le> c"
proof -
  have "(of_char c :: nat) < 256" by simp
  then have "of_char c + 1 < (256 :: nat)" using assms by linarith
  then have "(of_char (char_of (of_char c + (1 :: nat))) :: nat) = of_char c + 1" by (simp add: of_char_of)
  then show ?thesis by (simp add: less_char_def less_eq_char_def less_Suc_eq_le)
qed

lemma range_is_prefix:
  assumes "prefix_range_end pre = Inr e"
  shows "in_range pre e x \<longleftrightarrow> prefix pre x"
proof -
  have plain: "pre \<noteq> []" "of_char (last pre) \<noteq> (255 :: nat)" and e: "e = butlast pre @ [char_of (of_char (last pre) + (1 :: nat))]"
    using assms by (auto simp: prefix_range_end_def split: if_splits)
  show ?thesis using plain unfolding e in_range_def
  proof (induction pre arbitrary: x)
    case (Cons c pre)
    note IH = Cons.IH and prems = Cons.prems
    show ?case
    proof (cases pre)
      case Nil
      have "d < char_of (Suc (of_char c)) \<longleftrightarrow> d \<le> c" for d using char_less_succ [of c d] prems Nil by simp
      then have "d \<le> c \<longleftrightarrow> d < char_of (of_char c + (1 :: nat))" for d by simp
      with Nil show ?thesis by (cases x) (simp_all, metis linorder_not_le order_le_less)
    next
      case (Cons d pre')
      let ?e = "butlast pre @ [char_of (of_char (last pre) + (1 :: nat))]"
      have ih: "pre \<le> y \<and> y < ?e \<longleftrightarrow> prefix pre y" for y using IH [of y] prems Cons by simp
      have bl: "butlast (c # pre) @ [char_of (of_char (last (c # pre)) + (1 :: nat))] = c # ?e" using Cons by simp
      show ?thesis
      proof (cases x)
        case (Cons a y)
        have "(c < a \<or> c = a \<and> pre \<le> y) \<and> (a < c \<or> a = c \<and> y < ?e) \<longleftrightarrow> c = a \<and> prefix pre y"
          using ih [of y] by (metis order.asym)
        then show ?thesis unfolding bl Cons by (simp only: Cons_le_Cons Cons_less_Cons Cons_prefix_Cons)
      qed simp
    qed
  qed simp
qed

lemma prefix_end_le: "prefix_range_end pre = Inr e \<Longrightarrow> pre \<le> e \<and> e \<noteq> []"
proof -
  assume e: "prefix_range_end pre = Inr e"
  have "in_range pre e pre" using range_is_prefix [OF e] by simp
  then show ?thesis using e by (auto simp: in_range_def prefix_range_end_def split: if_splits)
qed

lemma plain_prefix_end: "plain_prefix pre \<Longrightarrow> \<exists>e. prefix_range_end pre = Inr e"
  by (auto simp: plain_prefix_def prefix_range_end_def)

lemma b64encode_inj: "inj b64encode"
  by (metis b64_roundtrip injI sum.inject(2))

lemma fold_dict_distinct:
  fixes al kvs :: "(string \<times> string) list"
  assumes "distinct (map fst (al @ kvs))"
  shows "fold (\<lambda>(k, v). dict_set k v) kvs al = al @ kvs"
  using assms
proof (induction kvs arbitrary: al)
  case (Cons p kvs)
  obtain k v where p: "p = (k, v)" by (cases p)
  have "dict_set k v al = al @ [(k, v)]" using Cons.prems p by (intro dict_set_new) auto
  then show ?case using Cons.IH [of "al @ [(k, v)]"] Cons.prems p by simp
qed simp

lemma prefix_get_result:
  assumes beh: "etcd_behaves post contents" and e: "prefix_range_end pre = Inr e"
    and get: "get_etcd_prefix_dump post pre w = (Inr (Some d), w')"
    and some: "\<exists>x. prefix pre x \<and> contents w x \<noteq> None"
  shows "contents w' = contents w \<and> (\<exists>kvs. distinct (map fst kvs) \<and> (\<forall>x. map_of kvs x = (if prefix pre x then contents w x else None))
    \<and> d = \<lparr>prefix_b64 = b64encode pre, dump_keys = map (\<lambda>(k, v). \<lparr>key_b64 = b64encode k, value_b64 = b64encode v\<rparr>) kvs\<rparr>)"
proof -
  have "etcd_answers_range post contents pre e w" using beh by (simp add: etcd_behaves_def)
  then obtain kvs w1 where r: "post KvRange \<lparr>ed_key = b64encode pre, ed_range_end = Some (b64encode e), ed_value = None\<rparr> w
      = (Some \<lparr>ea_kvs = Some (encoded_pairs kvs)\<rparr>, w1)" "contents w1 = contents w" "distinct (map fst kvs)"
      "\<forall>x. map_of kvs x = (if prefix pre x then contents w x else None)"
    using some unfolding etcd_answers_range_def range_is_prefix [OF e] by blast
  have "distinct (map fst (encoded_pairs kvs))"
    using r(3) b64encode_inj by (simp add: encoded_pairs_def comp_def case_prod_unfold distinct_map inj_on_def inj_def)
  then have "fold (\<lambda>(k, v). dict_set k v) (encoded_pairs kvs) [] = encoded_pairs kvs" using fold_dict_distinct [of "[]"] by simp
  then have "prefix_get post pre w = (Inr (encoded_pairs kvs), w1)"
    using r(1) prefix_end_le [OF e] by (simp add: prefix_get_def e kv_range_def range_data_def)
  then have "w' = w1 \<and> d = \<lparr>prefix_b64 = b64encode pre, dump_keys = map (\<lambda>(k, v). \<lparr>key_b64 = k, value_b64 = v\<rparr>) (encoded_pairs kvs)\<rparr>"
    using get by (auto simp: get_etcd_prefix_dump_def bind_st_def split: if_splits)
  then show ?thesis using r(2-4) by (intro conjI exI [of _ kvs]) (simp_all add: encoded_pairs_def case_prod_unfold)
qed

definition dump_of :: "string \<Rightarrow> (string \<times> string) list \<Rightarrow> etcd_prefix_dump" where
  "dump_of pre kvs = \<lparr>prefix_b64 = b64encode pre, dump_keys = map (\<lambda>(k, v). \<lparr>key_b64 = b64encode k, value_b64 = b64encode v\<rparr>) kvs\<rparr>"

definition dump_matches :: "(string \<rightharpoonup> string) \<Rightarrow> string \<Rightarrow> etcd_prefix_dump \<Rightarrow> bool" where
  "dump_matches c pre d \<longleftrightarrow> (\<exists>kvs. distinct (map fst kvs) \<and> (\<forall>x. map_of kvs x = (if prefix pre x then c x else None)) \<and> d = dump_of pre kvs)"

lemma put_keys_result:
  assumes "etcd_behaves post contents" and "distinct (map fst kvs)"
  shows "\<exists>w'. put_keys post (map (\<lambda>(k, v). \<lparr>key_b64 = b64encode k, value_b64 = b64encode v\<rparr>) kvs) w = (Inr True, w')
    \<and> contents w' = contents w ++ map_of kvs"
  using assms(2)
proof (induction kvs arbitrary: w)
  case (Cons p kvs)
  obtain k v where p: "p = (k, v)" by (cases p)
  have "etcd_puts post contents k v w" using assms(1) by (simp add: etcd_behaves_def)
  then obtain a w1 where w1: "post KvPut \<lparr>ed_key = b64encode k, ed_range_end = None, ed_value = Some (b64encode v)\<rparr> w = (Some a, w1)"
      "contents w1 = (contents w)(k \<mapsto> v)" by (auto simp: etcd_puts_def)
  obtain w2 where w2: "put_keys post (map (\<lambda>(k, v). \<lparr>key_b64 = b64encode k, value_b64 = b64encode v\<rparr>) kvs) w1 = (Inr True, w2)"
      "contents w2 = contents w1 ++ map_of kvs" using Cons.IH [of w1] Cons.prems by auto
  have "map_of kvs k = None" using Cons.prems p by (simp add: map_of_eq_None_iff)
  then have "contents w1 ++ map_of kvs = contents w ++ map_of (p # kvs)" using w1(2) p by (auto simp: fun_eq_iff map_add_def split: option.splits)
  then have "contents w2 = contents w ++ map_of (p # kvs)" using w2(2) by simp
  moreover have "put_keys post (map (\<lambda>(k, v). \<lparr>key_b64 = b64encode k, value_b64 = b64encode v\<rparr>) (p # kvs)) w = (Inr True, w2)"
    using w1(1) w2(1) p by (simp add: kv_put_b64_def)
  ultimately show ?case by blast
qed simp

lemma restore_prefix_result:
  assumes beh: "etcd_behaves post contents" and plain: "plain_prefix pre" and d: "dump_matches c pre d"
  shows "\<exists>w'. restore_etcd_prefix post d w = (Inr True, w') \<and> (\<forall>x. contents w' x = (if prefix pre x then c x else contents w x))"
proof -
  obtain e where e: "prefix_range_end pre = Inr e" using plain_prefix_end [OF plain] by blast
  obtain kvs where kvs: "distinct (map fst kvs)" "\<forall>x. map_of kvs x = (if prefix pre x then c x else None)" "d = dump_of pre kvs"
    using d by (auto simp: dump_matches_def)
  have "etcd_deletes_range post contents pre e w" using beh by (simp add: etcd_behaves_def)
  then obtain a w1 where w1: "post KvDeleterange \<lparr>ed_key = b64encode pre, ed_range_end = Some (b64encode e), ed_value = None\<rparr> w = (Some a, w1)"
      "contents w1 = (\<lambda>x. if prefix pre x then None else contents w x)"
    unfolding etcd_deletes_range_def range_is_prefix [OF e] by blast
  obtain w2 where w2: "put_keys post (dump_keys d) w1 = (Inr True, w2)" "contents w2 = contents w1 ++ map_of kvs"
    using put_keys_result [OF beh kvs(1), of w1] kvs(3) by (auto simp: dump_of_def)
  have "contents w2 x = (if prefix pre x then c x else contents w x)" for x
    using w1(2) w2(2) kvs(2) by (auto simp: map_add_def split: option.splits)
  moreover have "restore_etcd_prefix post d w = (Inr True, w2)"
    using w1(1) w2(1) prefix_end_le [OF e] kvs(3)
    by (simp add: restore_etcd_prefix_def dump_of_def prefix_delete_def e kv_deleterange_def range_data_def)
  ultimately show ?thesis by blast
qed

lemma restore_dump_result:
  assumes "etcd_behaves post contents" and "list_all2 (dump_matches c) pres ds" and "\<forall>pre \<in> set pres. plain_prefix pre"
  shows "\<exists>w'. restore_etcd_dump post ds w = (Inr True, w') \<and> (\<forall>x. contents w' x = (if \<exists>pre \<in> set pres. prefix pre x then c x else contents w x))"
  using assms(2,3)
proof (induction pres ds arbitrary: w rule: list_all2_induct)
  case (Cons pre pres d ds)
  obtain w1 where w1: "restore_etcd_prefix post d w = (Inr True, w1)" "\<forall>x. contents w1 x = (if prefix pre x then c x else contents w x)"
    using restore_prefix_result [OF assms(1) _ Cons.hyps(1), of w] Cons.prems by auto
  obtain w2 where "restore_etcd_dump post ds w1 = (Inr True, w2)" "\<forall>x. contents w2 x = (if \<exists>pre \<in> set pres. prefix pre x then c x else contents w1 x)"
    using Cons.IH [of w1] Cons.prems by auto
  then show ?case using w1 by auto
qed simp

lemma get_dumps_match:
  assumes beh: "etcd_behaves post contents" and "\<forall>pre \<in> set pres. plain_prefix pre \<and> (\<exists>x. prefix pre x \<and> contents w x \<noteq> None)"
    and "map_st (get_etcd_prefix_dump post) pres w = (Inr ranges, w')"
  shows "contents w' = contents w \<and> (None \<notin> set ranges \<longrightarrow> list_all2 (dump_matches (contents w)) pres (map the ranges))"
  using assms(2,3)
proof (induction pres arbitrary: w ranges)
  case (Cons pre pres)
  obtain e where e: "prefix_range_end pre = Inr e" using plain_prefix_end Cons.prems(1) by fastforce
  obtain r w1 rs where r: "get_etcd_prefix_dump post pre w = (Inr r, w1)" "map_st (get_etcd_prefix_dump post) pres w1 = (Inr rs, w')" "ranges = r # rs"
    using Cons.prems(2) by (auto simp: bind_st_def split: prod.splits sum.splits)
  have some: "\<exists>x. prefix pre x \<and> contents w x \<noteq> None" using Cons.prems(1) by auto
  have same: "contents w1 = contents w"
  proof -
    have "etcd_answers_range post contents pre e w" using beh by (simp add: etcd_behaves_def)
    then show ?thesis using r(1) prefix_end_le [OF e]
      by (auto simp: etcd_answers_range_def get_etcd_prefix_dump_def bind_st_def prefix_get_def e kv_range_def range_data_def
        split: prod.splits option.splits sum.splits)
  qed
  have IH: "contents w' = contents w1 \<and> (None \<notin> set rs \<longrightarrow> list_all2 (dump_matches (contents w1)) pres (map the rs))"
    using Cons.IH [of w1 rs] Cons.prems(1) r(2) same by auto
  show ?case
  proof (cases r)
    case (Some d)
    have "dump_matches (contents w) pre d"
      using prefix_get_result [OF beh e _ some, of d w1] r(1) Some by (auto simp: dump_matches_def dump_of_def)
    then show ?thesis using IH same r(3) Some by auto
  qed (use IH same r(3) in auto)
qed simp

text \<open>C30. A dump of etcd prefixes, once taken, can be restored at any later time: whatever the server holds by then, the restoration
  succeeds, afterwards the prefixes hold exactly the pairs they held when the dump was taken, and all other keys
  are as they were.\<close>

theorem etcd_dump_restored:
  assumes "etcd_behaves post contents"
    and "\<forall>pre \<in> set pres. plain_prefix pre \<and> (\<exists>x. prefix pre x \<and> contents w x \<noteq> None)"
    and "get_etcd_dump post pres w = (Inr (Some dump), w')"
  shows "contents w' = contents w \<and> (\<forall>later. \<exists>w''. restore_etcd_dump post dump later = (Inr True, w'')
    \<and> (\<forall>x. contents w'' x = (if \<exists>pre \<in> set pres. prefix pre x then contents w x else contents later x)))"
proof -
  obtain ranges where r: "map_st (get_etcd_prefix_dump post) pres w = (Inr ranges, w')" "None \<notin> set ranges" "dump = map the ranges"
    using assms(3) by (auto simp: get_etcd_dump_def bind_st_def split: prod.splits sum.splits if_splits)
  note g = get_dumps_match [OF assms(1,2) r(1)]
  have "list_all2 (dump_matches (contents w)) pres dump" using g r(2,3) by blast
  then show ?thesis using g restore_dump_result [OF assms(1)] assms(2) by blast
qed

text \<open>A server that behaves: an association list.\<close>

definition decoded :: "string option \<Rightarrow> string" where
  "decoded t = (case t of None \<Rightarrow> [] | Some s \<Rightarrow> (case b64decode s of Inr b \<Rightarrow> b | Inl _ \<Rightarrow> []))"

definition example_etcd :: "(string \<times> string) list etcd" where
  "example_etcd url d w = (let k = decoded (Some (ed_key d)); e = decoded (ed_range_end d) in case url of
     KvRange \<Rightarrow> (Some \<lparr>ea_kvs = Some (encoded_pairs (AList.clearjunk (filter (\<lambda>(x, _). in_range k e x) w)))\<rparr>, w)
   | KvDeleterange \<Rightarrow> (Some \<lparr>ea_kvs = None\<rparr>, filter (\<lambda>(x, _). \<not> in_range k e x) w)
   | KvPut \<Rightarrow> (Some \<lparr>ea_kvs = None\<rparr>, (k, decoded (ed_value d)) # w))"

lemma example_etcd_behaves: "etcd_behaves example_etcd map_of"
proof -
  have d: "decoded (Some (b64encode s)) = s" for s by (simp add: decoded_def)
  have range: "etcd_answers_range example_etcd map_of k e w" for k e w
    unfolding etcd_answers_range_def example_etcd_def Let_def
    by (simp add: d) (intro impI exI conjI refl, auto simp: distinct_clearjunk map_of_clearjunk map_of_filter_key)
  have del: "etcd_deletes_range example_etcd map_of k e w" for k e w
    unfolding etcd_deletes_range_def example_etcd_def Let_def by (auto simp: d map_of_filter_key)
  have put: "etcd_puts example_etcd map_of k v w" for k v w
    unfolding etcd_puts_def example_etcd_def Let_def by (auto simp: d)
  show ?thesis unfolding etcd_behaves_def using range del put by blast
qed

definition example_key_space :: "(string \<times> string) list" where
  "example_key_space = [(''_kv/e'', ''1''), (''other'', ''2'')]"

theorem etcd_dump_restored_witness:
  "map_of example_key_space = map_of example_key_space \<and> (\<forall>later. \<exists>w''. restore_etcd_dump example_etcd [dump_of ''_kv'' [(''_kv/e'', ''1'')]] later = (Inr True, w'')
    \<and> (\<forall>x. map_of w'' x = (if \<exists>pre \<in> set [''_kv'']. prefix pre x then map_of example_key_space x else map_of later x)))"
proof (rule etcd_dump_restored [OF example_etcd_behaves])
  have "\<exists>x. prefix ''_kv'' x \<and> map_of example_key_space x \<noteq> None"
    by (rule exI [of _ "''_kv/e''"]) (simp add: example_key_space_def)
  moreover have "plain_prefix ''_kv''" by code_simp
  ultimately show "\<forall>pre \<in> set [''_kv'']. plain_prefix pre \<and> (\<exists>x. prefix pre x \<and> map_of example_key_space x \<noteq> None)" by simp
  show "get_etcd_dump example_etcd [''_kv''] example_key_space = (Inr (Some [dump_of ''_kv'' [(''_kv/e'', ''1'')]]), example_key_space)" by code_simp
qed

section \<open>Placements\<close>

definition MAXIMUM_PROTOBUF_STR_LENGTH :: nat where "MAXIMUM_PROTOBUF_STR_LENGTH = 127"

definition non_empty_and_sane_length :: "string \<Rightarrow> string result" where
  "non_empty_and_sane_length v = (if length v = 0 then Inl ValueError else if length v > MAXIMUM_PROTOBUF_STR_LENGTH then Inl ValueError else Inr v)"

record m3_placement_node =
  pn_node_id :: string
  pn_endpoint :: string
  pn_hostname :: string

definition make_placement_node :: "string \<Rightarrow> string \<Rightarrow> string \<Rightarrow> m3_placement_node result" where
  "make_placement_node node_id endpoint hostname = bind_res (non_empty_and_sane_length node_id) (\<lambda>i. bind_res (non_empty_and_sane_length endpoint) (\<lambda>e.
     bind_res (non_empty_and_sane_length hostname) (\<lambda>h. Inr \<lparr>pn_node_id = i, pn_endpoint = e, pn_hostname = h\<rparr>)))"

record m3_replacement =
  mr_src_pnode :: m3_placement_node
  mr_dst_pnode :: m3_placement_node
  mr_dst_isolation_group :: string

text \<open>An instance of a placement message with the fields that are rewritten and the rest of the message.\<close>

record 'r m3_instance =
  in_id :: string
  in_isolation_group :: string
  in_endpoint :: string
  in_hostname :: string
  in_rest :: 'r

record ('r, 'p) m3_placement =
  pl_instances :: "(string \<times> 'r m3_instance) list"
  pl_rest :: 'p

definition rewritten_instance :: "m3_placement_node \<Rightarrow> string \<Rightarrow> 'r m3_instance \<Rightarrow> 'r m3_instance" where
  "rewritten_instance dst_pnode dst_isolation_group instance =
     (if dst_isolation_group \<noteq> [] then instance\<lparr>in_isolation_group := dst_isolation_group\<rparr> else instance)
     \<lparr>in_endpoint := pn_endpoint dst_pnode, in_hostname := pn_hostname dst_pnode, in_id := pn_node_id dst_pnode\<rparr>"

text \<open>Reading a missing key of the map creates an empty instance \<open>blank\<close>.\<close>

definition rewrite_single_m3_placement_node :: "'r m3_instance \<Rightarrow> m3_replacement \<Rightarrow> ('r, 'p) m3_placement \<Rightarrow> ('r, 'p) m3_placement" where
  "rewrite_single_m3_placement_node blank r placement =
     (let src = pn_node_id (mr_src_pnode r);
          instance = (case dict_get (pl_instances placement) src of Some i \<Rightarrow> i | None \<Rightarrow> blank)
      in placement\<lparr>pl_instances := dict_set (pn_node_id (mr_dst_pnode r)) (rewritten_instance (mr_dst_pnode r) (mr_dst_isolation_group r) instance)
            (AList.delete src (pl_instances placement))\<rparr>)"

definition rewrite_placement :: "'r m3_instance \<Rightarrow> m3_replacement list \<Rightarrow> ('r, 'p) m3_placement \<Rightarrow> ('r, 'p) m3_placement" where
  "rewrite_placement blank replacements placement = fold (rewrite_single_m3_placement_node blank) replacements placement"

definition rewrite_m3_placement_bytes :: "(string \<Rightarrow> ('r, 'p) m3_placement result) \<Rightarrow> (('r, 'p) m3_placement \<Rightarrow> string) \<Rightarrow> 'r m3_instance
    \<Rightarrow> string \<Rightarrow> m3_replacement list \<Rightarrow> string result" where
  "rewrite_m3_placement_bytes parse serialize blank v replacements =
     bind_res (parse v) (\<lambda>placement. Inr (serialize (rewrite_placement blank replacements placement)))"

abbreviation src_ids :: "m3_replacement list \<Rightarrow> string list" where "src_ids rs \<equiv> map (pn_node_id \<circ> mr_src_pnode) rs"
abbreviation dst_ids :: "m3_replacement list \<Rightarrow> string list" where "dst_ids rs \<equiv> map (pn_node_id \<circ> mr_dst_pnode) rs"

lemma rewrite_single_lookup:
  "dict_get (pl_instances (rewrite_single_m3_placement_node blank r p)) k =
     (if k = pn_node_id (mr_dst_pnode r)
      then Some (rewritten_instance (mr_dst_pnode r) (mr_dst_isolation_group r) (case dict_get (pl_instances p) (pn_node_id (mr_src_pnode r)) of Some i \<Rightarrow> i | None \<Rightarrow> blank))
      else if k = pn_node_id (mr_src_pnode r) then None else dict_get (pl_instances p) k)"
  by (simp add: rewrite_single_m3_placement_node_def Let_def update_conv' delete_conv')

lemma rewrite_placement_result:
  assumes "distinct (src_ids rs)" and "distinct (dst_ids rs)"
    and "\<forall>i < length rs. \<forall>j < length rs. i \<noteq> j \<longrightarrow> pn_node_id (mr_dst_pnode (rs ! i)) \<noteq> pn_node_id (mr_src_pnode (rs ! j))"
    and "set (src_ids rs) \<subseteq> fst ` set (pl_instances p)"
  shows "(\<forall>r \<in> set rs. \<exists>i. dict_get (pl_instances p) (pn_node_id (mr_src_pnode r)) = Some i
      \<and> dict_get (pl_instances (rewrite_placement blank rs p)) (pn_node_id (mr_dst_pnode r)) = Some (rewritten_instance (mr_dst_pnode r) (mr_dst_isolation_group r) i))
    \<and> (\<forall>k. k \<notin> set (src_ids rs) \<union> set (dst_ids rs) \<longrightarrow> dict_get (pl_instances (rewrite_placement blank rs p)) k = dict_get (pl_instances p) k)
    \<and> (\<forall>k \<in> set (src_ids rs) - set (dst_ids rs). dict_get (pl_instances (rewrite_placement blank rs p)) k = None)"
  using assms
proof (induction rs arbitrary: p)
  case (Cons r rs)
  let ?p = "rewrite_single_m3_placement_node blank r p" and ?s = "pn_node_id (mr_src_pnode r)" and ?d = "pn_node_id (mr_dst_pnode r)"
  have no: "?d \<notin> set (src_ids rs)" "?s \<notin> set (dst_ids rs)"
    using Cons.prems(3) by (auto simp: in_set_conv_nth) (metis Suc_less_eq nth_Cons_0 nth_Cons_Suc old.nat.distinct(2) zero_less_Suc)+
  have fresh: "?s \<notin> set (src_ids rs)" "?d \<notin> set (dst_ids rs)" using Cons.prems(1,2) by auto
  have rest: "\<forall>i < length rs. \<forall>j < length rs. i \<noteq> j \<longrightarrow> pn_node_id (mr_dst_pnode (rs ! i)) \<noteq> pn_node_id (mr_src_pnode (rs ! j))"
    using Cons.prems(3) by (metis Suc_inject Suc_less_eq length_Cons nth_Cons_Suc)
  have same: "dict_get (pl_instances ?p) k = dict_get (pl_instances p) k" if "k \<noteq> ?s" "k \<noteq> ?d" for k
    using that by (simp add: rewrite_single_lookup)
  have dist: "distinct (src_ids rs)" "distinct (dst_ids rs)" using Cons.prems(1,2) by (simp_all add: comp_def)
  have "set (src_ids rs) \<subseteq> fst ` set (pl_instances ?p)"
  proof
    fix k assume k: "k \<in> set (src_ids rs)"
    then have "dict_get (pl_instances p) k \<noteq> None" using Cons.prems(4) by (auto simp: map_of_eq_None_iff)
    moreover have "k \<noteq> ?s" "k \<noteq> ?d" using k no(1) fresh(1) by blast+
    ultimately have "dict_get (pl_instances ?p) k \<noteq> None" using same by simp
    then show "k \<in> fst ` set (pl_instances ?p)" by (simp add: map_of_eq_None_iff)
  qed
  note IH = Cons.IH [OF dist rest this]
  obtain i where i: "dict_get (pl_instances p) ?s = Some i" using Cons.prems(4) by (metis image_eqI list.set_intros(1) map_of_eq_None_iff not_None_eq o_apply set_map subsetD)
  have unf: "rewrite_placement blank (r # rs) p = rewrite_placement blank rs ?p" by (simp add: rewrite_placement_def)
  have d: "dict_get (pl_instances (rewrite_placement blank rs ?p)) ?d = Some (rewritten_instance (mr_dst_pnode r) (mr_dst_isolation_group r) i)"
    using IH no fresh i by (simp add: rewrite_single_lookup)
  show ?case unfolding unf
  proof (intro conjI ballI allI impI)
    fix x assume x: "x \<in> set (r # rs)"
    show "\<exists>i. dict_get (pl_instances p) (pn_node_id (mr_src_pnode x)) = Some i \<and> dict_get (pl_instances (rewrite_placement blank rs ?p)) (pn_node_id (mr_dst_pnode x))
        = Some (rewritten_instance (mr_dst_pnode x) (mr_dst_isolation_group x) i)"
    proof (cases "x = r")
      case False
      with x have xr: "x \<in> set rs" by simp
      then have "pn_node_id (mr_src_pnode x) \<in> set (src_ids rs)" by simp
      then have "pn_node_id (mr_src_pnode x) \<noteq> ?s" "pn_node_id (mr_src_pnode x) \<noteq> ?d" using fresh(1) no(1) by metis+
      then show ?thesis using bspec [OF conjunct1 [OF IH] xr] same by simp
    qed (use i d in simp)
  next
    fix k assume "k \<notin> set (src_ids (r # rs)) \<union> set (dst_ids (r # rs))"
    then show "dict_get (pl_instances (rewrite_placement blank rs ?p)) k = dict_get (pl_instances p) k"
      using IH same by simp
  next
    fix k assume k: "k \<in> set (src_ids (r # rs)) - set (dst_ids (r # rs))"
    show "dict_get (pl_instances (rewrite_placement blank rs ?p)) k = None"
    proof (cases "k \<in> set (src_ids rs)")
      case False
      then have "k = ?s" using k by simp
      then show ?thesis using IH False no k by (simp add: rewrite_single_lookup)
    qed (use IH k in auto)
  qed
qed (simp add: rewrite_placement_def)

text \<open>With a replacement whose new identity is the old identity of another one, as when two nodes change places, an instance is lost.\<close>

definition example_instance :: "string \<Rightarrow> unit m3_instance" where
  "example_instance n = \<lparr>in_id = n, in_isolation_group = n, in_endpoint = n, in_hostname = n, in_rest = ()\<rparr>"

definition example_pnode :: "string \<Rightarrow> m3_placement_node" where
  "example_pnode n = \<lparr>pn_node_id = n, pn_endpoint = n, pn_hostname = n\<rparr>"

lemma exchanged_nodes_lose_instance:
  "map fst (pl_instances (rewrite_placement (example_instance [])
     [\<lparr>mr_src_pnode = example_pnode ''a'', mr_dst_pnode = example_pnode ''b'', mr_dst_isolation_group = []\<rparr>,
      \<lparr>mr_src_pnode = example_pnode ''b'', mr_dst_pnode = example_pnode ''a'', mr_dst_isolation_group = []\<rparr>]
     \<lparr>pl_instances = [(''a'', example_instance ''a''), (''b'', example_instance ''b'')], pl_rest = ()\<rparr>)) = [''a'']"
  by code_simp

section \<open>The steps of the plugin\<close>

record m3db_manifest =
  m3_etcd :: etcd_dump
  m3_placement_nodes :: "m3_placement_node list"

definition get_etcd_prefixes :: "string \<Rightarrow> string list" where
  "get_etcd_prefixes environment = [''_kv/'' @ environment @ ''/m3db.node.namespaces'', ''_sd.placement/'' @ environment @ ''/m3db'']"

text \<open>\<^verbatim>\<open>M3IncorrectPlacementNodesLengthException\<close> is a permanent exception.\<close>

definition validate_m3_config :: "m3_placement_node list \<Rightarrow> coordinator_node list \<Rightarrow> unit result" where
  "validate_m3_config placement_nodes nodes = (if length placement_nodes \<noteq> length nodes then Inl PermanentException else Inr ())"

definition init_step :: "m3_placement_node list \<Rightarrow> coordinator_node list \<Rightarrow> unit result" where
  "init_step placement_nodes nodes = validate_m3_config placement_nodes nodes"

definition retrieve_etcd_step :: "'w etcd \<Rightarrow> string list \<Rightarrow> ('w, etcd_dump) stateful" where
  "retrieve_etcd_step post pres = bind_st (get_etcd_dump post pres) (\<lambda>d w. (case d of None \<Rightarrow> Inl StepFailedError | Some d \<Rightarrow> Inr d, w))"

definition retrieve_etcd_again_step :: "'w etcd \<Rightarrow> string list \<Rightarrow> etcd_dump \<Rightarrow> ('w, unit) stateful" where
  "retrieve_etcd_again_step post pres etcd_before = bind_st (get_etcd_dump post pres) (\<lambda>d w. (case d of
     None \<Rightarrow> Inl StepFailedError | Some etcd_now \<Rightarrow> if etcd_before \<noteq> etcd_now then Inl StepFailedError else Inr (), w))"

definition prepare_m3_manifest_step :: "m3_placement_node list \<Rightarrow> etcd_dump \<Rightarrow> m3db_manifest" where
  "prepare_m3_manifest_step placement_nodes etcd = \<lparr>m3_etcd = etcd, m3_placement_nodes = placement_nodes\<rparr>"

fun placement_replacements :: "m3_placement_node list \<Rightarrow> (nat option \<times> coordinator_node \<times> m3_placement_node) list \<Rightarrow> m3_replacement list result" where
  "placement_replacements src [] = Inr []"
| "placement_replacements src ((idx, node, pnode) # rest) = (case idx of
     None \<Rightarrow> placement_replacements src rest
   | Some i \<Rightarrow> if i \<ge> length src then Inl IndexError
       else bind_res (placement_replacements src rest) (\<lambda>rs. Inr (\<lparr>mr_src_pnode = src ! i, mr_dst_pnode = pnode, mr_dst_isolation_group = cn_az node\<rparr> # rs)))"

definition rewrite_m3db_placement :: "(string \<Rightarrow> ('r, 'p) m3_placement result) \<Rightarrow> (('r, 'p) m3_placement \<Rightarrow> string) \<Rightarrow> 'r m3_instance
    \<Rightarrow> nat option list \<Rightarrow> m3_placement_node list \<Rightarrow> m3_placement_node list \<Rightarrow> coordinator_node list \<Rightarrow> etcd_key \<Rightarrow> etcd_key result" where
  "rewrite_m3db_placement parse serialize blank node_to_backup_index src dst nodes key =
     bind_res (placement_replacements src (zip node_to_backup_index (zip nodes dst))) (\<lambda>replacements.
     bind_res (value_bytes key) (\<lambda>v.
     bind_res (rewrite_m3_placement_bytes parse serialize blank v replacements) (\<lambda>v. Inr (set_value_bytes v key))))"

definition is_placement_key :: "string \<Rightarrow> bool" where
  "is_placement_key k \<longleftrightarrow> prefix ''_sd.placement/'' k \<and> suffix ''/m3db'' k"

definition rewrite_key :: "(etcd_key \<Rightarrow> etcd_key result) \<Rightarrow> etcd_key \<Rightarrow> etcd_key result" where
  "rewrite_key rewrite key = bind_res (key_bytes key) (\<lambda>k. if is_placement_key k then rewrite key else Inr key)"

definition rewrite_etcd_step :: "(string \<Rightarrow> ('r, 'p) m3_placement result) \<Rightarrow> (('r, 'p) m3_placement \<Rightarrow> string) \<Rightarrow> 'r m3_instance \<Rightarrow> bool
    \<Rightarrow> m3_placement_node list \<Rightarrow> coordinator_node list \<Rightarrow> nat option list \<Rightarrow> m3db_manifest \<Rightarrow> etcd_dump option result" where
  "rewrite_etcd_step parse serialize blank partial placement_nodes nodes node_to_backup_index manifest =
     (if partial then Inr None
      else bind_res (map_res (\<lambda>p. bind_res (map_res (rewrite_key (rewrite_m3db_placement parse serialize blank node_to_backup_index
               (m3_placement_nodes manifest) placement_nodes nodes)) (dump_keys p)) (\<lambda>ks. Inr (p\<lparr>dump_keys := ks\<rparr>))) (m3_etcd manifest))
             (\<lambda>etcd. Inr (Some etcd)))"

definition restore_etcd_step :: "'w etcd \<Rightarrow> etcd_dump option \<Rightarrow> ('w, unit) stateful" where
  "restore_etcd_step post dump w = (case dump of None \<Rightarrow> (Inr (), w)
     | Some d \<Rightarrow> (case restore_etcd_dump post d w of
         (Inl e, w1) \<Rightarrow> (Inl e, w1) | (Inr False, w1) \<Rightarrow> (Inl StepFailedError, w1) | (Inr True, w1) \<Rightarrow> (Inr (), w1)))"

text \<open>Rewriting touches the values of placement keys only.\<close>

lemma rewrite_etcd_step_keys:
  assumes "rewrite_etcd_step parse serialize blank False dst nodes mapping m = Inr (Some d)"
  shows "map prefix_b64 d = map prefix_b64 (m3_etcd m) \<and> list_all2 (\<lambda>p q. map key_b64 (dump_keys p) = map key_b64 (dump_keys q)
    \<and> list_all2 (\<lambda>a b. (\<forall>k. key_bytes a = Inr k \<and> \<not> is_placement_key k \<longrightarrow> b = a)) (dump_keys p) (dump_keys q)) (m3_etcd m) d"
proof -
  define f where "f = rewrite_key (rewrite_m3db_placement parse serialize blank mapping (m3_placement_nodes m) dst nodes)"
  have key: "key_b64 b = key_b64 a \<and> (\<forall>k. key_bytes a = Inr k \<and> \<not> is_placement_key k \<longrightarrow> b = a)" if "f a = Inr b" for a b
    using that by (auto simp: f_def rewrite_key_def rewrite_m3db_placement_def set_value_bytes_def bind_res_Inr_iff split: if_splits)
  have "list_all2 (\<lambda>p q. \<exists>ks. map_res f (dump_keys p) = Inr ks \<and> q = p\<lparr>dump_keys := ks\<rparr>) (m3_etcd m) d"
    using assms by (auto simp: rewrite_etcd_step_def f_def [symmetric] bind_res_Inr_iff map_res_Inr_iff elim!: list_all2_mono)
  then show ?thesis
  proof (induction rule: list_all2_induct)
    case (Cons p ps q qs)
    then obtain ks where ks: "list_all2 (\<lambda>x y. f x = Inr y) (dump_keys p) ks" "q = p\<lparr>dump_keys := ks\<rparr>" by (auto simp: map_res_Inr_iff)
    have "map key_b64 (dump_keys p) = map key_b64 ks \<and> list_all2 (\<lambda>a b. (\<forall>k. key_bytes a = Inr k \<and> \<not> is_placement_key k \<longrightarrow> b = a)) (dump_keys p) ks"
      using ks(1) by (induction rule: list_all2_induct) (auto dest: key)
    then show ?case using Cons ks(2) by simp
  qed simp
qed

end
