(* ===== verification/Zk_Connection.thy ===== *)
theory Zk_Connection
  imports Zookeeper
begin

text \<open>
  The interface \<^verbatim>\<open>ZooKeeperConnection\<close> of \<^verbatim>\<open>astacus/coordinator/plugins/zookeeper.py\<close> as the steps of the plugins use it: a record of
  operations over any client, the laws they rely on as locales, and the proof that the in-memory connection
  fulfils them.
\<close>

section \<open>Operations of a connection\<close>

record 'c zk_ops =
  op_open :: "'c \<Rightarrow> 'c"
  op_close :: "'c \<Rightarrow> 'c"
  op_exists :: "string \<Rightarrow> 'c \<Rightarrow> bool"
  op_get :: "string \<Rightarrow> 'c \<Rightarrow> string zk_result \<times> 'c"
  op_get_children :: "string \<Rightarrow> 'c \<Rightarrow> string list zk_result \<times> 'c"
  op_create :: "string \<Rightarrow> string \<Rightarrow> 'c \<Rightarrow> unit zk_result \<times> 'c"
  op_has_changed :: "'c \<Rightarrow> bool"

abbreviation child_path :: "string \<Rightarrow> string \<Rightarrow> string" where
  "child_path node child \<equiv> node @ ''/'' @ child"

text \<open>Paths made of names: not empty and without slashes.\<close>

definition plain_name :: "string \<Rightarrow> bool" where "plain_name s \<longleftrightarrow> s \<noteq> [] \<and> CHR ''/'' \<notin> set s"

lemma split_path_last:
  "CHR ''/'' \<notin> set x \<Longrightarrow> split_path (s @ CHR ''/'' # x) = split_path s @ [x]"
  by (induction s) (auto simp: split_path_part split: list.splits)

lemma parse_child_path:
  assumes "plain_name x" and "rstrip_slashes s = s"
  shows "parse_path (child_path s x) = parse_path s @ [x]" and "rstrip_slashes (child_path s x) = child_path s x"
proof -
  have x: "x \<noteq> []" and l: "last x \<noteq> CHR ''/''" using assms(1) by (auto simp: plain_name_def dest: last_in_set)
  have "rev x = last x # rev (butlast x)" using append_butlast_last_id [OF x] by (metis rev.simps(2) rev_rev_ident rev_swap)
  then have "rev (child_path s x) = last x # rev (butlast x) @ CHR ''/'' # rev s" by (simp only: rev_append rev.simps append.simps append_assoc)
  then show r: "rstrip_slashes (child_path s x) = child_path s x" using l by (simp only: rstrip_slashes.simps dropWhile.simps if_False) (metis rev_rev_ident)
  show "parse_path (child_path s x) = parse_path s @ [x]"
    unfolding parse_path_def r using assms by (simp add: plain_name_def split_path_last)
qed

definition free_below :: "(parts \<Rightarrow> string option) \<Rightarrow> parts \<Rightarrow> bool" where
  "free_below t ps \<longleftrightarrow> (\<forall>q. t (ps @ q) = None)"

lemma free_below_top: "free_below t ps \<Longrightarrow> t ps = None"
  unfolding free_below_def by (metis append_Nil2)

definition with_parents :: "(parts \<Rightarrow> string option) \<Rightarrow> parts \<Rightarrow> parts \<Rightarrow> string option" where
  "with_parents t ps k = (if k \<noteq> [] \<and> strict_prefix k ps \<and> t k = None then Some [] else t k)"

section \<open>What the steps rely on: the interface\<close>

text \<open>A connection over a tree of nodes: \<open>usable\<close> clients can be connected to, \<open>good\<close> ones are connected. Reading
  changes no node and fires no watch; creating a node creates its missing parents without a value.\<close>

locale zk_connection =
  fixes ops :: "'c zk_ops" and view :: "'c \<Rightarrow> parts \<Rightarrow> string option" and usable good :: "'c \<Rightarrow> bool"
  assumes open_ok: "usable c \<Longrightarrow> good (op_open ops c) \<and> view (op_open ops c) = view c \<and> \<not> op_has_changed ops (op_open ops c)"
    and close_ok: "good c \<Longrightarrow> view (op_close ops c) = view c"
    and finite_view: "good c \<Longrightarrow> finite (dom (view c))"
    and exists_ok: "good c \<Longrightarrow> op_exists ops path c \<longleftrightarrow> view c (parse_path path) \<noteq> None"
    and get_ok: "good c \<Longrightarrow> view c (parse_path path) = Some v \<Longrightarrow>
      \<exists>c'. op_get ops path c = (Inr v, c') \<and> good c' \<and> view c' = view c \<and> op_has_changed ops c' = op_has_changed ops c"
    and children_ok: "good c \<Longrightarrow> view c (parse_path path) \<noteq> None \<Longrightarrow>
      \<exists>xs c'. op_get_children ops path c = (Inr xs, c') \<and> good c' \<and> view c' = view c \<and> op_has_changed ops c' = op_has_changed ops c
        \<and> distinct xs \<and> set xs = {x. view c (parse_path path @ [x]) \<noteq> None}"
    and create_ok: "good c \<Longrightarrow> view c (parse_path path) = None \<Longrightarrow>
      \<exists>c'. op_create ops path v c = (Inr (), c') \<and> good c' \<and> view c' = (\<lambda>k. if k = parse_path path then Some v
        else if k \<noteq> [] \<and> strict_prefix k (parse_path path) \<and> view c k = None then Some [] else view c k)"

context zk_connection
begin

definition same_nodes :: "'c \<Rightarrow> 'c \<Rightarrow> bool" where
  "same_nodes c c' \<longleftrightarrow> good c' \<and> view c' = view c \<and> op_has_changed ops c' = op_has_changed ops c"

lemma same_nodes_trans: "same_nodes c d \<Longrightarrow> same_nodes d d' \<Longrightarrow> same_nodes c d'"
  by (simp add: same_nodes_def)

lemma get_same:
  assumes "same_nodes c d" and "view c (parse_path path) = Some v"
  shows "\<exists>d'. op_get ops path d = (Inr v, d') \<and> same_nodes c d'"
  using get_ok [of d path v] assms by (auto simp: same_nodes_def)

lemma children_same:
  assumes "same_nodes c d" and "view c (parse_path path) \<noteq> None"
  shows "\<exists>xs d'. op_get_children ops path d = (Inr xs, d') \<and> same_nodes c d' \<and> distinct xs \<and> set xs = {x. view c (parse_path path @ [x]) \<noteq> None}"
  using children_ok [of d path] assms by (auto simp: same_nodes_def)

end

section \<open>The in-memory connection\<close>

definition memory_ops :: "nat \<Rightarrow> nat \<Rightarrow> zk_client zk_ops" where
  "memory_ops conn w = \<lparr>op_open = zk_enter conn, op_close = zk_exit conn, op_exists = zk_exists,
     op_get = (\<lambda>path. zk_get conn path (Some w)), op_get_children = (\<lambda>path. zk_get_children conn path (Some w)),
     op_create = zk_create conn, op_has_changed = (\<lambda>c. w \<in> fst ` set (zk_fired c))\<rparr>"

definition usable_client :: "nat \<Rightarrow> zk_client \<Rightarrow> bool" where
  "usable_client w c \<longleftrightarrow> tree_inv (zk_storage c) \<and> w \<notin> fst ` set (zk_fired c)"

definition good_client :: "nat \<Rightarrow> zk_client \<Rightarrow> bool" where
  "good_client conn c \<longleftrightarrow> tree_inv (zk_storage c) \<and> connected conn c"

lemma closed_prefix:
  assumes "\<forall>k \<in> K. length k > 1 \<longrightarrow> butlast k \<in> K" and "ps \<in> K" and "prefix k ps" and "k \<noteq> []"
  shows "k \<in> K"
  using assms(2,3)
proof (induction ps rule: rev_induct)
  case (snoc x ps)
  show ?case
  proof (cases "k = ps @ [x]")
    case False
    then have "prefix k ps" using snoc.prems by simp
    moreover have "ps \<noteq> []" using calculation assms(4) by auto
    ultimately show ?thesis using snoc assms(1) by fastforce
  qed (use snoc in simp)
qed simp

lemma make_parents_get:
  assumes "closed_but ps (nodes st)" and "distinct (map fst st)"
  shows "dict_get (snd (make_parents ps st)) k = (if k \<noteq> [] \<and> prefix k ps \<and> dict_get st k = None then Some [] else dict_get st k)"
  using assms
proof (induction ps st rule: make_parents.induct)
  case (1 ps st)
  show ?case
  proof (cases "ps = [] \<or> dict_get st ps \<noteq> None")
    case True
    then have "tree_inv st" using closed_but_tree [OF "1.prems"] by (simp add: nodes_iff)
    then have closed: "\<forall>k \<in> nodes st. length k > 1 \<longrightarrow> butlast k \<in> nodes st" by (simp add: tree_inv_def)
    have "k \<in> nodes st" if k: "k \<noteq> []" "prefix k ps"
    proof -
      have "ps \<in> nodes st" using True k by (auto simp only: nodes_iff prefix_bot.extremum_unique)
      then show ?thesis using closed_prefix [OF closed _ k(2,1)] by blast
    qed
    then show ?thesis using True by (auto simp: make_parents.simps nodes_iff)
  next
    case False
    let ?st = "dict_set ps [] st"
    have "closed_but (butlast ps) (nodes ?st)" using "1.prems" False by (auto simp: closed_but_def)
    from "1.IH" [OF False this] have get: "dict_get (snd (make_parents (butlast ps) ?st)) k =
        (if k \<noteq> [] \<and> prefix k (butlast ps) \<and> dict_get ?st k = None then Some [] else dict_get ?st k)"
      using "1.prems"(2) by (simp add: distinct_update)
    have "prefix k ps \<longleftrightarrow> k = ps \<or> prefix k (butlast ps)"
      using False prefix_snoc [of k "butlast ps" "last ps"] by simp
    moreover have "make_parents ps st = make_parents (butlast ps) ?st" using False by (simp add: make_parents.simps)
    ultimately show ?thesis using get False by (auto simp: update_conv')
  qed
qed

lemma create_locked_get:
  assumes inv: "tree_inv st" and new: "dict_get st (parse_path path) = None"
  shows "\<exists>pe st'. create_locked path v True st = (Inr pe, st') \<and> (\<forall>k. dict_get st' k =
    (if k = parse_path path then Some v else if k \<noteq> [] \<and> strict_prefix k (parse_path path) \<and> dict_get st k = None then Some [] else dict_get st k))"
proof -
  let ?ps = "parse_path path" and ?parent = "butlast (parse_path path)"
  let ?st1 = "dict_set ?ps v st"
  have "?ps = ?parent @ [last ?ps]" by simp
  then have pre: "strict_prefix k ?ps \<longleftrightarrow> prefix k ?parent" for k
    by (metis prefix_order.less_le_not_le prefix_snoc strict_prefix_def prefix_order.order_refl not_Cons_self2 same_append_eq append_Nil2 prefix_order.antisym prefixI)
  have ne: "[] \<noteq> ?ps" using parse_path_nonempty by metis
  have but: "closed_but ?parent (nodes ?st1)" using inv ne by (auto simp: tree_inv_def closed_but_def)
  have dist: "distinct (map fst ?st1)" using inv by (simp add: tree_inv_def distinct_update)
  have get: "dict_get (snd (make_parents ?parent ?st1)) k = (if k = ?ps then Some v
      else if k \<noteq> [] \<and> strict_prefix k ?ps \<and> dict_get st k = None then Some [] else dict_get st k)" for k
    unfolding make_parents_get [OF but dist] pre by (auto simp: update_conv')
  have "create_locked path v True st = (Inr (fst (make_parents ?parent ?st1), \<lparr>we_type = CREATED, we_path = join_parts (fst (make_parents ?parent ?st1))\<rparr>),
      snd (make_parents ?parent ?st1))"
    using new by (auto simp: create_locked_def Let_def make_parents.simps [of ?parent ?st1] split: prod.splits)
  then show ?thesis using get by blast
qed

lemma connected_frame [simp]:
  "connected conn (trigger pe c) = connected conn c" "connected conn (add_watch i ps w c) = connected conn c"
  "connected conn (zk_enter conn c)" "connected conn (c\<lparr>zk_storage := st\<rparr>) = connected conn c"
  by (force simp: connected_def trigger_def add_watch_def zk_enter_def Let_def split: option.splits)+

lemma fired_frame [simp]:
  "zk_fired (add_watch i ps w c) = zk_fired c" "zk_fired (zk_enter i c) = zk_fired c" "zk_fired (zk_exit i c) = zk_fired c"
  by (simp_all add: add_watch_def zk_enter_def zk_exit_def split: option.splits)

lemma child_names:
  assumes "distinct (map fst st)"
  shows "distinct (map last (filter (\<lambda>k. k \<noteq> [] \<and> butlast k = ps) (map fst st)))"
    and "set (map last (filter (\<lambda>k. k \<noteq> [] \<and> butlast k = ps) (map fst st))) = {x. dict_get st (ps @ [x]) \<noteq> None}"
proof -
  have "inj_on last {k. k \<noteq> [] \<and> butlast k = ps}" by (rule inj_onI) (metis (mono_tags) append_butlast_last_id mem_Collect_eq)
  then show "distinct (map last (filter (\<lambda>k. k \<noteq> [] \<and> butlast k = ps) (map fst st)))"
    using assms by (auto simp: distinct_map intro: inj_on_subset)
  have "x \<in> last ` {k \<in> fst ` set st. k \<noteq> [] \<and> butlast k = ps} \<longleftrightarrow> ps @ [x] \<in> fst ` set st" for x
    by (force simp: image_iff intro: append_butlast_last_id [symmetric])
  then show "set (map last (filter (\<lambda>k. k \<noteq> [] \<and> butlast k = ps) (map fst st))) = {x. dict_get st (ps @ [x]) \<noteq> None}"
    by (auto simp: map_of_eq_None_iff image_iff)
qed

interpretation mem: zk_connection "memory_ops conn w" "\<lambda>c. dict_get (zk_storage c)" "usable_client w" "good_client conn" for conn w
proof (unfold_locales, goal_cases)
  case (1 c)
  then show ?case by (simp add: memory_ops_def usable_client_def good_client_def)
next
  case (2 c)
  then show ?case by (simp add: memory_ops_def)
next
  case (3 c)
  then show ?case by (simp add: finite_dom_map_of)
next
  case (4 c path)
  then show ?case by (simp add: memory_ops_def zk_exists_def)
next
  case (5 c path v)
  then show ?case by (simp add: memory_ops_def good_client_def zk_get_def)
next
  case (6 c path)
  then have "distinct (map fst (zk_storage c))" by (simp add: good_client_def tree_inv_def)
  from child_names [OF this, of "parse_path path"] show ?case using 6
    by (simp add: memory_ops_def good_client_def zk_get_children_def Let_def)
next
  case (7 c path v)
  then have inv: "tree_inv (zk_storage c)" and conn: "connected conn c" by (simp_all add: good_client_def)
  obtain pe st' where st': "create_locked path v True (zk_storage c) = (Inr pe, st')" "\<forall>k. dict_get st' k =
      (if k = parse_path path then Some v else if k \<noteq> [] \<and> strict_prefix k (parse_path path) \<and> dict_get (zk_storage c) k = None
       then Some [] else dict_get (zk_storage c) k)"
    using create_locked_get [OF inv, of path v] 7(2) by blast
  have "tree_inv st'" using create_locked_tree [OF inv st'(1)] by blast
  then show ?case using st' conn by (simp add: memory_ops_def good_client_def zk_create_def fun_eq_iff)
qed

section \<open>Transactions, deletion, and nodes that may exist\<close>

record 'c zk_session =
  basic_ops :: "'c zk_ops"
  op_try_create :: "string \<Rightarrow> string \<Rightarrow> 'c \<Rightarrow> bool zk_result \<times> 'c"
  op_commit :: "(string \<times> string) list \<Rightarrow> 'c \<Rightarrow> unit zk_result \<times> 'c"
  op_delete :: "string \<Rightarrow> bool \<Rightarrow> 'c \<Rightarrow> unit zk_result \<times> 'c"

text \<open>The nodes after a transaction of creations, if it succeeds: every node is new and its parent exists.\<close>

fun created :: "(string \<times> string) list \<Rightarrow> (parts \<Rightarrow> string option) \<Rightarrow> (parts \<Rightarrow> string option) option" where
  "created [] t = Some t"
| "created ((path, v) # rest) t = (let k = parse_path path in
     if t k \<noteq> None \<or> (butlast k \<noteq> [] \<and> t (butlast k) = None) then None else created rest (t(k \<mapsto> v)))"

locale zk_session_laws = zk_connection "basic_ops session" view usable good
  for session :: "'c zk_session" and view :: "'c \<Rightarrow> parts \<Rightarrow> string option" and usable good :: "'c \<Rightarrow> bool" +
  assumes try_create_ok: "good c \<Longrightarrow> \<exists>b c'. op_try_create session path v c = (Inr b, c') \<and> good c' \<and> view c' =
      (if view c (parse_path path) = None then (with_parents (view c) (parse_path path))(parse_path path \<mapsto> v) else view c)"
    and commit_ok: "good c \<Longrightarrow> \<exists>r c'. op_commit session creates c = (r, c') \<and> good c' \<and> (case created creates (view c) of
      Some t \<Rightarrow> r = Inr () \<and> view c' = t | None \<Rightarrow> (\<exists>es. r = Inl (TransactionError es)) \<and> view c' = view c)"
    and delete_ok: "good c \<Longrightarrow> \<exists>r c'. op_delete session path True c = (r, c') \<and> good c' \<and>
      (if view c (parse_path path) = None then r = Inl (NoNodeError path) \<and> view c' = view c
       else r = Inr () \<and> view c' = (\<lambda>k. if prefix (parse_path path) k then None else view c k))"

definition memory_session :: "nat \<Rightarrow> nat \<Rightarrow> zk_client zk_session" where
  "memory_session conn w = \<lparr>basic_ops = memory_ops conn w, op_try_create = zk_try_create conn,
     op_commit = (\<lambda>creates c. case zk_commit \<lparr>zt_operations = creates, zt_committed = False\<rparr> c of (r, (t, c')) \<Rightarrow> (r, c')),
     op_delete = zk_delete conn\<rparr>"

lemma run_creates_created:
  "case run_creates creates st of (Inr pes, st') \<Rightarrow> created creates (dict_get st) = Some (dict_get st')
     | (Inl e, st') \<Rightarrow> created creates (dict_get st) = None"
proof (induction creates arbitrary: st)
  case (Cons pv creates)
  obtain path v where pv: "pv = (path, v)" by (cases pv)
  let ?ps = "parse_path path"
  have parent: "butlast ?ps \<noteq> ?ps" using parse_path_nonempty [of path] by (metis append_butlast_last_id not_Cons_self2 append_self_conv)
  have upd: "dict_get (dict_set ?ps v st) = (dict_get st)(?ps \<mapsto> v)" by (simp add: fun_eq_iff update_conv')
  show ?case
  proof (cases "dict_get st ?ps \<noteq> None \<or> (butlast ?ps \<noteq> [] \<and> dict_get st (butlast ?ps) = None)")
    case True
    then have "\<exists>e st1. create_locked path v False st = (Inl e, st1)" using parent by (auto simp: create_locked_def Let_def update_conv')
    then show ?thesis using True by (auto simp: pv Let_def)
  next
    case False
    then have "\<exists>pe. create_locked path v False st = (Inr pe, dict_set ?ps v st)" using parent by (auto simp: create_locked_def Let_def update_conv')
    then show ?thesis using False Cons.IH [of "dict_set ?ps v st", unfolded upd] by (auto simp: pv Let_def fun_upd_def split: prod.splits sum.splits)
  qed
qed simp

lemma connected_fold [simp]: "connected conn (fold trigger pes c) = connected conn c"
  by (induction pes arbitrary: c) auto

lemma delete_locked_get:
  assumes inv: "tree_inv st"
  shows "dict_get st (parse_path path) = None \<longrightarrow> delete_locked path True st = (Inl (NoNodeError path), st)"
    and "dict_get st (parse_path path) \<noteq> None \<longrightarrow> (\<exists>pes st'. delete_locked path True st = (Inr pes, st')
      \<and> dict_get st' = (\<lambda>k. if prefix (parse_path path) k then None else dict_get st k))"
proof -
  let ?ps = "parse_path path"
  let ?items = "filter (\<lambda>k. take (length ?ps) k = ?ps) (sort (map fst st))"
  have pre: "take (length ?ps) k = ?ps \<longleftrightarrow> prefix ?ps k" for k by (metis append_eq_conv_conj prefix_def)
  have closed: "\<forall>k \<in> nodes st. length k > 1 \<longrightarrow> butlast k \<in> nodes st" using inv by (simp add: tree_inv_def)
  have set_items: "set ?items = {k \<in> nodes st. prefix ?ps k}" by (auto simp: nodes_def dom_map_of_conv_image_fst pre)
  have top: "k \<in> set ?items \<Longrightarrow> ?ps \<in> nodes st" for k
    unfolding set_items using closed_prefix [OF closed, of k ?ps] by simp
  show "dict_get st ?ps = None \<longrightarrow> delete_locked path True st = (Inl (NoNodeError path), st)"
  proof
    assume "dict_get st ?ps = None"
    then have "?ps \<notin> nodes st" by (auto simp only: nodes_iff)
    then have "?items = []" using top by (metis list.set_intros(1) neq_Nil_conv)
    then show "delete_locked path True st = (Inl (NoNodeError path), st)" by (simp add: delete_locked_def Let_def)
  qed
  have get: "dict_get (filter (\<lambda>(k, v). k \<notin> set ?items) st) = (\<lambda>k. if prefix ?ps k then None else dict_get st k)"
  proof
    fix k
    have "dict_get (filter (\<lambda>(k, v). k \<notin> set ?items) st) k = (if k \<notin> set ?items then dict_get st k else None)" by (subst map_of_filter_key) simp
    moreover have "k \<in> set ?items \<longleftrightarrow> dict_get st k \<noteq> None \<and> prefix ?ps k" unfolding set_items by (simp only: nodes_iff mem_Collect_eq)
    ultimately show "dict_get (filter (\<lambda>(k, v). k \<notin> set ?items) st) k = (if prefix ?ps k then None else dict_get st k)" by argo
  qed
  show "dict_get st ?ps \<noteq> None \<longrightarrow> (\<exists>pes st'. delete_locked path True st = (Inr pes, st')
      \<and> dict_get st' = (\<lambda>k. if prefix ?ps k then None else dict_get st k))"
  proof
    assume "dict_get st ?ps \<noteq> None"
    then have "?ps \<in> set ?items" unfolding set_items by (simp only: nodes_iff mem_Collect_eq) simp
    then have "?items \<noteq> []" by force
    then show "\<exists>pes st'. delete_locked path True st = (Inr pes, st') \<and> dict_get st' = (\<lambda>k. if prefix ?ps k then None else dict_get st k)"
      using get by (simp add: delete_locked_def Let_def)
  qed
qed

interpretation mem_session: zk_session_laws "memory_session conn w" "\<lambda>c. dict_get (zk_storage c)" "usable_client w" "good_client conn" for conn w
proof -
  have basic: "basic_ops (memory_session conn w) = memory_ops conn w" by (simp add: memory_session_def)
  show "zk_session_laws (memory_session conn w) (\<lambda>c. dict_get (zk_storage c)) (usable_client w) (good_client conn)"
    unfolding zk_session_laws_def zk_session_laws_axioms_def basic
  proof (intro conjI allI impI, goal_cases)
    case 1
    show ?case by (rule mem.zk_connection_axioms)
  next
    case (2 c path v)
    then have inv: "tree_inv (zk_storage c)" and conn: "connected conn c" by (simp_all add: good_client_def)
    show ?case
    proof (cases "dict_get (zk_storage c) (parse_path path)")
      case None
      from mem.create_ok [OF 2, of path w v] None obtain c' where "zk_create conn path v c = (Inr (), c')" "good_client conn c'"
          "dict_get (zk_storage c') = (\<lambda>k. if k = parse_path path then Some v
             else if k \<noteq> [] \<and> strict_prefix k (parse_path path) \<and> dict_get (zk_storage c) k = None then Some [] else dict_get (zk_storage c) k)"
        by (auto simp: memory_ops_def)
      then show ?thesis using None by (auto simp: memory_session_def zk_try_create_def with_parents_def fun_eq_iff)
    next
      case (Some x)
      then have "zk_create conn path v c = (Inl (NodeExistsError path), c)" using conn by (simp add: zk_create_def create_locked_def Let_def)
      then show ?thesis using Some 2 by (auto simp: memory_session_def zk_try_create_def)
    qed
  next
    case (3 c creates)
    then have inv: "tree_inv (zk_storage c)" and conn: "connected conn c" by (simp_all add: good_client_def)
    obtain r st where run: "run_creates creates (zk_storage c) = (r, st)" by fastforce
    show ?case
    proof (cases r)
      case (Inl ne)
      then show ?thesis using run run_creates_created [of creates "zk_storage c"] 3
        by (cases ne) (simp add: memory_session_def zk_commit_def)
    next
      case (Inr pes)
      have "tree_inv st" using run_creates_tree [OF inv run [unfolded Inr]] .
      then show ?thesis using Inr run run_creates_created [of creates "zk_storage c"] conn
        by (simp add: memory_session_def zk_commit_def good_client_def)
    qed
  next
    case (4 c path)
    then have inv: "tree_inv (zk_storage c)" and conn: "connected conn c" by (simp_all add: good_client_def)
    show ?case
    proof (cases "dict_get (zk_storage c) (parse_path path)")
      case None
      then show ?thesis using delete_locked_get(1) [OF inv, of path] 4 conn by (simp add: memory_session_def zk_delete_def)
    next
      case (Some x)
      then obtain pes st' where "delete_locked path True (zk_storage c) = (Inr pes, st')"
          "dict_get st' = (\<lambda>k. if prefix (parse_path path) k then None else dict_get (zk_storage c) k)"
        using delete_locked_get(2) [OF inv, of path] by auto
      moreover from this(1) have "tree_inv st'" by (rule delete_locked_tree [OF inv])
      ultimately show ?thesis using Some conn by (simp add: memory_session_def zk_delete_def good_client_def)
    qed
  qed
qed

end
