(* ===== verification/Flink.thy ===== *)
theory Flink
  imports Zk_Connection Clickhouse_Names
begin

text \<open>
  The Flink plugin keeps its tables in ZooKeeper; its steps (\<^verbatim>\<open>astacus/coordinator/plugins/flink/steps.py\<close>) read a tree of nodes into nested
  dictionaries and create it again. The connection they use is the interface \<^verbatim>\<open>ZooKeeperConnection\<close>: a record of operations here, with a
  locale for what the steps rely on, which the in-memory client is shown to fulfil. The
  recursion over the tree takes a fuel; the number of nodes is enough. Shown: the tree that is created on restore is the one
  that was read, if nodes with a value have no children and the top of the tree has no value.
\<close>

section \<open>The steps\<close>

datatype flink_data = FStr string | FDict "(string \<times> flink_data) list"

datatype flink_error = FZooKeeper zk_error | FUnicodeDecodeError | FConcurrentModification | FOutOfFuel

function (sequential) get_data_recursively :: "'c zk_ops \<Rightarrow> nat \<Rightarrow> string \<Rightarrow> string \<Rightarrow> 'c \<Rightarrow> (flink_error + (string \<times> flink_data) list) \<times> 'c"
  and get_children_data :: "'c zk_ops \<Rightarrow> nat \<Rightarrow> string \<Rightarrow> string \<Rightarrow> string list \<Rightarrow> (string \<times> flink_data) list \<Rightarrow> 'c \<Rightarrow> (flink_error + (string \<times> flink_data) list) \<times> 'c"
where
  "get_data_recursively ops 0 zk_prefix current_node c = (Inl FOutOfFuel, c)"
| "get_data_recursively ops (Suc n) zk_prefix current_node c =
     (if \<not> op_exists ops zk_prefix c then (Inr [], c)
      else case op_get_children ops current_node c of
        (Inl e, c1) \<Rightarrow> (Inl (FZooKeeper e), c1)
      | (Inr children, c1) \<Rightarrow> get_children_data ops n zk_prefix current_node children [] c1)"
| "get_children_data ops n zk_prefix current_node [] result c = (Inr result, c)"
| "get_children_data ops n zk_prefix current_node (child # children) result c =
     (case op_get ops (child_path current_node child) c of
        (Inl e, c1) \<Rightarrow> (Inl (FZooKeeper e), c1)
      | (Inr v, c1) \<Rightarrow>
          if v \<noteq> [] then (case decode v of
            None \<Rightarrow> (Inl FUnicodeDecodeError, c1)
          | Some s \<Rightarrow> get_children_data ops n zk_prefix current_node children (dict_set child (FStr s) result) c1)
          else (case get_data_recursively ops n zk_prefix (child_path current_node child) c1 of
            (Inl e, c2) \<Rightarrow> (Inl e, c2)
          | (Inr d, c2) \<Rightarrow> get_children_data ops n zk_prefix current_node children (dict_set child (FDict d) result) c2))"
  by pat_completeness auto
termination
  by (relation "measures [\<lambda>x. case x of Inl (_, n, _) \<Rightarrow> n | Inr (_, n, _) \<Rightarrow> n, \<lambda>x. case x of Inl _ \<Rightarrow> 0 | Inr (_, _, _, _, xs, _) \<Rightarrow> Suc (length xs)]") auto

definition flink_get_result :: "'c zk_ops \<Rightarrow> nat \<Rightarrow> string \<Rightarrow> 'c \<Rightarrow> (flink_error + (string \<times> flink_data) list) \<times> 'c" where
  "flink_get_result ops n zk_path c =
     (if op_exists ops zk_path c then (case get_data_recursively ops n zk_path zk_path c of
        (Inl e, c1) \<Rightarrow> (Inl e, c1) | (Inr d, c1) \<Rightarrow> (Inr [(zk_path, FDict d)], c1))
      else (Inr [], c))"

fun retrieve_results :: "'c zk_ops \<Rightarrow> nat \<Rightarrow> string list \<Rightarrow> (string \<times> flink_data) list \<Rightarrow> 'c \<Rightarrow> (flink_error + (string \<times> flink_data) list) \<times> 'c" where
  "retrieve_results ops n [] results c = (Inr results, c)"
| "retrieve_results ops n (zk_path # paths) results c = (case flink_get_result ops n zk_path c of
     (Inl e, c1) \<Rightarrow> (Inl e, c1)
   | (Inr r, c1) \<Rightarrow> retrieve_results ops n paths (fold (\<lambda>(k, v). dict_set k v) r results) c1)"

definition retrieve_data_step :: "'c zk_ops \<Rightarrow> nat \<Rightarrow> string list \<Rightarrow> 'c \<Rightarrow> (flink_error + (string \<times> flink_data) list) \<times> 'c" where
  "retrieve_data_step ops n zookeeper_paths c = (case retrieve_results ops n zookeeper_paths [] (op_open ops c) of
     (Inl e, c1) \<Rightarrow> (Inl e, op_close ops c1)
   | (Inr results, c1) \<Rightarrow> (if op_has_changed ops c1 then Inl FConcurrentModification else Inr results, op_close ops c1))"

fun restore_data :: "'c zk_ops \<Rightarrow> string \<Rightarrow> flink_data \<Rightarrow> 'c \<Rightarrow> (flink_error + unit) \<times> 'c"
  and restore_children :: "'c zk_ops \<Rightarrow> string \<Rightarrow> (string \<times> flink_data) list \<Rightarrow> 'c \<Rightarrow> (flink_error + unit) \<times> 'c" where
  "restore_data ops zk_path (FDict current_node) c = (case op_create ops zk_path [] c of
     (Inl e, c1) \<Rightarrow> (Inl (FZooKeeper e), c1)
   | (Inr _, c1) \<Rightarrow> restore_children ops zk_path current_node c1)"
| "restore_data ops zk_path (FStr current_node) c = (if current_node = [] then (Inr (), c)
     else case op_create ops zk_path current_node c of
       (Inl e, c1) \<Rightarrow> (Inl (FZooKeeper e), c1) | (Inr _, c1) \<Rightarrow> (Inr (), c1))"
| "restore_children ops zk_path [] c = (Inr (), c)"
| "restore_children ops zk_path ((key, node) # rest) c = (case restore_data ops (child_path zk_path key) node c of
     (Inl e, c1) \<Rightarrow> (Inl e, c1) | (Inr _, c1) \<Rightarrow> restore_children ops zk_path rest c1)"

fun restore_paths :: "'c zk_ops \<Rightarrow> (string \<times> flink_data) list \<Rightarrow> string list \<Rightarrow> 'c \<Rightarrow> (flink_error + unit) \<times> 'c" where
  "restore_paths ops data [] c = (Inr (), c)"
| "restore_paths ops data (zk_path # paths) c =
     (case (case dict_get data zk_path of None \<Rightarrow> (Inr (), c) | Some node \<Rightarrow> restore_data ops zk_path node c) of
        (Inl e, c1) \<Rightarrow> (Inl e, c1) | (Inr _, c1) \<Rightarrow> restore_paths ops data paths c1)"

definition restore_data_step :: "'c zk_ops \<Rightarrow> string list \<Rightarrow> (string \<times> flink_data) list \<Rightarrow> 'c \<Rightarrow> (flink_error + unit) \<times> 'c" where
  "restore_data_step ops zookeeper_paths data c = (if data = [] then (Inr (), c)
     else case restore_paths ops data zookeeper_paths (op_open ops c) of (r, c1) \<Rightarrow> (r, op_close ops c1))"

section \<open>Trees as nested dictionaries\<close>

text \<open>The nodes that data stands for, with paths relative to its top.\<close>

fun data_paths :: "flink_data \<Rightarrow> (parts \<times> string) list"
  and children_paths :: "(string \<times> flink_data) list \<Rightarrow> (parts \<times> string) list" where
  "data_paths (FStr s) = [([], s)]"
| "data_paths (FDict kvs) = ([], []) # children_paths kvs"
| "children_paths [] = []"
| "children_paths ((k, d) # kvs) = map (\<lambda>(q, v). (k # q, v)) (data_paths d) @ children_paths kvs"

lemma map_of_prefixed: "map_of (map (\<lambda>(q, v). (k # q, v)) xs) (k' # q) = (if k' = k then map_of xs q else None)"
  by (induction xs) auto

lemma map_of_prefixed_Nil [simp]: "map_of (map (\<lambda>(q, v). (k # q, v)) xs) [] = None"
  by (induction xs) auto

lemma children_paths_Nil [simp]: "map_of (children_paths kvs) [] = None"
  by (induction kvs) (auto simp: map_add_def)

lemma children_paths_lookup:
  assumes "distinct (map fst kvs)"
  shows "map_of (children_paths kvs) (k # q) = (case map_of kvs k of None \<Rightarrow> None | Some d \<Rightarrow> map_of (data_paths d) q)"
  using assms
proof (induction kvs)
  case (Cons p kvs)
  obtain k1 d1 where p: "p = (k1, d1)" by (cases p)
  have "map_of kvs k1 = None" using Cons.prems p by (simp add: map_of_eq_None_iff)
  then show ?case using Cons p by (auto simp: map_add_def map_of_prefixed split: option.splits)
qed simp

lemma children_paths_append: "children_paths (xs @ ys) = children_paths xs @ children_paths ys"
  by (induction xs) auto

text \<open>Below a path, nodes with a value are leaves and hold text, and all names are plain.\<close>

definition flink_tree :: "(parts \<Rightarrow> string option) \<Rightarrow> parts \<Rightarrow> bool" where
  "flink_tree t ps \<longleftrightarrow> (\<forall>q v. t (ps @ q) = Some v \<longrightarrow> (\<forall>x \<in> set q. plain_name x)
     \<and> (v \<noteq> [] \<longrightarrow> decode v = Some v \<and> (\<forall>x r. t (ps @ q @ x # r) = None)) \<and> (\<forall>i < length q. t (ps @ take i q) \<noteq> None))"

lemma flink_tree_child:
  assumes "flink_tree t ps" and "t (ps @ [x]) \<noteq> None"
  shows "flink_tree t (ps @ [x])" and "plain_name x"
proof -
  show "plain_name x" using assms unfolding flink_tree_def by (metis list.set_intros(1) not_None_eq)
  show "flink_tree t (ps @ [x])"
    unfolding flink_tree_def
  proof (intro allI impI)
    fix q v assume "t ((ps @ [x]) @ q) = Some v"
    then have tv: "t (ps @ (x # q)) = Some v" by simp
    note spec = assms(1) [unfolded flink_tree_def, rule_format, OF tv]
    have "t ((ps @ [x]) @ take i q) \<noteq> None" if "i < length q" for i
      using spec that by (metis Suc_less_eq append.assoc append_Cons append_Nil length_Cons take_Suc_Cons)
    then show "(\<forall>x \<in> set q. plain_name x) \<and> (v \<noteq> [] \<longrightarrow> decode v = Some v \<and> (\<forall>y r. t ((ps @ [x]) @ q @ y # r) = None))
        \<and> (\<forall>i < length q. t ((ps @ [x]) @ take i q) \<noteq> None)"
      using spec by simp
  qed
qed

definition below :: "(parts \<Rightarrow> string option) \<Rightarrow> parts \<Rightarrow> parts set" where
  "below t ps = {k \<in> dom t. prefix ps k}"

lemma below_child_smaller:
  assumes "finite (dom t)" and "t ps \<noteq> None"
  shows "card (below t (ps @ [x])) < card (below t ps)"
proof (rule psubset_card_mono)
  show "finite (below t ps)" using assms(1) by (simp add: below_def)
  have "ps \<in> below t ps" "ps \<notin> below t (ps @ [x])" using assms(2) by (auto simp: below_def)
  moreover have "below t (ps @ [x]) \<subseteq> below t ps" by (auto simp: below_def dest: append_prefixD)
  ultimately show "below t (ps @ [x]) \<subset> below t ps" by blast
qed

fun wf_data :: "flink_data \<Rightarrow> bool" where
  "wf_data (FStr s) \<longleftrightarrow> s \<noteq> []"
| "wf_data (FDict kvs) \<longleftrightarrow> distinct (map fst kvs) \<and> (\<forall>kv \<in> set kvs. plain_name (fst kv) \<and> wf_data (snd kv))"

text \<open>Data for the nodes below a path.\<close>

definition data_for :: "(parts \<Rightarrow> string option) \<Rightarrow> parts \<Rightarrow> flink_data \<Rightarrow> bool" where
  "data_for t ps d \<longleftrightarrow> wf_data d \<and> (\<forall>q. map_of (data_paths d) q = t (ps @ q))"

lemma data_for_leaf:
  assumes "flink_tree t ps" and "t (ps @ [x]) = Some v" and "v \<noteq> []"
  shows "data_for t (ps @ [x]) (FStr v)"
proof -
  have "t (ps @ [x] @ y # r) = None" for y r using assms unfolding flink_tree_def by blast
  then have "map_of (data_paths (FStr v)) q = t ((ps @ [x]) @ q)" for q using assms(2) by (cases q) auto
  then show ?thesis using assms(3) by (simp add: data_for_def)
qed

lemma data_for_dict:
  assumes tree: "flink_tree t ps" and top: "t ps = Some []" and keys: "distinct (map fst kvs)" "set (map fst kvs) = {x. t (ps @ [x]) \<noteq> None}"
    and kvs: "\<And>x d. (x, d) \<in> set kvs \<Longrightarrow> data_for t (ps @ [x]) d"
  shows "data_for t ps (FDict kvs)"
proof -
  have "plain_name x" if "x \<in> set (map fst kvs)" for x using that keys(2) flink_tree_child(2) [OF tree] by blast
  then have wf: "wf_data (FDict kvs)" using keys(1) kvs by (force simp: data_for_def)
  have "map_of (data_paths (FDict kvs)) q = t (ps @ q)" for q
  proof (cases q)
    case (Cons x r)
    show ?thesis
    proof (cases "map_of kvs x")
      case None
      then have nx: "t (ps @ [x]) = None" using keys(2) by (auto simp: map_of_eq_None_iff)
      have "t (ps @ x # r) = None"
      proof (rule ccontr)
        assume "t (ps @ x # r) \<noteq> None"
        then obtain v where v: "t (ps @ (x # r)) = Some v" by auto
        have "\<forall>i < length (x # r). t (ps @ take i (x # r)) \<noteq> None" using tree v unfolding flink_tree_def by blast
        then show False using nx v by (cases r) auto
      qed
      then show ?thesis using None Cons keys(1) by (simp add: children_paths_lookup)
    next
      case (Some d)
      then have "data_for t (ps @ [x]) d" using kvs map_of_SomeD by fastforce
      then show ?thesis using Some Cons keys(1) by (simp add: children_paths_lookup data_for_def)
    qed
  qed (use top in simp)
  then show ?thesis using wf by (simp add: data_for_def)
qed

text \<open>The nodes after a tree is created below \<open>ps\<close>: first the missing parents, then the tree.\<close>

definition overlay :: "(parts \<Rightarrow> string option) \<Rightarrow> parts \<Rightarrow> (parts \<Rightarrow> string option) \<Rightarrow> parts \<Rightarrow> string option" where
  "overlay t ps m k = (case if prefix ps k then m (drop (length ps) k) else None of None \<Rightarrow> t k | Some v \<Rightarrow> Some v)"

definition parents_exist :: "(parts \<Rightarrow> string option) \<Rightarrow> parts \<Rightarrow> bool" where
  "parents_exist t ps \<longleftrightarrow> (\<forall>k. k \<noteq> [] \<and> prefix k ps \<longrightarrow> t k \<noteq> None)"

lemma with_parents_id:
  assumes "parents_exist t ps"
  shows "with_parents t (ps @ [x]) = t"
proof
  fix k show "with_parents t (ps @ [x]) k = t k"
    using assms by (auto simp: with_parents_def parents_exist_def strict_prefix_def)
qed

lemma overlay_leaf: "(\<lambda>k. if k = ps then Some v else with_parents t ps k) = overlay (with_parents t ps) ps (map_of [([], v)])"
  by (auto simp: fun_eq_iff overlay_def prefix_def split: option.splits)

lemma overlay_append: "overlay t ps m (ps @ q) = (case m q of None \<Rightarrow> t (ps @ q) | Some v \<Rightarrow> Some v)"
  by (simp add: overlay_def)

lemma overlay_self: "overlay t ps m ps = (case m [] of None \<Rightarrow> t ps | Some v \<Rightarrow> Some v)"
  by (simp add: overlay_def)

lemma overlay_other: "\<not> prefix ps k \<Longrightarrow> overlay t ps m k = t k"
  by (simp add: overlay_def)

lemma parents_exist_overlay: "parents_exist t ps \<Longrightarrow> parents_exist (overlay t qs m) ps"
  by (auto simp: parents_exist_def overlay_def split: option.splits)

lemma overlay_children:
  assumes "distinct (map fst ((k, d) # kvs))"
  shows "overlay (overlay t (ps @ [k]) (map_of (data_paths d))) ps (map_of (children_paths kvs))
    = overlay t ps (map_of (children_paths ((k, d) # kvs)))"
proof
  fix p
  have none: "map_of kvs k = None" using assms by (simp add: map_of_eq_None_iff)
  show "overlay (overlay t (ps @ [k]) (map_of (data_paths d))) ps (map_of (children_paths kvs)) p
    = overlay t ps (map_of (children_paths ((k, d) # kvs))) p"
  proof (cases "prefix ps p")
    case True
    then obtain q where q: "p = ps @ q" by (auto simp: prefix_def)
    show ?thesis
    proof (cases q)
      case Nil
      then show ?thesis unfolding q by (simp add: overlay_append map_add_def) (simp add: overlay_def)
    next
      case (Cons x r)
      have inner: "overlay t (ps @ [k]) m (ps @ x # r) = (if x = k then (case m r of None \<Rightarrow> t (ps @ x # r) | Some v \<Rightarrow> Some v) else t (ps @ x # r))" for m
        by (auto simp: overlay_def)
      show ?thesis unfolding q Cons overlay_append inner
        using children_paths_lookup [OF assms, of x r] children_paths_lookup [of kvs x r] assms none by simp
    qed
  next
    case False
    then have "\<not> prefix (ps @ [k]) p" by (auto dest: append_prefixD)
    then show ?thesis using False by (simp add: overlay_other)
  qed
qed

lemma overlay_dict: "overlay (overlay (with_parents t ps) ps (map_of [([], [])])) ps (map_of (children_paths kvs))
    = overlay (with_parents t ps) ps (map_of (data_paths (FDict kvs)))"
proof
  fix p show "overlay (overlay (with_parents t ps) ps (map_of [([], [])])) ps (map_of (children_paths kvs)) p
    = overlay (with_parents t ps) ps (map_of (data_paths (FDict kvs))) p"
    by (cases "prefix ps p") (auto simp: prefix_def overlay_append overlay_self overlay_other split: option.splits)
qed

text \<open>The paths that are backed up: none of them is below another, and each is missing or the top of a tree that
  dictionaries can represent.\<close>

definition apart :: "string \<Rightarrow> string \<Rightarrow> bool" where
  "apart s s' \<longleftrightarrow> \<not> prefix (parse_path s) (parse_path s') \<and> \<not> prefix (parse_path s') (parse_path s)"

definition flink_source :: "(parts \<Rightarrow> string option) \<Rightarrow> string \<Rightarrow> bool" where
  "flink_source t s \<longleftrightarrow> rstrip_slashes s = s
     \<and> (free_below t (parse_path s) \<or> t (parse_path s) = Some [] \<and> flink_tree t (parse_path s))"

lemma apart_unrelated:
  assumes "apart s s'" shows "\<not> prefix (parse_path s') (parse_path s @ q)" and "\<not> strict_prefix (parse_path s @ q) (parse_path s')"
proof -
  show "\<not> prefix (parse_path s') (parse_path s @ q)"
    using assms prefix_same_cases [of "parse_path s'" "parse_path s @ q" "parse_path s"] by (auto simp: apart_def)
  show "\<not> strict_prefix (parse_path s @ q) (parse_path s')"
    using assms by (auto simp: apart_def strict_prefix_def dest: append_prefixD)
qed

context zk_connection
begin

lemma get_children_data_ok:
  assumes IH: "\<And>s c. good c \<Longrightarrow> rstrip_slashes s = s \<Longrightarrow> view c (parse_path pre) \<noteq> None \<Longrightarrow> flink_tree (view c) (parse_path s)
      \<Longrightarrow> view c (parse_path s) = Some [] \<Longrightarrow> card (below (view c) (parse_path s)) \<le> n
      \<Longrightarrow> \<exists>kvs c'. get_data_recursively ops n pre s c = (Inr kvs, c') \<and> same_nodes c c' \<and> data_for (view c) (parse_path s) (FDict kvs)"
    and "good c" and s: "rstrip_slashes s = s" and pre: "view c (parse_path pre) \<noteq> None" and tree: "flink_tree (view c) (parse_path s)"
    and card: "\<And>x. card (below (view c) (parse_path s @ [x])) \<le> n"
    and "distinct (map fst acc @ xs)" and "\<forall>x \<in> set xs. view c (parse_path s @ [x]) \<noteq> None"
  shows "\<exists>kvs c'. get_children_data ops n pre s xs acc c = (Inr (acc @ kvs), c') \<and> same_nodes c c' \<and> map fst kvs = xs
    \<and> (\<forall>x d. (x, d) \<in> set kvs \<longrightarrow> data_for (view c) (parse_path s @ [x]) d)"
  using assms(2) pre tree card assms(7,8)
proof (induction xs arbitrary: acc c)
  case (Cons x xs)
  obtain v where v: "view c (parse_path s @ [x]) = Some v" using Cons.prems(6) by auto
  note child = flink_tree_child [OF Cons.prems(3), of x]
  have path: "parse_path (child_path s x) = parse_path s @ [x]" "rstrip_slashes (child_path s x) = child_path s x"
    using parse_child_path [OF _ s, of x] child(2) v by auto
  obtain c1 where c1: "op_get ops (child_path s x) c = (Inr v, c1)" "good c1" "view c1 = view c" "op_has_changed ops c1 = op_has_changed ops c"
    using get_ok [OF Cons.prems(1), of "child_path s x" v] v path by auto
  have new: "dict_set x d acc = acc @ [(x, d)]" for d using Cons.prems(5) by (intro dict_set_new) auto
  obtain d c2 where d: "data_for (view c) (parse_path s @ [x]) d" "same_nodes c c2"
      "get_children_data ops n pre s (x # xs) acc c = get_children_data ops n pre s xs (acc @ [(x, d)]) c2"
  proof (cases "v = []")
    case True
    obtain kvs c2 where "get_data_recursively ops n pre (child_path s x) c1 = (Inr kvs, c2)" "same_nodes c1 c2" "data_for (view c1) (parse_path s @ [x]) (FDict kvs)"
      using IH [of c1 "child_path s x"] c1 path child(1) v True Cons.prems(2,4) by auto
    then show thesis using that [of "FDict kvs" c2] c1 new True by (auto simp: same_nodes_def)
  next
    case False
    have "decode v = Some v" using Cons.prems(3) v False unfolding flink_tree_def by blast
    then show thesis using that [of "FStr v" c1] data_for_leaf [OF Cons.prems(3) v False] c1 new False by (auto simp: same_nodes_def)
  qed
  have "\<exists>kvs c'. get_children_data ops n pre s xs (acc @ [(x, d)]) c2 = (Inr ((acc @ [(x, d)]) @ kvs), c') \<and> same_nodes c2 c' \<and> map fst kvs = xs
    \<and> (\<forall>x d. (x, d) \<in> set kvs \<longrightarrow> data_for (view c2) (parse_path s @ [x]) d)"
    using d(2) Cons.prems by (intro Cons.IH) (auto simp: same_nodes_def)
  then obtain kvs c' where k: "get_children_data ops n pre s xs (acc @ [(x, d)]) c2 = (Inr ((acc @ [(x, d)]) @ kvs), c')" "same_nodes c2 c'" "map fst kvs = xs"
    "\<forall>x d. (x, d) \<in> set kvs \<longrightarrow> data_for (view c2) (parse_path s @ [x]) d" by blast
  show ?case
    using k d by (intro exI [of _ "(x, d) # kvs"] exI [of _ c']) (auto simp: same_nodes_def)
qed (auto simp: same_nodes_def)

lemma get_data_ok:
  assumes "good c" and "rstrip_slashes s = s" and "view c (parse_path pre) \<noteq> None" and "flink_tree (view c) (parse_path s)"
    and "view c (parse_path s) = Some []" and "card (below (view c) (parse_path s)) \<le> n"
  shows "\<exists>kvs c'. get_data_recursively ops n pre s c = (Inr kvs, c') \<and> same_nodes c c' \<and> data_for (view c) (parse_path s) (FDict kvs)"
  using assms
proof (induction n arbitrary: s c)
  case 0
  then have "finite (below (view c) (parse_path s))" "parse_path s \<in> below (view c) (parse_path s)"
    using finite_view by (auto simp: below_def)
  then show ?case using 0 by auto
next
  case (Suc n)
  obtain xs c1 where c1: "op_get_children ops s c = (Inr xs, c1)" "same_nodes c c1" "distinct xs" "set xs = {x. view c (parse_path s @ [x]) \<noteq> None}"
    using children_ok [OF Suc.prems(1), of s] Suc.prems(5) by (auto simp: same_nodes_def)
  have "card (below (view c1) (parse_path s @ [x])) \<le> n" for x
    using below_child_smaller [OF finite_view [OF Suc.prems(1)], of "parse_path s" x] Suc.prems(5,6) c1(2) by (simp add: same_nodes_def)
  then have "\<exists>kvs c'. get_children_data ops n pre s xs [] c1 = (Inr ([] @ kvs), c') \<and> same_nodes c1 c' \<and> map fst kvs = xs
      \<and> (\<forall>x d. (x, d) \<in> set kvs \<longrightarrow> data_for (view c1) (parse_path s @ [x]) d)"
    using c1 Suc.prems by (intro get_children_data_ok Suc.IH) (auto simp: same_nodes_def)
  then obtain kvs c' where k: "get_children_data ops n pre s xs [] c1 = (Inr kvs, c')" "same_nodes c1 c'" "map fst kvs = xs"
      "\<forall>x d. (x, d) \<in> set kvs \<longrightarrow> data_for (view c1) (parse_path s @ [x]) d" by auto
  have "data_for (view c) (parse_path s) (FDict kvs)"
    using k(3,4) c1 Suc.prems(4,5) by (intro data_for_dict) (auto simp: same_nodes_def)
  moreover have "get_data_recursively ops (Suc n) pre s c = (Inr kvs, c')" using exists_ok [OF Suc.prems(1), of pre] Suc.prems(3) c1(1) k(1) by simp
  ultimately show ?case using k(2) c1(2) by (auto simp: same_nodes_def)
qed

lemma create_free:
  assumes "good c" and "free_below (view c) (parse_path path)"
  shows "\<exists>c'. op_create ops path v c = (Inr (), c') \<and> good c'
    \<and> view c' = overlay (with_parents (view c) (parse_path path)) (parse_path path) (map_of [([], v)])"
proof -
  have "view c (parse_path path) = None" using assms(2) unfolding free_below_def by (metis append_Nil2)
  from create_ok [OF assms(1) this, of v] show ?thesis unfolding overlay_leaf [symmetric] with_parents_def by blast
qed

definition restores :: "flink_data \<Rightarrow> bool" where
  "restores d \<longleftrightarrow> (\<forall>s c. good c \<and> rstrip_slashes s = s \<and> free_below (view c) (parse_path s) \<longrightarrow>
     (\<exists>c'. restore_data ops s d c = (Inr (), c') \<and> good c'
        \<and> view c' = overlay (with_parents (view c) (parse_path s)) (parse_path s) (map_of (data_paths d))))"

lemma restore_children_ok:
  assumes "\<forall>kd \<in> set kvs. restores (snd kd)" and "wf_data (FDict kvs)" and "good c" and s: "rstrip_slashes s = s"
    and "parents_exist (view c) (parse_path s)" and "\<forall>kd \<in> set kvs. free_below (view c) (parse_path s @ [fst kd])"
  shows "\<exists>c'. restore_children ops s kvs c = (Inr (), c') \<and> good c' \<and> view c' = overlay (view c) (parse_path s) (map_of (children_paths kvs))"
  using assms
proof (induction kvs arbitrary: c)
  case Nil
  then show ?case by (auto simp: overlay_def fun_eq_iff)
next
  case (Cons kd kvs)
  obtain k d where kd: "kd = (k, d)" by (cases kd)
  have k: "plain_name k" and d: "restores d" using Cons.prems(1,2) kd by auto
  note path = parse_child_path [OF k s]
  have "free_below (view c) (parse_path (child_path s k))" using Cons.prems(6) kd path(1) by simp
  then obtain c1 where
    c1: "restore_data ops (child_path s k) d c = (Inr (), c1)" "good c1" "view c1 = overlay (view c) (parse_path s @ [k]) (map_of (data_paths d))"
    using d Cons.prems(3) path with_parents_id [OF Cons.prems(5), of k] unfolding restores_def by metis
  have free: "free_below (view c1) (parse_path s @ [fst kd'])" if k': "kd' \<in> set kvs" for kd'
  proof -
    have "fst kd' \<noteq> k" using k' Cons.prems(2) kd by auto
    then have "\<not> prefix (parse_path s @ [k]) ((parse_path s @ [fst kd']) @ q)" for q by simp
    moreover have "free_below (view c) (parse_path s @ [fst kd'])" using Cons.prems(6) k' by auto
    ultimately show ?thesis by (simp add: free_below_def c1(3) overlay_other)
  qed
  have "parents_exist (view c1) (parse_path s)" unfolding c1(3) by (rule parents_exist_overlay [OF Cons.prems(5)])
  then have "\<exists>c'. restore_children ops s kvs c1 = (Inr (), c') \<and> good c' \<and> view c' = overlay (view c1) (parse_path s) (map_of (children_paths kvs))"
    using Cons.prems(1,2) free c1(2) s by (intro Cons.IH) simp_all
  then show ?case using c1(1) Cons.prems(2) overlay_children [of k d kvs] unfolding c1(3) kd by auto
qed

lemma restore_data_ok: "wf_data d \<Longrightarrow> restores d"
proof (induction d)
  case (FStr v)
  show ?case unfolding restores_def
  proof (intro allI impI)
    fix s c assume "good c \<and> rstrip_slashes s = s \<and> free_below (view c) (parse_path s)"
    then obtain c' where "op_create ops s v c = (Inr (), c')" "good c'"
      "view c' = overlay (with_parents (view c) (parse_path s)) (parse_path s) (map_of [([], v)])"
      using create_free by blast
    then show "\<exists>c'. restore_data ops s (FStr v) c = (Inr (), c') \<and> good c'
        \<and> view c' = overlay (with_parents (view c) (parse_path s)) (parse_path s) (map_of (data_paths (FStr v)))"
      using FStr.prems by (intro exI [of _ c']) (simp only: data_paths.simps restore_data.simps wf_data.simps if_False prod.case sum.case simp_thms)
  qed
next
  case (FDict kvs)
  have kvs: "\<forall>kd \<in> set kvs. restores (snd kd)" using FDict.IH FDict.prems by (auto simp: snds.simps)
  show ?case unfolding restores_def
  proof (intro allI impI)
    fix s c assume asm: "good c \<and> rstrip_slashes s = s \<and> free_below (view c) (parse_path s)"
    let ?ps = "parse_path s"
    obtain c1 where
      c1: "op_create ops s [] c = (Inr (), c1)" "good c1" "view c1 = overlay (with_parents (view c) ?ps) ?ps (map_of [([], [])])"
      using create_free asm by blast
    have par: "parents_exist (view c1) ?ps"
      unfolding c1(3) overlay_leaf [symmetric] by (auto simp: parents_exist_def with_parents_def strict_prefix_def)
    have free: "\<forall>kd \<in> set kvs. free_below (view c1) (?ps @ [fst kd])"
      using asm unfolding c1(3) overlay_leaf [symmetric] by (auto simp: free_below_def with_parents_def strict_prefix_def)
    obtain c' where "restore_children ops s kvs c1 = (Inr (), c')" "good c'" "view c' = overlay (view c1) ?ps (map_of (children_paths kvs))"
      using restore_children_ok [OF kvs FDict.prems c1(2) _ par free] asm by blast
    then show "\<exists>c'. restore_data ops s (FDict kvs) c = (Inr (), c') \<and> good c'
        \<and> view c' = overlay (with_parents (view c) ?ps) ?ps (map_of (data_paths (FDict kvs)))"
      using c1(1) overlay_dict [of "view c" ?ps kvs] unfolding c1(3) by (intro exI [of _ c']) simp
  qed
qed

lemma retrieve_results_ok:
  assumes "good c" and "\<forall>s \<in> set paths. flink_source (view c) s \<and> card (below (view c) (parse_path s)) \<le> n"
    and "distinct (map fst acc @ paths)"
  shows "\<exists>kvs c'. retrieve_results ops n paths acc c = (Inr (acc @ kvs), c') \<and> same_nodes c c'
    \<and> fst ` set kvs = {s \<in> set paths. view c (parse_path s) \<noteq> None} \<and> distinct (map fst kvs)
    \<and> (\<forall>s d. (s, d) \<in> set kvs \<longrightarrow> data_for (view c) (parse_path s) d)"
  using assms
proof (induction paths arbitrary: acc c)
  case Nil
  then show ?case by (simp add: same_nodes_def)
next
  case (Cons s paths)
  have src: "flink_source (view c) s" "card (below (view c) (parse_path s)) \<le> n" using Cons.prems(2) by auto
  obtain r c1 where r: "flink_get_result ops n s c = (Inr r, c1)" "same_nodes c c1" "fst ` set r = (if view c (parse_path s) \<noteq> None then {s} else {})"
    "length r \<le> 1" "\<forall>s d. (s, d) \<in> set r \<longrightarrow> data_for (view c) (parse_path s) d"
  proof (cases "view c (parse_path s)")
    case None
    then show thesis using that [of "[]" c] exists_ok [OF Cons.prems(1), of s] Cons.prems(1) by (simp add: flink_get_result_def same_nodes_def)
  next
    case (Some v)
    then have "v = []" "flink_tree (view c) (parse_path s)" "rstrip_slashes s = s"
      using src(1) free_below_top [of "view c" "parse_path s"] by (auto simp: flink_source_def)
    then obtain kvs c1 where "get_data_recursively ops n s s c = (Inr kvs, c1)" "same_nodes c c1" "data_for (view c) (parse_path s) (FDict kvs)"
      using get_data_ok [OF Cons.prems(1), of s s n] Some src(2) by auto
    then show thesis using that [of "[(s, FDict kvs)]" c1] exists_ok [OF Cons.prems(1), of s] Some by (simp add: flink_get_result_def)
  qed
  have fold: "fold (\<lambda>(k, v). dict_set k v) r acc = acc @ r"
  proof (cases r)
    case (Cons kd r')
    then have "r = [kd]" "fst kd \<notin> fst ` set acc" using r(3,4) Cons.prems(3) by (auto split: if_splits)
    then show ?thesis by (cases kd) (simp add: dict_set_new)
  qed simp
  have view: "view c1 = view c" "good c1" using r(2) by (auto simp: same_nodes_def)
  have "distinct (map fst (acc @ r) @ paths)" using Cons.prems(3) r(3,4) by (cases r) (auto split: if_splits)
  then obtain kvs c' where k: "retrieve_results ops n paths (acc @ r) c1 = (Inr ((acc @ r) @ kvs), c')" "same_nodes c1 c'"
      "fst ` set kvs = {s \<in> set paths. view c (parse_path s) \<noteq> None}" "distinct (map fst kvs)"
      "\<forall>s d. (s, d) \<in> set kvs \<longrightarrow> data_for (view c) (parse_path s) d"
    using Cons.IH [OF view(2), of "acc @ r"] Cons.prems(2) unfolding view(1) by auto
  have "distinct (map fst (r @ kvs))" using r(3,4) k(3,4) Cons.prems(3) by (cases r) (auto split: if_splits)
  then show ?case
    using k r fold by (intro exI [of _ "r @ kvs"] exI [of _ c']) (auto simp: same_nodes_def image_Un)
qed

lemma restore_paths_ok:
  assumes "good c" and "\<forall>s \<in> set paths. rstrip_slashes s = s \<and> free_below (view c) (parse_path s)"
    and "\<forall>s d. map_of data s = Some d \<longrightarrow> wf_data d" and "sorted_wrt apart paths"
  shows "\<exists>c'. restore_paths ops data paths c = (Inr (), c') \<and> good c'
    \<and> (\<forall>s \<in> set paths. \<forall>q. view c' (parse_path s @ q) = (case map_of data s of None \<Rightarrow> None | Some d \<Rightarrow> map_of (data_paths d) q))
    \<and> (\<forall>k. (\<forall>s \<in> set paths. \<not> prefix (parse_path s) k \<and> \<not> strict_prefix k (parse_path s)) \<longrightarrow> view c' k = view c k)"
  using assms
proof (induction paths arbitrary: c)
  case (Cons s paths)
  have src: "rstrip_slashes s = s" "free_below (view c) (parse_path s)" using Cons.prems(2) by auto
  obtain c1 where c1: "(case map_of data s of None \<Rightarrow> (Inr (), c) | Some node \<Rightarrow> restore_data ops s node c) = (Inr (), c1)" "good c1"
    "\<And>q. view c1 (parse_path s @ q) = (case map_of data s of None \<Rightarrow> None | Some d \<Rightarrow> map_of (data_paths d) q)"
    "\<And>k. \<not> prefix (parse_path s) k \<Longrightarrow> \<not> strict_prefix k (parse_path s) \<Longrightarrow> view c1 k = view c k"
  proof (cases "map_of data s")
    case None
    then show thesis using that [of c] Cons.prems(1) src(2) by (simp add: free_below_def)
  next
    case (Some d)
    then obtain c1 where "restore_data ops s d c = (Inr (), c1)" "good c1"
        "view c1 = overlay (with_parents (view c) (parse_path s)) (parse_path s) (map_of (data_paths d))"
      using restore_data_ok [of d] Cons.prems(1,3) src unfolding restores_def by blast
    then show thesis using that [of c1] Some src(2)
      by (auto simp: overlay_append overlay_other with_parents_def free_below_def strict_prefix_def split: option.splits)
  qed
  have apart: "apart s s'" "apart s' s" if "s' \<in> set paths" for s' using that Cons.prems(4) by (auto simp: apart_def)
  have "view c1 (parse_path s' @ q) = view c (parse_path s' @ q)" if "s' \<in> set paths" for s' q
    using c1(4) apart_unrelated [OF apart(2) [OF that]] by blast
  then have free: "\<forall>s \<in> set paths. rstrip_slashes s = s \<and> free_below (view c1) (parse_path s)"
    using Cons.prems(2) by (simp add: free_below_def)
  have sorted: "sorted_wrt apart paths" using Cons.prems(4) by simp
  obtain c' where c': "restore_paths ops data paths c1 = (Inr (), c')" "good c'"
      "\<forall>s \<in> set paths. \<forall>q. view c' (parse_path s @ q) = (case map_of data s of None \<Rightarrow> None | Some d \<Rightarrow> map_of (data_paths d) q)"
      "\<forall>k. (\<forall>s \<in> set paths. \<not> prefix (parse_path s) k \<and> \<not> strict_prefix k (parse_path s)) \<longrightarrow> view c' k = view c1 k"
    using Cons.IH [OF c1(2) free Cons.prems(3) sorted] by blast
  have "view c' (parse_path s @ q) = view c1 (parse_path s @ q)" for q
    using c'(4) apart_unrelated [OF apart(1)] by blast
  then show ?case using c' c1 by (intro exI [of _ c']) auto
qed simp

lemma retrieve_restore:
  assumes "usable c" and "\<forall>s \<in> set paths. flink_source (view c) s \<and> card (below (view c) (parse_path s)) \<le> n"
    and "sorted_wrt apart paths" and "distinct paths" and "usable c2" and "\<forall>s \<in> set paths. free_below (view c2) (parse_path s)"
  shows "\<exists>data c1 c3. retrieve_data_step ops n paths c = (Inr data, c1) \<and> view c1 = view c
    \<and> restore_data_step ops paths data c2 = (Inr (), c3)
    \<and> (\<forall>s \<in> set paths. \<forall>q. view c3 (parse_path s @ q) = view c (parse_path s @ q))"
proof -
  note opened = open_ok [OF assms(1)] and opened2 = open_ok [OF assms(5)]
  obtain data c1 where d: "retrieve_results ops n paths [] (op_open ops c) = (Inr data, c1)" "same_nodes (op_open ops c) c1"
      "fst ` set data = {s \<in> set paths. view c (parse_path s) \<noteq> None}" "distinct (map fst data)"
      "\<forall>s d. (s, d) \<in> set data \<longrightarrow> data_for (view c) (parse_path s) d"
    using retrieve_results_ok [of "op_open ops c" paths n "[]"] opened assms(2,4) by auto
  have ret: "retrieve_data_step ops n paths c = (Inr data, op_close ops c1)" "view (op_close ops c1) = view c"
    using d(1,2) opened close_ok by (auto simp: retrieve_data_step_def same_nodes_def)
  have expected: "(case map_of data s of None \<Rightarrow> None | Some d \<Rightarrow> map_of (data_paths d) q) = view c (parse_path s @ q)" if "s \<in> set paths" for s q
  proof (cases "map_of data s")
    case None
    then have "view c (parse_path s) = None" using d(3) that by (auto simp: map_of_eq_None_iff)
    then have "free_below (view c) (parse_path s)" using assms(2) that by (auto simp: flink_source_def)
    then show ?thesis using None by (simp add: free_below_def)
  next
    case (Some x)
    then show ?thesis using d(5) by (auto simp: data_for_def dest: map_of_SomeD)
  qed
  show ?thesis
  proof (cases "data = []")
    case True
    have "\<forall>s \<in> set paths. \<forall>q. view c2 (parse_path s @ q) = view c (parse_path s @ q)"
      using expected assms(6) True by (simp add: free_below_def)
    then show ?thesis using ret True by (auto simp: restore_data_step_def)
  next
    case False
    have wf: "\<forall>s d. map_of data s = Some d \<longrightarrow> wf_data d" using d(5) by (auto simp: data_for_def dest: map_of_SomeD)
    have free: "\<forall>s \<in> set paths. rstrip_slashes s = s \<and> free_below (view (op_open ops c2)) (parse_path s)"
      using assms(2,6) opened2 by (simp add: flink_source_def)
    obtain c3 where "restore_paths ops data paths (op_open ops c2) = (Inr (), c3)" "good c3"
        "\<forall>s \<in> set paths. \<forall>q. view c3 (parse_path s @ q) = (case map_of data s of None \<Rightarrow> None | Some d \<Rightarrow> map_of (data_paths d) q)"
      using restore_paths_ok [OF conjunct1 [OF opened2] free wf assms(3)] by blast
    then show ?thesis using ret expected False close_ok by (auto simp: restore_data_step_def)
  qed
qed

end


text \<open>The value of a node that has children is kept, and the children are lost; the value of the top is lost.\<close>

definition tree_with_values :: zk_client where
  "tree_with_values = new_zk_client\<lparr>zk_storage := [([[]], []), ([[], ''t''], ''top''), ([[], ''t'', ''a''], ''v''), ([[], ''t'', ''a'', ''b''], ''w'')]\<rparr>"

lemma inner_values_lost:
  "fst (retrieve_data_step (memory_ops 0 0) 10 [''/t''] tree_with_values) = Inr [(''/t'', FDict [(''a'', FStr ''v'')])]"
  by code_simp

text \<open>Whether a path is the top of a tree of this form can be computed.\<close>

definition flink_tree_check :: "zk_storage \<Rightarrow> parts \<Rightarrow> bool" where
  "flink_tree_check st ps \<longleftrightarrow> list_all (\<lambda>(k, v). prefix ps k \<longrightarrow> list_all plain_name (drop (length ps) k)
     \<and> (v \<noteq> [] \<longrightarrow> decode v = Some v \<and> list_all (\<lambda>(k', v'). \<not> strict_prefix k k') st)
     \<and> list_all (\<lambda>i. dict_get st (take i k) \<noteq> None) [length ps..<length k]) st"

lemma flink_tree_check_sound:
  assumes "flink_tree_check st ps"
  shows "flink_tree (dict_get st) ps"
  unfolding flink_tree_def
proof (intro allI impI)
  fix q v assume "dict_get st (ps @ q) = Some v"
  then have kv: "(ps @ q, v) \<in> set st" by (rule map_of_SomeD)
  note c = bspec [OF assms [unfolded flink_tree_check_def list_all_iff] kv, unfolded prod.case]
  have "dict_get st (ps @ take i q) \<noteq> None" if "i < length q" for i
  proof -
    have "length ps + i \<in> set [length ps..<length (ps @ q)]" using that by simp
    moreover have "take (length ps + i) (ps @ q) = ps @ take i q" by simp
    ultimately show ?thesis using c by (metis prefixI)
  qed
  moreover have "dict_get st (ps @ q @ x # r) = None" if "v \<noteq> []" for x r
  proof (rule ccontr)
    assume "dict_get st (ps @ q @ x # r) \<noteq> None"
    then obtain v' where "(ps @ q @ x # r, v') \<in> set st" by (auto dest: map_of_SomeD)
    then have "\<not> strict_prefix (ps @ q) (ps @ q @ x # r)" using c that by fastforce
    then show False by (auto simp: strict_prefix_def prefix_def)
  qed
  ultimately show "(\<forall>x \<in> set q. plain_name x) \<and> (v \<noteq> [] \<longrightarrow> decode v = Some v \<and> (\<forall>x r. dict_get st (ps @ q @ x # r) = None))
      \<and> (\<forall>i < length q. dict_get st (ps @ take i q) \<noteq> None)"
    using c by simp
qed

lemma below_bound: "card (below (dict_get st) ps) \<le> length st"
proof -
  have "below (dict_get st) ps \<subseteq> fst ` set st" by (auto simp: below_def dom_map_of_conv_image_fst)
  then show ?thesis using card_mono [of "fst ` set st"] card_image_le [of "set st" fst] card_length [of st] by (meson finite_imageI finite_set le_trans)
qed

lemma free_below_check: "list_all (\<lambda>(k, v). \<not> prefix ps k) st \<Longrightarrow> free_below (dict_get st) ps"
  by (fastforce simp: free_below_def list_all_iff map_of_eq_None_iff)

definition flink_example :: zk_client where
  "flink_example = new_zk_client\<lparr>zk_storage := [([[]], []), ([[], ''t''], []), ([[], ''t'', ''a''], ''v''), ([[], ''t'', ''d''], []), ([[], ''t'', ''d'', ''b''], ''w'')]\<rparr>"


end
