(* ===== verification/Clickhouse_Access.thy ===== *)
theory Clickhouse_Access
  imports Zk_Connection Clickhouse_Order
begin

text \<open>
  Access entities of ClickHouse (users, roles, quotas, row policies, settings profiles) are kept in ZooKeeper: one node per entity below its
  type, with its UUID, and one below \<^verbatim>\<open>uuid\<close>, with the statements that create it. The steps that read them for a backup and
  create them on restore (\<^verbatim>\<open>RetrieveAccessEntitiesStep\<close> and \<^verbatim>\<open>RestoreAccessEntitiesStep\<close> of
  \<^verbatim>\<open>astacus/coordinator/plugins/clickhouse/steps.py\<close>) run over any session with the laws of \<open>zk_session_laws\<close>. Shown: what
  is restored, also when an earlier restore was interrupted, is what a backup then reads.
\<close>

section \<open>Steps that use ZooKeeper\<close>

text \<open>An error is one of ZooKeeper, a query that a ClickHouse server refused, with the code of the reason, or another exception.\<close>

datatype ch_error = ZkRaised zk_error | QueryFailed "nat option" | PyRaised exn

type_synonym ('c, 'a) zk_step = "'c \<Rightarrow> (ch_error + 'a) \<times> 'c"

definition bind_zk :: "('c, 'a) zk_step \<Rightarrow> ('a \<Rightarrow> ('c, 'b) zk_step) \<Rightarrow> ('c, 'b) zk_step" where
  "bind_zk m f c = (case m c of (Inl e, c1) \<Rightarrow> (Inl e, c1) | (Inr x, c1) \<Rightarrow> f x c1)"

definition zk_call :: "('c \<Rightarrow> 'a zk_result \<times> 'c) \<Rightarrow> ('c, 'a) zk_step" where
  "zk_call m c = (case m c of (Inl e, c1) \<Rightarrow> (Inl (ZkRaised e), c1) | (Inr x, c1) \<Rightarrow> (Inr x, c1))"

definition py_call :: "'a result \<Rightarrow> ('c, 'a) zk_step" where
  "py_call r c = (case r of Inl e \<Rightarrow> Inl (PyRaised e) | Inr x \<Rightarrow> Inr x, c)"

fun map_zk :: "('a \<Rightarrow> ('c, 'b) zk_step) \<Rightarrow> 'a list \<Rightarrow> ('c, 'b list) zk_step" where
  "map_zk f [] c = (Inr [], c)"
| "map_zk f (x # xs) c = bind_zk (f x) (\<lambda>y. bind_zk (map_zk f xs) (\<lambda>ys c. (Inr (y # ys), c))) c"

definition with_connection :: "'c zk_ops \<Rightarrow> ('c, 'a) zk_step \<Rightarrow> ('c, 'a) zk_step" where
  "with_connection ops body c = (case body (op_open ops c) of (r, c1) \<Rightarrow> (r, op_close ops c1))"

section \<open>The steps\<close>

definition read_entity :: "'c zk_ops \<Rightarrow> string \<Rightarrow> string \<Rightarrow> string \<Rightarrow> ('c, access_entity) zk_step" where
  "read_entity ops access_entities_path entity_type node_name =
     bind_zk (zk_call (op_get ops (child_path (child_path access_entities_path entity_type) node_name))) (\<lambda>uuid_bytes.
     bind_zk (py_call (case decode uuid_bytes of None \<Rightarrow> Inl ValueError | Some s \<Rightarrow> parse_uuid s)) (\<lambda>entity_uuid.
     bind_zk (zk_call (op_get ops (child_path (child_path access_entities_path ''uuid'') (uuid_str entity_uuid)))) (\<lambda>attach_query_bytes c.
       (Inr \<lparr>ae_type = entity_type, ae_uuid = entity_uuid, ae_name = unescape_from_file_name node_name, ae_attach_query = attach_query_bytes\<rparr>, c))))"

definition read_entity_type :: "'c zk_ops \<Rightarrow> string \<Rightarrow> string \<Rightarrow> ('c, access_entity list) zk_step" where
  "read_entity_type ops access_entities_path entity_type =
     (if entity_type = ''uuid'' then (\<lambda>c. (Inr [], c))
      else bind_zk (zk_call (op_get_children ops (child_path access_entities_path entity_type)))
        (map_zk (read_entity ops access_entities_path entity_type)))"

definition retrieve_access_entities_step :: "'c zk_ops \<Rightarrow> string \<Rightarrow> ('c, access_entity list) zk_step" where
  "retrieve_access_entities_step ops access_entities_path = with_connection ops (
     bind_zk (zk_call (op_get_children ops access_entities_path)) (\<lambda>entity_types.
     bind_zk (map_zk (read_entity_type ops access_entities_path) entity_types) (\<lambda>access_entities c.
       (if op_has_changed ops c then Inl (PyRaised TransientException) else Inr (concat access_entities), c))))"

definition restore_entity :: "'c zk_session \<Rightarrow> string \<Rightarrow> access_entity \<Rightarrow> ('c, unit) zk_step" where
  "restore_entity session access_entities_path access_entity =
     (let entity_type_path = child_path access_entities_path (ae_type access_entity);
          entity_uuids_path = child_path access_entities_path ''uuid''
      in bind_zk (zk_call (op_try_create session entity_type_path [])) (\<lambda>_.
         bind_zk (zk_call (op_try_create session entity_uuids_path [])) (\<lambda>_ c.
         (case op_commit session [(child_path entity_type_path (escape_for_file_name (ae_name access_entity)), uuid_str (ae_uuid access_entity)),
              (child_path entity_uuids_path (uuid_str (ae_uuid access_entity)), ae_attach_query access_entity)] c of
            (Inr _, c1) \<Rightarrow> (Inr (), c1)
          | (Inl (TransactionError _), c1) \<Rightarrow> (Inr (), c1)
          | (Inl e, c1) \<Rightarrow> (Inl (ZkRaised e), c1)))))"

definition restore_access_entities_step :: "'c zk_session \<Rightarrow> string \<Rightarrow> access_entity list \<Rightarrow> ('c, unit) zk_step" where
  "restore_access_entities_step session access_entities_path access_entities = with_connection (basic_ops session) (
     bind_zk (py_call (access_entities_sorted_by_dependencies access_entities)) (\<lambda>sorted.
     bind_zk (map_zk (restore_entity session access_entities_path) sorted) (\<lambda>_ c. (Inr (), c))))"

section \<open>The nodes of entities\<close>

definition wf_entity :: "access_entity \<Rightarrow> bool" where
  "wf_entity e \<longleftrightarrow> plain_name (ae_type e) \<and> ae_type e \<noteq> ''uuid'' \<and> ae_name e \<noteq> [] \<and> wf_uuid (ae_uuid e)"

text \<open>No two entities share a type and name, or a UUID.\<close>

definition separate_entities :: "access_entity set \<Rightarrow> bool" where
  "separate_entities E \<longleftrightarrow> (\<forall>e \<in> E. wf_entity e \<and> (\<forall>e' \<in> E. (ae_type e = ae_type e' \<and> ae_name e = ae_name e') \<or> ae_uuid e = ae_uuid e' \<longrightarrow> e = e'))"

definition entity_node :: "access_entity \<Rightarrow> string \<Rightarrow> string \<Rightarrow> string \<Rightarrow> bool" where
  "entity_node e x y v \<longleftrightarrow> (x = ae_type e \<and> y = escape_for_file_name (ae_name e) \<and> v = uuid_str (ae_uuid e))
     \<or> (x = ''uuid'' \<and> y = uuid_str (ae_uuid e) \<and> v = ae_attach_query e)"

text \<open>Below \<open>ps\<close> there are the nodes of the entities \<open>E\<close>, and perhaps nodes for types.\<close>

definition holds_entities :: "(parts \<Rightarrow> string option) \<Rightarrow> parts \<Rightarrow> access_entity set \<Rightarrow> bool" where
  "holds_entities t ps E \<longleftrightarrow> t ps \<noteq> None
     \<and> (\<forall>x. t (ps @ [x]) \<noteq> None \<longrightarrow> plain_name x) \<and> (\<forall>e \<in> E. t (ps @ [ae_type e]) \<noteq> None \<and> t (ps @ [''uuid'']) \<noteq> None)
     \<and> (\<forall>x y v. t (ps @ [x, y]) = Some v \<longleftrightarrow> (\<exists>e \<in> E. entity_node e x y v))"

lemma uuid_str_plain: "wf_uuid u \<Longrightarrow> plain_name (uuid_str u)"
proof -
  assume "wf_uuid u"
  then have "CHR ''/'' \<notin> set (uuid_str u)" using uuid_str_set [of u] lower_hex_facts(3) by (auto simp: wf_uuid_def)
  then show ?thesis by (simp add: plain_name_def uuid_str_def Let_def)
qed

lemma decode_uuid_str: "wf_uuid u \<Longrightarrow> decode (uuid_str u) = Some (uuid_str u)"
proof (rule decode_ascii)
  fix c assume "wf_uuid u" "c \<in> set (uuid_str u)"
  then have "c \<in> set (lower_hex @ ''-'')" using uuid_str_set [of u] by (auto simp: wf_uuid_def)
  moreover have "\<forall>c \<in> set (lower_hex @ ''-''). (of_char c :: nat) < 128" by code_simp
  ultimately show "(of_char c :: nat) < 128" by blast
qed

lemma escaped_plain: "n \<noteq> [] \<Longrightarrow> plain_name (escape_for_file_name n)"
  using escape_no_slash by (simp add: plain_name_def)

lemma escape_inj: "escape_for_file_name a = escape_for_file_name b \<longleftrightarrow> a = b"
  by (metis unescape_escape)

lemma uuid_str_inj: "wf_uuid a \<Longrightarrow> wf_uuid b \<Longrightarrow> uuid_str a = uuid_str b \<longleftrightarrow> a = b"
  by (metis parse_uuid_str sum.inject(2))

lemma entity_paths:
  assumes "wf_entity e" and "rstrip_slashes s = s"
  shows "parse_path (child_path s (ae_type e)) = parse_path s @ [ae_type e]"
    and "parse_path (child_path s ''uuid'') = parse_path s @ [''uuid'']"
    and "parse_path (child_path (child_path s (ae_type e)) (escape_for_file_name (ae_name e))) = parse_path s @ [ae_type e, escape_for_file_name (ae_name e)]"
    and "parse_path (child_path (child_path s ''uuid'') (uuid_str (ae_uuid e))) = parse_path s @ [''uuid'', uuid_str (ae_uuid e)]"
proof -
  have n: "plain_name (ae_type e)" "plain_name ''uuid''" "plain_name (escape_for_file_name (ae_name e))" "plain_name (uuid_str (ae_uuid e))"
    using assms(1) escaped_plain uuid_str_plain by (auto simp: wf_entity_def plain_name_def)
  note t = parse_child_path [OF n(1) assms(2)] and u = parse_child_path [OF n(2) assms(2)]
  show "parse_path (child_path s (ae_type e)) = parse_path s @ [ae_type e]" "parse_path (child_path s ''uuid'') = parse_path s @ [''uuid'']"
    by (rule t(1), rule u(1))
  show "parse_path (child_path (child_path s (ae_type e)) (escape_for_file_name (ae_name e))) = parse_path s @ [ae_type e, escape_for_file_name (ae_name e)]"
    using parse_child_path(1) [OF n(3) t(2)] t(1) by simp
  show "parse_path (child_path (child_path s ''uuid'') (uuid_str (ae_uuid e))) = parse_path s @ [''uuid'', uuid_str (ae_uuid e)]"
    using parse_child_path(1) [OF n(4) u(2)] u(1) by simp
qed

section \<open>Restoring\<close>

definition touched :: "(parts \<Rightarrow> string option) \<Rightarrow> parts \<Rightarrow> parts \<Rightarrow> string option" where
  "touched t k = (if t k = None then (with_parents t k)(k \<mapsto> []) else t)"

lemma touched_below:
  assumes "t ps \<noteq> None"
  shows "touched t (ps @ [x]) (ps @ q) = (if q = [x] \<and> t (ps @ q) = None then Some [] else t (ps @ q))"
proof -
  have "strict_prefix (ps @ q) (ps @ [x]) \<longleftrightarrow> q = []" by (cases q) (auto simp: strict_prefix_def)
  then show ?thesis using assms by (auto simp: touched_def with_parents_def)
qed

lemma touched_holds:
  assumes "holds_entities t ps E" and "plain_name x"
  shows "holds_entities (touched t (ps @ [x])) ps E" and "touched t (ps @ [x]) (ps @ [x]) \<noteq> None"
    and "t (ps @ [y]) \<noteq> None \<Longrightarrow> touched t (ps @ [x]) (ps @ [y]) \<noteq> None"
proof -
  have top: "t ps \<noteq> None" using assms(1) by (simp add: holds_entities_def)
  note b = touched_below [where t = t and ps = ps and x = x, OF top]
  show "touched t (ps @ [x]) (ps @ [x]) \<noteq> None" "t (ps @ [y]) \<noteq> None \<Longrightarrow> touched t (ps @ [x]) (ps @ [y]) \<noteq> None"
    using b by auto
  have "touched t (ps @ [x]) ps = t ps" using b [of "[]"] by simp
  then show "holds_entities (touched t (ps @ [x])) ps E" using assms unfolding holds_entities_def b by auto
qed

lemma entity_commit:
  assumes h: "holds_entities t ps E" and sep: "separate_entities (insert e E)" and s: "rstrip_slashes s = s" and ps: "ps = parse_path s"
    and par: "t (ps @ [ae_type e]) \<noteq> None" "t (ps @ [''uuid'']) \<noteq> None"
  shows "case created [(child_path (child_path s (ae_type e)) (escape_for_file_name (ae_name e)), uuid_str (ae_uuid e)),
      (child_path (child_path s ''uuid'') (uuid_str (ae_uuid e)), ae_attach_query e)] t of
    Some t' \<Rightarrow> holds_entities t' ps (insert e E) | None \<Rightarrow> holds_entities t ps (insert e E)"
proof -
  have wf: "wf_entity e" using sep by (simp add: separate_entities_def)
  note paths = entity_paths [OF wf s, folded ps]
  let ?k1 = "ps @ [ae_type e, escape_for_file_name (ae_name e)]" and ?k2 = "ps @ [''uuid'', uuid_str (ae_uuid e)]"
  have ne: "ae_type e \<noteq> ''uuid''" using wf by (simp add: wf_entity_def)
  show ?thesis
  proof (cases "e \<in> E")
    case True
    then have "t ?k1 \<noteq> None" using h by (auto simp: holds_entities_def entity_node_def)
    then show ?thesis using h True unfolding created.simps Let_def paths by (simp add: insert_absorb)
  next
    case False
    have mine: "e' = e" if "e' \<in> E" "entity_node e' x y v" "x = ae_type e \<and> y = escape_for_file_name (ae_name e) \<or> x = ''uuid'' \<and> y = uuid_str (ae_uuid e)" for e' x y v
    proof -
      have wf': "wf_entity e'" using sep that(1) by (simp add: separate_entities_def)
      have "(ae_type e' = ae_type e \<and> ae_name e' = ae_name e) \<or> ae_uuid e' = ae_uuid e"
        using that(2,3) wf wf' ne uuid_str_inj [of "ae_uuid e'" "ae_uuid e"] by (auto simp: entity_node_def escape_inj wf_entity_def)
      then show ?thesis using sep that(1) unfolding separate_entities_def by (meson insertI1 insertI2)
    qed
    have n1: "t ?k1 = None"
    proof (rule ccontr)
      assume "t ?k1 \<noteq> None"
      then obtain e' v where "e' \<in> E" "entity_node e' (ae_type e) (escape_for_file_name (ae_name e)) v" using h by (auto simp: holds_entities_def)
      then show False using mine False by blast
    qed
    have n2: "t ?k2 = None"
    proof (rule ccontr)
      assume "t ?k2 \<noteq> None"
      then obtain e' v where "e' \<in> E" "entity_node e' ''uuid'' (uuid_str (ae_uuid e)) v" using h by (auto simp: holds_entities_def)
      then show False using mine False by blast
    qed
    let ?t = "t(?k1 \<mapsto> uuid_str (ae_uuid e), ?k2 \<mapsto> ae_attach_query e)"
    have "?t (ps @ [x, y]) = Some v \<longleftrightarrow> (\<exists>e' \<in> insert e E. entity_node e' x y v)" for x y v
    proof -
      consider "x = ae_type e" "y = escape_for_file_name (ae_name e)" | "x = ''uuid''" "y = uuid_str (ae_uuid e)"
        | "\<not> (x = ae_type e \<and> y = escape_for_file_name (ae_name e))" "\<not> (x = ''uuid'' \<and> y = uuid_str (ae_uuid e))" by blast
      then show ?thesis
      proof cases
        case 1
        then have "\<not> (\<exists>e' \<in> E. entity_node e' x y v)" using mine False by blast
        then show ?thesis using 1 ne by (auto simp: entity_node_def)
      next
        case 2
        then have "\<not> (\<exists>e' \<in> E. entity_node e' x y v)" using mine False by blast
        then show ?thesis using 2 ne by (auto simp: entity_node_def)
      next
        case 3
        have "?t (ps @ [x, y]) = t (ps @ [x, y])" using 3 by auto
        moreover have "\<not> entity_node e x y v" using 3 by (auto simp: entity_node_def)
        ultimately show ?thesis using h by (simp add: holds_entities_def)
      qed
    qed
    moreover have "?t ps = t ps" "\<And>x. ?t (ps @ [x]) = t (ps @ [x])" by (auto simp: fun_upd_def)
    ultimately have "holds_entities ?t ps (insert e E)" using h par unfolding holds_entities_def by simp
    moreover have "created [(child_path (child_path s (ae_type e)) (escape_for_file_name (ae_name e)), uuid_str (ae_uuid e)),
      (child_path (child_path s ''uuid'') (uuid_str (ae_uuid e)), ae_attach_query e)] t = Some ?t"
      unfolding created.simps Let_def paths using n1 n2 par ne by (auto simp: butlast_append)
    ultimately show ?thesis by simp
  qed
qed

context zk_session_laws
begin

lemma restore_entity_ok:
  assumes "good c" and s: "rstrip_slashes s = s" and h: "holds_entities (view c) (parse_path s) E" and sep: "separate_entities (insert e E)"
  shows "\<exists>c'. restore_entity session s e c = (Inr (), c') \<and> good c' \<and> holds_entities (view c') (parse_path s) (insert e E)"
proof -
  have wf: "wf_entity e" using sep by (simp add: separate_entities_def)
  note paths = entity_paths [OF wf s]
  have plain: "plain_name (ae_type e)" "plain_name ''uuid''" using wf by (auto simp: wf_entity_def plain_name_def)
  let ?ps = "parse_path s"
  obtain b1 c1 where c1: "op_try_create session (child_path s (ae_type e)) [] c = (Inr b1, c1)" "good c1" "view c1 = touched (view c) (?ps @ [ae_type e])"
    using try_create_ok [OF assms(1), of "child_path s (ae_type e)" "[]"] unfolding paths touched_def by blast
  note h1 = touched_holds [OF h plain(1), folded c1(3)]
  obtain b2 c2 where c2: "op_try_create session (child_path s ''uuid'') [] c1 = (Inr b2, c2)" "good c2" "view c2 = touched (view c1) (?ps @ [''uuid''])"
    using try_create_ok [OF c1(2), of "child_path s ''uuid''" "[]"] unfolding paths touched_def by blast
  note h2 = touched_holds [OF h1(1) plain(2), folded c2(3)]
  have par: "view c2 (?ps @ [ae_type e]) \<noteq> None" using h2(3) h1(2) by blast
  note com = entity_commit [OF h2(1) sep s refl par h2(2)]
  let ?creates = "[(child_path (child_path s (ae_type e)) (escape_for_file_name (ae_name e)), uuid_str (ae_uuid e)),
      (child_path (child_path s ''uuid'') (uuid_str (ae_uuid e)), ae_attach_query e)]"
  obtain r c3 where c3: "op_commit session ?creates c2 = (r, c3)" "good c3" "case created ?creates (view c2) of
      Some t \<Rightarrow> r = Inr () \<and> view c3 = t | None \<Rightarrow> (\<exists>es. r = Inl (TransactionError es)) \<and> view c3 = view c2"
    using commit_ok [OF c2(2), of ?creates] by blast
  have "holds_entities (view c3) ?ps (insert e E)" using com c3(3) by (auto split: option.splits)
  moreover have "restore_entity session s e c = (Inr (), c3)"
    using c1(1) c2(1) c3(1,3) unfolding restore_entity_def Let_def by (auto simp: bind_zk_def zk_call_def split: option.splits)
  ultimately show ?thesis using c3(2) by blast
qed

lemma restore_entities_ok:
  assumes "good c" and "rstrip_slashes s = s" and "holds_entities (view c) (parse_path s) E" and "separate_entities (set es \<union> E)"
  shows "\<exists>us c'. map_zk (restore_entity session s) es c = (Inr us, c') \<and> good c' \<and> holds_entities (view c') (parse_path s) (set es \<union> E)"
  using assms
proof (induction es arbitrary: c E)
  case (Cons e es)
  have "separate_entities (insert e E)" using Cons.prems(4) by (auto simp: separate_entities_def)
  then obtain c1 where c1: "restore_entity session s e c = (Inr (), c1)" "good c1" "holds_entities (view c1) (parse_path s) (insert e E)"
    using restore_entity_ok Cons.prems by blast
  have "separate_entities (set es \<union> insert e E)" using Cons.prems(4) by simp
  then obtain us c' where "map_zk (restore_entity session s) es c1 = (Inr us, c')" "good c'" "holds_entities (view c') (parse_path s) (set es \<union> insert e E)"
    using Cons.IH [OF c1(2) Cons.prems(2) c1(3)] by blast
  then show ?case using c1(1) by (auto simp: bind_zk_def)
qed simp

end

section \<open>Retrieving\<close>

lemma entities_by_type:
  assumes "list_all2 (\<lambda>x es. distinct es \<and> set es = {e \<in> E. x \<noteq> ''uuid'' \<and> ae_type e = x}) xs ys" and "distinct xs"
  shows "distinct (concat ys) \<and> set (concat ys) = {e \<in> E. ae_type e \<in> set xs \<and> ae_type e \<noteq> ''uuid''}"
  using assms by (induction rule: list_all2_induct) auto

lemma entities_by_name:
  assumes l: "list_all2 (\<lambda>n e. e \<in> E \<and> ae_type e = x \<and> escape_for_file_name (ae_name e) = n) names es" and d: "distinct names"
    and sep: "separate_entities E" and all: "\<And>e. e \<in> E \<Longrightarrow> ae_type e = x \<Longrightarrow> escape_for_file_name (ae_name e) \<in> set names"
  shows "distinct es \<and> set es = {e \<in> E. ae_type e = x}"
proof -
  have m: "map (escape_for_file_name \<circ> ae_name) es = names \<and> set es \<subseteq> {e \<in> E. ae_type e = x}"
    using l by (induction rule: list_all2_induct) auto
  then have dist: "distinct es" using d by (metis distinct_map)
  have "e \<in> set es" if e: "e \<in> E" "ae_type e = x" for e
  proof -
    have "escape_for_file_name (ae_name e) \<in> set (map (escape_for_file_name \<circ> ae_name) es)" using all [OF e] m by simp
    then obtain e' where "e' \<in> set es" "ae_name e' = ae_name e" by (auto simp: escape_inj)
    moreover then have "e' = e" using m e sep unfolding separate_entities_def by blast
    ultimately show ?thesis by simp
  qed
  then show ?thesis using dist m by blast
qed

context zk_connection
begin

lemma map_zk_same:
  assumes "\<And>x d. x \<in> set xs \<Longrightarrow> same_nodes c d \<Longrightarrow> \<exists>y d'. f x d = (Inr y, d') \<and> same_nodes c d' \<and> P x y" and "same_nodes c d"
  shows "\<exists>ys d'. map_zk f xs d = (Inr ys, d') \<and> same_nodes c d' \<and> list_all2 P xs ys"
  using assms
proof (induction xs arbitrary: d)
  case (Cons x xs)
  obtain y d1 where d1: "f x d = (Inr y, d1)" "same_nodes c d1" "P x y" using Cons.prems(1) [of x d] Cons.prems(2) by auto
  obtain ys d' where "map_zk f xs d1 = (Inr ys, d')" "same_nodes c d'" "list_all2 P xs ys"
    using Cons.IH [of d1] Cons.prems(1) d1(2) by auto
  then show ?case using d1 by (auto simp: bind_zk_def)
qed simp

lemma read_entity_ok:
  assumes same: "same_nodes c d" and s: "rstrip_slashes s = s" and h: "holds_entities (view c) (parse_path s) E" and e: "e \<in> E" "wf_entity e"
  shows "\<exists>d'. read_entity ops s (ae_type e) (escape_for_file_name (ae_name e)) d = (Inr e, d') \<and> same_nodes c d'"
proof -
  note paths = entity_paths [OF e(2) s]
  have wf: "wf_uuid (ae_uuid e)" using e(2) by (simp add: wf_entity_def)
  have v: "view c (parse_path s @ [ae_type e, escape_for_file_name (ae_name e)]) = Some (uuid_str (ae_uuid e))"
    "view c (parse_path s @ [''uuid'', uuid_str (ae_uuid e)]) = Some (ae_attach_query e)"
    using h e(1) by (auto simp: holds_entities_def entity_node_def)
  obtain d1 where d1: "op_get ops (child_path (child_path s (ae_type e)) (escape_for_file_name (ae_name e))) d = (Inr (uuid_str (ae_uuid e)), d1)" "same_nodes c d1"
    using get_same [OF same, of "child_path (child_path s (ae_type e)) (escape_for_file_name (ae_name e))"] v(1) unfolding paths by blast
  obtain d2 where d2: "op_get ops (child_path (child_path s ''uuid'') (uuid_str (ae_uuid e))) d1 = (Inr (ae_attach_query e), d2)" "same_nodes c d2"
    using get_same [OF d1(2), of "child_path (child_path s ''uuid'') (uuid_str (ae_uuid e))"] v(2) unfolding paths by blast
  have "read_entity ops s (ae_type e) (escape_for_file_name (ae_name e)) d = (Inr e, d2)"
    using d1(1) d2(1) wf unfolding read_entity_def by (simp add: bind_zk_def zk_call_def py_call_def decode_uuid_str unescape_escape)
  then show ?thesis using d2(2) by blast
qed

lemma read_entity_type_ok:
  assumes same: "same_nodes c d" and s: "rstrip_slashes s = s" and h: "holds_entities (view c) (parse_path s) E" and sep: "separate_entities E"
    and x: "view c (parse_path s @ [x]) \<noteq> None"
  shows "\<exists>es d'. read_entity_type ops s x d = (Inr es, d') \<and> same_nodes c d' \<and> distinct es \<and> set es = {e \<in> E. x \<noteq> ''uuid'' \<and> ae_type e = x}"
proof (cases "x = ''uuid''")
  case True
  then show ?thesis using same by (simp add: read_entity_type_def)
next
  case False
  have "plain_name x" using h x by (simp add: holds_entities_def)
  note path = parse_child_path(1) [OF this s]
  obtain names d1 where d1: "op_get_children ops (child_path s x) d = (Inr names, d1)" "same_nodes c d1" "distinct names"
      "set names = {y. view c (parse_path s @ [x, y]) \<noteq> None}"
    using children_same [OF same, of "child_path s x"] x unfolding path by auto
  have mine: "\<exists>e. e \<in> E \<and> ae_type e = x \<and> escape_for_file_name (ae_name e) = n" if n: "n \<in> set names" for n
  proof -
    obtain v where "view c (parse_path s @ [x, n]) = Some v" using n d1(4) by auto
    then show ?thesis using h False by (auto simp: holds_entities_def entity_node_def)
  qed
  have "\<exists>e d'. read_entity ops s x n d2 = (Inr e, d') \<and> same_nodes c d' \<and> e \<in> E \<and> ae_type e = x \<and> escape_for_file_name (ae_name e) = n"
    if n: "n \<in> set names" and d2: "same_nodes c d2" for n d2
  proof -
    obtain e where e: "e \<in> E" "ae_type e = x" "escape_for_file_name (ae_name e) = n" using mine n by blast
    moreover have "wf_entity e" using e(1) sep by (simp add: separate_entities_def)
    ultimately show ?thesis using read_entity_ok [OF d2 s h e(1)] by blast
  qed
  from map_zk_same [where xs = names and f = "read_entity ops s x" and P = "\<lambda>n e. e \<in> E \<and> ae_type e = x \<and> escape_for_file_name (ae_name e) = n",
      OF this d1(2)] obtain es d' where es: "map_zk (read_entity ops s x) names d1 = (Inr es, d')" "same_nodes c d'"
      "list_all2 (\<lambda>n e. e \<in> E \<and> ae_type e = x \<and> escape_for_file_name (ae_name e) = n) names es" by blast
  have "escape_for_file_name (ae_name e) \<in> set names" if "e \<in> E" "ae_type e = x" for e
    using that h d1(4) by (auto simp: holds_entities_def entity_node_def)
  then have "distinct es \<and> set es = {e \<in> E. ae_type e = x}" by (rule entities_by_name [OF es(3) d1(3) sep])
  then show ?thesis using False d1(1) es(1,2) by (auto simp: read_entity_type_def bind_zk_def zk_call_def)
qed

lemma retrieve_access_entities_ok:
  assumes "usable c" and s: "rstrip_slashes s = s" and h: "holds_entities (view c) (parse_path s) E" and sep: "separate_entities E"
  shows "\<exists>es c'. retrieve_access_entities_step ops s c = (Inr es, c') \<and> distinct es \<and> set es = E \<and> view c' = view c"
proof -
  let ?c = "op_open ops c"
  have open_: "good ?c" "view ?c = view c" "\<not> op_has_changed ops ?c" using open_ok [OF assms(1)] by auto
  have same: "same_nodes ?c ?c" using open_ by (simp add: same_nodes_def)
  have h': "holds_entities (view ?c) (parse_path s) E" using h open_(2) by simp
  obtain xs d1 where d1: "op_get_children ops s ?c = (Inr xs, d1)" "same_nodes ?c d1" "distinct xs" "set xs = {x. view c (parse_path s @ [x]) \<noteq> None}"
    using children_same [OF same, of s] h open_(2) by (auto simp: holds_entities_def)
  have "\<exists>es d'. read_entity_type ops s x d = (Inr es, d') \<and> same_nodes ?c d' \<and> distinct es \<and> set es = {e \<in> E. x \<noteq> ''uuid'' \<and> ae_type e = x}"
    if "x \<in> set xs" "same_nodes ?c d" for x d
    using read_entity_type_ok [OF that(2) s h' sep] that(1) d1(4) open_(2) by auto
  from map_zk_same [where xs = xs and f = "read_entity_type ops s" and P = "\<lambda>x es. distinct es \<and> set es = {e \<in> E. x \<noteq> ''uuid'' \<and> ae_type e = x}",
      OF this d1(2)] obtain ys d2 where d2: "map_zk (read_entity_type ops s) xs d1 = (Inr ys, d2)" "same_nodes ?c d2"
      "list_all2 (\<lambda>x es. distinct es \<and> set es = {e \<in> E. x \<noteq> ''uuid'' \<and> ae_type e = x}) xs ys" by blast
  have "set (concat ys) = E" "distinct (concat ys)"
  proof -
    have "ae_type e \<in> set xs \<and> ae_type e \<noteq> ''uuid''" if "e \<in> E" for e
      using that h d1(4) sep by (auto simp: holds_entities_def separate_entities_def wf_entity_def)
    then show "set (concat ys) = E" "distinct (concat ys)" using entities_by_type [OF d2(3) d1(3)] by auto
  qed
  moreover have "retrieve_access_entities_step ops s c = (Inr (concat ys), op_close ops d2)"
    using d1(1) d2(1,2) open_(3) by (simp add: retrieve_access_entities_step_def with_connection_def bind_zk_def zk_call_def same_nodes_def)
  moreover have "view (op_close ops d2) = view c" using d2(2) close_ok [of d2] open_(2) by (simp add: same_nodes_def)
  ultimately show ?thesis by blast
qed

end

text \<open>Restoring entities, some of which may exist from an earlier attempt, and reading them.\<close>

context zk_session_laws
begin

lemma restore_retrieve:
  assumes "usable c" and "rstrip_slashes s = s" and h: "holds_entities (view c) (parse_path s) E" and sub: "E \<subseteq> set es" and "distinct es"
    and sep: "separate_entities (set es)" and acyclic: "acyclic {(d, ae_uuid e) | d e. e \<in> set es \<and> d \<in> set (entity_dependencies e)}"
  shows "\<exists>c1. restore_access_entities_step session s es c = (Inr (), c1)
    \<and> (\<forall>c2. usable c2 \<and> view c2 = view c1 \<longrightarrow> (\<exists>es' c3. retrieve_access_entities_step (basic_ops session) s c2 = (Inr es', c3) \<and> mset es' = mset es))"
proof -
  have e: "dependency_edges ae_uuid entity_dependencies (\<lambda>x. []) es = {(d, ae_uuid e) | d e. e \<in> set es \<and> d \<in> set (entity_dependencies e)}"
    by (auto simp: dependency_edges_def)
  obtain so where so: "access_entities_sorted_by_dependencies es = Inr so" "mset so = mset es"
    using sort_topologically_total [of ae_uuid entity_dependencies "\<lambda>x. []" es] acyclic sort_topologically_result
    unfolding e access_entities_sorted_by_dependencies_def by blast
  have set_so: "set so = set es" using so(2) by (metis set_mset_mset)
  note opened = open_ok [OF assms(1)]
  have "set so \<union> E = set es" using set_so sub by blast
  then obtain us c1 where c1: "map_zk (restore_entity session s) so (op_open (basic_ops session) c) = (Inr us, c1)" "good c1"
      "holds_entities (view c1) (parse_path s) (set es)"
    using restore_entities_ok [of "op_open (basic_ops session) c" s E so] opened assms(2) h sep by auto
  have "restore_access_entities_step session s es c = (Inr (), op_close (basic_ops session) c1)"
    using c1(1) so(1) by (simp add: restore_access_entities_step_def with_connection_def bind_zk_def py_call_def)
  moreover have "\<exists>es' c3. retrieve_access_entities_step (basic_ops session) s c2 = (Inr es', c3) \<and> mset es' = mset es"
    if c2: "usable c2" "view c2 = view (op_close (basic_ops session) c1)" for c2
  proof -
    have "holds_entities (view c2) (parse_path s) (set es)" using c2(2) c1(2,3) close_ok by simp
    then obtain es' c3 where "retrieve_access_entities_step (basic_ops session) s c2 = (Inr es', c3)" "distinct es'" "set es' = set es"
      using retrieve_access_entities_ok [OF c2(1) assms(2) _ sep] by blast
    then show ?thesis using assms(5) by (metis set_eq_iff_mset_eq_distinct)
  qed
  ultimately show ?thesis by blast
qed

end

text \<open>C35. Access entities survive a backup and a restore, and a restore that was interrupted can be repeated: if ZooKeeper holds
  any part of the entities (and perhaps empty nodes for types), the step for restoring them succeeds, and a backup of
  what is then stored reads exactly those entities with their types, names, UUIDs and statements. The names of the entities
  of a type and their UUIDs have to be distinct, and the references between them without a cycle.\<close>

theorem access_entities_restored:
  assumes "usable_client w c" and "rstrip_slashes s = s" and "holds_entities (dict_get (zk_storage c)) (parse_path s) E" and "E \<subseteq> set es"
    and "distinct es" and "separate_entities (set es)" and "acyclic {(d, ae_uuid e) | d e. e \<in> set es \<and> d \<in> set (entity_dependencies e)}"
  shows "\<exists>c1. restore_access_entities_step (memory_session conn w) s es c = (Inr (), c1)
    \<and> (\<forall>c2. usable_client w c2 \<and> dict_get (zk_storage c2) = dict_get (zk_storage c1) \<longrightarrow>
        (\<exists>es' c3. retrieve_access_entities_step (memory_ops conn w) s c2 = (Inr es', c3) \<and> mset es' = mset es))"
  using mem_session.restore_retrieve [OF assms] by (simp add: memory_session_def)

definition example_role :: access_entity where
  "example_role = \<lparr>ae_type = ''R'', ae_uuid = UUID (replicate 32 CHR ''1''), ae_name = ''a role'', ae_attach_query = ''ATTACH ROLE''\<rparr>"

definition example_user :: access_entity where
  "example_user = \<lparr>ae_type = ''U'', ae_uuid = UUID (replicate 32 CHR ''2''), ae_name = ''me'',
     ae_attach_query = ''ATTACH GRANT ID('' @ [CHR 0x27] @ uuid_str (UUID (replicate 32 CHR ''1'')) @ [CHR 0x27] @ '')''\<rparr>"

text \<open>An earlier attempt has left the node of a type.\<close>

definition started_client :: zk_client where
  "started_client = new_zk_client\<lparr>zk_storage := [([[]], []), ([[], ''access''], []), ([[], ''access'', ''R''], [])]\<rparr>"

lemma example_dependencies:
  "entity_dependencies example_role = []" "entity_dependencies example_user = [ae_uuid example_role]"
  by code_simp+

theorem access_entities_restored_witness:
  "\<exists>c1. restore_access_entities_step (memory_session 0 0) ''/access'' [example_user, example_role] started_client = (Inr (), c1)
    \<and> (\<forall>c2. usable_client 0 c2 \<and> dict_get (zk_storage c2) = dict_get (zk_storage c1) \<longrightarrow>
        (\<exists>es' c3. retrieve_access_entities_step (memory_ops 0 0) ''/access'' c2 = (Inr es', c3) \<and> mset es' = mset [example_user, example_role]))"
proof (rule access_entities_restored [where E = "{}"])
  have wf: "wf_uuid (ae_uuid example_role)" "wf_uuid (ae_uuid example_user)" by code_simp+
  show "separate_entities (set [example_user, example_role])"
    using wf by (auto simp: separate_entities_def wf_entity_def plain_name_def example_user_def example_role_def)
  have "{(d, ae_uuid e) | d e. e \<in> set [example_user, example_role] \<and> d \<in> set (entity_dependencies e)} \<subseteq> {(ae_uuid example_role, ae_uuid example_user)}"
    by (auto simp: example_dependencies)
  moreover have "acyclic {(ae_uuid example_role, ae_uuid example_user)}"
    by (simp add: acyclic_insert wf_acyclic) (code_simp)
  ultimately show "acyclic {(d, ae_uuid e) | d e. e \<in> set [example_user, example_role] \<and> d \<in> set (entity_dependencies e)}"
    by (rule acyclic_subset [rotated])
qed (auto simp: usable_client_def started_client_def new_zk_client_def tree_inv_def nodes_def holds_entities_def parse_path_def plain_name_def
  example_user_def example_role_def split: if_splits)

end
