(* ===== verification/Clickhouse_Objects.thy ===== *)
theory Clickhouse_Objects
  imports Clickhouse_Disks Cleanup
begin

text \<open>
  Files that ClickHouse keeps in object storage: \<^verbatim>\<open>async_object_storage.py\<close> under
  \<^verbatim>\<open>astacus/coordinator/plugins/clickhouse/\<close>, and the steps of \<^verbatim>\<open>steps.py\<close> beside it that collect the files a backup refers to, rename the
  frozen parts, copy objects on restore and delete those that no backup needs. The storages are used through an interface, a
  record of operations on handles, whose laws are a locale that the in-memory storage fulfils. The
  last-modified times are integers like the times of manifests.
\<close>

section \<open>Object storages\<close>

record object_storage_item =
  oi_key :: string
  oi_last_modified :: int

record ('o, 'k, 'w) object_ops =
  os_get_config :: "'o \<Rightarrow> 'k"
  os_list_items :: "'o \<Rightarrow> ('w, object_storage_item list) stateful"
  os_delete_item :: "'o \<Rightarrow> string \<Rightarrow> ('w, unit) stateful"
  os_copy_items_from :: "'o \<Rightarrow> 'o \<Rightarrow> string list \<Rightarrow> ('w, unit) stateful"

text \<open>The in-memory storage: a handle is the identity of the object, the world has the items of each. The error of
  deleting a key that does not exist is the library's.\<close>

type_synonym memory_objects = "nat \<Rightarrow> (string \<times> object_storage_item) list"

definition from_items :: "object_storage_item list \<Rightarrow> (string \<times> object_storage_item) list" where
  "from_items its = fold (\<lambda>item. dict_set (oi_key item) item) its []"

definition memory_list_items :: "nat \<Rightarrow> (memory_objects, object_storage_item list) stateful" where
  "memory_list_items i w = (Inr (map snd (w i)), w)"

definition memory_delete_item :: "nat \<Rightarrow> string \<Rightarrow> (memory_objects, unit) stateful" where
  "memory_delete_item i key w = (if dict_get (w i) key = None then (Inl FileNotFoundError, w) else (Inr (), w(i := AList.delete key (w i))))"

definition memory_copy_items_from :: "nat \<Rightarrow> nat \<Rightarrow> string list \<Rightarrow> (memory_objects, unit) stateful" where
  "memory_copy_items_from i source keys =
     bind_st (memory_list_items source) (\<lambda>its w.
       (Inr (), w(i := fold (\<lambda>item. dict_set (oi_key item) item) (filter (\<lambda>item. oi_key item \<in> set keys) its) (w i))))"

definition memory_object_ops :: "(nat, nat, memory_objects) object_ops" where
  "memory_object_ops = \<lparr>os_get_config = id, os_list_items = memory_list_items, os_delete_item = memory_delete_item,
     os_copy_items_from = memory_copy_items_from\<rparr>"

section \<open>Collecting and renaming\<close>

text \<open>\<^verbatim>\<open>object_storage_files.setdefault(disk_name, set()).add(path)\<close>\<close>

definition add_path :: "string \<Rightarrow> string \<Rightarrow> (string \<times> string list) list \<Rightarrow> (string \<times> string list) list" where
  "add_path disk_name path files = dict_set disk_name (List.insert path (case dict_get files disk_name of None \<Rightarrow> [] | Some ps \<Rightarrow> ps)) files"

text \<open>Whether the error of \<^verbatim>\<open>FileMetadata.from_bytes\<close> is an \<^verbatim>\<open>InvalidFileMetadata\<close>, and not an \<^verbatim>\<open>UnicodeDecodeError\<close>.\<close>

definition invalid_file_metadata :: "string \<Rightarrow> bool" where
  "invalid_file_metadata content \<longleftrightarrow> (case match_file_metadata content of None \<Rightarrow> True
     | Some (_, objects, _) \<Rightarrow> is_ok (map_res object_metadata_of objects))"

text \<open>The objects that one file of a snapshot refers to, with the name of its disk.\<close>

definition file_objects :: "'o disk list \<Rightarrow> snapshot_file \<Rightarrow> (string \<times> string) list result" where
  "file_objects disks snapshot_file =
     bind_res (parse_part_file_path disks (sf_relative_path snapshot_file)) (\<lambda>parsed_path.
     if dk_type (pp_disk parsed_path) = ObjectStorage then
       (case sf_content_b64 snapshot_file of
          None \<Rightarrow> Inl StepFailedError
        | Some content_b64 \<Rightarrow> bind_res (b64decode content_b64) (\<lambda>content.
            (case from_bytes content of
               Inl e \<Rightarrow> Inl (if invalid_file_metadata content then StepFailedError else e)
             | Inr file_metadata \<Rightarrow> Inr (map (\<lambda>m. (dk_name (pp_disk parsed_path), om_relative_path m)) (fm_objects file_metadata)))))
     else Inr [])"

fun collect_objects :: "'o disk list \<Rightarrow> snapshot_result list \<Rightarrow> (string \<times> string) list result" where
  "collect_objects disks [] = Inr []"
| "collect_objects disks (snapshot_result # rest) = (case sr_state snapshot_result of
     None \<Rightarrow> Inl AssertionError
   | Some state \<Rightarrow> bind_res (map_res (file_objects disks) (ss_files state)) (\<lambda>objects.
       bind_res (collect_objects disks rest) (\<lambda>more. Inr (concat objects @ more))))"

definition collect_object_storage_files_step :: "'o disk list \<Rightarrow> snapshot_result list \<Rightarrow> object_storage_files list result" where
  "collect_object_storage_files_step disks snapshot_results =
     bind_res (collect_objects disks snapshot_results) (\<lambda>objects.
     let files = fold (\<lambda>(disk_name, path). add_path disk_name path) objects []
     in Inr (map (\<lambda>(disk_name, paths). \<lparr>of_disk_name = disk_name, of_files = sort paths\<rparr>) (sort_key fst files)))"

definition moved_path :: "'o disk list \<Rightarrow> string \<Rightarrow> string result" where
  "moved_path disks path = bind_res (parse_part_file_path disks path) (\<lambda>p. Inr (to_path (p\<lparr>pp_freeze_name := None, pp_detached := False\<rparr>)))"

definition move_frozen_parts_step :: "'o disk list \<Rightarrow> snapshot_result list \<Rightarrow> snapshot_result list result" where
  "move_frozen_parts_step disks snapshot_results = map_res (\<lambda>snapshot_result. (case sr_state snapshot_result of
     None \<Rightarrow> Inl AssertionError
   | Some state \<Rightarrow> bind_res (map_res (\<lambda>f. bind_res (moved_path disks (sf_relative_path f)) (\<lambda>p. Inr (f\<lparr>sf_relative_path := p\<rparr>))) (ss_files state))
       (\<lambda>files. Inr (snapshot_result\<lparr>sr_state := Some (state\<lparr>ss_files := files\<rparr>)\<rparr>)))) snapshot_results"

section \<open>Copying and deleting\<close>

definition restore_files_of_disk :: "('o, 'k, 'w) object_ops \<Rightarrow> 'o disk list \<Rightarrow> 'o disk list \<Rightarrow> object_storage_files \<Rightarrow> ('w, unit) stateful" where
  "restore_files_of_disk ops source_disks target_disks files w =
     (if of_files files = [] then (Inr (), w)
      else case get_object_storage source_disks (of_disk_name files) of
        None \<Rightarrow> (Inl StepFailedError, w)
      | Some source_storage \<Rightarrow> (case get_object_storage target_disks (of_disk_name files) of
          None \<Rightarrow> (Inl StepFailedError, w)
        | Some target_storage \<Rightarrow>
            if os_get_config ops source_storage \<noteq> os_get_config ops target_storage
            then os_copy_items_from ops target_storage source_storage (of_files files) w else (Inr (), w)))"

definition restore_object_storage_files_step :: "('o, 'k, 'w) object_ops \<Rightarrow> 'o disk list \<Rightarrow> 'o disk list \<Rightarrow> clickhouse_manifest \<Rightarrow> ('w, unit) stateful" where
  "restore_object_storage_files_step ops source_disks target_disks manifest =
     bind_st (map_st (restore_files_of_disk ops source_disks target_disks) (cm_object_storage_files manifest)) (\<lambda>_ w. (Inr (), w))"

fun plugin_value :: "json \<Rightarrow> pyval" where
  "plugin_value JNull = PNone"
| "plugin_value (JBool b) = PBool b"
| "plugin_value (JInt i) = PInt i"
| "plugin_value (JStr s) = PStr s"
| "plugin_value (JList xs) = PList (map plugin_value xs)"
| "plugin_value (JDict kvs) = PDict (map (\<lambda>kv. (fst kv, plugin_value (snd kv))) kvs)"

text \<open>\<^verbatim>\<open>kept_paths.setdefault(disk_name, set()).update(paths)\<close>\<close>

definition keep_files :: "object_storage_files \<Rightarrow> (string \<times> string set) list \<Rightarrow> (string \<times> string set) list" where
  "keep_files files kept = dict_set (of_disk_name files) ((case dict_get kept (of_disk_name files) of None \<Rightarrow> {} | Some ps \<Rightarrow> ps) \<union> set (of_files files)) kept"

fun kept_paths :: "'j json_ops \<Rightarrow> (string \<Rightarrow> backup_manifest result) \<Rightarrow> str_field \<Rightarrow> manifest_min list \<Rightarrow> (string \<times> string set) list
    \<Rightarrow> ('j, (string \<times> string set) list) stateful" where
  "kept_paths jops dec sf [] kept j = (Inr kept, j)"
| "kept_paths jops dec sf (m # ms) kept j = bind_st (download_backup_manifest jops dec (mm_filename m)) (\<lambda>manifest_data j.
     (case from_plugin_data sf (plugin_value (bm_plugin_data manifest_data)) of
        Inl e \<Rightarrow> (Inl e, j)
      | Inr manifest \<Rightarrow> kept_paths jops dec sf ms (fold keep_files (cm_object_storage_files manifest) kept) j)) j"

definition delete_dangling_on_disk :: "('o, 'k, 'w) object_ops \<Rightarrow> 'o disk list \<Rightarrow> int \<Rightarrow> string \<times> string set \<Rightarrow> ('w, unit) stateful" where
  "delete_dangling_on_disk ops disks newest_backup_start_time = (\<lambda>(disk_name, disk_kept_paths) w.
     (case get_object_storage disks disk_name of
        None \<Rightarrow> (Inl StepFailedError, w)
      | Some disk_object_storage \<Rightarrow> bind_st (os_list_items ops disk_object_storage) (\<lambda>its w.
          let keys_to_remove = map oi_key (filter (\<lambda>item. oi_last_modified item < newest_backup_start_time \<and> oi_key item \<notin> disk_kept_paths) its)
          in if \<not> disk_kept_paths \<subseteq> oi_key ` set its then (Inl StepFailedError, w)
             else bind_st (map_st (os_delete_item ops disk_object_storage) keys_to_remove) (\<lambda>_ w. (Inr (), w)) w) w))"

text \<open>The world has the storage for JSON and the object storages.\<close>

definition delete_dangling_object_storage_files_step :: "'j json_ops \<Rightarrow> (string \<Rightarrow> backup_manifest result) \<Rightarrow> str_field \<Rightarrow> ('o, 'k, 'w) object_ops
    \<Rightarrow> 'o disk list \<Rightarrow> manifest_min list \<Rightarrow> ('j \<times> 'w, unit) stateful" where
  "delete_dangling_object_storage_files_step jops dec sf ops disks backup_manifests =
     (case backup_manifests of [] \<Rightarrow> (\<lambda>s. (Inr (), s))
      | m # ms \<Rightarrow> bind_st (on_json (kept_paths jops dec sf backup_manifests [])) (\<lambda>kept.
          bind_st (on_hex (map_st (delete_dangling_on_disk ops disks (Max (set (map mm_start backup_manifests)))) (sort_key fst kept)))
            (\<lambda>_ s. (Inr (), s))))"

section \<open>What is collected and renamed\<close>

lemma fold_add_path:
  fixes acc :: "(string \<times> string list) list"
  shows "p \<in> set (case dict_get (fold (\<lambda>(d, p). add_path d p) objects acc) d of None \<Rightarrow> [] | Some ps \<Rightarrow> ps)
    \<longleftrightarrow> (d, p) \<in> set objects \<or> p \<in> set (case dict_get acc d of None \<Rightarrow> [] | Some ps \<Rightarrow> ps)"
proof (induction objects arbitrary: acc)
  case (Cons x objects)
  obtain d' p' where x: "x = (d', p')" by (cases x)
  have "p \<in> set (case dict_get (add_path d' p' acc) d of None \<Rightarrow> [] | Some ps \<Rightarrow> ps)
      \<longleftrightarrow> (d, p) = (d', p') \<or> p \<in> set (case dict_get acc d of None \<Rightarrow> [] | Some ps \<Rightarrow> ps)"
    by (auto simp: add_path_def update_conv' split: option.splits)
  then show ?case using Cons.IH [of "add_path d' p' acc"] x by auto
qed simp

lemma distinct_add_path: "distinct (map fst acc) \<Longrightarrow> distinct (map fst (fold (\<lambda>(d, p). add_path d p) objects acc))"
  by (induction objects arbitrary: acc) (auto simp: add_path_def distinct_update)

lemma dict_member:
  assumes "distinct (map fst al)"
  shows "(\<exists>ps. (d, ps) \<in> set al \<and> p \<in> set ps) \<longleftrightarrow> p \<in> set (case dict_get al d of None \<Rightarrow> [] | Some ps \<Rightarrow> ps)"
proof (cases "dict_get al d")
  case None
  then have "\<nexists>ps. (d, ps) \<in> set al" by (metis map_of_eq_None_iff fst_conv image_eqI)
  with None show ?thesis by simp
next
  case (Some ps)
  then have "(d, qs) \<in> set al \<longleftrightarrow> qs = ps" for qs using map_of_eq_Some_iff [OF assms, of d] by (metis option.inject)
  with Some show ?thesis by auto
qed

text \<open>The step lists, disk by disk, exactly the objects that the files of the snapshots refer to.\<close>

lemma collected_exactly:
  assumes "collect_objects disks results = Inr objects"
  shows "\<exists>fs. collect_object_storage_files_step disks results = Inr fs \<and> distinct (map of_disk_name fs)
    \<and> (\<forall>d p. (\<exists>f \<in> set fs. of_disk_name f = d \<and> p \<in> set (of_files f)) \<longleftrightarrow> (d, p) \<in> set objects)"
proof -
  let ?files = "fold (\<lambda>(d, p). add_path d p) objects []"
  let ?fs = "map (\<lambda>(d, ps). \<lparr>of_disk_name = d, of_files = sort ps\<rparr>) (sort_key fst ?files)"
  have dist: "distinct (map fst ?files)" by (rule distinct_add_path) simp
  have "distinct (map fst (sort_key fst ?files))" using dist by (metis mset_eq_imp_distinct_iff mset_map mset_sort)
  then have "distinct (map of_disk_name ?fs)" by (simp add: comp_def case_prod_unfold)
  moreover have "(\<exists>f \<in> set ?fs. of_disk_name f = d \<and> p \<in> set (of_files f)) \<longleftrightarrow> (d, p) \<in> set objects" for d p
  proof -
    have "(\<exists>f \<in> set ?fs. of_disk_name f = d \<and> p \<in> set (of_files f)) \<longleftrightarrow> (\<exists>ps. (d, ps) \<in> set ?files \<and> p \<in> set ps)"
      by force
    also have "\<dots> \<longleftrightarrow> p \<in> set (case dict_get ?files d of None \<Rightarrow> [] | Some ps \<Rightarrow> ps)"
      by (rule dict_member [OF dist])
    also have "\<dots> \<longleftrightarrow> (d, p) \<in> set objects" by (subst fold_add_path) simp
    finally show ?thesis .
  qed
  ultimately show ?thesis using assms by (simp add: collect_object_storage_files_step_def Let_def)
qed

text \<open>A frozen file is renamed to the place that its part is attached from, and parsing the new path finds the same table and part.\<close>

lemma moved_path_parses:
  assumes "wf_disks disks" and "pp_disk p \<in> set disks" and "wf_path p" and "pp_part_name p \<noteq> ''detached''"
  shows "\<exists>path. moved_path disks (to_path p) = Inr path \<and> parse_part_file_path disks path = Inr (p\<lparr>pp_freeze_name := None, pp_detached := False\<rparr>)"
  using assms parse_part_own [OF assms(1-3)] parse_part_own [OF assms(1), of "p\<lparr>pp_freeze_name := None, pp_detached := False\<rparr>"]
  by (simp add: moved_path_def wf_path_def)

section \<open>The interface of object storages\<close>

definition listed_times :: "object_storage_item list \<Rightarrow> string \<Rightarrow> int option" where
  "listed_times its = map_of (map (\<lambda>i. (oi_key i, oi_last_modified i)) its)"

locale object_storages =
  fixes ops :: "('o, 'k, 'w) object_ops" and oinv :: "'w \<Rightarrow> bool" and contents :: "'w \<Rightarrow> 'o \<Rightarrow> string \<Rightarrow> int option"
  assumes list_items_ok: "oinv w \<Longrightarrow> \<exists>its w'. os_list_items ops st w = (Inr its, w') \<and> oinv w' \<and> contents w' = contents w
      \<and> distinct (map oi_key its) \<and> listed_times its = contents w st"
    and delete_item_ok: "oinv w \<Longrightarrow> contents w st k \<noteq> None \<Longrightarrow>
      \<exists>w'. os_delete_item ops st k w = (Inr (), w') \<and> oinv w' \<and> contents w' = (contents w)(st := (contents w st)(k := None))"
    and copy_items_ok: "oinv w \<Longrightarrow> set keys \<subseteq> dom (contents w source) \<Longrightarrow>
      \<exists>w'. os_copy_items_from ops st source keys w = (Inr (), w') \<and> oinv w'
        \<and> contents w' = (contents w)(st := (\<lambda>k. if k \<in> set keys then contents w source k else contents w st k))"

definition is_old :: "int \<Rightarrow> int option \<Rightarrow> bool" where
  "is_old newest t = (case t of None \<Rightarrow> False | Some t \<Rightarrow> t < newest)"

lemma listed_keys:
  assumes "listed_times its = c" and "distinct (map oi_key its)"
  shows "oi_key ` set its = dom c"
    and "set (map oi_key (filter (\<lambda>i. oi_last_modified i < newest \<and> oi_key i \<notin> K) its)) = {k. is_old newest (c k) \<and> k \<notin> K}"
proof -
  have get: "c (oi_key i) = Some (oi_last_modified i)" if "i \<in> set its" for i
    unfolding assms(1) [symmetric] listed_times_def using that assms(2) by (intro map_of_is_SomeI) (auto simp: comp_def)
  have mem: "\<exists>i \<in> set its. oi_key i = k \<and> oi_last_modified i = t" if "c k = Some t" for k t
    using that unfolding assms(1) [symmetric] listed_times_def by (auto dest!: map_of_SomeD)
  show "oi_key ` set its = dom c" using get mem by fastforce
  show "set (map oi_key (filter (\<lambda>i. oi_last_modified i < newest \<and> oi_key i \<notin> K) its)) = {k. is_old newest (c k) \<and> k \<notin> K}"
    using get mem by (auto simp: is_old_def split: option.splits) (metis (mono_tags, lifting) image_eqI mem_Collect_eq)
qed

context object_storages
begin

lemma delete_keys_ok:
  assumes "oinv w" and "distinct ks" and "set ks \<subseteq> dom (contents w st)"
  shows "\<exists>us w'. map_st (os_delete_item ops st) ks w = (Inr us, w') \<and> oinv w'
    \<and> contents w' = (contents w)(st := (\<lambda>k. if k \<in> set ks then None else contents w st k))"
  using assms
proof (induction ks arbitrary: w)
  case Nil
  then show ?case by auto
next
  case (Cons k ks)
  obtain w1 where w1: "os_delete_item ops st k w = (Inr (), w1)" "oinv w1" "contents w1 = (contents w)(st := (contents w st)(k := None))"
    using delete_item_ok [OF Cons.prems(1), of st k] Cons.prems(3) by auto
  have sub: "set ks \<subseteq> dom (contents w1 st)" using Cons.prems(2,3) w1(3) by auto
  obtain us w' where "map_st (os_delete_item ops st) ks w1 = (Inr us, w')" "oinv w'"
      "contents w' = (contents w1)(st := (\<lambda>k. if k \<in> set ks then None else contents w1 st k))"
    using Cons.IH [OF w1(2) _ sub] Cons.prems(2) by (metis distinct.simps(2))
  then show ?case using w1 by (auto simp: bind_st_def fun_eq_iff)
qed

lemma delete_dangling_on_disk_ok:
  assumes "oinv w" and st: "get_object_storage disks d = Some st"
  shows "\<exists>r w'. delete_dangling_on_disk ops disks newest (d, K) w = (r, w') \<and> oinv w' \<and>
    (if K \<subseteq> dom (contents w st) then r = Inr () \<and> contents w' = (contents w)(st := (\<lambda>k. if is_old newest (contents w st k) \<and> k \<notin> K then None else contents w st k))
     else r = Inl StepFailedError \<and> contents w' = contents w)"
proof -
  obtain its w1 where w1: "os_list_items ops st w = (Inr its, w1)" "oinv w1" "contents w1 = contents w" "distinct (map oi_key its)" "listed_times its = contents w st"
    using list_items_ok [OF assms(1), of st] by blast
  note keys = listed_keys [OF w1(5,4)]
  let ?ks = "map oi_key (filter (\<lambda>i. oi_last_modified i < newest \<and> oi_key i \<notin> K) its)"
  have dist: "distinct ?ks" using w1(4) by (simp add: distinct_map inj_on_def)
  have sub: "set ?ks \<subseteq> dom (contents w1 st)" unfolding keys(2) w1(3) by (auto simp: is_old_def split: option.splits)
  obtain us w2 where w2: "map_st (os_delete_item ops st) ?ks w1 = (Inr us, w2)" "oinv w2"
      "contents w2 = (contents w1)(st := (\<lambda>k. if k \<in> set ?ks then None else contents w1 st k))"
    using delete_keys_ok [OF w1(2) dist sub] by blast
  have c2: "contents w2 = (contents w)(st := (\<lambda>k. if is_old newest (contents w st k) \<and> k \<notin> K then None else contents w st k))"
    unfolding w2(3) w1(3) keys(2) by simp
  show ?thesis
  proof (cases "K \<subseteq> dom (contents w st)")
    case True
    then have "delete_dangling_on_disk ops disks newest (d, K) w = (Inr (), w2)"
      using w1(1) w2(1) st keys(1) by (simp add: delete_dangling_on_disk_def bind_st_def Let_def)
    then show ?thesis using w2(2) c2 True by simp
  next
    case False
    then have "delete_dangling_on_disk ops disks newest (d, K) w = (Inl StepFailedError, w1)"
      using w1(1) st keys(1) by (simp add: delete_dangling_on_disk_def bind_st_def Let_def)
    then show ?thesis using w1(2,3) False by simp
  qed
qed

text \<open>All disks, if different disks have different storages.\<close>

definition remaining_objects :: "'o disk list \<Rightarrow> int \<Rightarrow> (string \<times> string set) set \<Rightarrow> 'w \<Rightarrow> 'o \<Rightarrow> string \<Rightarrow> int option" where
  "remaining_objects disks newest kept w st k =
     (if is_old newest (contents w st k) \<and> (\<exists>(d, K) \<in> kept. get_object_storage disks d = Some st \<and> k \<notin> K) then None else contents w st k)"

lemma delete_dangling_all:
  assumes "oinv w" and "\<forall>(d, K) \<in> set kept. \<exists>st. get_object_storage disks d = Some st \<and> K \<subseteq> dom (contents w st)"
    and "distinct (map (\<lambda>(d, K). get_object_storage disks d) kept)"
  shows "\<exists>us w'. map_st (delete_dangling_on_disk ops disks newest) kept w = (Inr us, w') \<and> oinv w'
    \<and> contents w' = remaining_objects disks newest (set kept) w"
  using assms
proof (induction kept arbitrary: w)
  case Nil
  then show ?case by (auto simp: remaining_objects_def fun_eq_iff)
next
  case (Cons dK kept)
  obtain d K where dK: "dK = (d, K)" by (cases dK)
  obtain st where st: "get_object_storage disks d = Some st" "K \<subseteq> dom (contents w st)" using Cons.prems(2) dK by auto
  obtain w1 where w1: "delete_dangling_on_disk ops disks newest (d, K) w = (Inr (), w1)" "oinv w1"
      "contents w1 = (contents w)(st := (\<lambda>k. if is_old newest (contents w st k) \<and> k \<notin> K then None else contents w st k))"
    using delete_dangling_on_disk_ok [OF Cons.prems(1) st(1), of newest K] st(2) by auto
  have other: "get_object_storage disks d' \<noteq> Some st" if "(d', K') \<in> set kept" for d' K'
    using that Cons.prems(3) st(1) dK by (force simp: image_iff)
  have "\<forall>(d, K) \<in> set kept. \<exists>st. get_object_storage disks d = Some st \<and> K \<subseteq> dom (contents w1 st)"
  proof safe
    fix d' K' assume k: "(d', K') \<in> set kept"
    then obtain st' where st': "get_object_storage disks d' = Some st'" "K' \<subseteq> dom (contents w st')" using Cons.prems(2) by auto
    then have "st' \<noteq> st" using other [OF k] by auto
    then show "\<exists>st. get_object_storage disks d' = Some st \<and> K' \<subseteq> dom (contents w1 st)" using st' w1(3) by auto
  qed
  then obtain us w' where w': "map_st (delete_dangling_on_disk ops disks newest) kept w1 = (Inr us, w')" "oinv w'"
      "contents w' = remaining_objects disks newest (set kept) w1"
    using Cons.IH [OF w1(2)] Cons.prems(3) by auto
  have "remaining_objects disks newest (set kept) w1 st' k = remaining_objects disks newest (set (dK # kept)) w st' k" for st' k
  proof (cases "st' = st")
    case True
    then have "\<not> (\<exists>(d, K) \<in> set kept. get_object_storage disks d = Some st' \<and> k \<notin> K)" using other by auto
    then show ?thesis using True st(1) dK w1(3) by (auto simp: remaining_objects_def is_old_def)
  next
    case False
    then show ?thesis using st(1) dK w1(3) by (auto simp: remaining_objects_def)
  qed
  then show ?case using w1(1) w' dK by (auto simp: bind_st_def fun_eq_iff)
qed

end

section \<open>The in-memory storage fulfils it\<close>

definition memory_inv :: "memory_objects \<Rightarrow> bool" where
  "memory_inv w \<longleftrightarrow> (\<forall>i. distinct (map fst (w i)) \<and> (\<forall>(k, it) \<in> set (w i). oi_key it = k))"

definition memory_contents :: "memory_objects \<Rightarrow> nat \<Rightarrow> string \<Rightarrow> int option" where
  "memory_contents w i k = map_option oi_last_modified (dict_get (w i) k)"

lemma memory_fold:
  assumes "distinct (map oi_key its)"
  shows "dict_get (fold (\<lambda>it. dict_set (oi_key it) it) its al) k = (case find (\<lambda>it. oi_key it = k) its of None \<Rightarrow> dict_get al k | Some it \<Rightarrow> Some it)"
  using assms
proof (induction its arbitrary: al)
  case (Cons it its)
  have "find (\<lambda>it'. oi_key it' = oi_key it) its = None" using Cons.prems by (auto simp: find_None_iff image_iff dest: sym)
  then show ?case using Cons by (auto simp: update_conv' split: option.splits)
qed simp

lemma memory_fold_inv:
  assumes "distinct (map fst al)" and "\<forall>(k, it) \<in> set al. oi_key it = k"
  shows "distinct (map fst (fold (\<lambda>it. dict_set (oi_key it) it) its al)) \<and> (\<forall>(k, it) \<in> set (fold (\<lambda>it. dict_set (oi_key it) it) its al). oi_key it = k)"
  using assms
proof (induction its arbitrary: al)
  case (Cons it its)
  have "\<forall>(k, i) \<in> set (dict_set (oi_key it) it al). oi_key i = k"
  proof safe
    fix k i assume m: "(k, i) \<in> set (dict_set (oi_key it) it al)"
    have "dict_get (dict_set (oi_key it) it al) k = Some i" using m Cons.prems(1) by (intro map_of_is_SomeI distinct_update) auto
    then show "oi_key i = k" using Cons.prems by (auto simp: update_conv' split: if_splits dest!: map_of_SomeD)
  qed
  then show ?case using Cons.IH [of "dict_set (oi_key it) it al"] Cons.prems(1) distinct_update [of al "oi_key it" it] by simp
qed simp

lemma memory_listed:
  assumes "memory_inv w"
  shows "listed_times (map snd (w i)) = memory_contents w i" and "map oi_key (map snd (w i)) = map fst (w i)"
proof -
  have "\<forall>(k, it) \<in> set al. oi_key it = k \<Longrightarrow>
      map_of (map (\<lambda>i. (oi_key i, oi_last_modified i)) (map snd al)) k = map_option oi_last_modified (dict_get al k)
      \<and> map oi_key (map snd al) = map fst al" for al k
    by (induction al) auto
  moreover have "\<forall>(k, it) \<in> set (w i). oi_key it = k" using assms by (simp add: memory_inv_def)
  ultimately show "listed_times (map snd (w i)) = memory_contents w i" "map oi_key (map snd (w i)) = map fst (w i)"
    by (auto simp: listed_times_def memory_contents_def fun_eq_iff)
qed

lemma memory_copied:
  assumes "memory_inv w" and "set keys \<subseteq> dom (memory_contents w source)"
  shows "dict_get (fold (\<lambda>it. dict_set (oi_key it) it) (filter (\<lambda>it. oi_key it \<in> set keys) (map snd (w source))) (w i)) k
    = (if k \<in> set keys then dict_get (w source) k else dict_get (w i) k)"
proof -
  let ?its = "filter (\<lambda>it. oi_key it \<in> set keys) (map snd (w source))"
  have src: "distinct (map fst (w source))" "\<forall>(k, it) \<in> set (w source). oi_key it = k" using assms(1) by (auto simp: memory_inv_def)
  have dist: "distinct (map oi_key ?its)" using src memory_listed(2) [OF assms(1), of source] by (metis distinct_map_filter)
  have "\<forall>(k, it) \<in> set al. oi_key it = k \<Longrightarrow> find (\<lambda>it. oi_key it = k) (filter (\<lambda>it. oi_key it \<in> set keys) (map snd al))
      = (if k \<in> set keys then dict_get al k else None)" for al
    by (induction al) auto
  then have found: "find (\<lambda>it. oi_key it = k) ?its = (if k \<in> set keys then dict_get (w source) k else None)" using src(2) by blast
  have "dict_get (w source) k \<noteq> None" if "k \<in> set keys"
  proof -
    have "memory_contents w source k \<noteq> None" using that assms(2) by blast
    then show ?thesis by (simp add: memory_contents_def)
  qed
  then show ?thesis unfolding memory_fold [OF dist] found by (auto split: option.splits)
qed

interpretation memobj: object_storages memory_object_ops memory_inv memory_contents
proof (unfold_locales, goal_cases)
  case (1 w st)
  have "distinct (map oi_key (map snd (w st)))" using 1 unfolding memory_listed(2) [OF 1] by (simp add: memory_inv_def)
  then show ?case using 1 memory_listed(1) [OF 1, of st] by (simp add: memory_object_ops_def memory_list_items_def)
next
  case (2 w st k)
  have "dict_get (w st) k \<noteq> None" using 2(2) by (simp add: memory_contents_def)
  moreover have "memory_inv (w(st := AList.delete k (w st)))" using 2(1) distinct_delete [of "w st" k] by (auto simp: memory_inv_def AList.delete_eq)
  moreover have "memory_contents (w(st := AList.delete k (w st))) = (memory_contents w)(st := (memory_contents w st)(k := None))"
    by (auto simp: memory_contents_def fun_eq_iff delete_conv')
  ultimately show ?case by (simp add: memory_object_ops_def memory_delete_item_def)
next
  case (3 w keys source st)
  let ?al = "fold (\<lambda>it. dict_set (oi_key it) it) (filter (\<lambda>it. oi_key it \<in> set keys) (map snd (w source))) (w st)"
  have "memory_inv (w(st := ?al))" using 3(1) memory_fold_inv [of "w st"] by (simp add: memory_inv_def)
  moreover have "memory_contents (w(st := ?al)) = (memory_contents w)(st := (\<lambda>k. if k \<in> set keys then memory_contents w source k else memory_contents w st k))"
    using memory_copied [OF 3] by (auto simp: memory_contents_def fun_eq_iff)
  ultimately show ?case by (simp add: memory_object_ops_def memory_copy_items_from_def memory_list_items_def bind_st_def)
qed

section \<open>What the kept backups refer to\<close>

definition clickhouse_part :: "(string \<Rightarrow> backup_manifest result) \<Rightarrow> str_field \<Rightarrow> (string \<rightharpoonup> string) \<Rightarrow> string \<Rightarrow> clickhouse_manifest result" where
  "clickhouse_part dec sf jm n = from_plugin_data sf (plugin_value (bm_plugin_data (manifest_of dec jm n)))"

text \<open>The entries of the manifests \<open>ms\<close> for object storage.\<close>

definition object_entries :: "(string \<Rightarrow> backup_manifest result) \<Rightarrow> str_field \<Rightarrow> (string \<rightharpoonup> string) \<Rightarrow> manifest_min list \<Rightarrow> object_storage_files list" where
  "object_entries dec sf jm ms = concat (map (\<lambda>m. cm_object_storage_files (projr (clickhouse_part dec sf jm (mm_filename m)))) ms)"

definition entry_paths :: "object_storage_files list \<Rightarrow> string \<Rightarrow> string set" where
  "entry_paths fs d = (\<Union>f \<in> {f \<in> set fs. of_disk_name f = d}. set (of_files f))"

lemma fold_keep_files:
  "dict_get (fold keep_files fs kept) d = (if d \<in> of_disk_name ` set fs
     then Some ((case dict_get kept d of None \<Rightarrow> {} | Some ps \<Rightarrow> ps) \<union> entry_paths fs d) else dict_get kept d)"
proof (induction fs arbitrary: kept)
  case (Cons f fs)
  have split: "entry_paths (f # fs) d = (if of_disk_name f = d then set (of_files f) else {}) \<union> entry_paths fs d"
    by (auto simp: entry_paths_def)
  have none: "d \<notin> of_disk_name ` set fs \<Longrightarrow> entry_paths fs d = {}" by (auto simp: entry_paths_def)
  have step: "dict_get (keep_files f kept) d = (if of_disk_name f = d
      then Some ((case dict_get kept d of None \<Rightarrow> {} | Some ps \<Rightarrow> ps) \<union> set (of_files f)) else dict_get kept d)"
    by (simp add: keep_files_def update_conv')
  have "dict_get (fold keep_files (f # fs) kept) d = (if d \<in> of_disk_name ` set fs
     then Some ((case dict_get (keep_files f kept) d of None \<Rightarrow> {} | Some ps \<Rightarrow> ps) \<union> entry_paths fs d) else dict_get (keep_files f kept) d)"
    using Cons.IH [of "keep_files f kept"] by simp
  then show ?case using none unfolding split step by auto
qed simp

lemma distinct_fold_keep: "distinct (map fst kept) \<Longrightarrow> distinct (map fst (fold keep_files fs kept))"
  by (induction fs arbitrary: kept) (auto simp: keep_files_def distinct_update)

locale object_cleanup = json_storage jops jinv jsons + object_storages ops oinv contents
  for jops :: "'j json_ops" and jinv :: "'j \<Rightarrow> bool" and jsons :: "'j \<Rightarrow> string \<Rightarrow> string option"
    and ops :: "('o, 'k, 'w) object_ops" and oinv :: "'w \<Rightarrow> bool" and contents :: "'w \<Rightarrow> 'o \<Rightarrow> string \<Rightarrow> int option"
begin

lemma kept_paths_ok:
  assumes "jinv j" and "\<forall>m \<in> set ms. readable dec (jsons j) (mm_filename m) \<and> is_ok (clickhouse_part dec sf (jsons j) (mm_filename m))"
  shows "\<exists>j'. kept_paths jops dec sf ms kept j = (Inr (fold keep_files (object_entries dec sf (jsons j) ms) kept), j') \<and> jinv j' \<and> jsons j' = jsons j"
  using assms
proof (induction ms arbitrary: kept j)
  case (Cons m ms)
  let ?n = "mm_filename m"
  obtain b mf where b: "jsons j ?n = Some b" "dec b = Inr mf" "bm_filename mf = [] \<or> bm_filename mf = ?n"
    using Cons.prems(2) by (auto simp: readable_def)
  obtain j1 where j1: "download_backup_manifest jops dec ?n j = (Inr (mf\<lparr>bm_filename := ?n\<rparr>), j1)" "jinv j1" "jsons j1 = jsons j"
    using download_manifest [of j ?n b dec mf] Cons.prems(1) b by metis
  have mof: "manifest_of dec (jsons j) ?n = mf\<lparr>bm_filename := ?n\<rparr>" using b by (simp add: manifest_of_def)
  obtain cm where cm: "clickhouse_part dec sf (jsons j) ?n = Inr cm" using Cons.prems(2) by (auto simp: is_ok_def)
  then have part: "from_plugin_data sf (plugin_value (bm_plugin_data (mf\<lparr>bm_filename := ?n\<rparr>))) = Inr cm" by (simp add: clickhouse_part_def mof)
  obtain j' where "kept_paths jops dec sf ms (fold keep_files (cm_object_storage_files cm) kept) j1
      = (Inr (fold keep_files (object_entries dec sf (jsons j1) ms) (fold keep_files (cm_object_storage_files cm) kept)), j')" "jinv j'" "jsons j' = jsons j1"
    using Cons.IH [OF j1(2)] Cons.prems(2) j1(3) by auto
  then show ?case using j1 part cm by (simp add: bind_st_def object_entries_def)
qed (simp add: object_entries_def)

lemma delete_dangling_step_ok:
  assumes s: "jinv j" "oinv w" and ms: "ms \<noteq> []"
    and read: "\<forall>m \<in> set ms. readable dec (jsons j) (mm_filename m) \<and> is_ok (clickhouse_part dec sf (jsons j) (mm_filename m))"
    and present: "\<forall>f \<in> set (object_entries dec sf (jsons j) ms). \<exists>st. get_object_storage disks (of_disk_name f) = Some st
      \<and> set (of_files f) \<subseteq> dom (contents w st)"
    and inj: "inj_on (get_object_storage disks) (of_disk_name ` set (object_entries dec sf (jsons j) ms))"
  shows "\<exists>j' w'. delete_dangling_object_storage_files_step jops dec sf ops disks ms (j, w) = (Inr (), (j', w')) \<and> jsons j' = jsons j
    \<and> (\<forall>st k. contents w' st k = (if is_old (Max (set (map mm_start ms))) (contents w st k)
          \<and> (\<exists>f \<in> set (object_entries dec sf (jsons j) ms). get_object_storage disks (of_disk_name f) = Some st
              \<and> k \<notin> entry_paths (object_entries dec sf (jsons j) ms) (of_disk_name f)) then None else contents w st k))"
proof -
  let ?fs = "object_entries dec sf (jsons j) ms" and ?new = "Max (set (map mm_start ms))"
  let ?kept = "fold keep_files ?fs []"
  have get: "dict_get ?kept d = (if d \<in> of_disk_name ` set ?fs then Some (entry_paths ?fs d) else None)" for d
    by (simp add: fold_keep_files)
  have dist: "distinct (map fst ?kept)" by (rule distinct_fold_keep) simp
  have entries: "set ?kept = (\<lambda>d. (d, entry_paths ?fs d)) ` (of_disk_name ` set ?fs)"
  proof -
    have "(d, K) \<in> set ?kept \<longleftrightarrow> d \<in> of_disk_name ` set ?fs \<and> K = entry_paths ?fs d" for d K
      using map_of_eq_Some_iff [OF dist, of d K] unfolding get by (auto split: if_splits)
    then show ?thesis by auto
  qed
  obtain j' where j': "kept_paths jops dec sf ms [] j = (Inr ?kept, j')" "jsons j' = jsons j" using kept_paths_ok [OF s(1) read] by blast
  have set_sorted: "set (sort_key fst ?kept) = set ?kept" by simp
  have "\<forall>(d, K) \<in> set (sort_key fst ?kept). \<exists>st. get_object_storage disks d = Some st \<and> K \<subseteq> dom (contents w st)"
  proof safe
    fix d K assume "(d, K) \<in> set (sort_key fst ?kept)"
    then obtain f where f: "f \<in> set ?fs" "d = of_disk_name f" "K = entry_paths ?fs d" unfolding set_sorted entries by auto
    then obtain st where st: "get_object_storage disks d = Some st" using present by blast
    have "entry_paths ?fs d \<subseteq> dom (contents w st)" using present st by (force simp: entry_paths_def)
    then show "\<exists>st. get_object_storage disks d = Some st \<and> K \<subseteq> dom (contents w st)" using st f by blast
  qed
  moreover have "distinct (map (\<lambda>(d, K). get_object_storage disks d) (sort_key fst ?kept))"
  proof -
    have "fst ` set (sort_key fst ?kept) = of_disk_name ` set ?fs" unfolding set_sorted entries by force
    moreover have "distinct (map fst (sort_key fst ?kept))" using dist by (metis mset_eq_imp_distinct_iff mset_map mset_sort)
    ultimately have "distinct (map (get_object_storage disks) (map fst (sort_key fst ?kept)))"
      unfolding distinct_map [of "get_object_storage disks"] set_map using inj by auto
    then show ?thesis by (simp add: comp_def case_prod_unfold)
  qed
  ultimately obtain us w' where w': "map_st (delete_dangling_on_disk ops disks ?new) (sort_key fst ?kept) w = (Inr us, w')"
      "contents w' = remaining_objects disks ?new (set (sort_key fst ?kept)) w"
    using delete_dangling_all [OF s(2)] by blast
  have "(\<exists>(d, K) \<in> set (sort_key fst ?kept). get_object_storage disks d = Some st \<and> k \<notin> K)
      \<longleftrightarrow> (\<exists>f \<in> set ?fs. get_object_storage disks (of_disk_name f) = Some st \<and> k \<notin> entry_paths ?fs (of_disk_name f))" for st k
    unfolding set_sorted entries by auto
  then have "contents w' st k = (if is_old ?new (contents w st k) \<and> (\<exists>f \<in> set ?fs. get_object_storage disks (of_disk_name f) = Some st
      \<and> k \<notin> entry_paths ?fs (of_disk_name f)) then None else contents w st k)" for st k
    unfolding w'(2) remaining_objects_def by simp
  moreover have "delete_dangling_object_storage_files_step jops dec sf ops disks ms (j, w) = (Inr (), (j', w'))"
    using ms j'(1) w'(1) by (cases ms) (simp_all add: delete_dangling_object_storage_files_step_def bind_st_def on_json_def on_hex_def)
  ultimately show ?thesis using j'(2) by blast
qed

end

interpretation objclean: object_cleanup file_json_ops file_inv file_jsons memory_object_ops memory_inv memory_contents
  by unfold_locales


definition objects_plugin_data :: json where
  "objects_plugin_data = JDict [(''version'', JStr ''v2''), (''access_entities'', JList []), (''replicated_databases'', JList []), (''tables'', JList []),
     (''object_storage_files'', JList [JDict [(''disk_name'', JStr ''remote''), (''files'', JList [JDict [(''path'', JStr ''a'')]])]])]"

definition objects_dec :: "string \<Rightarrow> backup_manifest result" where
  "objects_dec b = (if b = ''x'' then Inr \<lparr>bm_start = 10, bm_end = 10, bm_attempt = 1, bm_snapshot_results = [], bm_upload_results = [],
     bm_plugin = PClickhouse, bm_plugin_data = objects_plugin_data, bm_filename = []\<rparr> else Inl ValueError)"

definition objects_store :: file_storage where
  "objects_store = new_file_storage\<lparr>fs_files := [(''backup-1.json'', ''x'')]\<rparr>"

definition objects_world :: memory_objects where
  "objects_world i = (if i = 0 then map (\<lambda>(k, t). (k, \<lparr>oi_key = k, oi_last_modified = t\<rparr>)) [(''a'', 1), (''b'', 2), (''c'', 20)] else [])"

definition objects_disks :: "nat disk list" where
  "objects_disks = [\<lparr>dk_type = ObjectStorage, dk_name = ''remote'', dk_path_parts = [''disks'', ''remote''], dk_object_storage = Some 0\<rparr>]"

definition kept_one :: "manifest_min list" where
  "kept_one = [\<lparr>mm_start = 10, mm_end = 10, mm_filename = ''backup-1''\<rparr>]"

lemma objects_store_jsons: "file_jsons objects_store = [''backup-1'' \<mapsto> ''x'']"
proof -
  have eq: "n @ ''.json'' = ''backup-1.json'' \<longleftrightarrow> n = ''backup-1''" for n :: string
    using append_same_eq [of n "''.json''" "''backup-1''"] by simp
  show ?thesis by (auto simp: fun_eq_iff file_jsons_def json_to_path_def objects_store_def new_file_storage_def eq)
qed

lemma objects_part:
  "clickhouse_part objects_dec example_str_field [''backup-1'' \<mapsto> ''x''] ''backup-1'' = Inr \<lparr>cm_version = V2, cm_access_entities = [],
     cm_replicated_databases = [], cm_tables = [], cm_object_storage_files = [\<lparr>of_disk_name = ''remote'', of_files = [''a'']\<rparr>]\<rparr>"
  by (simp add: clickhouse_part_def manifest_of_def objects_dec_def objects_plugin_data_def from_plugin_data_def plugin_data_simps version_of_def
    object_storage_files_from_plugin_data_def object_storage_file_from_plugin_data_def example_str_field_def)

lemma objects_entries:
  "object_entries objects_dec example_str_field (file_jsons objects_store) kept_one = [\<lparr>of_disk_name = ''remote'', of_files = [''a'']\<rparr>]"
  by (simp add: object_entries_def kept_one_def objects_store_jsons objects_part)


text \<open>A disk that no kept manifest mentions is not cleaned, whatever is on it.\<close>

lemma unmentioned_disk_not_cleaned:
  assumes "kept_paths jops dec sf ms [] j = (Inr [], j')" and "ms \<noteq> []"
  shows "delete_dangling_object_storage_files_step jops dec sf ops disks ms (j, w) = (Inr (), (j', w))"
  using assms by (cases ms) (simp_all add: delete_dangling_object_storage_files_step_def bind_st_def on_json_def on_hex_def)

text \<open>Restoring copies exactly the files of the manifest to a disk whose storage is another one.\<close>

context object_storages
begin

lemma restore_files_of_disk_ok:
  assumes "oinv w" and "get_object_storage source_disks (of_disk_name f) = Some src" and "get_object_storage target_disks (of_disk_name f) = Some tgt"
    and "set (of_files f) \<subseteq> dom (contents w src)"
  shows "\<exists>w'. restore_files_of_disk ops source_disks target_disks f w = (Inr (), w') \<and> oinv w' \<and> contents w' =
    (if os_get_config ops src \<noteq> os_get_config ops tgt then (contents w)(tgt := (\<lambda>k. if k \<in> set (of_files f) then contents w src k else contents w tgt k))
     else contents w)"
proof (cases "of_files f = []")
  case True
  then show ?thesis using assms(1) by (simp add: restore_files_of_disk_def)
next
  case False
  then show ?thesis using assms copy_items_ok [OF assms(1,4), of tgt] by (auto simp: restore_files_of_disk_def)
qed

end

end
