(* ===== verification/Clickhouse_Queries.thy ===== *)
theory Clickhouse_Queries
  imports Clickhouse_Access Clickhouse_Macros Clickhouse_Disks
begin

text \<open>
  The steps that send queries to the ClickHouse servers: freezing and unfreezing tables, the recreation of databases and tables, the
  attachment of parts and the restoration of replicas (\<^verbatim>\<open>astacus/coordinator/plugins/clickhouse/steps.py\<close>), with
  \<^verbatim>\<open>astacus/common/limiter.py\<close>. A server is a parameter: a function that answers a call and changes the world. Concurrent calls run in an
  order that a schedule chooses, any order the code allows: of every group of tasks, those that have passed the
  limiter are eligible, and each call is one move. When a call fails, the exception reaches the step at once; the calls that are then still
  running are not followed further. A step returns \<open>None\<close> if it never ends. A timeout is the text of its number, and the
  random session identifiers are a function of the client and the task.
\<close>

section \<open>Concurrent calls\<close>

record ch_call =
  cc_client :: nat
  cc_query :: string
  cc_session :: "string option"
  cc_timeout :: "string option"

type_synonym rows = "pyval list list"
type_synonym 'w ch_execute = "ch_call \<Rightarrow> 'w \<Rightarrow> (ch_error + rows) \<times> 'w"
type_synonym ('w, 'a) ch_step = "'w \<Rightarrow> (ch_error + 'a) option \<times> 'w"

text \<open>A task is the sequence of its calls. Of each group, at most \<open>limit\<close> tasks have passed the semaphore, the first that are not
  finished.\<close>

type_synonym task = "ch_call list"

definition ready :: "nat \<Rightarrow> task list list \<Rightarrow> (nat \<times> nat) list" where
  "ready limit groups = concat (map (\<lambda>g. map (Pair g) (filter (\<lambda>i. groups ! g ! i \<noteq> []) [0..<min limit (length (groups ! g))])) [0..<length groups])"

definition advance :: "nat \<Rightarrow> nat \<Rightarrow> task list list \<Rightarrow> task list list" where
  "advance g i groups = (let ts = groups ! g; t = tl (ts ! i) in groups[g := (if t = [] then take i ts @ drop (Suc i) ts else ts[i := t])])"

fun choice :: "nat list \<Rightarrow> nat" where
  "choice [] = 0"
| "choice (n # ns) = n"

definition calls :: "task list list \<Rightarrow> ch_call multiset" where
  "calls groups = mset (concat (concat groups))"

lemma ready_iff: "(g, i) \<in> set (ready limit groups) \<longleftrightarrow> g < length groups \<and> i < limit \<and> i < length (groups ! g) \<and> groups ! g ! i \<noteq> []"
  by (auto simp: ready_def)

lemma calls_advance:
  assumes "(g, i) \<in> set (ready limit groups)"
  shows "calls groups = add_mset (hd (groups ! g ! i)) (calls (advance g i groups))"
proof -
  have g: "g < length groups" and i: "i < length (groups ! g)" and ne: "groups ! g ! i \<noteq> []" using assms by (auto simp: ready_iff)
  let ?ts = "groups ! g"
  obtain c t where t: "?ts ! i = c # t" using ne by (cases "?ts ! i") auto
  have gs: "groups = take g groups @ ?ts # drop (Suc g) groups" using g by (rule id_take_nth_drop)
  have ts: "?ts = take i ?ts @ (c # t) # drop (Suc i) ?ts" using id_take_nth_drop [OF i] t by simp
  have adv: "advance g i groups = take g groups @ (if t = [] then take i ?ts @ drop (Suc i) ?ts else take i ?ts @ t # drop (Suc i) ?ts) # drop (Suc g) groups"
    using g i t by (simp add: advance_def Let_def upd_conv_take_nth_drop)
  have "calls groups = mset (concat (concat (take g groups))) + mset (concat ?ts) + mset (concat (concat (drop (Suc g) groups)))"
    unfolding calls_def by (subst gs) simp
  moreover have "mset (concat ?ts) = add_mset c (mset (concat (take i ?ts)) + mset t + mset (concat (drop (Suc i) ?ts)))" by (subst ts) simp
  moreover have "calls (advance g i groups) = mset (concat (concat (take g groups)))
      + (mset (concat (take i ?ts)) + mset t + mset (concat (drop (Suc i) ?ts))) + mset (concat (concat (drop (Suc g) groups)))"
    unfolding adv calls_def by simp
  ultimately show ?thesis using t by simp
qed

lemma chosen_ready: "ready limit groups = r # rs \<Longrightarrow> (r # rs) ! (n mod length (r # rs)) \<in> set (ready limit groups)"
  by (metis length_greater_0_conv list.distinct(1) mod_less_divisor nth_mem)

text \<open>What a task returns is its last answer, which \<open>collect\<close> puts into the results by the number of the group.\<close>

function run_groups :: "'w ch_execute \<Rightarrow> (nat \<Rightarrow> rows \<Rightarrow> 'a \<Rightarrow> ch_error + 'a) \<Rightarrow> nat \<Rightarrow> nat list \<Rightarrow> task list list \<Rightarrow> 'a \<Rightarrow> ('w, 'a) ch_step" where
  "run_groups ex collect limit sched groups acc w = (case ready limit groups of
     [] \<Rightarrow> (if concat groups = [] then Some (Inr acc) else None, w)
   | r # rs \<Rightarrow> (case (r # rs) ! (choice sched mod length (r # rs)) of (g, i) \<Rightarrow>
       (case ex (hd (groups ! g ! i)) w of
          (Inl e, w1) \<Rightarrow> (Some (Inl e), w1)
        | (Inr answer, w1) \<Rightarrow> (case (if tl (groups ! g ! i) = [] then collect g answer acc else Inr acc) of
            Inl e \<Rightarrow> (Some (Inl e), w1)
          | Inr acc1 \<Rightarrow> run_groups ex collect limit (tl sched) (advance g i groups) acc1 w1))))"
  by pat_completeness auto

termination
proof (relation "measure (\<lambda>(ex, collect, limit, sched, groups, acc, w). size (calls groups))", goal_cases)
  case (2 ex collect limit sched groups acc w r rs x y z)
  then have "(x, y) \<in> set (ready limit groups)" using chosen_ready by metis
  from calls_advance [OF this] show ?case by simp
qed simp

declare run_groups.simps [simp del]

section \<open>Steps that run concurrent calls\<close>

definition bind_ch :: "('w, 'a) ch_step \<Rightarrow> ('a \<Rightarrow> ('w, 'b) ch_step) \<Rightarrow> ('w, 'b) ch_step" where
  "bind_ch m f w = (case m w of (None, w1) \<Rightarrow> (None, w1) | (Some (Inl e), w1) \<Rightarrow> (Some (Inl e), w1) | (Some (Inr x), w1) \<Rightarrow> f x w1)"

definition returned :: "(ch_error + 'a) \<Rightarrow> ('w, 'a) ch_step" where "returned r w = (Some r, w)"

definition lift_result :: "'a result \<Rightarrow> ch_error + 'a" where
  "lift_result r = (case r of Inl e \<Rightarrow> Inl (PyRaised e) | Inr x \<Rightarrow> Inr x)"

text \<open>One call after the other.\<close>

definition execute_one :: "'w ch_execute \<Rightarrow> ch_call \<Rightarrow> ('w, rows) ch_step" where
  "execute_one ex call w = (case ex call w of (r, w1) \<Rightarrow> (Some r, w1))"

fun for_each :: "('a \<Rightarrow> ('w, unit) ch_step) \<Rightarrow> 'a list \<Rightarrow> ('w, unit) ch_step" where
  "for_each f [] w = (Some (Inr ()), w)"
| "for_each f (x # xs) w = bind_ch (f x) (\<lambda>_. for_each f xs) w"

definition gather_commands :: "'w ch_execute \<Rightarrow> nat \<Rightarrow> nat list \<Rightarrow> task list list \<Rightarrow> ('w, unit) ch_step" where
  "gather_commands ex limit sched groups = run_groups ex (\<lambda>_ _. Inr) limit sched groups ()"

definition execute_with_timeout :: "string \<Rightarrow> nat \<Rightarrow> string \<Rightarrow> string \<Rightarrow> task" where
  "execute_with_timeout session_id client timeout query =
     [\<lparr>cc_client = client, cc_query = ''SET receive_timeout='' @ timeout, cc_session = Some session_id, cc_timeout = None\<rparr>,
      \<lparr>cc_client = client, cc_query = query, cc_session = Some session_id, cc_timeout = Some timeout\<rparr>]"

text \<open>The commands for one client, each in a session of its own.\<close>

definition commands :: "(nat \<Rightarrow> nat \<Rightarrow> string) \<Rightarrow> string \<Rightarrow> string list \<Rightarrow> nat \<Rightarrow> task list" where
  "commands token timeout queries client = map (\<lambda>i. execute_with_timeout (token client i) client timeout (queries ! i)) [0..<length queries]"

definition run_on_every_node :: "'w ch_execute \<Rightarrow> nat \<Rightarrow> nat list \<Rightarrow> nat \<Rightarrow> (nat \<Rightarrow> task list) \<Rightarrow> ('w, unit) ch_step" where
  "run_on_every_node ex per_node_concurrency_limit sched clients fn = gather_commands ex per_node_concurrency_limit sched (map fn [0..<clients])"

definition CLICKHOUSE_VERSION_PARTITION_CMDS_NOT_REPLICATED :: "int \<times> int" where
  "CLICKHOUSE_VERSION_PARTITION_CMDS_NOT_REPLICATED = (23, 8)"

definition old_client :: "(int \<times> int) list \<Rightarrow> nat option" where
  "old_client versions = map_option fst (find (\<lambda>(client, version). version < CLICKHOUSE_VERSION_PARTITION_CMDS_NOT_REPLICATED) (enumerate 0 versions))"

definition run_partition_cmd_on_every_node :: "'w ch_execute \<Rightarrow> nat \<Rightarrow> nat list \<Rightarrow> (int \<times> int) list \<Rightarrow> nat \<Rightarrow> (nat \<Rightarrow> task list) \<Rightarrow> ('w, unit) ch_step" where
  "run_partition_cmd_on_every_node ex per_node_concurrency_limit sched versions clients fn =
     (if length versions \<noteq> clients then returned (Inl (PyRaised AssertionError))
      else case old_client versions of
        None \<Rightarrow> run_on_every_node ex per_node_concurrency_limit sched clients fn
      | Some client \<Rightarrow> gather_commands ex per_node_concurrency_limit sched [fn client])"

text \<open>\<^verbatim>\<open>int(text)\<close>: of the ways to spell a number, only digits are accepted here.\<close>

definition parse_int :: "string \<Rightarrow> int result" where
  "parse_int s = (if is_number s then Inr (int (number s)) else Inl ValueError)"

fun split_dots :: "string \<Rightarrow> string list" where
  "split_dots [] = [[]]"
| "split_dots (c # cs) = (if c = CHR ''.'' then [] # split_dots cs else (case split_dots cs of [] \<Rightarrow> [[c]] | w # ws \<Rightarrow> (c # w) # ws))"

definition get_version :: "rows \<Rightarrow> (int \<times> int) result" where
  "get_version rows = (case rows of [] \<Rightarrow> Inl IndexError
     | [] # _ \<Rightarrow> Inl IndexError
     | (PStr v # _) # _ \<Rightarrow> (case take 2 (split_dots v) of
         [major, minor] \<Rightarrow> bind_res (parse_int major) (\<lambda>a. bind_res (parse_int minor) (\<lambda>b. Inr (a, b)))
       | _ \<Rightarrow> Inl ValueError)
     | _ \<Rightarrow> Inl AssertionError)"

text \<open>A call to every client, whose answers are read and put into the order of the clients.\<close>

definition ask_every_client :: "'w ch_execute \<Rightarrow> (rows \<Rightarrow> 'a result) \<Rightarrow> nat list \<Rightarrow> nat \<Rightarrow> string \<Rightarrow> ('w, 'a list) ch_step" where
  "ask_every_client ex read sched clients query =
     bind_ch (run_groups ex (\<lambda>g rows acc. lift_result (bind_res (read rows) (\<lambda>v. Inr (acc[g := Some v])))) 1 sched
         (map (\<lambda>client. [[\<lparr>cc_client = client, cc_query = query, cc_session = None, cc_timeout = None\<rparr>]]) [0..<clients]) (replicate clients None))
       (\<lambda>answers. returned (Inr (map the answers)))"

definition get_versions_step :: "'w ch_execute \<Rightarrow> nat list \<Rightarrow> nat \<Rightarrow> ('w, (int \<times> int) list) ch_step" where
  "get_versions_step ex sched clients = ask_every_client ex get_version sched clients ''SELECT version()''"

definition macro_row :: "pyval list \<Rightarrow> (string option \<times> string option) result" where
  "macro_row row = (case row of [n, v] \<Rightarrow> Inr (case n of PStr s \<Rightarrow> Some s | _ \<Rightarrow> None, case v of PStr s \<Rightarrow> Some s | _ \<Rightarrow> None) | _ \<Rightarrow> Inl ValueError)"

definition MACROS_LIST_QUERY :: string where
  "MACROS_LIST_QUERY = ''SELECT base64Encode(macro),base64Encode(substitution) FROM system.macros''"

definition retrieve_macros_step :: "'w ch_execute \<Rightarrow> nat list \<Rightarrow> nat \<Rightarrow> ('w, macros list) ch_step" where
  "retrieve_macros_step ex sched clients =
     ask_every_client ex (\<lambda>rows. bind_res (map_res macro_row rows) fetch_server_macros) sched clients MACROS_LIST_QUERY"

definition validate_config_step :: "nat \<Rightarrow> nat \<Rightarrow> unit result" where
  "validate_config_step clickhouse_nodes cluster_nodes = (if clickhouse_nodes \<noteq> cluster_nodes then Inl StepFailedError else Inr ())"

section \<open>Freezing\<close>

definition remove_frozen_tables_step :: "'w ch_execute \<Rightarrow> (nat \<Rightarrow> nat \<Rightarrow> string) \<Rightarrow> nat list \<Rightarrow> nat \<Rightarrow> string \<Rightarrow> string \<Rightarrow> ('w, unit) ch_step" where
  "remove_frozen_tables_step ex token sched clients freeze_name unfreeze_timeout =
     gather_commands ex 1 sched (map (commands token unfreeze_timeout [''SYSTEM UNFREEZE WITH NAME '' @ escape_sql_string freeze_name]) [0..<clients])"

datatype freeze_operation = FREEZE | UNFREEZE

fun operation :: "freeze_operation \<Rightarrow> string" where
  "operation FREEZE = ''FREEZE''"
| "operation UNFREEZE = ''UNFREEZE''"

definition freeze_query :: "freeze_operation \<Rightarrow> string \<Rightarrow> string \<Rightarrow> ch_table \<Rightarrow> string" where
  "freeze_query op freeze_name timeout table = ''ALTER TABLE '' @ escaped_sql_identifier table @ '' '' @ operation op
     @ '' WITH NAME '' @ escape_sql_string freeze_name @ '' SETTINGS distributed_ddl_task_timeout='' @ timeout"

definition freeze_unfreeze_tables_step :: "freeze_operation \<Rightarrow> 'w ch_execute \<Rightarrow> (nat \<Rightarrow> nat \<Rightarrow> string) \<Rightarrow> nat list \<Rightarrow> nat \<Rightarrow> string \<Rightarrow> string
    \<Rightarrow> ch_table list \<Rightarrow> (int \<times> int) list \<Rightarrow> ('w, unit) ch_step" where
  "freeze_unfreeze_tables_step op ex token sched clients freeze_name timeout tables versions =
     run_partition_cmd_on_every_node ex 1 sched versions clients
       (commands token timeout (map (freeze_query op freeze_name timeout) (filter requires_freezing tables)))"

section \<open>Recreating databases and tables\<close>

text \<open>The value of a setting: a string, or anything else by its text.\<close>

datatype setting_value = SText string | SOther string

definition get_setting_repr :: "string \<times> setting_value \<Rightarrow> string" where
  "get_setting_repr s = fst s @ ''='' @ (case snd s of SText v \<Rightarrow> escape_sql_string v | SOther v \<Rightarrow> v)"

fun join_comma :: "string list \<Rightarrow> string" where
  "join_comma [] = []"
| "join_comma [s] = s"
| "join_comma (s # t # ss) = s @ '', '' @ join_comma (t # ss)"

definition settings_clause :: "(string \<times> setting_value option) list \<Rightarrow> string" where
  "settings_clause settings = (let reprs = List.map_filter (\<lambda>(n, v). map_option (\<lambda>v. get_setting_repr (n, v)) v) settings
     in if reprs = [] then [] else '' SETTINGS '' @ join_comma reprs)"

definition drop_query :: "replicated_database \<Rightarrow> string" where
  "drop_query database = ''DROP DATABASE IF EXISTS '' @ escape_sql_identifier (rd_name database) @ '' SYNC''"

definition create_query :: "string \<Rightarrow> (string \<times> setting_value option) list \<Rightarrow> replicated_database \<Rightarrow> string" where
  "create_query zookeeper_path settings database =
     ''CREATE DATABASE '' @ escape_sql_identifier (rd_name database)
     @ (case rd_uuid database of None \<Rightarrow> [] | Some u \<Rightarrow> '' UUID '' @ escape_sql_string (uuid_str u))
     @ '' ENGINE = Replicated('' @ escape_sql_string (zookeeper_path @ ''/'' @ escape_for_file_name (rd_name database)) @ '', ''
     @ escape_sql_string (rd_shard database) @ '', '' @ escape_sql_string (rd_replica database) @ '')'' @ settings_clause settings"

definition get_restore_table_query :: "ch_table \<Rightarrow> string" where
  "get_restore_table_query table = (let q = tb_create_query table in
     if take 24 q = ''CREATE MATERIALIZED VIEW'' then ''ATTACH MATERIALIZED VIEW'' @ drop 24 q else q)"

definition session_settings :: "string list" where
  "session_settings = [''SET allow_experimental_annoy_index=true'', ''SET allow_experimental_geo_types=true'', ''SET allow_experimental_object_type=true'',
     ''SET allow_suspicious_codecs=true'', ''SET allow_suspicious_low_cardinality_types=true'', ''SET flatten_nested=0'']"

definition first_client_call :: "string \<Rightarrow> string \<Rightarrow> ch_call" where
  "first_client_call session_id query = \<lparr>cc_client = 0, cc_query = query, cc_session = Some session_id, cc_timeout = None\<rparr>"

definition SETTING_CONSTRAINT_VIOLATION :: nat where "SETTING_CONSTRAINT_VIOLATION = 452"

definition set_option :: "'w ch_execute \<Rightarrow> string \<Rightarrow> string \<Rightarrow> ('w, unit) ch_step" where
  "set_option ex session_id query w = (case ex (first_client_call session_id query) w of
     (Inl e, w1) \<Rightarrow> (Some (if e = QueryFailed (Some SETTING_CONSTRAINT_VIOLATION) then Inr () else Inl e), w1)
   | (Inr _, w1) \<Rightarrow> (Some (Inr ()), w1))"

text \<open>The tables are created by the first server, with settings that creation may need.\<close>

definition create_tables :: "'w ch_execute \<Rightarrow> string \<Rightarrow> ch_table list \<Rightarrow> ('w, unit) ch_step" where
  "create_tables ex session_id tables =
     bind_ch (for_each (set_option ex session_id) session_settings) (\<lambda>_.
     bind_ch (returned (lift_result (tables_sorted_by_dependencies tables))) (\<lambda>tables.
     for_each (\<lambda>table. bind_ch (execute_one ex (first_client_call session_id (get_restore_table_query table))) (\<lambda>_. returned (Inr ()))) tables))"

definition restore_replicated_databases_step :: "'w ch_execute \<Rightarrow> (nat \<Rightarrow> nat \<Rightarrow> string) \<Rightarrow> string \<Rightarrow> (nat \<Rightarrow> nat list) \<Rightarrow> nat \<Rightarrow> string
    \<Rightarrow> (string \<times> setting_value option) list \<Rightarrow> string \<Rightarrow> nat \<Rightarrow> string \<Rightarrow> nat \<Rightarrow> clickhouse_manifest \<Rightarrow> ('w, unit) ch_step" where
  "restore_replicated_databases_step ex token session_id sched clients zookeeper_path settings drop_timeout drop_limit create_timeout create_limit manifest =
     bind_ch (run_on_every_node ex drop_limit (sched 0) clients (commands token drop_timeout (map drop_query (cm_replicated_databases manifest)))) (\<lambda>_.
     bind_ch (run_on_every_node ex create_limit (sched 1) clients (commands token create_timeout (map (create_query zookeeper_path settings) (cm_replicated_databases manifest)))) (\<lambda>_.
     if clients = 0 then returned (Inl (PyRaised IndexError))
     else create_tables ex session_id (cm_tables manifest)))"

section \<open>Replicas and parts\<close>

definition sync_table_replicas_step :: "'w ch_execute \<Rightarrow> (nat \<Rightarrow> nat \<Rightarrow> string) \<Rightarrow> nat list \<Rightarrow> nat \<Rightarrow> string \<Rightarrow> nat \<Rightarrow> clickhouse_manifest \<Rightarrow> ('w, unit) ch_step" where
  "sync_table_replicas_step ex token sched clients sync_timeout limit manifest =
     (if cm_version manifest \<noteq> V1 then returned (Inr ())
      else run_on_every_node ex limit sched clients (commands token sync_timeout
        (map (\<lambda>t. ''SYSTEM SYNC REPLICA '' @ escaped_sql_identifier t) (filter is_replicated (cm_tables manifest)))))"

text \<open>The world of a step that also uses ZooKeeper is a pair.\<close>

definition on_zookeeper :: "('c, 'a) zk_step \<Rightarrow> ('c \<times> 'w, 'a) ch_step" where
  "on_zookeeper m s = (case m (fst s) of (r, c) \<Rightarrow> (Some r, (c, snd s)))"

definition on_clickhouse :: "('w, 'a) ch_step \<Rightarrow> ('c \<times> 'w, 'a) ch_step" where
  "on_clickhouse m s = (case m (snd s) of (r, w) \<Rightarrow> (r, (fst s, w)))"

definition replica_path :: "ch_table \<Rightarrow> string" where
  "replica_path table = ''/clickhouse/tables/'' @ uuid_str (tb_uuid table)"

definition restore_replica_step :: "'c zk_session \<Rightarrow> 'w ch_execute \<Rightarrow> (nat \<Rightarrow> nat \<Rightarrow> string) \<Rightarrow> (nat \<Rightarrow> nat list) \<Rightarrow> nat \<Rightarrow> string \<Rightarrow> nat \<Rightarrow> string \<Rightarrow> nat
    \<Rightarrow> clickhouse_manifest \<Rightarrow> ('c \<times> 'w, unit) ch_step" where
  "restore_replica_step session ex token sched clients restart_timeout restart_limit restore_timeout restore_limit manifest =
     (if cm_version manifest = V1 then returned (Inr ())
      else let replicated_tables = filter is_replicated (cm_tables manifest) in
        bind_ch (on_zookeeper (with_connection (basic_ops session) (map_zk (\<lambda>t. zk_call (op_delete session (replica_path t) True)) replicated_tables))) (\<lambda>_.
        bind_ch (on_clickhouse (run_on_every_node ex restart_limit (sched 0) clients (commands token restart_timeout
            (map (\<lambda>t. ''SYSTEM RESTART REPLICA '' @ escaped_sql_identifier t) replicated_tables)))) (\<lambda>_.
        on_clickhouse (run_on_every_node ex restore_limit (sched 1) clients (commands token restore_timeout
            (map (\<lambda>t. ''SYSTEM RESTORE REPLICA '' @ escaped_sql_identifier t) replicated_tables))))))"

definition attach_query :: "string \<times> string \<Rightarrow> string" where
  "attach_query p = ''ALTER TABLE '' @ fst p @ '' ATTACH PART '' @ escape_sql_string (snd p)"

definition attach_merge_tree_parts_step :: "'w ch_execute \<Rightarrow> (nat \<Rightarrow> nat \<Rightarrow> string) \<Rightarrow> nat list \<Rightarrow> nat \<Rightarrow> 'o disk list \<Rightarrow> string \<Rightarrow> nat
    \<Rightarrow> snapshot_result list \<Rightarrow> clickhouse_manifest \<Rightarrow> ('w, unit) ch_step" where
  "attach_merge_tree_parts_step ex token sched clients disks attach_timeout limit snapshot_results manifest =
     (if cm_version manifest \<noteq> V1 then returned (Inr ())
      else let tables_by_uuid = fold (\<lambda>t. dict_set (tb_uuid t) t) (cm_tables manifest) [] in
        bind_ch (returned (lift_result (map_res (\<lambda>(client, result). bind_res (list_parts_to_attach (map_option ss_files (sr_state result)) disks tables_by_uuid)
            (\<lambda>parts. Inr (commands token attach_timeout (map attach_query parts) client))) (zip [0..<clients] snapshot_results))))
          (gather_commands ex limit sched))"

section \<open>What concurrent calls do\<close>

text \<open>To speak of the calls that were made, and in which order, the servers are observed.\<close>

definition logged :: "'w ch_execute \<Rightarrow> ('w \<times> ch_call list) ch_execute" where
  "logged ex call s = (case ex call (fst s) of (r, w) \<Rightarrow> (r, (w, snd s @ [call])))"

text \<open>Tasks are not empty.\<close>

definition proper :: "task list list \<Rightarrow> bool" where
  "proper groups \<longleftrightarrow> (\<forall>ts \<in> set groups. [] \<notin> set ts)"

lemma proper_advance:
  assumes "proper groups" and "(g, i) \<in> set (ready limit groups)"
  shows "proper (advance g i groups)"
proof -
  have g: "g < length groups" "i < length (groups ! g)" using assms(2) by (auto simp: ready_iff)
  have new: "[] \<notin> set (if tl (groups ! g ! i) = [] then take i (groups ! g) @ drop (Suc i) (groups ! g) else (groups ! g)[i := tl (groups ! g ! i)])"
    using assms(1) g by (auto simp: proper_def dest: in_set_takeD in_set_dropD set_update_subset_insert [THEN subsetD])
  show ?thesis unfolding proper_def advance_def Let_def
  proof
    fix ts assume "ts \<in> set (groups[g := (if tl (groups ! g ! i) = [] then take i (groups ! g) @ drop (Suc i) (groups ! g) else (groups ! g)[i := tl (groups ! g ! i)])])"
    then consider "ts = (if tl (groups ! g ! i) = [] then take i (groups ! g) @ drop (Suc i) (groups ! g) else (groups ! g)[i := tl (groups ! g ! i)])" | "ts \<in> set groups"
      using set_update_subset_insert by fastforce
    then show "[] \<notin> set ts" using new assms(1) by cases (auto simp: proper_def)
  qed
qed

lemma run_groups_ends:
  assumes "0 < limit" and "proper groups"
  shows "\<exists>r w'. run_groups ex collect limit sched groups acc w = (Some r, w')"
  using assms
proof (induction ex collect limit sched groups acc w rule: run_groups.induct)
  case (1 ex collect limit sched groups acc w)
  show ?case
  proof (cases "ready limit groups")
    case Nil
    have "ts = []" if ts: "ts \<in> set groups" for ts
    proof (rule ccontr)
      assume ne: "ts \<noteq> []"
      obtain g where g: "g < length groups" "groups ! g = ts" using ts by (auto simp: in_set_conv_nth)
      have "ts ! 0 \<noteq> []" using "1.prems"(2) ts ne by (metis length_greater_0_conv nth_mem proper_def)
      then have "(g, 0) \<in> set (ready limit groups)" using g ne "1.prems"(1) by (simp add: ready_iff)
      then show False using Nil by simp
    qed
    then show ?thesis using Nil by (simp add: run_groups.simps)
  next
    case (Cons r rs)
    obtain g i where gi: "(r # rs) ! (choice sched mod length (r # rs)) = (g, i)" by fastforce
    have rdy: "(g, i) \<in> set (ready limit groups)" using chosen_ready [OF Cons, of "choice sched"] gi by metis
    obtain x w1 where x: "ex (hd (groups ! g ! i)) w = (x, w1)" by fastforce
    show ?thesis
    proof (cases x)
      case (Inl e)
      then show ?thesis using x Cons gi by (simp add: run_groups.simps [of _ _ _ _ groups])
    next
      case (Inr answer)
      obtain y where y: "(if tl (groups ! g ! i) = [] then collect g answer acc else Inr acc) = y" by blast
      show ?thesis
      proof (cases y)
        case (Inl e)
        then show ?thesis using x Cons gi Inr y by (simp add: run_groups.simps [of _ _ _ _ groups])
      next
        case (Inr acc1)
        have "\<exists>r w'. run_groups ex collect limit (tl sched) (advance g i groups) acc1 w1 = (Some r, w')"
          by (rule "1.IH" [OF Cons gi [symmetric] x [symmetric] \<open>x = Inr answer\<close>]) (use y Inr "1.prems" proper_advance [OF _ rdy] in simp_all)
        then show ?thesis using x Cons gi \<open>x = Inr answer\<close> y Inr by (simp add: run_groups.simps [of _ _ _ _ groups])
      qed
    qed
  qed
qed

lemma run_groups_log:
  assumes "run_groups (logged ex) collect limit sched groups acc (w, l) = (r, (w', l'))"
  shows "\<exists>made. l' = l @ made \<and> mset made \<subseteq># calls groups \<and> (\<forall>x. r = Some (Inr x) \<longrightarrow> mset made = calls groups)"
  using assms
proof (induction "logged ex" collect limit sched groups acc "(w, l)" arbitrary: w l rule: run_groups.induct)
  case (1 collect limit sched groups acc w l)
  show ?case
  proof (cases "ready limit groups")
    case Nil
    then have "w' = w" "l' = l" and ok: "\<And>x. r = Some (Inr x) \<Longrightarrow> concat groups = []"
      using "1.prems" by (auto simp: run_groups.simps split: if_splits)
    moreover have "calls groups = {#}" if "concat groups = []" unfolding calls_def that by simp
    ultimately show ?thesis by auto
  next
    case (Cons q qs)
    obtain g i where gi: "(q # qs) ! (choice sched mod length (q # qs)) = (g, i)" by fastforce
    have rdy: "(g, i) \<in> set (ready limit groups)" using chosen_ready [OF Cons, of "choice sched"] gi by metis
    let ?call = "hd (groups ! g ! i)"
    note split = calls_advance [OF rdy]
    obtain x w1 where x: "ex ?call w = (x, w1)" by fastforce
    then have lx: "logged ex ?call (w, l) = (x, (w1, l @ [?call]))" by (simp add: logged_def)
    define y where "y = (if tl (groups ! g ! i) = [] then collect g (projr x) acc else Inr acc)"
    show ?thesis
    proof (cases "(\<exists>e. x = Inl e) \<or> (\<exists>e. y = Inl e)")
      case True
      then have "l' = l @ [?call] \<and> (\<exists>e. r = Some (Inl e))"
        using "1.prems" Cons gi lx by (cases x) (auto simp: run_groups.simps [of _ _ _ _ groups] y_def cong: if_cong split: sum.splits)
      then show ?thesis using split by auto
    next
      case False
      then obtain answer acc1 where a: "x = Inr answer" "y = Inr acc1" by (cases x; cases y) auto
      then have lx': "logged ex ?call (w, l) = (Inr answer, (w1, l @ [?call]))" using lx by simp
      have y': "(if tl (groups ! g ! i) = [] then collect g answer acc else Inr acc) = Inr acc1" using a unfolding y_def by (auto split: if_splits)
      have "run_groups (logged ex) collect limit (tl sched) (advance g i groups) acc1 (w1, l @ [?call]) = (r, (w', l'))"
        using "1.prems" Cons gi lx' y' by (simp add: run_groups.simps [of _ _ _ _ groups])
      then obtain made where "l' = (l @ [?call]) @ made" "mset made \<subseteq># calls (advance g i groups)"
          "\<forall>x. r = Some (Inr x) \<longrightarrow> mset made = calls (advance g i groups)"
        using "1.hyps" [OF Cons gi [symmetric] lx' [symmetric] refl y'] by blast
      then show ?thesis using split by (intro exI [of _ "?call # made"]) auto
    qed
  qed
qed

text \<open>A loop whose body makes one call.\<close>

definition one_call :: "('a \<Rightarrow> ('w \<times> ch_call list, unit) ch_step) \<Rightarrow> ('a \<Rightarrow> ch_call) \<Rightarrow> bool" where
  "one_call f k \<longleftrightarrow> (\<forall>x w l. \<exists>r w'. f x (w, l) = (Some r, (w', l @ [k x])))"

lemma for_each_log:
  assumes "one_call f k" and "for_each f xs (w, l) = (r, (w', l'))"
  shows "\<exists>n. n \<le> length xs \<and> l' = l @ map k (take n xs) \<and> (\<exists>x. r = Some x) \<and> (r = Some (Inr ()) \<longrightarrow> n = length xs)"
  using assms(2)
proof (induction xs arbitrary: w l)
  case (Cons x xs)
  obtain y w1 where y: "f x (w, l) = (Some y, (w1, l @ [k x]))" using assms(1) unfolding one_call_def by blast
  show ?case
  proof (cases y)
    case (Inl e)
    then show ?thesis using Cons.prems y by (intro exI [of _ 1]) (auto simp: bind_ch_def)
  next
    case (Inr u)
    then have "for_each f xs (w1, l @ [k x]) = (r, (w', l'))" using Cons.prems y by (simp add: bind_ch_def)
    then obtain n where "n \<le> length xs" "l' = (l @ [k x]) @ map k (take n xs)" "\<exists>x. r = Some x" "r = Some (Inr ()) \<longrightarrow> n = length xs"
      using Cons.IH by blast
    then show ?thesis by (intro exI [of _ "Suc n"]) auto
  qed
qed auto

lemma one_call_set_option: "one_call (set_option (logged ex) session_id) (first_client_call session_id)"
  by (auto simp: one_call_def set_option_def logged_def split: prod.splits sum.splits)

lemma one_call_execute:
  "one_call (\<lambda>x. bind_ch (execute_one (logged ex) (k x)) (\<lambda>_. returned (Inr ()))) k"
  by (auto simp: one_call_def execute_one_def logged_def bind_ch_def returned_def split: prod.splits sum.splits)

lemma commands_proper: "proper (map (commands token timeout queries) xs)"
  by (auto simp: proper_def commands_def execute_with_timeout_def)

text \<open>The calls of a command that is run on the clients \<open>xs\<close>.\<close>

definition command_calls :: "(nat \<Rightarrow> nat \<Rightarrow> string) \<Rightarrow> string \<Rightarrow> string list \<Rightarrow> nat list \<Rightarrow> ch_call multiset" where
  "command_calls token timeout queries xs = calls (map (commands token timeout queries) xs)"

lemma gather_log:
  assumes "gather_commands (logged ex) limit sched (map (commands token timeout queries) xs) (w, l) = (r, (w', l'))"
  shows "\<exists>made. l' = l @ made \<and> mset made \<subseteq># command_calls token timeout queries xs \<and> (r = Some (Inr ()) \<longrightarrow> mset made = command_calls token timeout queries xs)
    \<and> (0 < limit \<longrightarrow> r \<noteq> None)"
proof -
  obtain r' s' where "gather_commands (logged ex) limit sched (map (commands token timeout queries) xs) (w, l) = (Some r', s')" if "0 < limit"
    using run_groups_ends [OF _ commands_proper] unfolding gather_commands_def by metis
  then have "0 < limit \<longrightarrow> r \<noteq> None" using assms by auto
  then show ?thesis using run_groups_log [OF assms [unfolded gather_commands_def]] unfolding command_calls_def by auto
qed

lemma every_node_log:
  assumes "run_on_every_node (logged ex) limit sched clients (commands token timeout queries) (w, l) = (r, (w', l'))"
  shows "\<exists>made. l' = l @ made \<and> mset made \<subseteq># command_calls token timeout queries [0..<clients]
    \<and> (r = Some (Inr ()) \<longrightarrow> mset made = command_calls token timeout queries [0..<clients]) \<and> (0 < limit \<longrightarrow> r \<noteq> None)"
  using gather_log [OF assms [unfolded run_on_every_node_def]] .

lemma create_tables_log:
  assumes run: "create_tables (logged ex) session_id tables (w, l) = (r, (w', l'))"
  shows "\<exists>sets made order. l' = l @ map (first_client_call session_id) sets @ map (first_client_call session_id \<circ> get_restore_table_query) made
    \<and> prefix sets session_settings \<and> prefix made order \<and> (made \<noteq> [] \<longrightarrow> tables_sorted_by_dependencies tables = Inr order)
    \<and> (made \<noteq> [] \<or> r = Some (Inr ()) \<longrightarrow> sets = session_settings)
    \<and> (r = Some (Inr ()) \<longrightarrow> made = order \<and> tables_sorted_by_dependencies tables = Inr order) \<and> r \<noteq> None"
proof -
  let ?call = "first_client_call session_id"
  obtain r1 w1 l1 where s: "for_each (set_option (logged ex) session_id) session_settings (w, l) = (r1, (w1, l1))" by (metis prod.exhaust)
  obtain n where n: "l1 = l @ map ?call (take n session_settings)" "\<exists>x. r1 = Some x" "r1 = Some (Inr ()) \<longrightarrow> n = length session_settings"
    using for_each_log [OF one_call_set_option s] by blast
  show ?thesis
  proof (cases "r1 = Some (Inr ()) \<and> (\<exists>order. tables_sorted_by_dependencies tables = Inr order)")
    case False
    then have "r \<noteq> None \<and> r \<noteq> Some (Inr ()) \<and> l' = l1"
      using run s n(2) by (cases "the r1"; cases "tables_sorted_by_dependencies tables") (auto simp: create_tables_def bind_ch_def returned_def lift_result_def)
    then show ?thesis using n by (intro exI [of _ "take n session_settings"] exI [of _ "[]"]) (auto simp: take_is_prefix)
  next
    case True
    then obtain order where order: "tables_sorted_by_dependencies tables = Inr order" by blast
    let ?f = "\<lambda>table. bind_ch (execute_one (logged ex) (?call (get_restore_table_query table))) (\<lambda>_. returned (Inr ()))"
    have "for_each ?f order (w1, l1) = (r, (w', l'))"
      using run s True order by (simp add: create_tables_def bind_ch_def returned_def lift_result_def)
    from for_each_log [OF one_call_execute this] obtain m where
      m: "l' = l1 @ map (\<lambda>table. ?call (get_restore_table_query table)) (take m order)" "\<exists>x. r = Some x" "r = Some (Inr ()) \<longrightarrow> m = length order" by blast
    then show ?thesis using n True order
      by (intro exI [of _ session_settings] exI [of _ "take m order"] exI [of _ order]) (auto simp: take_is_prefix comp_def)
  qed
qed


definition willing_server :: "unit ch_execute" where "willing_server call w = (Inr [], w)"

definition example_databases :: clickhouse_manifest where
  "example_databases = \<lparr>cm_version = V2, cm_access_entities = [], cm_replicated_databases = [\<lparr>rd_name = ''d'', rd_uuid = None, rd_shard = ''s'', rd_replica = ''r''\<rparr>],
     cm_tables = [], cm_object_storage_files = []\<rparr>"

lemma example_databases_restored:
  "fst (restore_replicated_databases_step (logged willing_server) (\<lambda>c i. []) ''x'' (\<lambda>_. [1, 2, 0]) 2 ''/z'' [] ''1.0'' 1 ''1.0'' 1 example_databases ((), [])) = Some (Inr ())"
  by code_simp


text \<open>A command on partitions runs exactly once on every server, unless some server is older than version 23.8, where such
  commands are replicated: then it runs on one such server only. For all answers and all orders of the concurrent calls,
  freezing and unfreezing make at most these calls, each at most once, all of them if the step succeeds, and always end.\<close>

theorem freeze_calls_exact:
  assumes run: "freeze_unfreeze_tables_step op (logged ex) token sched (length versions) freeze_name timeout tables versions (w, []) = (r, (w', log))"
  shows "r \<noteq> None \<and> (\<exists>servers. (if \<exists>v \<in> set versions. v < (23, 8) then \<exists>i < length versions. servers = [i] \<and> versions ! i < (23, 8) else servers = [0..<length versions])
    \<and> mset log \<subseteq># command_calls token timeout (map (freeze_query op freeze_name timeout) (filter requires_freezing tables)) servers
    \<and> (r = Some (Inr ()) \<longrightarrow> mset log = command_calls token timeout (map (freeze_query op freeze_name timeout) (filter requires_freezing tables)) servers))"
proof -
  let ?fn = "commands token timeout (map (freeze_query op freeze_name timeout) (filter requires_freezing tables))"
  show ?thesis
  proof (cases "old_client versions")
    case None
    have "(i, versions ! i) \<in> set (enumerate 0 versions)" if "i < length versions" for i using that by (simp add: in_set_enumerate_eq)
    moreover have "\<not> (\<exists>x \<in> set (enumerate 0 versions). snd x < (23, 8))"
      using None unfolding old_client_def CLICKHOUSE_VERSION_PARTITION_CMDS_NOT_REPLICATED_def case_prod_unfold map_option_is_None find_None_iff by blast
    ultimately have no: "\<not> (\<exists>v \<in> set versions. v < (23, 8))" by (metis in_set_conv_nth snd_conv)
    have "run_on_every_node (logged ex) 1 sched (length versions) ?fn (w, []) = (r, (w', log))"
      using run None by (simp add: freeze_unfreeze_tables_step_def run_partition_cmd_on_every_node_def)
    from every_node_log [OF this] show ?thesis using no by auto
  next
    case (Some i)
    then obtain x where x: "find (\<lambda>x. snd x < (23, 8)) (enumerate 0 versions) = Some x" "fst x = i"
      unfolding old_client_def CLICKHOUSE_VERSION_PARTITION_CMDS_NOT_REPLICATED_def case_prod_unfold by blast
    then have "x \<in> set (enumerate 0 versions)" "snd x < (23, 8)" unfolding find_Some_iff by (metis nth_mem)+
    then have i: "i < length versions" "versions ! i < (23, 8)" using x(2) by (auto simp only: in_set_enumerate_eq diff_zero add_0_right)
    then have yes: "\<exists>v \<in> set versions. v < (23, 8)" by (meson nth_mem)
    have "gather_commands (logged ex) 1 sched (map ?fn [i]) (w, []) = (r, (w', log))"
      using run Some by (simp add: freeze_unfreeze_tables_step_def run_partition_cmd_on_every_node_def)
    from gather_log [OF this] show ?thesis using yes i by auto
  qed
qed

definition example_freeze_tables :: "ch_table list" where
  "example_freeze_tables = [\<lparr>tb_database = ''d'', tb_name = ''t'', tb_engine = ''MergeTree'', tb_uuid = UUID [], tb_create_query = [], tb_dependencies = []\<rparr>]"

definition example_versions :: "(int \<times> int) list" where "example_versions = [(24, 1), (23, 8)]"

theorem freeze_calls_exact_witness:
  "\<exists>r w' log. freeze_unfreeze_tables_step FREEZE (logged willing_server) (\<lambda>c i. []) [] (length example_versions) ''f'' ''1.0'' example_freeze_tables example_versions ((), []) = (r, (w', log))
    \<and> r \<noteq> None \<and> mset log \<subseteq># command_calls (\<lambda>c i. []) ''1.0'' (map (freeze_query FREEZE ''f'' ''1.0'') (filter requires_freezing example_freeze_tables)) [0..<2]"
proof -
  obtain r w' log where run: "freeze_unfreeze_tables_step FREEZE (logged willing_server) (\<lambda>c i. []) [] (length example_versions) ''f'' ''1.0'' example_freeze_tables example_versions ((), []) = (r, (w', log))"
    by (metis prod.exhaust)
  from freeze_calls_exact [OF run] have "r \<noteq> None" "mset log \<subseteq># command_calls (\<lambda>c i. []) ''1.0'' (map (freeze_query FREEZE ''f'' ''1.0'') (filter requires_freezing example_freeze_tables)) [0..<2]"
    by (auto simp: example_versions_def numeral_2_eq_2)
  then show ?thesis using run by blast
qed

end
