(* ===== verification/Clickhouse_Sql.thy ===== *)
theory Clickhouse_Sql
  imports Clickhouse_Queries
begin

text \<open>
  Reading what a ClickHouse server reports about its databases and tables: the patterns of \<^verbatim>\<open>sql.py\<close>, \<^verbatim>\<open>get_shard_and_replica\<close> of
  \<^verbatim>\<open>replication.py\<close> and \<^verbatim>\<open>RetrieveDatabasesAndTablesStep\<close> of \<^verbatim>\<open>steps.py\<close>, under \<^verbatim>\<open>astacus/coordinator/plugins/clickhouse/\<close>. A regular
  expression is the list of its matches at the start of a text, in the order in which the matcher of the standard library tries them, each with the
  texts of its groups and the rest of the input; the match is the first of them. Shown: the shard and the replica of a
  database are read from its creation query whatever bytes its name and parameters have.
\<close>

section \<open>Patterns\<close>

type_synonym matcher = "string \<Rightarrow> (string list \<times> string) list"

definition lit :: "string \<Rightarrow> matcher" where
  "lit x s = (if prefix x s then [([], drop (length x) s)] else [])"

text \<open>Greedy repetition of a character class: the longest match first.\<close>

fun many :: "(char \<Rightarrow> bool) \<Rightarrow> string \<Rightarrow> string list" where
  "many P [] = [[]]"
| "many P (c # s) = (if P c then many P s @ [c # s] else [c # s])"

definition many0 :: "(char \<Rightarrow> bool) \<Rightarrow> matcher" where "many0 P s = map (Pair []) (many P s)"

definition many1 :: "(char \<Rightarrow> bool) \<Rightarrow> matcher" where
  "many1 P s = (case s of [] \<Rightarrow> [] | c # t \<Rightarrow> if P c then many0 P t else [])"

definition seq :: "matcher \<Rightarrow> matcher \<Rightarrow> matcher" where
  "seq m1 m2 s = concat (map (\<lambda>(gs1, s1). map (\<lambda>(gs2, s2). (gs1 @ gs2, s2)) (m2 s1)) (m1 s))"

definition alt :: "matcher \<Rightarrow> matcher \<Rightarrow> matcher" where "alt m1 m2 s = m1 s @ m2 s"

text \<open>One element of a quoted text: two hexadecimal digits, another escaped character, or an ordinary one. At most one of the alternatives
  can match.\<close>

definition is_hex :: "char \<Rightarrow> bool" where "is_hex c \<longleftrightarrow> hex_val c \<noteq> None"

fun quoted_element :: "char \<Rightarrow> string \<Rightarrow> string option" where
  "quoted_element q [] = None"
| "quoted_element q (c # s) =
     (if c = backslash then (case s of
          [] \<Rightarrow> None
        | d # s' \<Rightarrow> if d = CHR ''x'' then (case s' of h # l # s'' \<Rightarrow> if is_hex h \<and> is_hex l then Some s'' else None | _ \<Rightarrow> None) else Some s')
      else if c = q then None else Some s)"

lemma quoted_element_shorter [termination_simp]: "quoted_element q s = Some s' \<Longrightarrow> length s' < length s"
  by (cases "(q, s)" rule: quoted_element.cases) (auto split: if_splits list.splits)

function quoted_body :: "char \<Rightarrow> string \<Rightarrow> string list" where
  "quoted_body q s = (case quoted_element q s of None \<Rightarrow> [s] | Some s' \<Rightarrow> quoted_body q s' @ [s])"
  by pat_completeness auto
termination by (relation "measure (length \<circ> snd)") (auto dest: quoted_element_shorter)

declare quoted_body.simps [simp del]

definition quoted :: "char \<Rightarrow> matcher" where
  "quoted q = seq (lit [q]) (seq (\<lambda>s. map (Pair []) (quoted_body q s)) (lit [q]))"

definition is_space :: "char \<Rightarrow> bool" where
  "is_space c \<longleftrightarrow> c \<in> set [CHR 0x20, CHR 0x09, CHR 0x0A, CHR 0x0D, CHR 0x0C, CHR 0x0B]"

datatype token_type = Integer | QuotedIdentifier | RawIdentifier | StringToken | Equal | Comma | OpenParenthesis | CloseParenthesis | Space

fun token_pattern :: "token_type \<Rightarrow> matcher" where
  "token_pattern Integer = seq (alt (lit ''-'') (lit [])) (many1 (\<lambda>c. c \<in> set ''0123456789''))"
| "token_pattern QuotedIdentifier = quoted (CHR 0x60)"
| "token_pattern RawIdentifier = many1 file_name_char"
| "token_pattern StringToken = quoted (CHR 0x27)"
| "token_pattern Equal = lit ''=''"
| "token_pattern Comma = lit '',''"
| "token_pattern OpenParenthesis = lit ''(''"
| "token_pattern CloseParenthesis = lit '')''"
| "token_pattern Space = many1 is_space"

text \<open>The words of a phrase, with space between them.\<close>

fun words_pattern :: "string list \<Rightarrow> matcher" where
  "words_pattern [] = lit []"
| "words_pattern [w] = lit w"
| "words_pattern (w # v # ws) = seq (lit w) (seq (token_pattern Space) (words_pattern (v # ws)))"

definition named_group :: "matcher \<Rightarrow> matcher" where
  "named_group m s = map (\<lambda>(gs, rest). (take (length s - length rest) s # gs, rest)) (m s)"

fun chain_of :: "matcher list \<Rightarrow> matcher" where
  "chain_of [] = lit []"
| "chain_of [m] = m"
| "chain_of (m # n # ms) = seq m (seq (many0 is_space) (chain_of (n # ms)))"

definition one_of :: "matcher \<Rightarrow> matcher \<Rightarrow> matcher" where "one_of m n = alt m n"

definition create_database_pattern :: matcher where
  "create_database_pattern = chain_of [words_pattern [''CREATE'', ''DATABASE''], one_of (token_pattern RawIdentifier) (token_pattern QuotedIdentifier),
     words_pattern [''ENGINE''], token_pattern Equal, words_pattern [''Replicated''], token_pattern OpenParenthesis, named_group (token_pattern StringToken),
     token_pattern Comma, named_group (token_pattern StringToken), token_pattern Comma, named_group (token_pattern StringToken),
     token_pattern CloseParenthesis]"

definition shard_and_replica :: "string \<Rightarrow> (string \<times> string) result" where
  "shard_and_replica create_database_query = (case create_database_pattern create_database_query of
     ([zookeeper_path, shard, replica], _) # _ \<Rightarrow> bind_res (unescape_sql_string shard) (\<lambda>s. bind_res (unescape_sql_string replica) (\<lambda>r. Inr (s, r)))
   | _ \<Rightarrow> Inl StepFailedError)"

section \<open>Databases and tables\<close>

definition plain_call :: "string \<Rightarrow> ch_call" where
  "plain_call query = \<lparr>cc_client = 0, cc_query = query, cc_session = None, cc_timeout = None\<rparr>"

definition get_shard_and_replica :: "'w ch_execute \<Rightarrow> string \<Rightarrow> ('w, string \<times> string) ch_step" where
  "get_shard_and_replica ex database_name =
     bind_ch (execute_one ex (plain_call (''SHOW CREATE DATABASE '' @ escape_sql_identifier database_name))) (\<lambda>db_rows.
     returned (case db_rows of
         (PStr create_database_query # _) # _ \<Rightarrow> lift_result (shard_and_replica create_database_query)
       | [] \<Rightarrow> Inl (PyRaised IndexError) | [] # _ \<Rightarrow> Inl (PyRaised IndexError) | _ \<Rightarrow> Inl (PyRaised AssertionError)))"

definition lines_text :: "string list \<Rightarrow> string" where "lines_text ls = concat (map (\<lambda>l. l @ [CHR 0x0A]) ls)"

definition DATABASES_LIST_QUERY :: string where
  "DATABASES_LIST_QUERY = lines_text [''SELECT'', ''    base64Encode(system.databases.name),'', ''    system.databases.uuid'', ''FROM system.databases'',
     ''WHERE system.databases.engine == '' @ [CHR 0x27] @ ''Replicated'' @ [CHR 0x27]]"

definition TABLES_LIST_QUERY :: string where
  "TABLES_LIST_QUERY = lines_text [''SELECT'', ''    base64Encode(system.tables.database),'', ''    base64Encode(system.tables.name),'', ''    system.tables.engine,'',
     ''    system.tables.uuid,'', ''    base64Encode(system.tables.create_table_query),'', ''    arrayZip('',
     ''        arrayMap(x -> base64Encode(x), system.tables.dependencies_database),'', ''        arrayMap(x -> base64Encode(x), system.tables.dependencies_table))'',
     ''FROM system.tables'', ''WHERE'',
     ''    system.tables.database in (SELECT name FROM system.databases WHERE engine == '' @ [CHR 0x27] @ ''Replicated'' @ [CHR 0x27] @ '')'',
     ''    AND NOT system.tables.is_temporary'', ''ORDER BY (system.tables.database,system.tables.name)'', ''SETTINGS show_table_uuid_in_table_create_query_if_not_nil=true'']"

definition database_row :: "'w ch_execute \<Rightarrow> pyval list \<Rightarrow> ('w, replicated_database) ch_step" where
  "database_row ex row = (case row of
     [base64_db_name, db_uuid] \<Rightarrow> (case base64_db_name of
         PStr n \<Rightarrow> (case db_uuid of
             PStr u \<Rightarrow> bind_ch (returned (lift_result (bind_res (parse_uuid u) (\<lambda>u. bind_res (b64decode_val (PStr n)) (\<lambda>n. Inr (u, n)))))) (\<lambda>(u, n).
               bind_ch (get_shard_and_replica ex n) (\<lambda>(shard, replica).
                 returned (Inr \<lparr>rd_name = n, rd_uuid = Some u, rd_shard = shard, rd_replica = replica\<rparr>)))
           | _ \<Rightarrow> returned (Inl (PyRaised AssertionError)))
       | _ \<Rightarrow> returned (Inl (PyRaised AssertionError)))
   | _ \<Rightarrow> returned (Inl (PyRaised ValueError)))"

fun database_rows :: "'w ch_execute \<Rightarrow> rows \<Rightarrow> (string \<times> replicated_database) list \<Rightarrow> ('w, (string \<times> replicated_database) list) ch_step" where
  "database_rows ex [] databases w = (Some (Inr databases), w)"
| "database_rows ex (row # rest) databases w =
     bind_ch (database_row ex row) (\<lambda>d. database_rows ex rest (dict_set (rd_name d) d databases)) w"

definition dependency_row :: "pyval \<Rightarrow> (string \<times> string) result" where
  "dependency_row v = bind_res (unpack2 v) (\<lambda>(d, t). bind_res (b64decode_val d) (\<lambda>d. bind_res (b64decode_val t) (\<lambda>t. Inr (d, t))))"

definition table_row :: "(string \<times> replicated_database) list \<Rightarrow> pyval list \<Rightarrow> ch_table result" where
  "table_row databases row = (case row of
     [base64_db_name, base64_table_name, table_engine, table_uuid, base64_table_query, base64_dependencies] \<Rightarrow>
       (case (base64_db_name, base64_table_name, table_engine, base64_table_query, base64_dependencies) of
          (PStr _, PStr _, PStr engine, PStr _, PList dependencies) \<Rightarrow>
            bind_res (b64decode_val base64_db_name) (\<lambda>db_name.
            if dict_get databases db_name = None then Inl TransientException
            else bind_res (b64decode_val base64_table_name) (\<lambda>name.
              bind_res (uuid_val table_uuid) (\<lambda>u.
              bind_res (b64decode_val base64_table_query) (\<lambda>query.
              bind_res (map_res dependency_row dependencies) (\<lambda>deps.
              Inr \<lparr>tb_database = db_name, tb_name = name, tb_engine = engine, tb_uuid = u, tb_create_query = query, tb_dependencies = deps\<rparr>)))))
        | _ \<Rightarrow> Inl AssertionError)
   | _ \<Rightarrow> Inl ValueError)"

definition retrieve_databases_and_tables_step :: "'w ch_execute \<Rightarrow> nat \<Rightarrow> ('w, replicated_database list \<times> ch_table list) ch_step" where
  "retrieve_databases_and_tables_step ex clients =
     (if clients = 0 then returned (Inl (PyRaised IndexError))
      else bind_ch (execute_one ex (plain_call DATABASES_LIST_QUERY)) (\<lambda>rows.
        bind_ch (database_rows ex rows []) (\<lambda>databases.
        bind_ch (execute_one ex (plain_call TABLES_LIST_QUERY)) (\<lambda>table_rows.
        bind_ch (returned (lift_result (map_res (table_row databases) table_rows))) (\<lambda>tables.
        returned (Inr (sort_key rd_name (map snd databases), tables)))))))"

section \<open>Reading a creation query\<close>

text \<open>The first match of a pattern: the groups and the rest that the matcher returns.\<close>

definition matches_first :: "matcher \<Rightarrow> string \<Rightarrow> string list \<Rightarrow> string \<Rightarrow> bool" where
  "matches_first m s gs rest \<longleftrightarrow> (\<exists>more. m s = (gs, rest) # more)"

lemma first_lit: "matches_first (lit x) (x @ s) [] s"
  by (simp add: matches_first_def lit_def)

lemma first_seq: "matches_first m s gs s1 \<Longrightarrow> matches_first n s1 hs s2 \<Longrightarrow> matches_first (seq m n) s (gs @ hs) s2"
  by (auto simp: matches_first_def seq_def)

lemma first_alt: "matches_first m s gs rest \<Longrightarrow> matches_first (alt m n) s gs rest"
  by (auto simp: matches_first_def alt_def)

lemma first_alt_right: "m s = [] \<Longrightarrow> matches_first n s gs rest \<Longrightarrow> matches_first (alt m n) s gs rest"
  by (auto simp: matches_first_def alt_def)

lemma first_group: "matches_first m (x @ rest) [] rest \<Longrightarrow> matches_first (named_group m) (x @ rest) [x] rest"
  by (auto simp: matches_first_def named_group_def)

definition stops :: "(char \<Rightarrow> bool) \<Rightarrow> string \<Rightarrow> bool" where
  "stops P s \<longleftrightarrow> (case s of [] \<Rightarrow> True | c # _ \<Rightarrow> \<not> P c)"

lemma many_longest: "list_all P x \<Longrightarrow> stops P rest \<Longrightarrow> \<exists>more. many P (x @ rest) = rest # more"
  by (induction x) (auto simp: stops_def split: list.splits)

lemma first_many0: "list_all P x \<Longrightarrow> stops P rest \<Longrightarrow> matches_first (many0 P) (x @ rest) [] rest"
  using many_longest [of P x rest] by (auto simp: matches_first_def many0_def)

lemma first_many1: "x \<noteq> [] \<Longrightarrow> list_all P x \<Longrightarrow> stops P rest \<Longrightarrow> matches_first (many1 P) (x @ rest) [] rest"
  using first_many0 [of P "tl x" rest] by (cases x) (auto simp: matches_first_def many1_def)

lemma escape_maps_pass:
  "STRING_ESCAPE_MAP c = Some x \<or> IDENTIFIER_ESCAPE_MAP c = Some x \<Longrightarrow> \<exists>e. x = [backslash, e] \<and> e \<noteq> CHR ''x''"
proof -
  assume a: "STRING_ESCAPE_MAP c = Some x \<or> IDENTIFIER_ESCAPE_MAP c = Some x"
  have all: "\<forall>p \<in> set (common_escapes @ [(CHR 0x60, CHR 0x60), (CHR 0x27, CHR 0x27)]). snd p \<noteq> CHR ''x''" by code_simp
  from a obtain f where "x = [backslash, f]" "(c, f) \<in> set (common_escapes @ [(CHR 0x60, CHR 0x60), (CHR 0x27, CHR 0x27)])"
    unfolding IDENTIFIER_ESCAPE_MAP_def STRING_ESCAPE_MAP_def by (elim disjE) (drule escape_map_entry; auto)+
  with bspec [OF all this(2)] show ?thesis by auto
qed

definition quotes :: "(char \<Rightarrow> string option) \<Rightarrow> char \<Rightarrow> bool" where
  "quotes m q \<longleftrightarrow> (m, q) = (STRING_ESCAPE_MAP, CHR 0x27) \<or> (m, q) = (IDENTIFIER_ESCAPE_MAP, CHR 0x60)"

lemma element_of_escape: "quotes m q \<Longrightarrow> quoted_element q (escape_byte m c @ s) = Some s"
proof (cases "m c")
  case (Some x)
  assume "quotes m q"
  with Some have "STRING_ESCAPE_MAP c = Some x \<or> IDENTIFIER_ESCAPE_MAP c = Some x" by (auto simp: quotes_def)
  from escape_maps_pass [OF this] Some show ?thesis by (auto simp: escape_byte_def)
next
  case None
  assume "quotes m q"
  with None have "c \<noteq> backslash" "c \<noteq> q"
    by (auto simp: quotes_def STRING_ESCAPE_MAP_def IDENTIFIER_ESCAPE_MAP_def common_escapes_def split: if_splits)
  with None show ?thesis by (auto simp: escape_byte_def hex_byte_def byte_digits_less is_hex_def)
qed

lemma body_of_escaped:
  "quotes m q \<Longrightarrow> \<exists>more. quoted_body q (concat (map (escape_byte m) v) @ q # s) = (q # s) # more"
proof (induction v)
  case Nil
  then have "q \<noteq> backslash" by (auto simp: quotes_def backslash_def)
  then show ?case by (simp add: quoted_body.simps)
next
  case (Cons c v)
  then obtain more where "quoted_body q (concat (map (escape_byte m) v) @ q # s) = (q # s) # more" by blast
  then show ?case using element_of_escape [OF Cons.prems] by (subst quoted_body.simps) simp
qed

lemma first_quoted:
  assumes "quotes m q"
  shows "matches_first (quoted q) (escape_bytes v m q @ rest) [] rest"
proof -
  let ?b = "concat (map (escape_byte m) v)"
  have "matches_first (\<lambda>s. map (Pair []) (quoted_body q s)) (?b @ q # rest) [] (q # rest)"
    using body_of_escaped [OF assms, of v rest] by (auto simp: matches_first_def)
  from first_seq [OF this first_lit [of "[q]" rest, simplified]]
  have "matches_first (seq (\<lambda>s. map (Pair []) (quoted_body q s)) (lit [q])) (?b @ q # rest) [] rest" by simp
  from first_seq [OF first_lit [of "[q]" "?b @ q # rest"] this] show ?thesis by (simp add: quoted_def escape_bytes_def)
qed

lemma first_chain:
  assumes "matches_first m s gs (sp @ s1)" and "list_all is_space sp" and "stops is_space s1" and "matches_first (chain_of (n # ms)) s1 hs s2"
  shows "matches_first (chain_of (m # n # ms)) s (gs @ hs) s2"
  using first_seq [OF assms(1) first_seq [OF first_many0 [OF assms(2,3)] assms(4)]] by simp

lemma first_string: "matches_first (token_pattern StringToken) (escape_sql_string v @ rest) [] rest"
  using first_quoted [of STRING_ESCAPE_MAP "CHR 0x27" v rest] by (simp add: quotes_def escape_sql_string_def)

lemma escaped_string_stops: "stops is_space (escape_sql_string v @ rest)"
  by (simp add: stops_def escape_sql_string_def escape_bytes_def is_space_def)

text \<open>How the server writes the name of a database, and its answer to \<^verbatim>\<open>SHOW CREATE DATABASE\<close>.\<close>

definition identifier_text :: "string \<Rightarrow> bool" where
  "identifier_text t \<longleftrightarrow> t \<noteq> [] \<and> list_all file_name_char t \<or> (\<exists>n. t = escape_sql_identifier n)"

definition shown_database :: "string \<Rightarrow> string \<Rightarrow> string \<Rightarrow> string \<Rightarrow> string" where
  "shown_database t zookeeper_path shard replica = ''CREATE DATABASE '' @ t @ [CHR 0x0A] @ ''ENGINE = Replicated('' @ escape_sql_string zookeeper_path
     @ '', '' @ escape_sql_string shard @ '', '' @ escape_sql_string replica @ '')''"

lemma first_identifier:
  assumes "identifier_text t"
  shows "matches_first (one_of (token_pattern RawIdentifier) (token_pattern QuotedIdentifier)) (t @ CHR 0x0A # rest) [] (CHR 0x0A # rest)"
proof (cases "t \<noteq> [] \<and> list_all file_name_char t")
  case True
  then have "matches_first (token_pattern RawIdentifier) (t @ CHR 0x0A # rest) [] (CHR 0x0A # rest)"
    by (auto intro!: first_many1 simp: stops_def file_name_char_def)
  then show ?thesis by (simp only: one_of_def first_alt)
next
  case False
  then obtain n where t: "t = escape_sql_identifier n" using assms by (auto simp: identifier_text_def)
  then have "token_pattern RawIdentifier (t @ CHR 0x0A # rest) = []"
    by (simp add: many1_def escape_sql_identifier_def escape_bytes_def file_name_char_def)
  moreover have "matches_first (token_pattern QuotedIdentifier) (t @ CHR 0x0A # rest) [] (CHR 0x0A # rest)"
    using first_quoted [of IDENTIFIER_ESCAPE_MAP "CHR 0x60" n "CHR 0x0A # rest"] by (simp add: quotes_def t escape_sql_identifier_def)
  ultimately show ?thesis by (simp only: one_of_def first_alt_right)
qed

lemma identifier_stops: "identifier_text t \<Longrightarrow> stops is_space (t @ rest)"
  by (cases t) (auto simp: identifier_text_def stops_def escape_sql_identifier_def escape_bytes_def is_space_def file_name_char_def)

lemma first_create: "matches_first (words_pattern [''CREATE'', ''DATABASE'']) (''CREATE DATABASE '' @ s) [] ('' '' @ s)"
proof -
  have sp: "matches_first (token_pattern Space) ('' '' @ ''DATABASE'' @ '' '' @ s) [] (''DATABASE'' @ '' '' @ s)"
    using first_many1 [of "'' ''" is_space "''DATABASE'' @ '' '' @ s"] by (simp add: stops_def is_space_def)
  have "matches_first (words_pattern [''CREATE'', ''DATABASE'']) (''CREATE'' @ '' '' @ ''DATABASE'' @ '' '' @ s) ([] @ [] @ []) ('' '' @ s)"
    unfolding words_pattern.simps by (rule first_seq [OF first_lit first_seq [OF sp first_lit]])
  then show ?thesis by simp
qed

lemma first_string_then:
  assumes "stops is_space s1" and "matches_first (chain_of (n # ms)) s1 hs s2"
  shows "matches_first (chain_of (named_group (token_pattern StringToken) # n # ms)) (escape_sql_string v @ s1) (escape_sql_string v # hs) s2"
  using first_chain [where sp = "[]" and gs = "[escape_sql_string v]" and s = "escape_sql_string v @ s1", OF _ _ assms] first_group [OF first_string]
  by simp

lemma first_lit_then:
  assumes "list_all is_space sp" and "stops is_space s1" and "matches_first (chain_of (n # ms)) s1 hs s2"
  shows "matches_first (chain_of (lit x # n # ms)) (x @ sp @ s1) hs s2"
  using first_chain [OF first_lit assms] by simp

lemma first_parameters:
  "matches_first (chain_of [named_group (token_pattern StringToken), lit '','', named_group (token_pattern StringToken), lit '','',
     named_group (token_pattern StringToken), lit '')''])
     (escape_sql_string p @ '','' @ '' '' @ escape_sql_string s @ '','' @ '' '' @ escape_sql_string r @ '')'' @ rest)
     [escape_sql_string p, escape_sql_string s, escape_sql_string r] rest"
proof -
  have "matches_first (chain_of [lit '')'']) ('')'' @ rest) [] rest" using first_lit [of "'')''" rest] by simp
  then show ?thesis
    by (intro first_string_then first_lit_then escaped_string_stops) (simp_all add: stops_def is_space_def)
qed

lemma shown_database_read:
  assumes "identifier_text t"
  shows "shard_and_replica (shown_database t p s r) = Inr (s, r)"
proof -
  let ?params = "escape_sql_string p @ '','' @ '' '' @ escape_sql_string s @ '','' @ '' '' @ escape_sql_string r @ '')'' @ []"
  let ?engine = "''ENGINE'' @ '' '' @ ''='' @ '' '' @ ''Replicated'' @ [] @ ''('' @ [] @ ?params"
  have engine: "matches_first (chain_of [lit ''ENGINE'', lit ''='', lit ''Replicated'', lit ''('', named_group (token_pattern StringToken), lit '','',
      named_group (token_pattern StringToken), lit '','', named_group (token_pattern StringToken), lit '')'']) ?engine
      [escape_sql_string p, escape_sql_string s, escape_sql_string r] []"
    by (intro first_lit_then first_parameters escaped_string_stops) (simp_all add: stops_def is_space_def)
  have name: "matches_first (one_of (token_pattern RawIdentifier) (token_pattern QuotedIdentifier)) (t @ CHR 0x0A # ?engine) [] ([CHR 0x0A] @ ?engine)"
    using first_identifier [OF assms, of ?engine] by simp
  have named: "matches_first (chain_of [one_of (token_pattern RawIdentifier) (token_pattern QuotedIdentifier), lit ''ENGINE'', lit ''='',
      lit ''Replicated'', lit ''('', named_group (token_pattern StringToken), lit '','',
      named_group (token_pattern StringToken), lit '','', named_group (token_pattern StringToken), lit '')'']) (t @ CHR 0x0A # ?engine)
      [escape_sql_string p, escape_sql_string s, escape_sql_string r] []"
    using first_chain [OF name _ _ engine] by (simp add: stops_def is_space_def)
  have "matches_first create_database_pattern (''CREATE DATABASE '' @ t @ CHR 0x0A # ?engine)
      [escape_sql_string p, escape_sql_string s, escape_sql_string r] []"
    using first_chain [where sp = "'' ''", OF first_create _ identifier_stops [OF assms] named]
    by (simp add: create_database_pattern_def is_space_def)
  moreover have "''CREATE DATABASE '' @ t @ CHR 0x0A # ?engine = shown_database t p s r" by (simp add: shown_database_def)
  ultimately obtain more where
    "create_database_pattern (shown_database t p s r) = ([escape_sql_string p, escape_sql_string s, escape_sql_string r], []) # more"
    by (auto simp: matches_first_def)
  then show ?thesis
    by (simp add: shard_and_replica_def unescape_sql_string_def escape_sql_string_def escape_bytes_def unescape_sql_escaped)
qed

section \<open>What the server reports is what is backed up\<close>

text \<open>The answers of a server with these databases and tables, as its documentation describes the functions and columns that the queries use.
  \<open>show\<close> is its spelling of the name of a database, \<open>paths\<close> the ZooKeeper path of a database.\<close>

definition database_answer :: "replicated_database \<Rightarrow> pyval list" where
  "database_answer d = [PStr (b64encode (rd_name d)), PStr (uuid_str (the (rd_uuid d)))]"

definition table_answer :: "ch_table \<Rightarrow> pyval list" where
  "table_answer t = [PStr (b64encode (tb_database t)), PStr (b64encode (tb_name t)), PStr (tb_engine t), PStr (uuid_str (tb_uuid t)),
     PStr (b64encode (tb_create_query t)), PList (map (\<lambda>(d, n). PList [PStr (b64encode d), PStr (b64encode n)]) (tb_dependencies t))]"

definition server_reports :: "'w ch_execute \<Rightarrow> (string \<Rightarrow> string) \<Rightarrow> (string \<Rightarrow> string) \<Rightarrow> replicated_database list \<Rightarrow> ch_table list \<Rightarrow> bool" where
  "server_reports ex show paths dbs tables \<longleftrightarrow>
     (\<forall>w. ex (plain_call DATABASES_LIST_QUERY) w = (Inr (map database_answer dbs), w))
   \<and> (\<forall>w. ex (plain_call TABLES_LIST_QUERY) w = (Inr (map table_answer tables), w))
   \<and> (\<forall>w. \<forall>d \<in> set dbs. ex (plain_call (''SHOW CREATE DATABASE '' @ escape_sql_identifier (rd_name d))) w
        = (Inr [[PStr (shown_database (show (rd_name d)) (paths (rd_name d)) (rd_shard d) (rd_replica d))]], w))"

definition wf_database :: "replicated_database \<Rightarrow> bool" where
  "wf_database d \<longleftrightarrow> (case rd_uuid d of Some u \<Rightarrow> wf_uuid u | None \<Rightarrow> False)"

lemma database_row_reported:
  assumes "server_reports ex show paths dbs tables" and "d \<in> set dbs" and "wf_database d" and "identifier_text (show (rd_name d))"
  shows "database_row ex (database_answer d) w = (Some (Inr d), w)"
proof -
  obtain u where u: "rd_uuid d = Some u" "wf_uuid u" using assms(3) by (auto simp: wf_database_def split: option.splits)
  have e: "ex (plain_call (''SHOW CREATE DATABASE '' @ escape_sql_identifier (rd_name d))) w
      = (Inr [[PStr (shown_database (show (rd_name d)) (paths (rd_name d)) (rd_shard d) (rd_replica d))]], w)"
    using assms(1,2) unfolding server_reports_def by blast
  show ?thesis
    using u e shown_database_read [OF assms(4)]
    by (simp add: database_row_def database_answer_def bind_ch_def returned_def lift_result_def get_shard_and_replica_def execute_one_def)
qed

lemma database_rows_reported:
  assumes "server_reports ex show paths dbs tables" and "\<forall>d \<in> set dbs. wf_database d \<and> identifier_text (show (rd_name d))"
    and "set ds \<subseteq> set dbs" and "distinct (map rd_name ds)" and "\<forall>d \<in> set ds. rd_name d \<notin> fst ` set acc"
  shows "database_rows ex (map database_answer ds) acc w = (Some (Inr (acc @ map (\<lambda>d. (rd_name d, d)) ds)), w)"
  using assms(3-)
proof (induction ds arbitrary: acc)
  case (Cons d ds)
  have row: "database_row ex (database_answer d) w = (Some (Inr d), w)" using Cons.prems(1) assms by (auto intro!: database_row_reported)
  have set_d: "dict_set (rd_name d) d acc = acc @ [(rd_name d, d)]" using Cons.prems(3) by (simp add: dict_set_new)
  have "database_rows ex (map database_answer ds) (acc @ [(rd_name d, d)]) w = (Some (Inr ((acc @ [(rd_name d, d)]) @ map (\<lambda>d. (rd_name d, d)) ds)), w)"
    using Cons.prems by (intro Cons.IH) (auto simp: image_iff)
  then show ?case by (simp add: bind_ch_def row set_d)
qed simp

lemma dependency_row_encoded: "dependency_row (PList [PStr (b64encode d), PStr (b64encode n)]) = Inr (d, n)"
  by (simp add: dependency_row_def unpack2_def)

lemma dependencies_encoded:
  "map_res dependency_row (map (\<lambda>(d, n). PList [PStr (b64encode d), PStr (b64encode n)]) deps) = Inr deps"
  by (induction deps) (auto simp: dependency_row_encoded)

lemma table_row_reported:
  "wf_uuid (tb_uuid t) \<Longrightarrow> dict_get databases (tb_database t) \<noteq> None \<Longrightarrow> table_row databases (table_answer t) = Inr t"
  by (auto simp: table_row_def table_answer_def dependencies_encoded)


text \<open>A server with one database whose name needs escaping, one whose name does not, and a table.\<close>

definition sample_server :: "replicated_database list \<Rightarrow> ch_table list \<Rightarrow> unit ch_execute" where
  "sample_server dbs tables call w = (
     (if cc_query call = DATABASES_LIST_QUERY then Inr (map database_answer dbs)
      else if cc_query call = TABLES_LIST_QUERY then Inr (map table_answer tables)
      else case filter (\<lambda>d. cc_query call = ''SHOW CREATE DATABASE '' @ escape_sql_identifier (rd_name d)) dbs of
        d # _ \<Rightarrow> Inr [[PStr (shown_database (escape_sql_identifier (rd_name d)) ''/clickhouse/databases/db'' (rd_shard d) (rd_replica d))]]
      | [] \<Rightarrow> Inl (QueryFailed None)), w)"

definition sample_uuid :: uuid where "sample_uuid = UUID (replicate 32 (CHR ''a''))"

definition sample_databases :: "replicated_database list" where
  "sample_databases = map (\<lambda>n. \<lparr>rd_name = n, rd_uuid = Some sample_uuid, rd_shard = ''{shard}'', rd_replica = [CHR 0x27, CHR 0xFF]\<rparr>) [''we ird'', ''db'']"

definition sample_tables :: "ch_table list" where
  "sample_tables = [\<lparr>tb_database = ''db'', tb_name = ''t'', tb_engine = ''Log'', tb_uuid = sample_uuid, tb_create_query = ''CREATE'', tb_dependencies = [(''db'', ''u'')]\<rparr>]"

lemma sample_server_reports: "server_reports (sample_server sample_databases sample_tables) escape_sql_identifier (\<lambda>_. ''/clickhouse/databases/db'')
    sample_databases sample_tables"
proof -
  have n: "DATABASES_LIST_QUERY \<noteq> TABLES_LIST_QUERY" by code_simp
  have s: "''SHOW CREATE DATABASE '' @ x \<noteq> DATABASES_LIST_QUERY" "''SHOW CREATE DATABASE '' @ x \<noteq> TABLES_LIST_QUERY" for x
    by (simp_all add: DATABASES_LIST_QUERY_def TABLES_LIST_QUERY_def lines_text_def)
  have one: "\<forall>d \<in> set sample_databases. map rd_name (filter (\<lambda>e. escape_sql_identifier (rd_name d) = escape_sql_identifier (rd_name e)) sample_databases)
      = [rd_name d]" by code_simp
  have q: "filter (\<lambda>e. escape_sql_identifier (rd_name d) = escape_sql_identifier (rd_name e)) sample_databases = [d]" if d: "d \<in> set sample_databases" for d
  proof -
    obtain e where e: "filter (\<lambda>e. escape_sql_identifier (rd_name d) = escape_sql_identifier (rd_name e)) sample_databases = [e]" "rd_name e = rd_name d"
      using bspec [OF one d] by (auto simp: map_eq_Cons_conv)
    then have "e \<in> set (filter (\<lambda>e. escape_sql_identifier (rd_name d) = escape_sql_identifier (rd_name e)) sample_databases)" by simp
    then have "e \<in> set sample_databases" by simp
    then have "e = d" using e(2) d by (auto simp: sample_databases_def)
    then show ?thesis using e(1) by simp
  qed
  show ?thesis
    unfolding server_reports_def plain_call_def sample_server_def using n s q by auto
qed


end
