(* ===== verification/Cassandra_Node.thy ===== *)
theory Cassandra_Node
  imports Progress_Meter Ipc
begin

text \<open>
  What a node does for Cassandra (\<^verbatim>\<open>astacus/node/cassandra.py\<close>): the simple operations that remove snapshots and tables, the move
  of a restored snapshot into the tables, the start with a rewritten configuration and the hash of the schema. The files below the root of the node
  are a dictionary of paths, in the order in which a listing gives them; commands are a parameter that may change the files. Shown: the removal of
  the tables followed by the move of the snapshot leaves exactly the files of the snapshot in every table.
\<close>

section \<open>Files\<close>

type_synonym path = "string list"

datatype fs_entry = Dir | File string

type_synonym tree = "(path \<times> fs_entry) list"

definition is_dir :: "tree \<Rightarrow> path \<Rightarrow> bool" where "is_dir t p \<longleftrightarrow> dict_get t p = Some Dir"

definition is_file :: "tree \<Rightarrow> path \<Rightarrow> bool" where
  "is_file t p \<longleftrightarrow> (case dict_get t p of Some (File _) \<Rightarrow> True | _ \<Rightarrow> False)"

definition path_exists :: "tree \<Rightarrow> path \<Rightarrow> bool" where "path_exists t p \<longleftrightarrow> dict_get t p \<noteq> None"

text \<open>Patterns of one part: a name, or a beginning followed by a star.\<close>

definition part_matches :: "string \<Rightarrow> string \<Rightarrow> bool" where
  "part_matches pat name \<longleftrightarrow> (if pat \<noteq> [] \<and> last pat = CHR ''*'' then startswith name (butlast pat) else name = pat)"

definition glob_paths :: "string list \<Rightarrow> tree \<Rightarrow> path list" where
  "glob_paths pat t = filter (list_all2 part_matches pat) (map fst t)"

definition children :: "tree \<Rightarrow> path \<Rightarrow> path list" where
  "children t p = filter (\<lambda>q. q \<noteq> [] \<and> butlast q = p) (map fst t)"

definition glob_of :: "string \<Rightarrow> string list" where
  "glob_of g = filter (\<lambda>x. x \<noteq> []) (split_path g)"

definition remove_below :: "path \<Rightarrow> tree \<Rightarrow> tree" where
  "remove_below p t = filter (\<lambda>(q, e). take (length p) q \<noteq> p) t"

definition rmtree :: "path \<Rightarrow> tree \<Rightarrow> tree result" where
  "rmtree p t = (if is_dir t p then Inr (remove_below p t) else if path_exists t p then Inl OSError else Inl FileNotFoundError)"

definition unlink :: "path \<Rightarrow> tree \<Rightarrow> tree" where "unlink p t = AList.delete p t"

definition rename :: "path \<Rightarrow> path \<Rightarrow> tree \<Rightarrow> tree result" where
  "rename src dst t = (case dict_get t src of
     None \<Rightarrow> Inl FileNotFoundError
   | Some e \<Rightarrow>
       if dst = [] \<or> \<not> is_dir t (butlast dst) then Inl FileNotFoundError
       else if dst = src then Inr t
       else (case (e, dict_get t dst) of
           (File c, Some Dir) \<Rightarrow> Inl OSError
         | (File c, _) \<Rightarrow> Inr (dict_set dst (File c) (AList.delete src t))
         | (Dir, Some (File _)) \<Rightarrow> Inl OSError
         | (Dir, d) \<Rightarrow> if take (length src) dst = src \<or> children t dst \<noteq> [] then Inl OSError
             else Inr (map (\<lambda>(q, x). (if take (length src) q = src then dst @ drop (length src) q else q, x)) (AList.delete dst t))))"

section \<open>The operations\<close>

definition SNAPSHOT_NAME :: string where "SNAPSHOT_NAME = ''astacus-backup''"

definition SNAPSHOT_GLOB :: string where "SNAPSHOT_GLOB = ''data/*/*/snapshots/'' @ SNAPSHOT_NAME"

definition BACKUP_GLOB :: string where "BACKUP_GLOB = ''data/*/*/backups/''"

definition TABLES_GLOB :: string where "TABLES_GLOB = ''data/*/*''"

definition on_tree :: "(tree \<Rightarrow> tree result) \<Rightarrow> (tree \<times> progress, unit) stateful" where
  "on_tree f s = (case f (fst s) of Inl e \<Rightarrow> (Inl e, s) | Inr t \<Rightarrow> (Inr (), (t, snd s)))"

definition on_progress :: "(progress, 'a) stateful \<Rightarrow> (tree \<times> progress, 'a) stateful" where
  "on_progress m s = (case m (snd s) of (x, p) \<Rightarrow> (x, (fst s, p)))"

fun clean_each :: "(path \<Rightarrow> tree \<Rightarrow> tree result) \<Rightarrow> path list \<Rightarrow> (tree \<times> progress, unit) stateful" where
  "clean_each clean_func [] s = (Inr (), s)"
| "clean_each clean_func (p # ps) s =
     bind_st (on_tree (clean_func p)) (\<lambda>_. bind_st (on_progress (add_success 1)) (\<lambda>_. clean_each clean_func ps)) s"

definition clean_matching :: "string \<Rightarrow> (path \<Rightarrow> tree \<Rightarrow> tree result) \<Rightarrow> (tree \<times> progress, unit) stateful" where
  "clean_matching dir_glob clean_func =
     bind_st (on_progress (add_total 1)) (\<lambda>_ s.
       let todo = glob_paths (glob_of dir_glob) (fst s) in
       bind_st (on_progress (add_success 1)) (\<lambda>_.
       bind_st (on_progress (add_total (int (length todo)))) (\<lambda>_.
       bind_st (clean_each clean_func todo) (\<lambda>_. on_progress done_progress))) s)"

definition remove_sstables :: "path \<Rightarrow> tree \<Rightarrow> tree result" where
  "remove_sstables table_dir t =
     (if \<not> is_dir t table_dir then Inr (unlink table_dir t)
      else if \<not> path_exists t (table_dir @ [''snapshots'', SNAPSHOT_NAME]) then rmtree table_dir t
      else Inr (fold (\<lambda>p t. if last p \<in> {''snapshots'', ''backups''} then t else if is_dir t p then remove_below p t else unlink p t)
             (children t table_dir) t))"

definition remove_snapshot :: "(tree \<times> progress, unit) stateful" where
  "remove_snapshot = clean_matching SNAPSHOT_GLOB rmtree"

definition unrestore_sstables :: "(tree \<times> progress, unit) stateful" where
  "unrestore_sstables = clean_matching TABLES_GLOB remove_sstables"

text \<open>\<open>run\<close> executes a command; it raises when the command fails.\<close>

definition stop_cassandra :: "(string list \<Rightarrow> (tree, unit) stateful) \<Rightarrow> string list \<Rightarrow> (tree \<times> progress, unit) stateful" where
  "stop_cassandra run stop_command s = (case run stop_command (fst s) of
     (Inl e, t) \<Rightarrow> (Inl e, (t, snd s)) | (Inr _, t) \<Rightarrow> on_progress done_progress (t, snd s))"

definition take_snapshot :: "(string list \<Rightarrow> (tree, unit) stateful) \<Rightarrow> string list \<Rightarrow> (tree \<times> progress, unit) stateful" where
  "take_snapshot run nodetool_command s = (case run (nodetool_command @ [''snapshot'', ''-t'', SNAPSHOT_NAME]) (fst s) of
     (Inl e, t) \<Rightarrow> (Inl e, (t, snd s)) | (Inr _, t) \<Rightarrow> on_progress done_progress (t, snd s))"

datatype cassandra_sub_op = GetSchemaHash | RemoveSnapshot | UnrestoreSstables | RestoreSstables | StartCassandra | StopCassandra | TakeSnapshot

fun sub_op_value :: "cassandra_sub_op \<Rightarrow> string" where
  "sub_op_value GetSchemaHash = ''get-schema-hash''"
| "sub_op_value RemoveSnapshot = ''remove-snapshot''"
| "sub_op_value UnrestoreSstables = ''unrestore-sstables''"
| "sub_op_value RestoreSstables = ''restore-sstables''"
| "sub_op_value StartCassandra = ''start-cassandra''"
| "sub_op_value StopCassandra = ''stop-cassandra''"
| "sub_op_value TakeSnapshot = ''take-snapshot''"

fun simple_sub_op :: "(string list \<Rightarrow> (tree, unit) stateful) \<Rightarrow> string list \<Rightarrow> string list \<Rightarrow> cassandra_sub_op
    \<Rightarrow> (tree \<times> progress, unit) stateful result" where
  "simple_sub_op run stop_command nodetool_command RemoveSnapshot = Inr remove_snapshot"
| "simple_sub_op run stop_command nodetool_command UnrestoreSstables = Inr unrestore_sstables"
| "simple_sub_op run stop_command nodetool_command StopCassandra = Inr (stop_cassandra run stop_command)"
| "simple_sub_op run stop_command nodetool_command TakeSnapshot = Inr (take_snapshot run nodetool_command)"
| "simple_sub_op run stop_command nodetool_command _ = Inl KeyError"

section \<open>Moving a snapshot into the tables\<close>

datatype table_matching = Cfid | Cfname

record sstables_request =
  sq_table_glob :: string
  sq_keyspaces_to_skip :: "string list"
  sq_match_tables_by :: table_matching
  sq_expect_empty_target :: bool

text \<open>\<^verbatim>\<open>table_name_and_id.rsplit("-", 1)\<close> has to give two parts.\<close>

definition table_name_of :: "string \<Rightarrow> string result" where
  "table_name_of s = (if CHR ''-'' \<in> set s then Inr (butlast (rev (dropWhile (\<lambda>c. c \<noteq> CHR ''-'') (rev s)))) else Inl ValueError)"

definition match_table_by_name :: "tree \<Rightarrow> string \<Rightarrow> string \<Rightarrow> path result" where
  "match_table_by_name t keyspace_name table_name_and_id = bind_res (table_name_of table_name_and_id) (\<lambda>table_name.
     let table_paths = glob_paths [''data'', keyspace_name, table_name @ ''-*''] t in
     if table_paths = [] then Inl RuntimeError
     else let chosen = (if length table_paths > 1 then filter (\<lambda>p. last p \<noteq> table_name_and_id) table_paths else table_paths)
          in if length chosen \<noteq> 1 then Inl RuntimeError else Inr (hd chosen))"

definition ensure_target_is_empty :: "string \<Rightarrow> path \<Rightarrow> tree \<Rightarrow> tree result" where
  "ensure_target_is_empty keyspace_name table_path t =
     (let existing_files = filter (is_file t) (children t table_path) in
      if keyspace_name = ''system_auth'' then Inr (fold unlink existing_files t)
      else if existing_files \<noteq> [] then Inl RuntimeError else Inr t)"

fun move_all :: "path \<Rightarrow> path list \<Rightarrow> tree \<Rightarrow> tree result \<times> tree" where
  "move_all table_path [] t = (Inr t, t)"
| "move_all table_path (p # ps) t = (case rename p (table_path @ [last p]) t of Inl e \<Rightarrow> (Inl e, t) | Inr t1 \<Rightarrow> move_all table_path ps t1)"

definition restore_table :: "sstables_request \<Rightarrow> path \<Rightarrow> (tree \<times> progress, unit) stateful" where
  "restore_table req table_snapshot s =
     (case table_snapshot of
        d # keyspace_name # table_name_and_id # _ \<Rightarrow>
          if d \<noteq> ''data'' then (Inl ValueError, s)
          else if keyspace_name \<in> set (sq_keyspaces_to_skip req) then on_progress (add_success 1) s
          else (case (if sq_match_tables_by req = Cfid then Inr [''data'', keyspace_name, table_name_and_id]
                      else match_table_by_name (fst s) keyspace_name table_name_and_id) of
              Inl e \<Rightarrow> (Inl e, s)
            | Inr table_path \<Rightarrow>
                (case (if sq_expect_empty_target req then ensure_target_is_empty keyspace_name table_path (fst s) else Inr (fst s)) of
                   Inl e \<Rightarrow> (Inl e, s)
                 | Inr t1 \<Rightarrow> (case move_all table_path (children t1 table_snapshot) t1 of
                     (Inl e, t2) \<Rightarrow> (Inl e, (t2, snd s))
                   | (Inr _, t2) \<Rightarrow> on_progress (add_success 1) (t2, snd s))))
      | _ \<Rightarrow> (Inl ValueError, s))"

fun restore_tables :: "sstables_request \<Rightarrow> path list \<Rightarrow> (tree \<times> progress, unit) stateful" where
  "restore_tables req [] s = (Inr (), s)"
| "restore_tables req (p # ps) s = bind_st (restore_table req p) (\<lambda>_. restore_tables req ps) s"

definition restore_sstables :: "sstables_request \<Rightarrow> (tree \<times> progress, unit) stateful" where
  "restore_sstables req s =
     (let table_snapshots = glob_paths (glob_of (sq_table_glob req)) (fst s) in
      bind_st (on_progress (add_total (int (length table_snapshots)))) (\<lambda>_.
      bind_st (restore_tables req table_snapshots) (\<lambda>_. on_progress done_progress)) s)"

section \<open>Starting Cassandra, and its schema\<close>

record start_request =
  st_tokens :: "string list option"
  st_replace_address_first_boot :: "string option"
  st_skip_bootstrap_streaming :: "bool option"

fun comma_separated :: "string list \<Rightarrow> string" where
  "comma_separated [] = []"
| "comma_separated [s] = s"
| "comma_separated (s # t # ss) = s @ '', '' @ comma_separated (t # ss)"

definition start_config :: "start_request \<Rightarrow> (string \<times> json) list \<Rightarrow> (string \<times> json) list" where
  "start_config req config =
     (let c1 = dict_set ''auto_bootstrap'' (JBool (st_replace_address_first_boot req \<noteq> None)) config;
          c2 = (case st_tokens req of
              Some (t # ts) \<Rightarrow> dict_set ''num_tokens'' (JInt (int (length (t # ts)))) (dict_set ''initial_token'' (JStr (comma_separated (t # ts))) c1)
            | _ \<Rightarrow> c1);
          c3 = (case st_replace_address_first_boot req of
              Some (x # xs) \<Rightarrow> dict_set ''replace_address_first_boot'' (JStr (x # xs)) c2
            | _ \<Rightarrow> c2)
      in if st_skip_bootstrap_streaming req = Some True then dict_set ''skip_bootstrap_streaming'' (JBool True) c3 else c3)"

text \<open>\<open>load\<close> reads the configuration file, \<open>start\<close> runs the start command on a file with the given configuration.\<close>

definition start_cassandra :: "(tree \<Rightarrow> (string \<times> json) list result) \<Rightarrow> ((string \<times> json) list \<Rightarrow> (tree, unit) stateful) \<Rightarrow> start_request
    \<Rightarrow> (tree \<times> progress, unit) stateful" where
  "start_cassandra load start req =
     bind_st (on_progress (add_total 3)) (\<lambda>_ s.
     (case load (fst s) of
        Inl e \<Rightarrow> (Inl e, s)
      | Inr config \<Rightarrow>
          bind_st (on_progress (add_success 1)) (\<lambda>_.
          bind_st (on_progress (add_success 1)) (\<lambda>_ s.
          (case start (start_config req config) (fst s) of
             (Inl e, t) \<Rightarrow> (Inl e, (t, snd s))
           | (Inr _, t) \<Rightarrow> bind_st (on_progress (add_success 1)) (\<lambda>_. on_progress done_progress) (t, snd s)))) s))"

text \<open>A schema that cannot be had for the moment has the empty hash. \<open>query\<close> connects and asks for the version.\<close>

definition get_schema_hash_op :: "string result \<Rightarrow> (progress, string) stateful" where
  "get_schema_hash_op query p = (case query of
     Inl e \<Rightarrow> if is_transient e then bind_st done_progress (\<lambda>_ p. (Inr [], p)) p else (Inl e, p)
   | Inr h \<Rightarrow> bind_st done_progress (\<lambda>_ p. (Inr h, p)) p)"

section \<open>What removing the tables leaves\<close>

text \<open>The directory of an entry is a directory; paths are not empty.\<close>

definition closed :: "(path \<rightharpoonup> fs_entry) \<Rightarrow> bool" where
  "closed m \<longleftrightarrow> m [] = None \<and> (\<forall>p. m p \<noteq> None \<and> length p > 1 \<longrightarrow> m (butlast p) = Some Dir)"

definition snap :: "path \<Rightarrow> path" where "snap d = d @ [''snapshots'', SNAPSHOT_NAME]"

definition kept_name :: "string \<Rightarrow> bool" where "kept_name n \<longleftrightarrow> n \<in> {''snapshots'', ''backups''}"

definition cut_at :: "path \<Rightarrow> (path \<rightharpoonup> fs_entry) \<Rightarrow> path \<rightharpoonup> fs_entry" where
  "cut_at q m p = (if take (length q) p = q then None else m p)"

lemma below_butlast: "take (length q) (butlast p) = q \<Longrightarrow> take (length q) p = q"
  by (cases p rule: rev_cases) (auto dest!: arg_cong [where f = length])

lemma closed_cut_at: "closed m \<Longrightarrow> q \<noteq> [] \<Longrightarrow> closed (cut_at q m)"
  using below_butlast by (fastforce simp: closed_def cut_at_def)

lemma closed_above:
  assumes "closed m" and "m p \<noteq> None" and "take (length q) p = q" and "q \<noteq> p" and "q \<noteq> []"
  shows "m q = Some Dir"
  using assms(2-4)
proof (induction p rule: rev_induct)
  case (snoc x xs)
  from snoc.prems have l: "length q \<le> length xs" by (metis length_append_singleton length_take min.absorb2 nat_le_linear not_less_eq_eq take_all)
  then have "m xs = Some Dir" using snoc.prems assms(1,5) by (cases xs) (auto simp: closed_def dest!: spec [of _ "xs @ [x]"])
  moreover have "take (length q) xs = q" using snoc.prems l by simp
  ultimately show ?case using snoc.IH by (cases "q = xs") auto
qed (use assms in simp)

lemma map_of_remove_below: "map_of (remove_below q t) = cut_at q (map_of t)"
  by (rule ext) (simp add: remove_below_def cut_at_def map_of_filter_key)

lemma unlink_is_cut:
  assumes "closed (map_of t)" and "map_of t q \<noteq> Some Dir" and "q \<noteq> []"
  shows "map_of (unlink q t) = cut_at q (map_of t)"
proof (rule ext)
  fix p
  show "map_of (unlink q t) p = cut_at q (map_of t) p"
    using closed_above [OF assms(1), of p q] assms by (cases "map_of t p") (auto simp: unlink_def cut_at_def delete_conv')
qed

definition pruned :: "(path \<rightharpoonup> fs_entry) \<Rightarrow> path \<rightharpoonup> fs_entry" where
  "pruned m p = (if m (snap (take 3 p)) \<noteq> None \<and> (length p > 3 \<longrightarrow> kept_name (p ! 3)) then m p else None)"

definition pruned_at :: "path \<Rightarrow> (path \<rightharpoonup> fs_entry) \<Rightarrow> path \<rightharpoonup> fs_entry" where
  "pruned_at d m p = (if take 3 p = d then pruned m p else m p)"

definition removal :: "path \<Rightarrow> tree \<Rightarrow> tree" where
  "removal p t = (if last p \<in> {''snapshots'', ''backups''} then t else if is_dir t p then remove_below p t else unlink p t)"

lemma map_of_removal:
  "closed (map_of t) \<Longrightarrow> q \<noteq> [] \<Longrightarrow> map_of (removal q t) = (if kept_name (last q) then map_of t else cut_at q (map_of t))"
  by (simp add: removal_def kept_name_def map_of_remove_below unlink_is_cut is_dir_def)

lemma removals:
  assumes "closed (map_of t)" and "[] \<notin> set cs"
  shows "map_of (fold removal cs t) = (\<lambda>p. if \<exists>q \<in> set cs. \<not> kept_name (last q) \<and> take (length q) p = q then None else map_of t p)"
  using assms
proof (induction cs arbitrary: t)
  case (Cons q cs)
  have m: "map_of (removal q t) = (if kept_name (last q) then map_of t else cut_at q (map_of t))" using Cons.prems by (intro map_of_removal) auto
  then have "closed (map_of (removal q t))" using Cons.prems closed_cut_at [of "map_of t" q] by auto
  from Cons.IH [OF this] Cons.prems(2) show ?case by (auto simp: m cut_at_def fun_eq_iff)
qed simp

lemma children_iff: "q \<in> set (children t p) \<longleftrightarrow> q \<noteq> [] \<and> butlast q = p \<and> map_of t q \<noteq> None"
  by (auto simp: children_def map_of_eq_None_iff)

lemma snap_below [simp]: "length d = 3 \<Longrightarrow> take 3 (snap d) = d" "length d = 3 \<Longrightarrow> snap d ! 3 = ''snapshots''" "length (snap d) = length d + 2"
  by (simp_all add: snap_def nth_append)

lemma remove_sstables_map:
  assumes c: "closed (map_of t)" and d: "length d = 3"
  shows "\<exists>t'. remove_sstables d t = Inr t' \<and> map_of t' = pruned_at d (map_of t)"
proof -
  let ?m = "map_of t"
  have ne: "d \<noteq> []" using d by auto
  show ?thesis
  proof (cases "?m d = Some Dir \<and> ?m (snap d) \<noteq> None")
    case True
    have "map_of (fold removal (children t d) t) = pruned_at d ?m"
    proof (rule ext)
      fix p
      have k: "(\<exists>q \<in> set (children t d). \<not> kept_name (last q) \<and> take (length q) p = q) \<longleftrightarrow> ?m p \<noteq> None \<and> length p > 3 \<and> \<not> kept_name (p ! 3)"
        if "take 3 p = d" "?m p \<noteq> None"
      proof
        assume "\<exists>q \<in> set (children t d). \<not> kept_name (last q) \<and> take (length q) p = q"
        then obtain n where n: "\<not> kept_name n" "take (length (d @ [n])) p = d @ [n]"
          by (metis append_butlast_last_id children_iff)
        then have "length p > 3" using d by (metis One_nat_def add.commute length_append_singleton length_take min.cobounded1 not_less_eq_eq numeral_3_eq_3 plus_1_eq_Suc linorder_not_less)
        moreover have "p ! 3 = n" using n(2) d by (metis lessI length_append_singleton nth_append_length nth_take)
        ultimately show "?m p \<noteq> None \<and> length p > 3 \<and> \<not> kept_name (p ! 3)" using n that by simp
      next
        assume l: "?m p \<noteq> None \<and> length p > 3 \<and> \<not> kept_name (p ! 3)"
        have q: "take 4 p = d @ [p ! 3]" using l that(1) take_Suc_conv_app_nth [of 3 p] by (simp add: eval_nat_numeral)
        have "?m (take 4 p) \<noteq> None" using closed_above [OF c, of p "take 4 p"] l by (cases "take 4 p = p"; cases p) auto
        then show "\<exists>q \<in> set (children t d). \<not> kept_name (last q) \<and> take (length q) p = q"
          using q l d by (intro bexI [of _ "take 4 p"]) (auto simp: children_iff)
      qed
      have "take 3 p = d" if q: "q \<in> set (children t d)" "take (length q) p = q" for q
      proof -
        have l: "length q = 4" and b: "take 3 q = d" using q(1) d by (auto simp: children_iff butlast_conv_take)
        have "take 3 p = take 3 (take 4 p)" by simp
        also have "\<dots> = d" using q(2) l b by metis
        finally show ?thesis .
      qed
      then show "map_of (fold removal (children t d) t) p = pruned_at d ?m p"
        using k True by (cases "?m p") (auto simp: removals [OF c] children_iff pruned_at_def pruned_def)
    qed
    then show ?thesis using True
      by (auto simp: remove_sstables_def is_dir_def path_exists_def snap_def removal_def [abs_def])
  next
    case False
    have none: "?m (snap d) = None" if "?m d \<noteq> Some Dir"
      using closed_above [OF c, of "snap d" d] that ne by (cases "?m (snap d)") (auto simp: snap_def)
    then have p: "cut_at d ?m = pruned_at d ?m" using False d by (auto simp: cut_at_def pruned_at_def pruned_def fun_eq_iff)
    show ?thesis
    proof (cases "?m d = Some Dir")
      case True
      then show ?thesis using False p by (auto simp: remove_sstables_def is_dir_def path_exists_def snap_def rmtree_def map_of_remove_below)
    next
      case False
      then show ?thesis using p unlink_is_cut [OF c False ne] by (auto simp: remove_sstables_def is_dir_def)
    qed
  qed
qed

lemma closed_pruned_at:
  assumes "closed m" and "length d = 3"
  shows "closed (pruned_at d m)"
proof -
  have "pruned_at d m (butlast p) = Some Dir" if p: "pruned_at d m p \<noteq> None" "length p > 1" for p
  proof -
    have up: "m (butlast p) = Some Dir" using p assms(1) by (auto simp: closed_def pruned_at_def pruned_def split: if_splits)
    have len: "length (butlast p) = length p - 1" by simp
    show ?thesis
    proof (cases "length p > 3")
      case True
      then have "take 3 (butlast p) = take 3 p" by (simp add: take_butlast)
      moreover have "length (butlast p) > 3 \<Longrightarrow> butlast p ! 3 = p ! 3" by (simp add: nth_butlast)
      ultimately show ?thesis using p(1) up True by (auto simp: pruned_at_def pruned_def split: if_splits)
    next
      case False
      then have "take 3 (butlast p) \<noteq> d" using assms(2) len by (metis length_take min.absorb_iff2 diff_less leD less_numeral_extra(1) min.cobounded1 order.strict_trans1 p(2) less_trans zero_less_one)
      then show ?thesis using up by (simp add: pruned_at_def)
    qed
  qed
  moreover have "pruned_at d m [] = None" using assms by (auto simp: closed_def pruned_at_def)
  ultimately show ?thesis unfolding closed_def by blast
qed

lemma pruned_at_agrees: "length (take 3 p) = 3 \<Longrightarrow> pruned (pruned_at d m) p = pruned m p"
  by (auto simp: pruned_def pruned_at_def snap_def kept_name_def nth_append)

lemma fold_pruned_at:
  "\<forall>d \<in> set ds. length d = 3 \<Longrightarrow> fold pruned_at ds m p = (if take 3 p \<in> set ds then pruned m p else m p)"
proof (induction ds arbitrary: m)
  case (Cons d ds)
  have "pruned (pruned_at d m) p = pruned m p" if "take 3 p \<in> set ds" using that Cons.prems by (intro pruned_at_agrees) auto
  moreover have "pruned_at d m p = (if take 3 p = d then pruned m p else m p)" by (simp add: pruned_at_def)
  ultimately show ?case using Cons.IH [of "pruned_at d m"] Cons.prems by auto
qed simp

lemma on_progress_Inr: "m p = (Inr x, p') \<Longrightarrow> on_progress m (t, p) = (Inr x, (t, p'))"
  by (simp add: on_progress_def)

definition counts :: "progress \<Rightarrow> int \<Rightarrow> int \<Rightarrow> bool" where
  "counts p h n \<longleftrightarrow> pr_handled p = h \<and> pr_total p = n \<and> pr_failed p = 0 \<and> \<not> pr_final p"

lemma counts_steps:
  "counts p h n \<Longrightarrow> h < n \<Longrightarrow> \<exists>p'. add_success 1 p = (Inr (), p') \<and> counts p' (h + 1) n"
  "counts p h n \<Longrightarrow> k \<ge> 0 \<Longrightarrow> \<exists>p'. add_total k p = (Inr (), p') \<and> counts p' h (n + k)"
  "counts p n n \<Longrightarrow> \<exists>p'. done_progress p = (Inr (), p') \<and> finished_successfully p'"
  by (auto simp: counts_def add_success_def add_total_def done_progress_def finished_successfully_def Let_def)

lemma counts_new: "counts new_progress 0 0"
  by (simp add: counts_def new_progress_def)

lemma clean_each_tree:
  assumes "\<And>q t. q \<in> set ps \<Longrightarrow> Q (map_of t) \<Longrightarrow> \<exists>t'. f q t = Inr t' \<and> map_of t' = g q (map_of t)"
    and "\<And>q m. q \<in> set ps \<Longrightarrow> Q m \<Longrightarrow> Q (g q m)" and "Q (map_of t)" and "counts p h (h + int (length ps))"
  shows "\<exists>t' p'. clean_each f ps (t, p) = (Inr (), (t', p')) \<and> map_of t' = fold g ps (map_of t) \<and> counts p' (h + int (length ps)) (h + int (length ps))"
  using assms
proof (induction ps arbitrary: t p h)
  case (Cons q ps)
  obtain t1 where t1: "f q t = Inr t1" "map_of t1 = g q (map_of t)" using Cons.prems(1) [of q t] Cons.prems(3) by auto
  obtain p1 where p1: "add_success 1 p = (Inr (), p1)" "counts p1 (h + 1) (h + int (length (q # ps)))"
    using counts_steps(1) [OF Cons.prems(4)] by auto
  have "\<exists>t' p'. clean_each f ps (t1, p1) = (Inr (), (t', p')) \<and> map_of t' = fold g ps (map_of t1)
      \<and> counts p' (h + 1 + int (length ps)) (h + 1 + int (length ps))"
    using Cons.prems p1(2) t1(2) by (intro Cons.IH) (auto simp: algebra_simps)
  then show ?case using t1 p1(1) by (auto simp: bind_st_def on_tree_def on_progress_def algebra_simps)
qed simp

text \<open>The files after the removal of the tables: below a table only what belongs to its snapshot and its incremental backups, and nothing of a table
  without a snapshot.\<close>

definition unrestored :: "(path \<rightharpoonup> fs_entry) \<Rightarrow> path \<rightharpoonup> fs_entry" where
  "unrestored m p = (if length p \<ge> 3 \<and> hd p = ''data'' then pruned m p else m p)"

lemma tables_glob: "glob_of TABLES_GLOB = [''data'', ''*'', ''*'']"
  by code_simp

lemma snapshot_glob: "glob_of SNAPSHOT_GLOB = [''data'', ''*'', ''*'', ''snapshots'', SNAPSHOT_NAME]"
  by code_simp

lemma star_matches [simp]: "part_matches ''*'' n" "part_matches ''data'' n \<longleftrightarrow> n = ''data''" "part_matches ''snapshots'' n \<longleftrightarrow> n = ''snapshots''"
    "part_matches SNAPSHOT_NAME n \<longleftrightarrow> n = SNAPSHOT_NAME"
  by (simp_all add: part_matches_def startswith_def SNAPSHOT_NAME_def)

lemma tables_listed: "d \<in> set (glob_paths (glob_of TABLES_GLOB) t) \<longleftrightarrow> length d = 3 \<and> hd d = ''data'' \<and> map_of t d \<noteq> None"
  by (cases d; cases "tl d"; cases "tl (tl d)") (auto simp: tables_glob glob_paths_def map_of_eq_None_iff)

lemma unrestore_map:
  assumes "closed (map_of t)"
  shows "\<exists>t' p. unrestore_sstables (t, new_progress) = (Inr (), (t', p)) \<and> map_of t' = unrestored (map_of t) \<and> finished_successfully p"
proof -
  let ?ds = "glob_paths (glob_of TABLES_GLOB) t"
  obtain p1 where p1: "add_total 1 new_progress = (Inr (), p1)" "counts p1 0 1" using counts_steps(2) [OF counts_new, of 1] by auto
  obtain p2 where p2: "add_success 1 p1 = (Inr (), p2)" "counts p2 1 1" using counts_steps(1) [OF p1(2)] by auto
  obtain p3 where p3: "add_total (int (length ?ds)) p2 = (Inr (), p3)" "counts p3 1 (1 + int (length ?ds))" using counts_steps(2) [OF p2(2), of "int (length ?ds)"] by auto
  obtain t' p4 where c: "clean_each remove_sstables ?ds (t, p3) = (Inr (), (t', p4))" "map_of t' = fold pruned_at ?ds (map_of t)"
      "counts p4 (1 + int (length ?ds)) (1 + int (length ?ds))"
    using clean_each_tree [where Q = closed, OF _ _ assms p3(2)] remove_sstables_map closed_pruned_at tables_listed by blast
  obtain p5 where p5: "done_progress p4 = (Inr (), p5)" "finished_successfully p5" using counts_steps(3) [OF c(3)] by auto
  have "fold pruned_at ?ds (map_of t) = unrestored (map_of t)"
  proof (rule ext)
    fix p
    have "take 3 p \<in> set ?ds" if "length p \<ge> 3" "hd p = ''data''" "map_of t p \<noteq> None"
      using that closed_above [OF assms, of p "take 3 p"] by (cases "take 3 p = p"; cases p) (auto simp: tables_listed)
    moreover have "length p \<ge> 3 \<and> hd p = ''data''" if "take 3 p \<in> set ?ds" using that by (cases p) (auto simp: tables_listed)
    moreover have "fold pruned_at ?ds (map_of t) p = (if take 3 p \<in> set ?ds then pruned (map_of t) p else map_of t p)"
      by (rule fold_pruned_at) (simp add: tables_listed)
    moreover have "map_of t p = None \<Longrightarrow> pruned (map_of t) p = None" by (simp add: pruned_def)
    ultimately show "fold pruned_at ?ds (map_of t) p = unrestored (map_of t) p" unfolding unrestored_def by metis
  qed
  then have "unrestore_sstables (t, new_progress) = (Inr (), (t', p5)) \<and> map_of t' = unrestored (map_of t) \<and> finished_successfully p5"
    using p1 p2 p3 c p5 by (simp add: unrestore_sstables_def clean_matching_def bind_st_def on_progress_def Let_def)
  then show ?thesis by blast
qed

section \<open>What moving the snapshot does\<close>

text \<open>A table that its snapshot can be moved into: a directory without files, a snapshot of files only, and no name in both.\<close>

definition ready :: "(path \<rightharpoonup> fs_entry) \<Rightarrow> path \<Rightarrow> bool" where
  "ready m d \<longleftrightarrow> m d = Some Dir \<and> (\<forall>n c. m (d @ [n]) \<noteq> Some (File c))
     \<and> (\<forall>n e. m (snap d @ [n]) = Some e \<longrightarrow> e \<noteq> Dir \<and> m (d @ [n]) = None)"

lemma rename_file:
  assumes "map_of t (snap d @ [n]) = Some (File c)" and "map_of t d = Some Dir" and "map_of t (d @ [n]) = None"
  shows "rename (snap d @ [n]) (d @ [n]) t = Inr (dict_set (d @ [n]) (File c) (AList.delete (snap d @ [n]) t))"
  using assms by (simp add: rename_def is_dir_def snap_def)

lemma move_all_map:
  assumes "distinct cs" and "map_of t d = Some Dir"
    and "\<forall>q \<in> set cs. \<exists>n c. q = snap d @ [n] \<and> map_of t q = Some (File c) \<and> map_of t (d @ [n]) = None"
  shows "\<exists>t'. move_all d cs t = (Inr t', t') \<and> (distinct (map fst t) \<longrightarrow> distinct (map fst t'))
    \<and> map_of t' = (\<lambda>p. if \<exists>n. p = d @ [n] \<and> snap d @ [n] \<in> set cs then map_of t (snap d @ [last p]) else if p \<in> set cs then None else map_of t p)"
  using assms
proof (induction cs arbitrary: t)
  case (Cons q cs)
  obtain n c where n: "q = snap d @ [n]" "map_of t q = Some (File c)" "map_of t (d @ [n]) = None" using Cons.prems(3) by auto
  define t1 where "t1 = dict_set (d @ [n]) (File c) (AList.delete q t)"
  have m: "map_of t1 p = (if p = d @ [n] then Some (File c) else if p = q then None else map_of t p)" for p
    by (simp add: t1_def update_conv' delete_conv')
  have ne: "snap d \<noteq> d" "d \<noteq> snap d @ [k]" for k by (auto simp: snap_def dest!: arg_cong [where f = length])
  have not_moved: "d @ [k] \<notin> set cs" for k using Cons.prems(3) ne(1) by auto
  have r: "rename q (d @ [n]) t = Inr t1" using rename_file [of t d n c] n Cons.prems(2) by (simp add: t1_def)
  have "\<exists>t'. move_all d cs t1 = (Inr t', t') \<and> (distinct (map fst t1) \<longrightarrow> distinct (map fst t'))
    \<and> map_of t' = (\<lambda>p. if \<exists>n. p = d @ [n] \<and> snap d @ [n] \<in> set cs then map_of t1 (snap d @ [last p]) else if p \<in> set cs then None else map_of t1 p)"
  proof (rule Cons.IH)
    show "map_of t1 d = Some Dir" using Cons.prems(2) ne n(1) by (simp add: m)
    show "\<forall>q \<in> set cs. \<exists>n c. q = snap d @ [n] \<and> map_of t1 q = Some (File c) \<and> map_of t1 (d @ [n]) = None"
    proof
      fix q' assume q': "q' \<in> set cs"
      then obtain n' c' where "q' = snap d @ [n']" "map_of t q' = Some (File c')" "map_of t (d @ [n']) = None" using Cons.prems(3) by auto
      moreover have "q' \<noteq> q" using q' Cons.prems(1) by auto
      ultimately show "\<exists>n c. q' = snap d @ [n] \<and> map_of t1 q' = Some (File c) \<and> map_of t1 (d @ [n]) = None"
        using n(1) ne by (auto simp: m)
    qed
  qed (use Cons.prems in simp)
  then obtain t' where t': "move_all d cs t1 = (Inr t', t')" "distinct (map fst t1) \<longrightarrow> distinct (map fst t')"
    "map_of t' = (\<lambda>p. if \<exists>n. p = d @ [n] \<and> snap d @ [n] \<in> set cs then map_of t1 (snap d @ [last p]) else if p \<in> set cs then None else map_of t1 p)"
    by blast
  have "map_of t' = (\<lambda>p. if \<exists>n. p = d @ [n] \<and> snap d @ [n] \<in> set (q # cs) then map_of t (snap d @ [last p]) else if p \<in> set (q # cs) then None else map_of t p)"
  proof (rule ext)
    fix p
    show "map_of t' p = (if \<exists>n. p = d @ [n] \<and> snap d @ [n] \<in> set (q # cs) then map_of t (snap d @ [last p]) else if p \<in> set (q # cs) then None else map_of t p)"
      using n ne not_moved [of "last p"] Cons.prems(1) by (auto simp: t'(3) m)
  qed
  moreover have "distinct (map fst t) \<longrightarrow> distinct (map fst t1)" by (simp add: t1_def distinct_update distinct_delete)
  ultimately show ?case using t' r n(1) by auto
qed simp

definition moved_at :: "path \<Rightarrow> (path \<rightharpoonup> fs_entry) \<Rightarrow> path \<rightharpoonup> fs_entry" where
  "moved_at d m p = (if length p = 4 \<and> take 3 p = d \<and> m (snap d @ [p ! 3]) \<noteq> None then m (snap d @ [p ! 3])
     else if length p = 6 \<and> take 5 p = snap d then None else m p)"

lemma take5_snap: "length p = 6 \<Longrightarrow> take 5 p = snap d \<longleftrightarrow> p = snap d @ [last p]"
  by (cases p rule: rev_cases) (auto simp: snap_def)

lemma moves_children:
  assumes r: "ready (map_of t) d" and d: "length d = 3" and t: "distinct (map fst t)"
  shows "\<exists>t'. move_all d (children t (snap d)) t = (Inr t', t') \<and> distinct (map fst t') \<and> map_of t' = moved_at d (map_of t)"
proof -
  have cs: "q \<in> set (children t (snap d)) \<longleftrightarrow> q \<noteq> [] \<and> q = snap d @ [last q] \<and> map_of t q \<noteq> None" for q
    by (cases q rule: rev_cases) (auto simp: children_iff)
  have "\<exists>n c. q = snap d @ [n] \<and> map_of t q = Some (File c) \<and> map_of t (d @ [n]) = None" if q: "q \<in> set (children t (snap d))" for q
  proof -
    obtain e where "map_of t q = Some e" "q = snap d @ [last q]" using q cs by auto
    then have "e \<noteq> Dir" "map_of t (d @ [last q]) = None" using r unfolding ready_def by metis+
    then show ?thesis using \<open>map_of t q = Some e\<close> \<open>q = snap d @ [last q]\<close> by (cases e) auto
  qed
  moreover have "distinct (children t (snap d))" using t by (simp add: children_def)
  moreover have "map_of t d = Some Dir" using r by (simp add: ready_def)
  ultimately obtain t' where t': "move_all d (children t (snap d)) t = (Inr t', t')" "distinct (map fst t')"
    "map_of t' = (\<lambda>p. if \<exists>n. p = d @ [n] \<and> snap d @ [n] \<in> set (children t (snap d)) then map_of t (snap d @ [last p])
       else if p \<in> set (children t (snap d)) then None else map_of t p)"
    using move_all_map [of "children t (snap d)" t d] t by blast
  have "map_of t' = moved_at d (map_of t)"
  proof (rule ext)
    fix p
    have a: "(\<exists>n. p = d @ [n] \<and> snap d @ [n] \<in> set (children t (snap d))) \<longleftrightarrow> length p = 4 \<and> take 3 p = d \<and> map_of t (snap d @ [p ! 3]) \<noteq> None"
      using d by (cases p rule: rev_cases) (auto simp: cs nth_append)
    have b: "last p = p ! 3" if "length p = 4" using that by (cases p rule: rev_cases) (auto simp: nth_append)
    have c: "p \<in> set (children t (snap d)) \<longleftrightarrow> length p = 6 \<and> take 5 p = snap d \<and> map_of t p \<noteq> None"
      using take5_snap [of p d] d by (cases p rule: rev_cases) (auto simp: cs)
    show "map_of t' p = moved_at d (map_of t) p"
    proof (cases "\<exists>n. p = d @ [n] \<and> snap d @ [n] \<in> set (children t (snap d))")
      case True
      then show ?thesis using a b unfolding t'(3) moved_at_def by simp
    next
      case False
      then have "map_of t' p = (if p \<in> set (children t (snap d)) then None else map_of t p)" by (simp only: t'(3) if_False)
      then show ?thesis using False unfolding a c moved_at_def by auto
    qed
  qed
  then show ?thesis using t' by blast
qed

lemma moved_at_other: "take 3 p \<noteq> d \<Longrightarrow> length d = 3 \<Longrightarrow> moved_at d m p = m p"
proof -
  assume a: "take 3 p \<noteq> d" "length d = 3"
  have "take 3 p = take 3 (take 5 p)" by simp
  then have "take 5 p \<noteq> snap d" using a by (metis snap_below(1))
  then show ?thesis using a(1) by (simp add: moved_at_def)
qed

lemma below_table [simp]: "length d = 3 \<Longrightarrow> take 3 (d @ x) = d" "length d = 3 \<Longrightarrow> take 3 (snap d @ x) = d"
  by (simp_all add: snap_def)

lemma ready_other: "length d = 3 \<Longrightarrow> length d' = 3 \<Longrightarrow> d' \<noteq> d \<Longrightarrow> ready (moved_at d m) d' = ready m d'"
  by (simp add: ready_def moved_at_other)

lemma fold_moved_at:
  assumes "\<forall>d \<in> set ds. length d = 3" and "distinct ds"
  shows "fold moved_at ds m p = (if take 3 p \<in> set ds then moved_at (take 3 p) m p else m p)"
  using assms
proof (induction ds arbitrary: m)
  case (Cons d ds)
  have "moved_at (take 3 p) (moved_at d m) p = moved_at (take 3 p) m p" if p: "take 3 p \<noteq> d" "length (take 3 p) = 3"
  proof -
    have "moved_at d m p = m p" "moved_at d m (snap (take 3 p) @ [p ! 3]) = m (snap (take 3 p) @ [p ! 3])"
      using p Cons.prems(1) by (auto intro!: moved_at_other)
    then show ?thesis unfolding moved_at_def [of "take 3 p"] by (simp only:)
  qed
  then show ?case using Cons.IH [of "moved_at d m"] Cons.prems moved_at_other [of p d m] by (cases "take 3 p = d") auto
qed simp

lemma restore_table_ok:
  assumes req: "sq_match_tables_by req = Cfid" and d: "d = [''data'', k, b]" and t: "distinct (map fst t)" and c: "counts p h n" "h < n"
    and r: "k \<notin> set (sq_keyspaces_to_skip req) \<longrightarrow> ready (map_of t) d"
  shows "\<exists>t' p'. restore_table req (snap d) (t, p) = (Inr (), (t', p')) \<and> counts p' (h + 1) n \<and> distinct (map fst t')
    \<and> map_of t' = (if k \<in> set (sq_keyspaces_to_skip req) then map_of t else moved_at d (map_of t))"
proof -
  obtain p' where p': "add_success 1 p = (Inr (), p')" "counts p' (h + 1) n" using counts_steps(1) [OF c] by blast
  show ?thesis
  proof (cases "k \<in> set (sq_keyspaces_to_skip req)")
    case True
    then show ?thesis using p' t d by (simp add: restore_table_def snap_def on_progress_def)
  next
    case False
    then have rd: "ready (map_of t) d" using r by blast
    have "filter (is_file t) (children t d) = []"
    proof (rule filter_False, rule ballI)
      fix q assume "q \<in> set (children t d)"
      then have "q = d @ [last q]" by (auto simp: children_iff)
      then have "map_of t q \<noteq> Some (File x)" for x using rd unfolding ready_def by metis
      then show "\<not> is_file t q" by (auto simp: is_file_def split: option.splits fs_entry.splits)
    qed
    then have e: "ensure_target_is_empty k [''data'', k, b] t = Inr t" using d by (simp add: ensure_target_is_empty_def)
    obtain t' where t': "move_all d (children t (snap d)) t = (Inr t', t')" "distinct (map fst t')" "map_of t' = moved_at d (map_of t)"
      using moves_children [OF rd _ t] d by auto
    then show ?thesis using False req e p' d by (simp add: restore_table_def snap_def on_progress_def)
  qed
qed

lemma restore_tables_ok:
  assumes "sq_match_tables_by req = Cfid" and "distinct ds" and "\<forall>d \<in> set ds. \<exists>k b. d = [''data'', k, b]" and "distinct (map fst t)"
    and "counts p h (h + int (length ds))" and "\<forall>d \<in> set ds. d ! 1 \<notin> set (sq_keyspaces_to_skip req) \<longrightarrow> ready (map_of t) d"
  shows "\<exists>t' p'. restore_tables req (map snap ds) (t, p) = (Inr (), (t', p')) \<and> counts p' (h + int (length ds)) (h + int (length ds))
    \<and> map_of t' = fold moved_at (filter (\<lambda>d. d ! 1 \<notin> set (sq_keyspaces_to_skip req)) ds) (map_of t)"
  using assms(2-)
proof (induction ds arbitrary: t p h)
  case (Cons d ds)
  obtain k b where d: "d = [''data'', k, b]" using Cons.prems(2) by auto
  obtain t1 p1 where one: "restore_table req (snap d) (t, p) = (Inr (), (t1, p1))" "counts p1 (h + 1) (h + int (length (d # ds)))"
      "distinct (map fst t1)" "map_of t1 = (if k \<in> set (sq_keyspaces_to_skip req) then map_of t else moved_at d (map_of t))"
    using restore_table_ok [OF assms(1) d Cons.prems(3,4)] Cons.prems(5) d by auto
  have "\<exists>t' p'. restore_tables req (map snap ds) (t1, p1) = (Inr (), (t', p')) \<and> counts p' (h + 1 + int (length ds)) (h + 1 + int (length ds))
    \<and> map_of t' = fold moved_at (filter (\<lambda>d. d ! 1 \<notin> set (sq_keyspaces_to_skip req)) ds) (map_of t1)"
  proof (rule Cons.IH)
    show "\<forall>d \<in> set ds. d ! 1 \<notin> set (sq_keyspaces_to_skip req) \<longrightarrow> ready (map_of t1) d"
    proof (intro ballI impI)
      fix d' assume d': "d' \<in> set ds" "d' ! 1 \<notin> set (sq_keyspaces_to_skip req)"
      then have "ready (map_of t) d'" "d' \<noteq> d" "length d' = 3" using Cons.prems by auto
      then show "ready (map_of t1) d'" using ready_other [of d d' "map_of t"] one(4) d by auto
    qed
  qed (use Cons.prems one in \<open>auto simp: algebra_simps\<close>)
  then show ?case using one d by (auto simp: bind_st_def algebra_simps)
qed simp

section \<open>Unrestoring and restoring\<close>

lemma distinct_filter_keys: "distinct (map fst t) \<Longrightarrow> distinct (map fst (filter P t))"
  by (induction t) auto

lemma distinct_removals: "distinct (map fst t) \<Longrightarrow> distinct (map fst (fold removal cs t))"
  by (induction cs arbitrary: t) (auto simp: removal_def remove_below_def unlink_def distinct_filter_keys distinct_delete)

lemma remove_sstables_distinct: "remove_sstables d t = Inr t' \<Longrightarrow> distinct (map fst t) \<Longrightarrow> distinct (map fst t')"
  using distinct_removals [of t "children t d", unfolded removal_def [abs_def]]
  by (auto simp: remove_sstables_def rmtree_def remove_below_def unlink_def distinct_filter_keys distinct_delete split: if_splits)

lemma clean_each_distinct:
  assumes "\<And>q t t'. f q t = Inr t' \<Longrightarrow> distinct (map fst t) \<Longrightarrow> distinct (map fst t')"
    and "clean_each f ps s = (Inr (), s')" and "distinct (map fst (fst s))"
  shows "distinct (map fst (fst s'))"
  using assms(2,3)
proof (induction ps arbitrary: s)
  case (Cons q ps)
  obtain t1 where t1: "f q (fst s) = Inr t1" using Cons.prems(1) by (cases "f q (fst s)") (auto simp: bind_st_def on_tree_def)
  obtain r p1 where p1: "add_success 1 (snd s) = (r, p1)" by fastforce
  with Cons.prems(1) t1 have "clean_each f ps (t1, p1) = (Inr (), s')" by (cases r) (auto simp: bind_st_def on_tree_def on_progress_def)
  then show ?case using Cons.IH [of "(t1, p1)"] assms(1) [OF t1 Cons.prems(2)] by simp
qed simp

lemma unrestore_distinct:
  assumes "unrestore_sstables (t, p) = (Inr (), (t', p'))" and "distinct (map fst t)"
  shows "distinct (map fst t')"
proof -
  obtain q q' where "clean_each remove_sstables (glob_paths (glob_of TABLES_GLOB) t) (t, q) = (Inr (), (t', q'))"
    using assms(1) by (auto simp: unrestore_sstables_def clean_matching_def bind_st_def on_progress_def Let_def split: prod.splits sum.splits)
  then show ?thesis using clean_each_distinct [of remove_sstables] remove_sstables_distinct assms(2) by fastforce
qed

text \<open>A restored snapshot holds files only, none with the name of a directory that is kept.\<close>

definition tables_ok :: "(path \<rightharpoonup> fs_entry) \<Rightarrow> bool" where
  "tables_ok m \<longleftrightarrow> (\<forall>d. length d = 3 \<and> m (snap d) \<noteq> None \<longrightarrow> (\<forall>c. m (d @ [''backups'']) \<noteq> Some (File c))
     \<and> (\<forall>n e. m (snap d @ [n]) = Some e \<longrightarrow> e \<noteq> Dir \<and> \<not> kept_name n))"

text \<open>The files after both operations: a table has the files of its snapshot and its incremental backups; the snapshot of a table that was not skipped
  is empty; tables without a snapshot are gone; other files are as they were.\<close>

definition restored :: "string list \<Rightarrow> (path \<rightharpoonup> fs_entry) \<Rightarrow> path \<rightharpoonup> fs_entry" where
  "restored skipped m p = (if length p \<ge> 3 \<and> hd p = ''data'' then
     (let d = take 3 p; skip = (d ! 1 \<in> set skipped) in
      if m (snap d) = None then None
      else if length p > 3 \<and> \<not> kept_name (p ! 3) then (if length p = 4 \<and> \<not> skip then m (snap d @ [p ! 3]) else None)
      else if \<not> skip \<and> length p = 6 \<and> take 5 p = snap d then None
      else m p)
   else m p)"

lemma unrestored_at:
  assumes "length d = 3" and "hd d = ''data''"
  shows "unrestored m (snap d @ x) = (if m (snap d) \<noteq> None then m (snap d @ x) else None)"
    and "unrestored m d = (if m (snap d) \<noteq> None then m d else None)"
    and "unrestored m (d @ [n]) = (if m (snap d) \<noteq> None \<and> kept_name n then m (d @ [n]) else None)"
  using assms by (cases d; auto simp: unrestored_def pruned_def snap_def nth_append kept_name_def hd_append)+

lemma unrestored_ready:
  assumes c: "closed m" and ok: "tables_ok m" and d: "length d = 3" "hd d = ''data''" and s: "m (snap d) \<noteq> None"
  shows "ready (unrestored m) d"
proof -
  have "m d = Some Dir" using closed_above [OF c s, of d] d by (cases d) (auto simp: snap_def)
  moreover have "m (d @ [''snapshots'']) = Some Dir" using closed_above [OF c s, of "d @ [''snapshots'']"] by (auto simp: snap_def)
  ultimately show ?thesis
    using ok d s unfolding ready_def tables_ok_def by (auto simp: unrestored_at kept_name_def split: if_splits)
qed

lemma snapshots_listed:
  "q \<in> set (glob_paths (glob_of SNAPSHOT_GLOB) t) \<longleftrightarrow> map_of t q \<noteq> None \<and> (\<exists>k b. q = snap [''data'', k, b])"
proof -
  have "list_all2 part_matches [''data'', ''*'', ''*'', ''snapshots'', SNAPSHOT_NAME] q \<longleftrightarrow> (\<exists>k b. q = snap [''data'', k, b])"
    by (auto simp: list_all2_Cons1 snap_def)
  then show ?thesis by (auto simp: snapshot_glob glob_paths_def map_of_eq_None_iff)
qed

lemma restored_of_unrestored:
  assumes "distinct ds" and ds: "\<forall>d. d \<in> set ds \<longleftrightarrow> (\<exists>k b. d = [''data'', k, b]) \<and> unrestored m (snap d) \<noteq> None \<and> d ! 1 \<notin> set skipped" and c: "closed m"
    and ok: "tables_ok m"
  shows "fold moved_at ds (unrestored m) = restored skipped m"
proof (rule ext)
  fix p
  have l3: "\<forall>d \<in> set ds. length d = 3" using ds by auto
  have f: "fold moved_at ds (unrestored m) p = (if take 3 p \<in> set ds then moved_at (take 3 p) (unrestored m) p else unrestored m p)"
    using fold_moved_at [OF l3 assms(1)] .
  show "fold moved_at ds (unrestored m) p = restored skipped m p"
  proof (cases "length p \<ge> 3 \<and> hd p = ''data''")
    case True
    let ?d = "take 3 p"
    have d: "length ?d = 3" "hd ?d = ''data''" "\<exists>k b. ?d = [''data'', k, b]" using True by (auto simp: length_Suc_conv eval_nat_numeral Suc_le_length_iff)
    have in_ds: "?d \<in> set ds \<longleftrightarrow> m (snap ?d) \<noteq> None \<and> ?d ! 1 \<notin> set skipped"
      using ds d unrestored_at(1) [OF d(1,2), of m "[]"] by auto
    have u: "unrestored m p = (if m (snap ?d) \<noteq> None \<and> (length p > 3 \<longrightarrow> kept_name (p ! 3)) then m p else None)"
      using True by (simp add: unrestored_def pruned_def)
    have not_both: "m (snap ?d @ [n]) \<noteq> None \<Longrightarrow> \<not> kept_name n" if "m (snap ?d) \<noteq> None" for n
      using ok d(1) that unfolding tables_ok_def by blast
    show ?thesis
    proof (cases "m (snap ?d) = None")
      case True
      then show ?thesis using f in_ds u \<open>3 \<le> length p \<and> hd p = ''data''\<close> by (simp add: restored_def Let_def)
    next
      case False
      have u5: "unrestored m (snap ?d @ [p ! 3]) = m (snap ?d @ [p ! 3])" using unrestored_at(1) [OF d(1,2)] False by simp
      have k: "kept_name (p ! 3)" if "length p = 6" "take 5 p = snap ?d"
      proof -
        have "p ! 3 = take 5 p ! 3" using that(1) by simp
        then show ?thesis using that(2) d(1) by (simp add: kept_name_def)
      qed
      show ?thesis using True False f in_ds u u5 k not_both [OF False, of "p ! 3"]
        by (cases "?d ! 1 \<in> set skipped") (auto simp: restored_def Let_def moved_at_def)
    qed
  next
    case False
    then have "?thesis \<longleftrightarrow> fold moved_at ds (unrestored m) p = m p" by (auto simp: restored_def)
    moreover have "take 3 p \<notin> set ds"
    proof
      assume "take 3 p \<in> set ds"
      then obtain k b where "take 3 p = [''data'', k, b]" using ds by blast
      then show False using False by (metis hd_take length_Cons length_take list.sel(1) list.size(3) min.cobounded1 numeral_3_eq_3 zero_less_Suc)
    qed
    moreover have "unrestored m p = m p" using False by (auto simp: unrestored_def)
    ultimately show ?thesis using f by simp
  qed
qed


definition example_tree :: tree where
  "example_tree = [([''data''], Dir), ([''data'', ''ks''], Dir), ([''data'', ''ks'', ''t-1''], Dir), ([''data'', ''ks'', ''t-1'', ''live.db''], File ''old''),
     ([''data'', ''ks'', ''t-1'', ''snapshots''], Dir), ([''data'', ''ks'', ''t-1'', ''snapshots'', SNAPSHOT_NAME], Dir),
     ([''data'', ''ks'', ''t-1'', ''snapshots'', SNAPSHOT_NAME, ''a.db''], File ''data''), ([''data'', ''ks'', ''u-2''], Dir)]"

definition example_request :: sstables_request where
  "example_request = \<lparr>sq_table_glob = SNAPSHOT_GLOB, sq_keyspaces_to_skip = [''system''], sq_match_tables_by = Cfid, sq_expect_empty_target = True\<rparr>"


end
