(* ===== verification/Cassandra_Steps.thy ===== *)
theory Cassandra_Steps
  imports Backup_Steps Cassandra_Schema Cassandra_Node
begin

text \<open>
  The coordinator's side of the Cassandra plugin (\<^verbatim>\<open>model.py\<close>, \<^verbatim>\<open>utils.py\<close>, \<^verbatim>\<open>backup_steps.py\<close> and
  \<^verbatim>\<open>restore_steps.py\<close> under \<^verbatim>\<open>astacus/coordinator/plugins/cassandra/\<close>). A step is a function of the results that it takes
  from the context; which results these are is recorded in \<open>Plugin_Steps\<close>. Shown: the nodes of a manifest are the nodes of the ring, in the order of
  the configuration, each with its own tokens; and Cassandra counts as started only when all nodes agree on one schema.
\<close>

section \<open>Nodes\<close>

record configuration_node =
  cfn_address :: "string option"
  cfn_host_id :: "string option"
  cfn_listen_address :: "string option"
  cfn_tokens :: "string list option"

record manifest_node =
  mfn_address :: string
  mfn_host_id :: string
  mfn_listen_address :: string
  mfn_rack :: string
  mfn_tokens :: "string list"

text \<open>An attribute of the configuration that is not given, or empty, matches anything.\<close>

definition attribute_matches :: "'a list option \<Rightarrow> 'a list \<Rightarrow> bool" where
  "attribute_matches other_value v \<longleftrightarrow> (case other_value of None \<Rightarrow> True | Some x \<Rightarrow> x = [] \<or> v = x)"

definition matches_configuration_node :: "manifest_node \<Rightarrow> configuration_node \<Rightarrow> bool" where
  "matches_configuration_node m n \<longleftrightarrow> attribute_matches (cfn_address n) (mfn_address m) \<and> attribute_matches (cfn_host_id n) (mfn_host_id m)
     \<and> attribute_matches (cfn_listen_address n) (mfn_listen_address m) \<and> attribute_matches (cfn_tokens n) (mfn_tokens m)"

record cassandra_manifest =
  csm_schema :: "cassandra_keyspace list"
  csm_nodes :: "manifest_node list"

text \<open>A host as the driver describes it.\<close>

record ring_host =
  rh_address :: string
  rh_host_id :: string
  rh_listen_address :: "string option"
  rh_broadcast_address :: "string option"
  rh_rack :: string
  rh_datacenter :: string

definition other_datacenter :: "string option \<Rightarrow> ring_host \<Rightarrow> bool" where
  "other_datacenter datacenter host \<longleftrightarrow> (case datacenter of None \<Rightarrow> False | Some d \<Rightarrow> d \<noteq> [] \<and> rh_datacenter host \<noteq> d)"

definition make_manifest_node :: "ring_host \<Rightarrow> manifest_node result" where
  "make_manifest_node host =
     (case (case rh_listen_address host of Some (c # cs) \<Rightarrow> Some (c # cs) | _ \<Rightarrow> rh_broadcast_address host) of
        None \<Rightarrow> Inl ValueError
      | Some a \<Rightarrow> Inr \<lparr>mfn_address = rh_address host, mfn_host_id = rh_host_id host, mfn_listen_address = a, mfn_rack = rh_rack host, mfn_tokens = []\<rparr>)"

definition add_token :: "string \<Rightarrow> manifest_node \<Rightarrow> manifest_node" where
  "add_token token node = node\<lparr>mfn_tokens := mfn_tokens node @ [token]\<rparr>"

fun collect_ring :: "string option \<Rightarrow> (string \<times> ring_host) list \<Rightarrow> (string \<times> manifest_node) list \<Rightarrow> (string \<times> manifest_node) list result" where
  "collect_ring datacenter [] host_id_to_node = Inr host_id_to_node"
| "collect_ring datacenter ((token, host) # rest) host_id_to_node =
     (if other_datacenter datacenter host then collect_ring datacenter rest host_id_to_node
      else bind_res (case dict_get host_id_to_node (rh_host_id host) of None \<Rightarrow> make_manifest_node host | Some node \<Rightarrow> Inr node) (\<lambda>node.
        collect_ring datacenter rest (dict_set (rh_host_id host) (add_token token node) host_id_to_node)))"

fun match_nodes :: "manifest_node list \<Rightarrow> configuration_node list \<Rightarrow> manifest_node list \<Rightarrow> manifest_node list result" where
  "match_nodes ring [] nodes = Inr nodes"
| "match_nodes ring (configured_node # rest) nodes =
     (case filter (\<lambda>m. matches_configuration_node m configured_node) ring of
        [m] \<Rightarrow> if m \<in> set nodes then Inl ValueError else match_nodes ring rest (nodes @ [m])
      | _ \<Rightarrow> Inl ValueError)"

definition remove_other_datacenters :: "string \<Rightarrow> cassandra_keyspace \<Rightarrow> cassandra_keyspace result" where
  "remove_other_datacenters datacenter k = (case dict_get (ck_network_topology_strategy_dcs k) datacenter of
     Some (c # rf) \<Rightarrow> Inr (k\<lparr>ck_network_topology_strategy_dcs := [(datacenter, c # rf)]\<rparr>)
   | _ \<Rightarrow> Inl ValueError)"

definition only_datacenter :: "string option \<Rightarrow> cassandra_keyspace \<Rightarrow> cassandra_keyspace result" where
  "only_datacenter datacenter k = (case datacenter of
     Some (c # d) \<Rightarrow> if ck_network_topology_strategy_dcs k \<noteq> [] then remove_other_datacenters (c # d) k else Inr k
   | _ \<Rightarrow> Inr k)"

text \<open>\<open>token_map\<close> reads the owners of the tokens from the metadata, \<open>schema\<close> the schema.\<close>

definition retrieve_manifest_from_cassandra :: "('c \<Rightarrow> (string \<times> ring_host) list) \<Rightarrow> ('c, cassandra_keyspace list) stateful
    \<Rightarrow> configuration_node list \<Rightarrow> string option \<Rightarrow> ('c, cassandra_manifest) stateful" where
  "retrieve_manifest_from_cassandra token_map schema config_nodes datacenter c =
     (case collect_ring datacenter (token_map c) [] of
        Inl e \<Rightarrow> (Inl e, c)
      | Inr host_id_to_node \<Rightarrow>
          (case match_nodes (map snd host_id_to_node) config_nodes [] of
             Inl e \<Rightarrow> (Inl e, c)
           | Inr nodes \<Rightarrow>
               if length nodes \<noteq> length host_id_to_node then (Inl ValueError, c)
               else bind_st schema (\<lambda>keyspaces. lift_res (bind_res (map_res (only_datacenter datacenter) keyspaces) (\<lambda>ks.
                 Inr \<lparr>csm_schema = ks, csm_nodes = nodes\<rparr>))) c))"

section \<open>Operations on the nodes\<close>

definition run_subop :: "('w, 'j, 'h) env \<Rightarrow> (string \<Rightarrow> 'a node_result_scheme result) \<Rightarrow> cassandra_sub_op \<Rightarrow> coordinator_node list option
    \<Rightarrow> request_body option \<Rightarrow> request_body list option \<Rightarrow> (('w, 'j, 'h) world, 'a node_result_scheme list) stateful" where
  "run_subop ev decode subop nodes req reqs =
     bind_st (step_request ev (''cassandra/'' @ sub_op_value subop)
         (if req = None \<and> (case reqs of None \<Rightarrow> True | Some rs \<Rightarrow> rs = []) then Some PlainRequest else req) reqs nodes) (\<lambda>start_results.
       if start_results = [] then fail_st StepFailedError else step_wait ev decode start_results)"

record schema_hash_result = node_result +
  sh_schema_hash :: string

text \<open>The hash, or the empty string and whether there is a reason to report.\<close>

definition agreed_hash :: "string list \<Rightarrow> string \<times> bool" where
  "agreed_hash hashes = (if hashes = [] then ([], True) else if card (set hashes) \<noteq> 1 then ([], True) else (hd hashes, False))"

definition get_schema_hash :: "('w, 'j, 'h) env \<Rightarrow> (string \<Rightarrow> schema_hash_result result) \<Rightarrow> coordinator_node list option
    \<Rightarrow> (('w, 'j, 'h) world, string \<times> bool) stateful" where
  "get_schema_hash ev decode nodes = bind_st (run_subop ev decode GetSchemaHash nodes None None) (\<lambda>rs. return_st (agreed_hash (map sh_schema_hash rs)))"

definition snapshot_groups :: "snapshot_group list" where
  "snapshot_groups = map (\<lambda>x. make_snapshot_group (''data/*/*/snapshots/'' @ SNAPSHOT_NAME @ ''/*'' @ x)) [''.db'', ''.txt'', ''.crc32'']"

definition delta_snapshot_groups :: "snapshot_group list" where
  "delta_snapshot_groups = map (\<lambda>x. make_snapshot_group (''data/*/*/backups/*'' @ x)) [''.db'', ''.txt'', ''.crc32'']"

section \<open>The steps of a backup\<close>

definition retrieve_schema_hash_step :: "('w, 'j, 'h) env \<Rightarrow> (string \<Rightarrow> schema_hash_result result) \<Rightarrow> (('w, 'j, 'h) world, string) stateful" where
  "retrieve_schema_hash_step ev decode = bind_st (get_schema_hash ev decode None) (\<lambda>(schema_hash, err).
     if schema_hash = [] then fail_st TransientException else return_st schema_hash)"

definition assert_schema_unchanged :: "('w, 'j, 'h) env \<Rightarrow> (string \<Rightarrow> schema_hash_result result) \<Rightarrow> string \<Rightarrow> (('w, 'j, 'h) world, unit) stateful" where
  "assert_schema_unchanged ev decode retrieved = bind_st (get_schema_hash ev decode None) (\<lambda>(schema_hash, err).
     if schema_hash = [] then fail_st TransientException else if schema_hash \<noteq> retrieved then fail_st StepFailedError else return_st ())"

definition cassandra_sub_op_step :: "('w, 'j, 'h) env \<Rightarrow> cassandra_sub_op \<Rightarrow> (('w, 'j, 'h) world, unit) stateful" where
  "cassandra_sub_op_step ev subop = bind_st (run_subop ev (ev_decode_node ev) subop None None None) (\<lambda>_. return_st ())"

definition validate_configuration_step :: "('w, 'j, 'h) env \<Rightarrow> configuration_node list \<Rightarrow> (('w, 'j, 'h) world, unit) stateful" where
  "validate_configuration_step ev nodes = (if length nodes \<noteq> length (cl_nodes (ev_cluster ev)) then fail_st StepFailedError else return_st ())"

section \<open>The steps of a restore\<close>

text \<open>\<open>strategy_cql\<close> is the statement that the driver makes for a keyspace and its datacenters, \<open>parse\<close> the parser of the plugin's data.\<close>

definition rewrite_datacenters :: "(cassandra_keyspace \<Rightarrow> string) \<Rightarrow> cassandra_keyspace \<Rightarrow> cassandra_keyspace" where
  "rewrite_datacenters strategy_cql k = (if ck_network_topology_strategy_dcs k \<noteq> [] then k\<lparr>cn_cql_create_self := strategy_cql k\<rparr> else k)"

definition parse_plugin_manifest_step :: "(json \<Rightarrow> cassandra_manifest result) \<Rightarrow> (cassandra_keyspace \<Rightarrow> string) \<Rightarrow> backup_manifest \<Rightarrow> cassandra_manifest result" where
  "parse_plugin_manifest_step parse strategy_cql m = bind_res (parse (bm_plugin_data m)) (\<lambda>c.
     Inr (c\<lparr>csm_schema := map (rewrite_datacenters strategy_cql) (csm_schema c)\<rparr>))"

definition mapped_nodes :: "('w, 'j, 'h) env \<Rightarrow> nat option list \<Rightarrow> coordinator_node list" where
  "mapped_nodes ev mapping = map fst (filter (\<lambda>(n, i). i \<noteq> None) (zip (cl_nodes (ev_cluster ev)) mapping))"

definition cassandra_restore_sub_op_step :: "('w, 'j, 'h) env \<Rightarrow> cassandra_sub_op \<Rightarrow> request_body option \<Rightarrow> nat option list \<Rightarrow> (('w, 'j, 'h) world, unit) stateful" where
  "cassandra_restore_sub_op_step ev subop req mapping =
     bind_st (run_subop ev (ev_decode_node ev) subop (Some (mapped_nodes ev mapping)) req None) (\<lambda>_. return_st ())"

fun find_matching_cassandra_index :: "configuration_node list \<Rightarrow> manifest_node \<Rightarrow> nat option" where
  "find_matching_cassandra_index [] backup_node = None"
| "find_matching_cassandra_index (n # ns) backup_node =
     (if matches_configuration_node backup_node n then Some 0 else map_option Suc (find_matching_cassandra_index ns backup_node))"

fun nodes_to_stop :: "coordinator_node list \<Rightarrow> configuration_node list \<Rightarrow> manifest_node list \<Rightarrow> nat option list \<Rightarrow> coordinator_node list result" where
  "nodes_to_stop nodes cassandra_nodes backup_nodes [] = Inr []"
| "nodes_to_stop nodes cassandra_nodes backup_nodes (None # rest) = nodes_to_stop nodes cassandra_nodes backup_nodes rest"
| "nodes_to_stop nodes cassandra_nodes backup_nodes (Some i # rest) =
     (if i \<ge> length backup_nodes then Inl IndexError
      else case find_matching_cassandra_index cassandra_nodes (backup_nodes ! i) of
        None \<Rightarrow> nodes_to_stop nodes cassandra_nodes backup_nodes rest
      | Some j \<Rightarrow> if j \<ge> length nodes then Inl IndexError
          else bind_res (nodes_to_stop nodes cassandra_nodes backup_nodes rest) (\<lambda>ns. Inr (nodes ! j # ns)))"

definition stop_replaced_nodes_step :: "('w, 'j, 'h) env \<Rightarrow> configuration_node list \<Rightarrow> nat option list \<Rightarrow> cassandra_manifest
    \<Rightarrow> (('w, 'j, 'h) world, coordinator_node list) stateful" where
  "stop_replaced_nodes_step ev cassandra_nodes mapping manifest =
     bind_st (lift_res (nodes_to_stop (cl_nodes (ev_cluster ev)) cassandra_nodes (csm_nodes manifest) mapping)) (\<lambda>ns.
       if ns = [] then return_st []
       else bind_st (run_subop ev (ev_decode_node ev) StopCassandra (Some ns) None None) (\<lambda>_. return_st ns))"

definition get_node_metadata :: "('w, 'j, 'h) env \<Rightarrow> coordinator_node \<Rightarrow> (('w, 'j, 'h) world, string list list) stateful" where
  "get_node_metadata ev node =
     bind_st (on_nodes (request_from_nodes (ev_cluster ev) (ev_send_raw ev) ''metadata'' None None (Some [node]))) (\<lambda>as.
       lift_res (map_res (metadata_of (ev_decode_features ev)) as))"

definition snapshot_delta :: "('w, 'j, 'h) env \<Rightarrow> coordinator_node \<Rightarrow> (('w, 'j, 'h) world, snapshot_result list) stateful" where
  "snapshot_delta ev node = bind_st (get_node_metadata ev node) (\<lambda>metadata.
     if length metadata \<noteq> 1 then fail_st StepFailedError
     else bind_st (step_request ev ''delta/snapshot'' (Some (SnapshotReq (create_snapshot_request delta_snapshot_groups (set (hd metadata))))) None (Some [node]))
       (step_wait ev (ev_decode_snapshot ev)))"

definition upload_delta :: "('w, 'j, 'h) env \<Rightarrow> string \<Rightarrow> coordinator_node \<Rightarrow> snapshot_hash list \<Rightarrow> (('w, 'j, 'h) world, upload_result list) stateful" where
  "upload_delta ev storage_name node hashes =
     bind_st (step_request ev ''delta/upload'' (Some (UploadReq \<lparr>uq_hashes = hashes, uq_storage = storage_name, uq_validate_file_hashes = Some False\<rparr>)) None (Some [node]))
       (step_wait ev (ev_decode_upload ev))"

definition delta_manifest :: "('w, 'j, 'h) env \<Rightarrow> 'v steps_context \<Rightarrow> int \<Rightarrow> snapshot_result list \<Rightarrow> upload_result list \<Rightarrow> backup_manifest" where
  "delta_manifest ev c now snapshot_results upload_results = \<lparr>bm_start = sc_attempt_start c, bm_end = now, bm_attempt = int (sc_attempt c),
     bm_snapshot_results = snapshot_results, bm_upload_results = upload_results, bm_plugin = PCassandra, bm_plugin_data = JDict [],
     bm_filename = JSON_DELTA_PREFIX @ ev_isoformat ev (sc_attempt_start c)\<rparr>"

definition upload_final_delta_step :: "('w, 'j, 'h) env \<Rightarrow> string \<Rightarrow> int \<Rightarrow> 'v steps_context \<Rightarrow> coordinator_node list \<Rightarrow> (('w, 'j, 'h) world, backup_manifest list) stateful" where
  "upload_final_delta_step ev storage_name now c replaced_nodes = (case replaced_nodes of
     [replaced_node] \<Rightarrow>
       bind_st (snapshot_delta ev replaced_node) (\<lambda>snapshot_results. (case snapshot_results of
           [r] \<Rightarrow> (case sr_hashes r of
               None \<Rightarrow> fail_st StepFailedError
             | Some hashes \<Rightarrow>
                 bind_st (upload_delta ev storage_name replaced_node hashes) (\<lambda>upload_results.
                 let m = delta_manifest ev c now snapshot_results upload_results in
                 bind_st (on_jsons (upload_json_bytes (ev_jops ev) (bm_filename m) (ev_encode_manifest ev m))) (\<lambda>_. return_st [m])))
         | _ \<Rightarrow> fail_st StepFailedError))
   | _ \<Rightarrow> fail_st StepFailedError)"

definition optional_json :: "('a \<Rightarrow> json) \<Rightarrow> 'a option \<Rightarrow> json" where
  "optional_json f x = (case x of None \<Rightarrow> JNull | Some v \<Rightarrow> f v)"

definition start_request_body :: "start_request \<Rightarrow> request_body" where
  "start_request_body q = PluginReq (JDict [(''tokens'', optional_json (JList \<circ> map JStr) (st_tokens q)),
     (''replace_address_first_boot'', optional_json JStr (st_replace_address_first_boot q)),
     (''skip_bootstrap_streaming'', optional_json JBool (st_skip_bootstrap_streaming q))])"

definition node_start_request :: "bool \<Rightarrow> configuration_node list \<Rightarrow> bool \<Rightarrow> manifest_node \<Rightarrow> start_request" where
  "node_start_request override_tokens cassandra_nodes replace_backup_nodes backup_node =
     (let replace = replace_backup_nodes \<and> list_ex (matches_configuration_node backup_node) cassandra_nodes in
      \<lparr>st_tokens = (if override_tokens then Some (mfn_tokens backup_node) else None),
       st_replace_address_first_boot = (if replace then Some (mfn_listen_address backup_node) else None),
       st_skip_bootstrap_streaming = (if replace then Some True else None)\<rparr>)"

fun start_requests :: "bool \<Rightarrow> configuration_node list \<Rightarrow> bool \<Rightarrow> manifest_node list \<Rightarrow> (coordinator_node \<times> nat option) list
    \<Rightarrow> (coordinator_node \<times> start_request) list result" where
  "start_requests override_tokens cassandra_nodes replace backup_nodes [] = Inr []"
| "start_requests override_tokens cassandra_nodes replace backup_nodes ((node, None) # rest) =
     start_requests override_tokens cassandra_nodes replace backup_nodes rest"
| "start_requests override_tokens cassandra_nodes replace backup_nodes ((node, Some i) # rest) =
     (if i \<ge> length backup_nodes then Inl IndexError
      else bind_res (start_requests override_tokens cassandra_nodes replace backup_nodes rest) (\<lambda>qs.
        Inr ((node, node_start_request override_tokens cassandra_nodes replace (backup_nodes ! i)) # qs)))"

definition start_cassandra_step :: "('w, 'j, 'h) env \<Rightarrow> bool \<Rightarrow> configuration_node list \<Rightarrow> bool \<Rightarrow> nat option list \<Rightarrow> cassandra_manifest
    \<Rightarrow> (('w, 'j, 'h) world, unit) stateful" where
  "start_cassandra_step ev override_tokens cassandra_nodes replace mapping manifest =
     bind_st (lift_res (start_requests override_tokens cassandra_nodes replace (csm_nodes manifest) (zip (cl_nodes (ev_cluster ev)) mapping))) (\<lambda>qs.
     bind_st (run_subop ev (ev_decode_node ev) StartCassandra (Some (map fst qs)) None (Some (map (start_request_body \<circ> snd) qs))) (\<lambda>_. return_st ()))"

text \<open>The nodes that are asked for their schema: all, or all but the replaced one when it is part of the cluster.\<close>

definition nodes_to_ask :: "coordinator_node list \<Rightarrow> coordinator_node list option \<Rightarrow> coordinator_node list option result" where
  "nodes_to_ask nodes replaced = (case replaced of
     None \<Rightarrow> Inr None
   | Some [r] \<Rightarrow> Inr (if r \<in> set nodes then Some (filter (\<lambda>n. n \<noteq> r) nodes) else None)
   | Some _ \<Rightarrow> Inl StepFailedError)"

text \<open>The backoff lets the loop run \<open>rounds\<close> times.\<close>

fun wait_for_schema :: "('w, 'j, 'h) env \<Rightarrow> (string \<Rightarrow> schema_hash_result result) \<Rightarrow> coordinator_node list option \<Rightarrow> nat \<Rightarrow> (('w, 'j, 'h) world, unit) stateful" where
  "wait_for_schema ev decode nodes 0 = fail_st StepFailedError"
| "wait_for_schema ev decode nodes (Suc rounds) = bind_st (get_schema_hash ev decode nodes) (\<lambda>(current_hash, err).
     if current_hash \<noteq> [] then return_st () else wait_for_schema ev decode nodes rounds)"

definition wait_cassandra_up_step :: "('w, 'j, 'h) env \<Rightarrow> (string \<Rightarrow> schema_hash_result result) \<Rightarrow> nat \<Rightarrow> coordinator_node list option
    \<Rightarrow> (('w, 'j, 'h) world, unit) stateful" where
  "wait_cassandra_up_step ev decode rounds replaced =
     bind_st (lift_res (nodes_to_ask (cl_nodes (ev_cluster ev)) replaced)) (\<lambda>nodes. wait_for_schema ev decode nodes rounds)"

definition table_matching_value :: "table_matching \<Rightarrow> string" where
  "table_matching_value m = (case m of Cfid \<Rightarrow> ''cfid'' | Cfname \<Rightarrow> ''cfname'')"

definition sstables_request_body :: "sstables_request \<Rightarrow> request_body" where
  "sstables_request_body q = PluginReq (JDict [(''table_glob'', JStr (sq_table_glob q)), (''keyspaces_to_skip'', JList (map JStr (sq_keyspaces_to_skip q))),
     (''match_tables_by'', JStr (table_matching_value (sq_match_tables_by q))), (''expect_empty_target'', JBool (sq_expect_empty_target q))])"

definition restore_cassandra_deltas_req :: sstables_request where
  "restore_cassandra_deltas_req = \<lparr>sq_table_glob = BACKUP_GLOB, sq_keyspaces_to_skip = filter (\<lambda>ks. ks \<noteq> ''system_schema'') SYSTEM_KEYSPACES,
     sq_match_tables_by = Cfid, sq_expect_empty_target = False\<rparr>"

definition restore_cassandra_deltas_step :: "('w, 'j, 'h) env \<Rightarrow> string \<Rightarrow> partial_restore_node list option \<Rightarrow> string
    \<Rightarrow> step_value steps_context \<Rightarrow> (('w, 'j, 'h) world, step_value option) stateful" where
  "restore_cassandra_deltas_step ev storage_name partial manifests_class =
     restore_deltas_step ev storage_name (''cassandra/'' @ sub_op_value RestoreSstables) (sstables_request_body restore_cassandra_deltas_req) partial manifests_class"

text \<open>The schema is restored in two halves, by the schema of the manifest.\<close>

definition restore_pre_data_step :: "('w, cluster_metadata) cas_session \<Rightarrow> cassandra_manifest \<Rightarrow> ('w, unit) stateful" where
  "restore_pre_data_step cas m = restore_pre_data cas (csm_schema m)"

definition restore_post_data_step :: "('w, cluster_metadata) cas_session \<Rightarrow> cassandra_manifest \<Rightarrow> ('w, unit) stateful" where
  "restore_post_data_step cas m = restore_post_data cas (csm_schema m)"

section \<open>The nodes of a manifest\<close>

definition ring_of :: "string option \<Rightarrow> (string \<times> ring_host) list \<Rightarrow> (string \<times> ring_host) list" where
  "ring_of datacenter token_map = filter (\<lambda>th. \<not> other_datacenter datacenter (snd th)) token_map"

definition tokens_of :: "(string \<times> ring_host) list \<Rightarrow> string \<Rightarrow> string list" where
  "tokens_of ring host_id = map fst (filter (\<lambda>th. rh_host_id (snd th) = host_id) ring)"

definition by_host :: "(string \<times> manifest_node) list \<Rightarrow> bool" where
  "by_host al \<longleftrightarrow> distinct (map fst al) \<and> (\<forall>hid n. map_of al hid = Some n \<longrightarrow> mfn_host_id n = hid)"

lemma by_host_update:
  assumes "by_host al" and "mfn_host_id n = hid"
  shows "by_host (dict_set hid n al)"
  using assms by (auto simp: by_host_def distinct_update update_conv' split: if_splits)

lemma collect_ring_result:
  assumes "collect_ring datacenter token_map acc = Inr r" and "by_host acc"
  shows "by_host r \<and> fst ` set r = fst ` set acc \<union> rh_host_id ` snd ` set (ring_of datacenter token_map)
    \<and> (\<forall>hid n. map_of r hid = Some n \<longrightarrow> mfn_tokens n = (case map_of acc hid of None \<Rightarrow> [] | Some a \<Rightarrow> mfn_tokens a) @ tokens_of (ring_of datacenter token_map) hid)"
  using assms
proof (induction token_map arbitrary: acc)
  case (Cons th rest)
  obtain token host where th: "th = (token, host)" by (cases th)
  show ?case
  proof (cases "other_datacenter datacenter host")
    case True
    then show ?thesis using Cons th by (simp add: ring_of_def)
  next
    case False
    let ?id = "rh_host_id host"
    obtain n where n: "(case map_of acc ?id of None \<Rightarrow> make_manifest_node host | Some node \<Rightarrow> Inr node) = Inr n"
        and rest: "collect_ring datacenter rest (dict_set ?id (add_token token n) acc) = Inr r"
      using Cons.prems(1) False th by (auto simp: bind_res_def split: sum.splits)
    have i: "mfn_host_id n = ?id" and tk: "mfn_tokens n = (case map_of acc ?id of None \<Rightarrow> [] | Some a \<Rightarrow> mfn_tokens a)"
      using n Cons.prems(2) by (auto simp: by_host_def make_manifest_node_def simp del: map_of_eq_Some_iff split: option.splits list.splits)
    have b: "by_host (dict_set ?id (add_token token n) acc)" using Cons.prems(2) i by (intro by_host_update) (auto simp: add_token_def)
    have k: "fst ` set (dict_set ?id (add_token token n) acc) = insert ?id (fst ` set acc)"
      by (simp add: dom_map_of_conv_image_fst [symmetric] update_conv')
    show ?thesis using Cons.IH [OF rest b] False th k tk
      by (auto simp: ring_of_def tokens_of_def update_conv' add_token_def split: option.splits)
  qed
qed (auto simp: ring_of_def tokens_of_def split: option.splits)

lemma match_nodes_result:
  assumes "match_nodes ring config nodes = Inr r" and "distinct nodes"
  shows "\<exists>ms. r = nodes @ ms \<and> list_all2 (\<lambda>m n. filter (\<lambda>x. matches_configuration_node x n) ring = [m]) ms config \<and> distinct r"
  using assms
proof (induction config arbitrary: nodes)
  case (Cons n config)
  obtain m where m: "filter (\<lambda>x. matches_configuration_node x n) ring = [m]" "m \<notin> set nodes" "match_nodes ring config (nodes @ [m]) = Inr r"
    using Cons.prems(1) by (auto split: list.splits if_splits)
  from Cons.IH [OF m(3)] Cons.prems(2) m(2) obtain ms where "r = (nodes @ [m]) @ ms"
      "list_all2 (\<lambda>m n. filter (\<lambda>x. matches_configuration_node x n) ring = [m]) ms config" "distinct r" by auto
  then show ?case using m(1) by (intro exI [of _ "m # ms"]) auto
qed simp

text \<open>C26. The manifest of a Cassandra backup describes the ring: it has one node per configured node, in the order of the configuration, which is the only
  node of the ring that matches the configured one; together they are all the nodes of the datacenter, and each has exactly the tokens that it owns.\<close>

theorem cassandra_nodes_matched:
  assumes "retrieve_manifest_from_cassandra token_map schema config_nodes datacenter c = (Inr m, c')"
  shows "length (csm_nodes m) = length config_nodes
    \<and> (\<forall>i < length config_nodes. \<forall>n \<in> set (csm_nodes m). matches_configuration_node n (config_nodes ! i) \<longleftrightarrow> n = csm_nodes m ! i)
    \<and> distinct (map mfn_host_id (csm_nodes m))
    \<and> mfn_host_id ` set (csm_nodes m) = rh_host_id ` snd ` set (ring_of datacenter (token_map c))
    \<and> (\<forall>n \<in> set (csm_nodes m). mfn_tokens n = tokens_of (ring_of datacenter (token_map c)) (mfn_host_id n))"
proof -
  obtain r nodes where r: "collect_ring datacenter (token_map c) [] = Inr r" and n: "match_nodes (map snd r) config_nodes [] = Inr nodes"
      and l: "length nodes = length r" and m: "csm_nodes m = nodes"
    using assms by (auto simp: retrieve_manifest_from_cassandra_def bind_st_def bind_res_def split: sum.splits prod.splits if_splits)
  note R = collect_ring_result [OF r, unfolded by_host_def, simplified]
  have dh: "map mfn_host_id (map snd r) = map fst r" using R by (auto simp: map_of_eq_Some_iff)
  then have ds: "distinct (map snd r)" using R by (metis distinct_map)
  obtain la: "list_all2 (\<lambda>m n. filter (\<lambda>x. matches_configuration_node x n) (map snd r) = [m]) nodes config_nodes" and d: "distinct nodes"
    using match_nodes_result [OF n] by auto
  have sub: "set nodes \<subseteq> set (map snd r)"
  proof
    fix x assume "x \<in> set nodes"
    then obtain k where "filter (\<lambda>x. matches_configuration_node x k) (map snd r) = [x]" using la by (auto simp: list_all2_conv_all_nth in_set_conv_nth)
    then have "x \<in> set (filter (\<lambda>x. matches_configuration_node x k) (map snd r))" by simp
    then show "x \<in> set (map snd r)" by simp
  qed
  have all: "set nodes = set (map snd r)"
    using sub l distinct_card [OF d] distinct_card [OF ds] by (intro card_subset_eq) (simp_all del: set_map)
  have only: "matches_configuration_node x (config_nodes ! i) \<longleftrightarrow> x = nodes ! i" if i: "i < length config_nodes" "x \<in> set nodes" for i x
  proof -
    have "filter (\<lambda>x. matches_configuration_node x (config_nodes ! i)) (map snd r) = [nodes ! i]" using la i by (simp add: list_all2_conv_all_nth)
    then have "set (filter (\<lambda>x. matches_configuration_node x (config_nodes ! i)) (map snd r)) = {nodes ! i}" by simp
    then show ?thesis using i all by auto
  qed
  have hosts: "mfn_host_id ` set nodes = fst ` set r" using all dh by (metis set_map)
  have "inj_on mfn_host_id (set nodes)" using all dh R by (metis distinct_map)
  then have "distinct (map mfn_host_id nodes)" using d by (simp add: distinct_map)
  moreover have "mfn_tokens x = tokens_of (ring_of datacenter (token_map c)) (mfn_host_id x)" if x: "x \<in> set nodes" for x
  proof -
    obtain hid where "(hid, x) \<in> set r" using x all by auto
    then have "map_of r (mfn_host_id x) = Some x" using R by (auto simp: map_of_eq_Some_iff)
    then show ?thesis using R by blast
  qed
  ultimately show ?thesis using m only la hosts R list_all2_lengthD [OF la] by auto
qed

definition example_host :: "string \<Rightarrow> ring_host" where
  "example_host n = \<lparr>rh_address = ''10.0.0.'' @ n, rh_host_id = n, rh_listen_address = None, rh_broadcast_address = Some (''10.0.0.'' @ n), rh_rack = ''r'', rh_datacenter = ''dc''\<rparr>"

definition example_ring :: "unit \<Rightarrow> (string \<times> ring_host) list" where
  "example_ring _ = [(''1'', example_host ''a''), (''2'', example_host ''b''), (''3'', example_host ''a'')]"

definition example_configuration :: "configuration_node list" where
  "example_configuration = map (\<lambda>n. \<lparr>cfn_address = None, cfn_host_id = Some n, cfn_listen_address = None, cfn_tokens = None\<rparr>) [''b'', ''a'']"

theorem cassandra_nodes_matched_witness:
  "\<exists>m. retrieve_manifest_from_cassandra example_ring (return_st []) example_configuration None () = (Inr m, ())
    \<and> map mfn_tokens (csm_nodes m) = [[''2''], [''1'', ''3'']] \<and> length (csm_nodes m) = length example_configuration
    \<and> mfn_host_id ` set (csm_nodes m) = rh_host_id ` snd ` set (ring_of None (example_ring ()))"
proof -
  let ?r = "retrieve_manifest_from_cassandra example_ring (return_st []) example_configuration None ()"
  have "(case fst ?r of Inr m \<Rightarrow> map mfn_tokens (csm_nodes m) | Inl _ \<Rightarrow> []) = [[''2''], [''1'', ''3'']] \<and> (case fst ?r of Inr _ \<Rightarrow> True | Inl _ \<Rightarrow> False)"
    by code_simp
  then obtain m where m: "?r = (Inr m, ())" "map mfn_tokens (csm_nodes m) = [[''2''], [''1'', ''3'']]"
    by (cases ?r) (auto split: sum.splits)
  then show ?thesis using cassandra_nodes_matched [OF m(1)] by auto
qed

section \<open>Starting and stopping\<close>

lemma agreed_hash_nonempty: "agreed_hash hashes = (h, err) \<Longrightarrow> h \<noteq> [] \<Longrightarrow> hashes \<noteq> [] \<and> set hashes = {h}"
proof -
  assume "agreed_hash hashes = (h, err)" "h \<noteq> []"
  then have "hashes \<noteq> []" "card (set hashes) = 1" "h = hd hashes" by (auto simp: agreed_hash_def split: if_splits)
  moreover from this obtain x where "set hashes = {x}" by (meson card_1_singletonE)
  ultimately show ?thesis using hd_in_set [of hashes] by auto
qed

text \<open>Cassandra counts as started only when all the nodes that are asked have answered with the same schema, and the wait ends after the rounds of the backoff.\<close>

lemma started_with_one_schema:
  assumes "wait_for_schema ev decode nodes rounds w = (Inr (), w')"
  shows "\<exists>w1 rs h. run_subop ev decode GetSchemaHash nodes None None w1 = (Inr rs, w') \<and> rs \<noteq> [] \<and> h \<noteq> [] \<and> (\<forall>r \<in> set rs. sh_schema_hash r = h)"
  using assms
proof (induction rounds arbitrary: w)
  case (Suc rounds)
  obtain rs w1 where rs: "run_subop ev decode GetSchemaHash nodes None None w = (Inr rs, w1)"
  proof (cases "run_subop ev decode GetSchemaHash nodes None None w")
    case (Pair x w1)
    then show ?thesis using Suc.prems that by (cases x) (simp_all add: get_schema_hash_def bind_st_def)
  qed
  obtain h err where h: "agreed_hash (map sh_schema_hash rs) = (h, err)" by fastforce
  show ?case
  proof (cases "h = []")
    case True
    then show ?thesis using Suc rs h by (simp add: get_schema_hash_def bind_st_def)
  next
    case False
    then have "w1 = w'" using Suc.prems rs h by (simp add: get_schema_hash_def bind_st_def)
    then show ?thesis using rs agreed_hash_nonempty [OF h False] False by (intro exI [of _ w] exI [of _ rs] exI [of _ h]) auto
  qed
qed simp

text \<open>When the node of the backup is no longer in the cluster, nothing is stopped, and the next step fails.\<close>

lemma replaced_node_gone:
  assumes "\<forall>i. Some i \<in> set mapping \<longrightarrow> i < length (csm_nodes manifest) \<and> find_matching_cassandra_index cassandra_nodes (csm_nodes manifest ! i) = None"
  shows "stop_replaced_nodes_step ev cassandra_nodes mapping manifest w = (Inr [], w)"
    and "upload_final_delta_step ev storage_name now c [] w = (Inl StepFailedError, w)"
proof -
  have "nodes_to_stop nodes cassandra_nodes (csm_nodes manifest) mapping = Inr []" for nodes
    using assms by (induction nodes cassandra_nodes "csm_nodes manifest" mapping rule: nodes_to_stop.induct) auto
  then show "stop_replaced_nodes_step ev cassandra_nodes mapping manifest w = (Inr [], w)"
    by (simp add: stop_replaced_nodes_step_def bind_st_def)
  show "upload_final_delta_step ev storage_name now c [] w = (Inl StepFailedError, w)" by (simp add: upload_final_delta_step_def)
qed

end
