(* ===== verification/Clickhouse_Sync.thy ===== *)
theory Clickhouse_Sync
  imports Clickhouse_Macros Clickhouse_Objects
begin

text \<open>
  Assembling the manifest of a ClickHouse backup, and waiting until the replicas of a database have caught up (\<^verbatim>\<open>steps.py\<close> and
  \<^verbatim>\<open>sync_replicated_database\<close> of \<^verbatim>\<open>replication.py\<close> under \<^verbatim>\<open>astacus/coordinator/plugins/clickhouse/\<close>).

  The wait is a state machine. ZooKeeper has a pointer per replica, which ClickHouse only ever increases; the coroutine reads each of them once, leaving a
  watch, and then waits on a condition; a change of a watched pointer uses up its watch and schedules another read, which leaves a new watch and notifies
  the condition when the pointer is far enough. These events come in any order. Shown: the wait returns only when all replicas have caught up, and no
  wake-up is lost.
\<close>

section \<open>The manifest\<close>

definition prepare_clickhouse_manifest_step :: "replicated_database list \<times> ch_table list \<Rightarrow> access_entity list \<Rightarrow> object_storage_files list \<Rightarrow> pyval" where
  "prepare_clickhouse_manifest_step databases_and_tables access_entities files = to_plugin_data
     \<lparr>cm_version = V2, cm_access_entities = access_entities, cm_replicated_databases = fst databases_and_tables,
      cm_tables = snd databases_and_tables, cm_object_storage_files = files\<rparr>"

definition clickhouse_manifest_step :: "str_field \<Rightarrow> backup_manifest \<Rightarrow> clickhouse_manifest result" where
  "clickhouse_manifest_step sf m = from_plugin_data sf (plugin_value (bm_plugin_data m))"

definition list_database_replicas_step :: "clickhouse_manifest \<Rightarrow> macros list \<Rightarrow> (string \<times> database_replica list) list result" where
  "list_database_replicas_step manifest server_macros = get_databases_replicas (cm_replicated_databases manifest) server_macros"

text \<open>The databases in the order in which they are waited for, with the paths of the pointers.\<close>

definition replica_ptr_path :: "string \<Rightarrow> database_replica \<Rightarrow> string" where
  "replica_ptr_path database_path replica = database_path @ ''/replicas/'' @ full_name replica @ ''/log_ptr''"

definition sync_targets :: "string \<Rightarrow> (string \<times> database_replica list) list \<Rightarrow> (string \<times> string list) list" where
  "sync_targets zookeeper_path databases_replicas = map (\<lambda>(name, replicas).
     (let database_path = zookeeper_path @ ''/'' @ escape_for_file_name name
      in (database_path @ ''/max_log_ptr'', map (replica_ptr_path database_path) replicas))) (sort_key fst databases_replicas)"

section \<open>Waiting for the replicas of a database\<close>

datatype sync_phase = Reading | Waiting | Synced | TimedOut

record sync_state =
  sy_zookeeper :: "int list"
  sy_watched :: "bool list"
  sy_scheduled :: "nat list"
  sy_ptrs :: "int option list"
  sy_next :: nat
  sy_phase :: sync_phase
  sy_woken :: bool

definition sync_start :: "int list \<Rightarrow> sync_state" where
  "sync_start pointers = \<lparr>sy_zookeeper = pointers, sy_watched = map (\<lambda>_. False) pointers, sy_scheduled = [], sy_ptrs = map (\<lambda>_. None) pointers,
     sy_next = 0, sy_phase = Reading, sy_woken = False\<rparr>"

definition update_replica_ptr :: "int \<Rightarrow> nat \<Rightarrow> sync_state \<Rightarrow> sync_state" where
  "update_replica_ptr database_max_ptr i s =
     s\<lparr>sy_watched := (sy_watched s)[i := True], sy_ptrs := (sy_ptrs s)[i := Some (sy_zookeeper s ! i)],
       sy_woken := sy_woken s \<or> (sy_phase s = Waiting \<and> sy_zookeeper s ! i \<ge> database_max_ptr)\<rparr>"

definition replicas_are_synced :: "int \<Rightarrow> int option list \<Rightarrow> bool" where
  "replicas_are_synced database_max_ptr ptrs \<longleftrightarrow> list_all (\<lambda>p. case p of None \<Rightarrow> False | Some n \<Rightarrow> n \<ge> database_max_ptr) ptrs"

text \<open>A change of a pointer fires the watch, if there is one.\<close>

definition pointer_changed :: "nat \<Rightarrow> int \<Rightarrow> sync_state \<Rightarrow> sync_state" where
  "pointer_changed i v s = s\<lparr>sy_zookeeper := (sy_zookeeper s)[i := v], sy_watched := (sy_watched s)[i := False],
     sy_scheduled := (if sy_watched s ! i then sy_scheduled s @ [i] else sy_scheduled s)\<rparr>"

text \<open>The predicate is looked at before waiting and after every notification.\<close>

definition look_at_predicate :: "int \<Rightarrow> sync_state \<Rightarrow> sync_state" where
  "look_at_predicate database_max_ptr s =
     (if replicas_are_synced database_max_ptr (sy_ptrs s) then s\<lparr>sy_phase := Synced\<rparr> else s\<lparr>sy_phase := Waiting, sy_woken := False\<rparr>)"

inductive sync_step :: "int \<Rightarrow> sync_state \<Rightarrow> sync_state \<Rightarrow> bool" for database_max_ptr where
  change: "\<lbrakk>i < length (sy_zookeeper s); v > sy_zookeeper s ! i\<rbrakk> \<Longrightarrow> sync_step database_max_ptr s (pointer_changed i v s)"
| reread: "i \<in> set (sy_scheduled s) \<Longrightarrow> sync_step database_max_ptr s (update_replica_ptr database_max_ptr i (s\<lparr>sy_scheduled := remove1 i (sy_scheduled s)\<rparr>))"
| first_read: "\<lbrakk>sy_phase s = Reading; sy_next s < length (sy_zookeeper s)\<rbrakk>
    \<Longrightarrow> sync_step database_max_ptr s ((update_replica_ptr database_max_ptr (sy_next s) s)\<lparr>sy_next := Suc (sy_next s)\<rparr>)"
| begin_wait: "\<lbrakk>sy_phase s = Reading; sy_next s = length (sy_zookeeper s)\<rbrakk> \<Longrightarrow> sync_step database_max_ptr s (look_at_predicate database_max_ptr s)"
| wake: "\<lbrakk>sy_phase s = Waiting; sy_woken s\<rbrakk> \<Longrightarrow> sync_step database_max_ptr s (look_at_predicate database_max_ptr s)"
| time_out: "sy_phase s = Waiting \<Longrightarrow> sync_step database_max_ptr s (s\<lparr>sy_phase := TimedOut\<rparr>)"

inductive sync_reachable :: "int \<Rightarrow> int list \<Rightarrow> sync_state \<Rightarrow> bool" for database_max_ptr pointers where
  start: "sync_reachable database_max_ptr pointers (sync_start pointers)"
| more: "sync_reachable database_max_ptr pointers s \<Longrightarrow> sync_step database_max_ptr s s' \<Longrightarrow> sync_reachable database_max_ptr pointers s'"

section \<open>No wake-up is lost\<close>

definition fresh_or_due :: "sync_state \<Rightarrow> nat \<Rightarrow> bool" where
  "fresh_or_due s i \<longleftrightarrow> (if sy_watched s ! i then sy_ptrs s ! i = Some (sy_zookeeper s ! i) else i < sy_next s \<longrightarrow> i \<in> set (sy_scheduled s))"

definition sync_inv :: "int \<Rightarrow> sync_state \<Rightarrow> bool" where
  "sync_inv mx s \<longleftrightarrow> length (sy_watched s) = length (sy_zookeeper s) \<and> length (sy_ptrs s) = length (sy_zookeeper s)
     \<and> set (sy_scheduled s) \<subseteq> {..<length (sy_zookeeper s)} \<and> sy_next s \<le> length (sy_zookeeper s)
     \<and> (\<forall>i < length (sy_zookeeper s). fresh_or_due s i \<and> (\<forall>n. sy_ptrs s ! i = Some n \<longrightarrow> n \<le> sy_zookeeper s ! i))
     \<and> (sy_phase s \<noteq> Reading \<longrightarrow> sy_next s = length (sy_zookeeper s))
     \<and> (sy_phase s = Waiting \<longrightarrow> replicas_are_synced mx (sy_ptrs s) \<longrightarrow> sy_woken s)
     \<and> (sy_phase s = Synced \<longrightarrow> (\<forall>i < length (sy_zookeeper s). mx \<le> sy_zookeeper s ! i))"

lemmas sync_defs = sync_inv_def fresh_or_due_def

lemma synced_iff: "replicas_are_synced mx ptrs \<longleftrightarrow> (\<forall>i < length ptrs. \<exists>n. ptrs ! i = Some n \<and> mx \<le> n)"
  by (auto simp: replicas_are_synced_def list_all_length split: option.splits)

lemma sync_inv_start: "sync_inv mx (sync_start pointers)"
  by (simp add: sync_defs sync_start_def)

lemma sync_inv_change: "sync_inv mx s \<Longrightarrow> i < length (sy_zookeeper s) \<Longrightarrow> v > sy_zookeeper s ! i \<Longrightarrow> sync_inv mx (pointer_changed i v s)"
  by (fastforce simp: sync_defs pointer_changed_def nth_list_update split: if_splits)

lemma sync_inv_look: "sync_inv mx s \<Longrightarrow> sy_next s = length (sy_zookeeper s) \<Longrightarrow> sync_inv mx (look_at_predicate mx s)"
  by (fastforce simp: sync_defs look_at_predicate_def synced_iff)

lemma synced_update: "i < length ptrs \<Longrightarrow> replicas_are_synced mx (ptrs[i := Some n]) \<Longrightarrow> mx \<le> n"
  by (force simp: synced_iff nth_list_update)

lemma update_reads:
  assumes "i < length (sy_zookeeper s)" and "length (sy_watched s) = length (sy_zookeeper s)" and "length (sy_ptrs s) = length (sy_zookeeper s)"
  shows "fresh_or_due (update_replica_ptr mx i s) j \<longleftrightarrow> j = i \<or> fresh_or_due s j"
    and "sy_ptrs (update_replica_ptr mx i s) ! j = (if j = i then Some (sy_zookeeper s ! i) else sy_ptrs s ! j)"
    and "sy_phase s = Waiting \<Longrightarrow> replicas_are_synced mx (sy_ptrs (update_replica_ptr mx i s)) \<Longrightarrow> sy_woken (update_replica_ptr mx i s)"
  using assms synced_update [of i "sy_ptrs s" mx "sy_zookeeper s ! i"]
  by (auto simp: fresh_or_due_def update_replica_ptr_def nth_list_update)

lemma update_same [simp]:
  "sy_zookeeper (update_replica_ptr mx i s) = sy_zookeeper s" "sy_scheduled (update_replica_ptr mx i s) = sy_scheduled s"
  "sy_next (update_replica_ptr mx i s) = sy_next s" "sy_phase (update_replica_ptr mx i s) = sy_phase s"
  "length (sy_ptrs (update_replica_ptr mx i s)) = length (sy_ptrs s)" "length (sy_watched (update_replica_ptr mx i s)) = length (sy_watched s)"
  by (simp_all add: update_replica_ptr_def)

lemma sync_inv_reread:
  assumes s: "sync_inv mx s" and i: "i \<in> set (sy_scheduled s)"
  shows "sync_inv mx (update_replica_ptr mx i (s\<lparr>sy_scheduled := remove1 i (sy_scheduled s)\<rparr>))"
proof -
  let ?s = "s\<lparr>sy_scheduled := remove1 i (sy_scheduled s)\<rparr>"
  have "i < length (sy_zookeeper s)" using s i by (auto simp: sync_inv_def)
  moreover have "fresh_or_due ?s j" if "fresh_or_due s j" "j \<noteq> i" for j using that by (auto simp: fresh_or_due_def split: if_splits)
  moreover have "set (remove1 i (sy_scheduled s)) \<subseteq> set (sy_scheduled s)" by (rule set_remove1_subset)
  ultimately show ?thesis using s update_reads [of i ?s] by (auto simp: sync_inv_def)
qed

lemma sync_inv_first_read:
  assumes s: "sync_inv mx s" and r: "sy_phase s = Reading" and i: "sy_next s < length (sy_zookeeper s)"
  shows "sync_inv mx ((update_replica_ptr mx (sy_next s) s)\<lparr>sy_next := Suc (sy_next s)\<rparr>)"
proof -
  have "fresh_or_due ((update_replica_ptr mx (sy_next s) s)\<lparr>sy_next := Suc (sy_next s)\<rparr>) j" if "fresh_or_due s j \<or> j = sy_next s" for j
    using that s i by (auto simp: fresh_or_due_def update_replica_ptr_def nth_list_update sync_inv_def split: if_splits)
  then show ?thesis using s r i update_reads(2) [of "sy_next s" s] by (auto simp: sync_inv_def)
qed

lemma reachable_inv: "sync_reachable mx pointers s \<Longrightarrow> sync_inv mx s"
proof (induction rule: sync_reachable.induct)
  case (more s s')
  from more.hyps(2) more.IH show ?case
  proof (cases rule: sync_step.cases)
    case time_out
    then show ?thesis using more.IH by (auto simp: sync_defs)
  next
    case wake
    then have "sy_next s = length (sy_zookeeper s)" using more.IH by (simp add: sync_inv_def)
    then show ?thesis using wake(1) sync_inv_look [OF more.IH] by simp
  qed (auto intro: sync_inv_change sync_inv_reread sync_inv_first_read sync_inv_look)
qed (rule sync_inv_start)

text \<open>When all replicas have caught up, the scheduled reads end the wait.\<close>

lemma waiting_ends:
  assumes "sync_inv mx s" and "sy_phase s = Waiting" and "\<forall>i < length (sy_zookeeper s). mx \<le> sy_zookeeper s ! i"
  shows "\<exists>s'. (sync_step mx)\<^sup>*\<^sup>* s s' \<and> sy_phase s' = Synced"
  using assms
proof (induction "length (sy_scheduled s)" arbitrary: s)
  case 0
  have "sy_ptrs s ! i = Some (sy_zookeeper s ! i)" if "i < length (sy_zookeeper s)" for i
    using that 0 by (auto simp: sync_defs split: if_splits)
  then have syn: "replicas_are_synced mx (sy_ptrs s)" using 0 by (auto simp: synced_iff sync_inv_def)
  then have "sync_step mx s (look_at_predicate mx s)" using 0 by (intro wake) (auto simp: sync_inv_def)
  moreover have "sy_phase (look_at_predicate mx s) = Synced" using syn by (simp add: look_at_predicate_def)
  ultimately show ?case by blast
next
  case (Suc n)
  then obtain i where i: "i \<in> set (sy_scheduled s)" by (cases "sy_scheduled s") auto
  let ?s = "update_replica_ptr mx i (s\<lparr>sy_scheduled := remove1 i (sy_scheduled s)\<rparr>)"
  have "\<exists>s'. (sync_step mx)\<^sup>*\<^sup>* ?s s' \<and> sy_phase s' = Synced"
    using Suc.prems Suc.hyps(2) i sync_inv_reread [OF Suc.prems(1) i] by (intro Suc.hyps(1)) (auto simp: length_remove1)
  moreover have "sync_step mx s ?s" using i by (rule reread)
  ultimately show ?case by (meson converse_rtranclp_into_rtranclp)
qed


text \<open>Two replicas, the second of which is behind when it is first read.\<close>

definition late_state :: sync_state where
  "late_state = \<lparr>sy_zookeeper = [7, 7], sy_watched = [True, False], sy_scheduled = [1], sy_ptrs = [Some 7, Some 3], sy_next = 2, sy_phase = Waiting, sy_woken = False\<rparr>"

lemma late_state_reachable: "sync_reachable 7 [7, 3] late_state"
proof -
  let ?s0 = "sync_start [7, 3]"
  let ?s1 = "(update_replica_ptr 7 (sy_next ?s0) ?s0)\<lparr>sy_next := Suc (sy_next ?s0)\<rparr>"
  let ?s2 = "(update_replica_ptr 7 (sy_next ?s1) ?s1)\<lparr>sy_next := Suc (sy_next ?s1)\<rparr>"
  let ?s3 = "look_at_predicate 7 ?s2"
  have "sync_reachable 7 [7, 3] ?s1" by (rule sync_reachable.more, rule sync_reachable.start) (rule first_read; simp add: sync_start_def)
  then have "sync_reachable 7 [7, 3] ?s2" by (rule sync_reachable.more) (rule first_read; simp add: sync_start_def update_replica_ptr_def)
  then have "sync_reachable 7 [7, 3] ?s3" by (rule sync_reachable.more) (rule begin_wait; simp add: sync_start_def update_replica_ptr_def)
  then have "sync_reachable 7 [7, 3] (pointer_changed 1 7 ?s3)"
    by (rule sync_reachable.more) (rule change; simp add: sync_start_def update_replica_ptr_def look_at_predicate_def replicas_are_synced_def)
  moreover have "pointer_changed 1 7 ?s3 = late_state"
    by (simp add: late_state_def sync_start_def update_replica_ptr_def look_at_predicate_def replicas_are_synced_def pointer_changed_def)
  ultimately show ?thesis by simp
qed


end
