(* ===== verification/Plugin_Steps.thy ===== *)
theory Plugin_Steps
  imports Cassandra_Steps M3db Flink Clickhouse_Sql Clickhouse_Sync
begin

text \<open>
  Which steps the plugins run for a backup, a delta, a restore and a cleanup (\<^verbatim>\<open>get_backup_steps\<close> and its siblings of the plugin classes
  under \<^verbatim>\<open>astacus/coordinator/plugins/\<close>, and the operations of \<^verbatim>\<open>coordinator.py\<close> that ask for them), and which results each step
  takes from the context. A step here is its class with its parameters; clients and storages, which are the same for all steps, are left out.
  The bodies of the steps are in the theories of their components.

  Shown: the lists are consistent, so that no step ever asks for a result that is not there, and none sets a result twice.
\<close>

section \<open>Steps\<close>

datatype base_step =
    SnapshotStep "snapshot_group list" string
  | ListHexdigestsStep
  | UploadBlocksStep string bool string string
  | SnapshotClearStep string
  | SnapshotReleaseStep
  | UploadManifestStep plugin "string option" "string option" "string option" string
  | BackupNameStep string
  | BackupManifestStep
  | MapNodesStep "partial_restore_node list option"
  | RestoreStep string "partial_restore_node list option"
  | DeltaManifestsStep
  | ListBackupsStep
  | ListDeltaBackupsStep
  | ComputeKeptBackupsStep retention "string list" bool
  | DeleteBackupManifestsStep
  | DeleteBackupAndDeltaManifestsStep
  | DeleteDanglingHexdigestsStep

type_synonym database_settings = "(string \<times> setting_value option) list"

datatype 'o clickhouse_step =
    ValidateConfigStep
  | GetVersionsStep
  | RemoveFrozenTablesStep string string
  | RetrieveAccessEntitiesStep string
  | RetrieveDatabasesAndTablesStep
  | RetrieveMacrosStep
  | FreezeTablesStep string string
  | UnfreezeTablesStep string string
  | CollectObjectStorageFilesStep "'o disk list"
  | MoveFrozenPartsStep "'o disk list"
  | PrepareClickHouseManifestStep
  | ClickHouseManifestStep
  | ListDatabaseReplicasStep
  | RestoreReplicatedDatabasesStep string database_settings string nat string nat
  | SyncDatabaseReplicasStep string string
  | RestoreObjectStorageFilesStep "'o disk list" "'o disk list"
  | AttachMergeTreePartsStep "'o disk list" string nat
  | SyncTableReplicasStep string nat
  | RestoreReplicaStep "'o disk list" string nat string nat
  | RestoreAccessEntitiesStep string
  | DeleteDanglingObjectStorageFilesStep "'o disk list"

datatype cassandra_step =
    ValidateConfigurationStep "configuration_node list"
  | RetrieveSchemaHashStep
  | PrepareCassandraManifestStep "configuration_node list" "string option"
  | CassandraSubOpStep cassandra_sub_op
  | AssertSchemaUnchanged
  | SkipHexdigestsListStep
  | ParsePluginManifestStep
  | CassandraRestoreSubOpStep cassandra_sub_op "sstables_request option"
  | StopReplacedNodesStep "partial_restore_node list option" "configuration_node list"
  | UploadFinalDeltaStep string
  | RestoreCassandraDeltasStep string "partial_restore_node list option"
  | RestoreFinalDeltasStep string "partial_restore_node list option"
  | StartCassandraStep bool "configuration_node list" bool
  | WaitCassandraUpStep nat "string option"
  | RestorePreDataStep
  | RestorePostDataStep

datatype other_step =
    InitStep
  | RetrieveEtcdStep "string list"
  | RetrieveEtcdAgainStep "string list"
  | PrepareM3ManifestStep
  | RewriteEtcdStep "partial_restore_node list option"
  | RestoreEtcdStep "partial_restore_node list option"
  | RetrieveDataStep "string list"
  | PrepareFlinkManifestStep
  | FlinkManifestStep
  | RestoreDataStep "string list"

datatype 'o plugin_step = Base base_step | ClickHouse "'o clickhouse_step" | Cassandra cassandra_step | Other other_step

text \<open>The class of a step, the classes whose results it takes, and whether its result is \<^verbatim>\<open>None\<close>.\<close>

type_synonym step_info = "string \<times> string list \<times> bool"

definition listed :: "string option \<Rightarrow> string list" where "listed x = (case x of None \<Rightarrow> [] | Some c \<Rightarrow> [c])"

fun base_info :: "base_step \<Rightarrow> step_info" where
  "base_info (SnapshotStep _ _) = (''SnapshotStep'', [], False)"
| "base_info ListHexdigestsStep = (''ListHexdigestsStep'', [], False)"
| "base_info (UploadBlocksStep _ _ _ listing) = (''UploadBlocksStep'', [listing, ''SnapshotStep''], False)"
| "base_info (SnapshotClearStep _) = (''SnapshotClearStep'', [''SnapshotStep''], False)"
| "base_info SnapshotReleaseStep = (''SnapshotReleaseStep'', [''SnapshotStep''], False)"
| "base_info (UploadManifestStep _ plugin_manifest snapshot upload _) =
     (''UploadManifestStep'', listed plugin_manifest @ listed snapshot @ listed upload, True)"
| "base_info (BackupNameStep _) = (''BackupNameStep'', [], False)"
| "base_info BackupManifestStep = (''BackupManifestStep'', [''BackupNameStep''], False)"
| "base_info (MapNodesStep _) = (''MapNodesStep'', [''BackupManifestStep''], False)"
| "base_info (RestoreStep _ _) = (''RestoreStep'', [''BackupNameStep'', ''BackupManifestStep'', ''MapNodesStep''], False)"
| "base_info DeltaManifestsStep = (''DeltaManifestsStep'', [''BackupManifestStep''], False)"
| "base_info ListBackupsStep = (''ListBackupsStep'', [], False)"
| "base_info ListDeltaBackupsStep = (''ListDeltaBackupsStep'', [], False)"
| "base_info (ComputeKeptBackupsStep _ _ retain_deltas) =
     (''ComputeKeptBackupsStep'', ''ListBackupsStep'' # (if retain_deltas then [''ListDeltaBackupsStep''] else []), False)"
| "base_info DeleteBackupManifestsStep = (''DeleteBackupManifestsStep'', [''ComputeKeptBackupsStep'', ''ListBackupsStep''], False)"
| "base_info DeleteBackupAndDeltaManifestsStep =
     (''DeleteBackupAndDeltaManifestsStep'', [''ComputeKeptBackupsStep'', ''ListBackupsStep'', ''ListDeltaBackupsStep''], False)"
| "base_info DeleteDanglingHexdigestsStep = (''DeleteDanglingHexdigestsStep'', [''ComputeKeptBackupsStep''], True)"

fun clickhouse_info :: "'o clickhouse_step \<Rightarrow> step_info" where
  "clickhouse_info ValidateConfigStep = (''ValidateConfigStep'', [], True)"
| "clickhouse_info GetVersionsStep = (''GetVersionsStep'', [], False)"
| "clickhouse_info (RemoveFrozenTablesStep _ _) = (''RemoveFrozenTablesStep'', [], True)"
| "clickhouse_info (RetrieveAccessEntitiesStep _) = (''RetrieveAccessEntitiesStep'', [], False)"
| "clickhouse_info RetrieveDatabasesAndTablesStep = (''RetrieveDatabasesAndTablesStep'', [], False)"
| "clickhouse_info RetrieveMacrosStep = (''RetrieveMacrosStep'', [], False)"
| "clickhouse_info (FreezeTablesStep _ _) = (''FreezeTablesStep'', [''RetrieveDatabasesAndTablesStep'', ''GetVersionsStep''], True)"
| "clickhouse_info (UnfreezeTablesStep _ _) = (''UnfreezeTablesStep'', [''RetrieveDatabasesAndTablesStep'', ''GetVersionsStep''], True)"
| "clickhouse_info (CollectObjectStorageFilesStep _) = (''CollectObjectStorageFilesStep'', [''SnapshotStep''], False)"
| "clickhouse_info (MoveFrozenPartsStep _) = (''MoveFrozenPartsStep'', [''SnapshotStep''], True)"
| "clickhouse_info PrepareClickHouseManifestStep = (''PrepareClickHouseManifestStep'',
     [''RetrieveDatabasesAndTablesStep'', ''RetrieveAccessEntitiesStep'', ''CollectObjectStorageFilesStep''], False)"
| "clickhouse_info ClickHouseManifestStep = (''ClickHouseManifestStep'', [''BackupManifestStep''], False)"
| "clickhouse_info ListDatabaseReplicasStep = (''ListDatabaseReplicasStep'', [''ClickHouseManifestStep'', ''RetrieveMacrosStep''], False)"
| "clickhouse_info (RestoreReplicatedDatabasesStep _ _ _ _ _ _) = (''RestoreReplicatedDatabasesStep'', [''ClickHouseManifestStep''], True)"
| "clickhouse_info (SyncDatabaseReplicasStep _ _) = (''SyncDatabaseReplicasStep'', [''ListDatabaseReplicasStep''], True)"
| "clickhouse_info (RestoreObjectStorageFilesStep _ _) = (''RestoreObjectStorageFilesStep'', [''ClickHouseManifestStep''], True)"
| "clickhouse_info (AttachMergeTreePartsStep _ _ _) = (''AttachMergeTreePartsStep'', [''BackupManifestStep'', ''ClickHouseManifestStep''], True)"
| "clickhouse_info (SyncTableReplicasStep _ _) = (''SyncTableReplicasStep'', [''ClickHouseManifestStep''], True)"
| "clickhouse_info (RestoreReplicaStep _ _ _ _ _) = (''RestoreReplicaStep'', [''ClickHouseManifestStep''], True)"
| "clickhouse_info (RestoreAccessEntitiesStep _) = (''RestoreAccessEntitiesStep'', [''ClickHouseManifestStep''], True)"
| "clickhouse_info (DeleteDanglingObjectStorageFilesStep _) = (''DeleteDanglingObjectStorageFilesStep'', [''ComputeKeptBackupsStep''], True)"

fun cassandra_info :: "cassandra_step \<Rightarrow> step_info" where
  "cassandra_info (ValidateConfigurationStep _) = (''ValidateConfigurationStep'', [], True)"
| "cassandra_info RetrieveSchemaHashStep = (''RetrieveSchemaHashStep'', [], False)"
| "cassandra_info (PrepareCassandraManifestStep _ _) = (''PrepareCassandraManifestStep'', [], False)"
| "cassandra_info (CassandraSubOpStep _) = (''CassandraSubOpStep'', [], True)"
| "cassandra_info AssertSchemaUnchanged = (''AssertSchemaUnchanged'', [''RetrieveSchemaHashStep''], True)"
| "cassandra_info SkipHexdigestsListStep = (''SkipHexdigestsListStep'', [], False)"
| "cassandra_info ParsePluginManifestStep = (''ParsePluginManifestStep'', [''BackupManifestStep''], False)"
| "cassandra_info (CassandraRestoreSubOpStep _ _) = (''CassandraRestoreSubOpStep'', [''MapNodesStep''], True)"
| "cassandra_info (StopReplacedNodesStep _ _) = (''StopReplacedNodesStep'', [''MapNodesStep'', ''ParsePluginManifestStep''], False)"
| "cassandra_info (UploadFinalDeltaStep _) = (''UploadFinalDeltaStep'', [''StopReplacedNodesStep''], False)"
| "cassandra_info (RestoreCassandraDeltasStep _ _) = (''RestoreCassandraDeltasStep'', [''DeltaManifestsStep''], True)"
| "cassandra_info (RestoreFinalDeltasStep _ _) = (''RestoreFinalDeltasStep'', [''UploadFinalDeltaStep''], True)"
| "cassandra_info (StartCassandraStep _ _ _) = (''StartCassandraStep'', [''MapNodesStep'', ''ParsePluginManifestStep''], True)"
| "cassandra_info (WaitCassandraUpStep _ replaced_node_step) = (''WaitCassandraUpStep'', listed replaced_node_step, True)"
| "cassandra_info RestorePreDataStep = (''RestorePreDataStep'', [''ParsePluginManifestStep''], True)"
| "cassandra_info RestorePostDataStep = (''RestorePostDataStep'', [''ParsePluginManifestStep''], True)"

fun other_info :: "other_step \<Rightarrow> step_info" where
  "other_info InitStep = (''InitStep'', [], True)"
| "other_info (RetrieveEtcdStep _) = (''RetrieveEtcdStep'', [], False)"
| "other_info (RetrieveEtcdAgainStep _) = (''RetrieveEtcdAgainStep'', [''RetrieveEtcdStep''], True)"
| "other_info PrepareM3ManifestStep = (''PrepareM3ManifestStep'', [''RetrieveEtcdStep''], False)"
| "other_info (RewriteEtcdStep _) = (''RewriteEtcdStep'', [''BackupManifestStep'', ''MapNodesStep''], False)"
| "other_info (RestoreEtcdStep _) = (''RestoreEtcdStep'', [''RewriteEtcdStep''], True)"
| "other_info (RetrieveDataStep _) = (''RetrieveDataStep'', [], False)"
| "other_info PrepareFlinkManifestStep = (''PrepareFlinkManifestStep'', [''RetrieveDataStep''], False)"
| "other_info FlinkManifestStep = (''FlinkManifestStep'', [''BackupManifestStep''], False)"
| "other_info (RestoreDataStep _) = (''RestoreDataStep'', [''FlinkManifestStep''], True)"

fun step_info :: "'o plugin_step \<Rightarrow> step_info" where
  "step_info (Base s) = base_info s"
| "step_info (ClickHouse s) = clickhouse_info s"
| "step_info (Cassandra s) = cassandra_info s"
| "step_info (Other s) = other_info s"

definition class_name :: "'o plugin_step \<Rightarrow> string" where "class_name s = fst (step_info s)"

definition requires :: "'o plugin_step \<Rightarrow> string list" where "requires s = fst (snd (step_info s))"

definition returns_nothing :: "'o plugin_step \<Rightarrow> bool" where "returns_nothing s \<longleftrightarrow> snd (snd (step_info s))"

section \<open>The lists of the plugins\<close>

record restore_req =
  rr_storage :: string
  rr_name :: string
  rr_partial_restore_nodes :: "partial_restore_node list option"
  rr_stop_after_step :: "string option"

definition partial_requested :: "restore_req \<Rightarrow> bool" where
  "partial_requested req \<longleftrightarrow> rr_partial_restore_nodes req \<noteq> None \<and> rr_partial_restore_nodes req \<noteq> Some []"

datatype plugin_operation = Backup | DeltaBackup | Restore restore_req | Cleanup retention "string list"

text \<open>Files, M3DB and Flink, with the cleanup that they inherit.\<close>

definition default_cleanup_steps :: "retention \<Rightarrow> string list \<Rightarrow> 'o plugin_step list" where
  "default_cleanup_steps retention explicit_delete =
     [Base ListBackupsStep, Base (ComputeKeptBackupsStep retention explicit_delete False), Base DeleteBackupManifestsStep, Base DeleteDanglingHexdigestsStep]"

definition manifest_upload :: "plugin \<Rightarrow> string option \<Rightarrow> 'o plugin_step" where
  "manifest_upload plugin plugin_manifest = Base (UploadManifestStep plugin plugin_manifest (Some ''SnapshotStep'') (Some ''UploadBlocksStep'') JSON_BACKUP_PREFIX)"

fun files_steps :: "string list \<Rightarrow> string \<Rightarrow> plugin_operation \<Rightarrow> 'o plugin_step list result" where
  "files_steps root_globs storage_name Backup =
     Inr [Base (SnapshotStep (map make_snapshot_group root_globs) ''snapshot''), Base ListHexdigestsStep,
       Base (UploadBlocksStep storage_name True ''upload'' ''ListHexdigestsStep''), manifest_upload PFiles None]"
| "files_steps root_globs storage_name DeltaBackup = Inl NotImplementedError"
| "files_steps root_globs storage_name (Restore req) =
     Inr [Base (BackupNameStep (rr_name req)), Base BackupManifestStep, Base (MapNodesStep (rr_partial_restore_nodes req)),
       Base (RestoreStep storage_name (rr_partial_restore_nodes req))]"
| "files_steps root_globs storage_name (Cleanup retention explicit_delete) = Inr (default_cleanup_steps retention explicit_delete)"

fun m3db_steps :: "string \<Rightarrow> string \<Rightarrow> plugin_operation \<Rightarrow> 'o plugin_step list result" where
  "m3db_steps environment storage_name Backup =
     Inr [Other InitStep, Other (RetrieveEtcdStep (get_etcd_prefixes environment)), Base (SnapshotStep [make_snapshot_group ''**/*.db''] ''snapshot''),
       Base ListHexdigestsStep, Base (UploadBlocksStep storage_name True ''upload'' ''ListHexdigestsStep''),
       Other (RetrieveEtcdAgainStep (get_etcd_prefixes environment)), Other PrepareM3ManifestStep, manifest_upload PM3db (Some ''PrepareM3ManifestStep'')]"
| "m3db_steps environment storage_name DeltaBackup = Inl NotImplementedError"
| "m3db_steps environment storage_name (Restore req) =
     Inr [Other InitStep, Base (BackupNameStep (rr_name req)), Base BackupManifestStep, Base (MapNodesStep (rr_partial_restore_nodes req)),
       Other (RewriteEtcdStep (rr_partial_restore_nodes req)), Other (RestoreEtcdStep (rr_partial_restore_nodes req)),
       Base (RestoreStep storage_name (rr_partial_restore_nodes req))]"
| "m3db_steps environment storage_name (Cleanup retention explicit_delete) = Inr (default_cleanup_steps retention explicit_delete)"

fun flink_steps :: "string list \<Rightarrow> plugin_operation \<Rightarrow> 'o plugin_step list result" where
  "flink_steps zookeeper_paths Backup =
     Inr [Other (RetrieveDataStep zookeeper_paths), Other PrepareFlinkManifestStep,
       Base (UploadManifestStep PFlink (Some ''PrepareFlinkManifestStep'') None None JSON_BACKUP_PREFIX)]"
| "flink_steps zookeeper_paths DeltaBackup = Inl NotImplementedError"
| "flink_steps zookeeper_paths (Restore req) =
     Inr [Base (BackupNameStep (rr_name req)), Base BackupManifestStep, Other FlinkManifestStep, Other (RestoreDataStep zookeeper_paths)]"
| "flink_steps zookeeper_paths (Cleanup retention explicit_delete) = Inr (default_cleanup_steps retention explicit_delete)"

text \<open>Cassandra. \<open>cp_listen_address\<close> is what reading the configuration of the local Cassandra gives.\<close>

record cassandra_plugin =
  cp_nodes :: "configuration_node list option"
  cp_listen_address :: "string result"
  cp_datacenter :: "string option"
  cp_restore_start_timeout :: nat

definition configured_nodes :: "cassandra_plugin \<Rightarrow> configuration_node list result" where
  "configured_nodes p = (case cp_nodes p of
     Some (n # ns) \<Rightarrow> Inr (n # ns)
   | _ \<Rightarrow> bind_res (cp_listen_address p) (\<lambda>a. Inr [\<lparr>cfn_address = None, cfn_host_id = None, cfn_listen_address = Some a, cfn_tokens = None\<rparr>]))"

definition sstables_req :: "string list \<Rightarrow> table_matching \<Rightarrow> sstables_request" where
  "sstables_req skipped matching = \<lparr>sq_table_glob = SNAPSHOT_GLOB, sq_keyspaces_to_skip = skipped, sq_match_tables_by = matching, sq_expect_empty_target = True\<rparr>"

definition restore_schema_from_snapshot_steps :: "cassandra_plugin \<Rightarrow> string \<Rightarrow> restore_req \<Rightarrow> 'o plugin_step list result" where
  "restore_schema_from_snapshot_steps p storage_name req = (case cp_nodes p of
     None \<Rightarrow> Inl AssertionError
   | Some ns \<Rightarrow> let partial = rr_partial_restore_nodes req in
       Inr [Base (RestoreStep storage_name partial),
         Cassandra (CassandraRestoreSubOpStep RestoreSstables (Some (sstables_req (filter (\<lambda>ks. ks \<noteq> ''system_schema'') SYSTEM_KEYSPACES) Cfid))),
         Base DeltaManifestsStep, Cassandra (RestoreCassandraDeltasStep storage_name partial), Cassandra (StopReplacedNodesStep partial ns),
         Cassandra (UploadFinalDeltaStep storage_name), Cassandra (RestoreFinalDeltasStep storage_name partial), Cassandra (StartCassandraStep True ns True),
         Cassandra (WaitCassandraUpStep (cp_restore_start_timeout p) (Some ''StopReplacedNodesStep''))])"

definition restore_schema_from_manifest_steps :: "cassandra_plugin \<Rightarrow> string \<Rightarrow> restore_req \<Rightarrow> 'o plugin_step list result" where
  "restore_schema_from_manifest_steps p storage_name req = (case cp_nodes p of
     None \<Rightarrow> Inl AssertionError
   | Some ns \<Rightarrow>
       Inr [Cassandra (StartCassandraStep True ns False), Cassandra (WaitCassandraUpStep (cp_restore_start_timeout p) None),
         Cassandra RestorePreDataStep, Cassandra (CassandraRestoreSubOpStep StopCassandra None), Base (RestoreStep storage_name (rr_partial_restore_nodes req)),
         Cassandra (CassandraRestoreSubOpStep RestoreSstables (Some (sstables_req SYSTEM_KEYSPACES Cfname))),
         Cassandra (StartCassandraStep False ns False), Cassandra (WaitCassandraUpStep (cp_restore_start_timeout p) None), Cassandra RestorePostDataStep])"

fun cassandra_steps :: "cassandra_plugin \<Rightarrow> string \<Rightarrow> plugin_operation \<Rightarrow> 'o plugin_step list result" where
  "cassandra_steps p storage_name Backup = bind_res (configured_nodes p) (\<lambda>ns.
     Inr [Cassandra (ValidateConfigurationStep ns), Cassandra RetrieveSchemaHashStep, Cassandra (PrepareCassandraManifestStep ns (cp_datacenter p)),
       Cassandra (CassandraSubOpStep RemoveSnapshot), Cassandra (CassandraSubOpStep TakeSnapshot), Cassandra AssertSchemaUnchanged,
       Base (SnapshotStep snapshot_groups ''snapshot''), Base ListHexdigestsStep, Base (UploadBlocksStep storage_name True ''upload'' ''ListHexdigestsStep''),
       Cassandra (CassandraSubOpStep RemoveSnapshot), Base SnapshotReleaseStep, manifest_upload PCassandra (Some ''PrepareCassandraManifestStep'')])"
| "cassandra_steps p storage_name DeltaBackup = bind_res (configured_nodes p) (\<lambda>ns.
     Inr [Cassandra (ValidateConfigurationStep ns), Base (SnapshotStep delta_snapshot_groups ''delta/snapshot''), Cassandra SkipHexdigestsListStep,
       Base (UploadBlocksStep storage_name True ''delta/upload'' ''SkipHexdigestsListStep''),
       Base (UploadManifestStep PCassandra None (Some ''SnapshotStep'') (Some ''UploadBlocksStep'') JSON_DELTA_PREFIX), Base (SnapshotClearStep ''delta/clear'')])"
| "cassandra_steps p storage_name (Restore req) = bind_res (configured_nodes p) (\<lambda>ns.
     bind_res (if partial_requested req then restore_schema_from_snapshot_steps p storage_name req else restore_schema_from_manifest_steps p storage_name req)
       (\<lambda>cluster_restore_steps. Inr ([Cassandra (ValidateConfigurationStep ns), Base (BackupNameStep (rr_name req)), Base BackupManifestStep,
         Cassandra ParsePluginManifestStep, Base (MapNodesStep (rr_partial_restore_nodes req)), Cassandra (CassandraRestoreSubOpStep StopCassandra None),
         Cassandra (CassandraRestoreSubOpStep UnrestoreSstables None)] @ cluster_restore_steps)))"
| "cassandra_steps p storage_name (Cleanup retention explicit_delete) =
     Inr [Base ListBackupsStep, Base ListDeltaBackupsStep, Base (ComputeKeptBackupsStep retention explicit_delete True), Base DeleteBackupAndDeltaManifestsStep,
       Base DeleteDanglingHexdigestsStep]"

text \<open>ClickHouse; the timeouts are the strings that the queries hold, \<open>mk\<close> makes the client of an object storage.\<close>

record 'c clickhouse_plugin =
  hp_replicated_access_zookeeper_path :: string
  hp_replicated_databases_zookeeper_path :: string
  hp_replicated_databases_settings :: database_settings
  hp_freeze_name :: string
  hp_disks :: "'c disk_config list"
  hp_drop_databases_timeout :: string
  hp_max_concurrent_drop_databases_per_node :: nat
  hp_create_databases_timeout :: string
  hp_max_concurrent_create_databases_per_node :: nat
  hp_sync_databases_timeout :: string
  hp_restart_replica_timeout :: string
  hp_max_concurrent_restart_replica_per_node :: nat
  hp_restore_replica_timeout :: string
  hp_max_concurrent_restore_replica_per_node :: nat
  hp_freeze_timeout :: string
  hp_unfreeze_timeout :: string
  hp_attach_timeout :: string
  hp_max_concurrent_attach_per_node :: nat
  hp_sync_tables_timeout :: string
  hp_max_concurrent_sync_per_node :: nat

definition clickhouse_restore_steps :: "'c clickhouse_plugin \<Rightarrow> string \<Rightarrow> restore_req \<Rightarrow> 'o disk list \<Rightarrow> 'o disk list \<Rightarrow> 'o plugin_step list" where
  "clickhouse_restore_steps p storage_name req disks source_disks =
     [ClickHouse ValidateConfigStep, Base (BackupNameStep (rr_name req)), Base BackupManifestStep, ClickHouse ClickHouseManifestStep,
      ClickHouse RetrieveMacrosStep, ClickHouse ListDatabaseReplicasStep,
      ClickHouse (RestoreReplicatedDatabasesStep (hp_replicated_databases_zookeeper_path p) (hp_replicated_databases_settings p)
        (hp_drop_databases_timeout p) (hp_max_concurrent_drop_databases_per_node p)
        (hp_create_databases_timeout p) (hp_max_concurrent_create_databases_per_node p)),
      ClickHouse (SyncDatabaseReplicasStep (hp_replicated_databases_zookeeper_path p) (hp_sync_databases_timeout p)),
      Base (MapNodesStep (rr_partial_restore_nodes req)), Base (RestoreStep storage_name (rr_partial_restore_nodes req)),
      ClickHouse (RestoreObjectStorageFilesStep source_disks disks),
      ClickHouse (AttachMergeTreePartsStep disks (hp_attach_timeout p) (hp_max_concurrent_attach_per_node p)),
      ClickHouse (SyncTableReplicasStep (hp_sync_tables_timeout p) (hp_max_concurrent_sync_per_node p)),
      ClickHouse (RestoreReplicaStep disks (hp_restart_replica_timeout p) (hp_max_concurrent_restart_replica_per_node p)
        (hp_restore_replica_timeout p) (hp_max_concurrent_restore_replica_per_node p)),
      ClickHouse (RestoreAccessEntitiesStep (hp_replicated_access_zookeeper_path p))]"

fun clickhouse_steps :: "('c \<Rightarrow> 'o) \<Rightarrow> 'c clickhouse_plugin \<Rightarrow> string \<Rightarrow> plugin_operation \<Rightarrow> 'o plugin_step list result" where
  "clickhouse_steps mk p storage_name Backup = bind_res (from_disk_configs mk (hp_disks p) None) (\<lambda>disks.
     Inr [ClickHouse ValidateConfigStep, ClickHouse GetVersionsStep, ClickHouse (RemoveFrozenTablesStep (hp_freeze_name p) (hp_unfreeze_timeout p)),
       ClickHouse (RetrieveAccessEntitiesStep (hp_replicated_access_zookeeper_path p)), ClickHouse RetrieveDatabasesAndTablesStep, ClickHouse RetrieveMacrosStep,
       ClickHouse (FreezeTablesStep (hp_freeze_name p) (hp_freeze_timeout p)),
       Base (SnapshotStep (get_snapshot_groups disks (hp_freeze_name p)) ''snapshot''), Base ListHexdigestsStep,
       Base (UploadBlocksStep storage_name False ''upload'' ''ListHexdigestsStep''),
       ClickHouse (UnfreezeTablesStep (hp_freeze_name p) (hp_unfreeze_timeout p)),
       ClickHouse (CollectObjectStorageFilesStep disks), ClickHouse (MoveFrozenPartsStep disks), ClickHouse PrepareClickHouseManifestStep,
       manifest_upload PClickhouse (Some ''PrepareClickHouseManifestStep'')])"
| "clickhouse_steps mk p storage_name DeltaBackup = Inl NotImplementedError"
| "clickhouse_steps mk p storage_name (Restore req) =
     (if partial_requested req then Inl NotImplementedError
      else bind_res (from_disk_configs mk (hp_disks p) None) (\<lambda>disks.
        bind_res (from_disk_configs mk (hp_disks p) (Some storage_name)) (\<lambda>source_disks.
          Inr (clickhouse_restore_steps p storage_name req disks source_disks))))"
| "clickhouse_steps mk p storage_name (Cleanup retention explicit_delete) = bind_res (from_disk_configs mk (hp_disks p) None) (\<lambda>disks.
     Inr (default_cleanup_steps retention explicit_delete @ [ClickHouse (DeleteDanglingObjectStorageFilesStep disks)]))"

section \<open>The operations of the coordinator\<close>

datatype 'c plugin_config =
    FilesPlugin "string list"
  | M3DBPlugin string
  | FlinkPlugin "string list"
  | CassandraPlugin cassandra_plugin
  | ClickHousePlugin "'c clickhouse_plugin"

fun plugin_steps :: "('c \<Rightarrow> 'o) \<Rightarrow> 'c plugin_config \<Rightarrow> string \<Rightarrow> plugin_operation \<Rightarrow> 'o plugin_step list result" where
  "plugin_steps mk (FilesPlugin root_globs) storage_name = files_steps root_globs storage_name"
| "plugin_steps mk (M3DBPlugin environment) storage_name = m3db_steps environment storage_name"
| "plugin_steps mk (FlinkPlugin zookeeper_paths) storage_name = flink_steps zookeeper_paths"
| "plugin_steps mk (CassandraPlugin p) storage_name = cassandra_steps p storage_name"
| "plugin_steps mk (ClickHousePlugin p) storage_name = clickhouse_steps mk p storage_name"

definition get_storage_name :: "string \<Rightarrow> string \<Rightarrow> string" where
  "get_storage_name default_storage requested_storage = (if requested_storage \<noteq> [] then requested_storage else default_storage)"

record 'c coordinator_setup =
  cs_plugin :: "'c plugin_config"
  cs_default_storage :: string
  cs_backup_attempts :: nat
  cs_retention :: retention

datatype op_request = BackupRequest | DeltaBackupRequest | RestoreRequest restore_req | CleanupRequest string "retention option" "string list"

text \<open>The steps and the attempts of \<^verbatim>\<open>BackupOp\<close>, \<^verbatim>\<open>DeltaBackupOp\<close>, \<^verbatim>\<open>RestoreOp\<close>, which may stop after a step, and \<^verbatim>\<open>CleanupOp\<close>.\<close>

fun stepped_op :: "('c \<Rightarrow> 'o) \<Rightarrow> 'c coordinator_setup \<Rightarrow> op_request \<Rightarrow> ('o plugin_step list \<times> nat) result" where
  "stepped_op mk c BackupRequest = bind_res (plugin_steps mk (cs_plugin c) (get_storage_name (cs_default_storage c) []) Backup)
     (\<lambda>steps. Inr (steps, cs_backup_attempts c))"
| "stepped_op mk c DeltaBackupRequest = bind_res (plugin_steps mk (cs_plugin c) (get_storage_name (cs_default_storage c) []) DeltaBackup)
     (\<lambda>steps. Inr (steps, cs_backup_attempts c))"
| "stepped_op mk c (RestoreRequest req) =
     bind_res (plugin_steps mk (cs_plugin c) (get_storage_name (cs_default_storage c) (rr_storage req)) (Restore req))
     (\<lambda>steps. case rr_stop_after_step req of
        None \<Rightarrow> Inr (steps, 1)
      | Some name \<Rightarrow> bind_res (Stepped_Op.index_of name (map class_name steps)) (\<lambda>i. Inr (take (i + 1) steps, 1)))"
| "stepped_op mk c (CleanupRequest storage retention explicit_delete) =
     bind_res (plugin_steps mk (cs_plugin c) (get_storage_name (cs_default_storage c) [])
       (Cleanup (cleanup_retention retention (cs_retention c)) explicit_delete))
     (\<lambda>steps. Inr (steps, 1))"

text \<open>The storage that a cleanup request names is not used.\<close>

lemma cleanup_storage_ignored: "stepped_op mk c (CleanupRequest s retention d) = stepped_op mk c (CleanupRequest s' retention d)"
  by simp

section \<open>The lists are consistent\<close>

text \<open>A step needs results of steps before it, and only steps without a result may be repeated.\<close>

fun well_ordered :: "(string \<times> bool) list \<Rightarrow> 'o plugin_step list \<Rightarrow> bool" where
  "well_ordered seen [] \<longleftrightarrow> True"
| "well_ordered seen (s # ss) \<longleftrightarrow> list_all (\<lambda>c. map_of seen c \<noteq> None) (requires s)
     \<and> (case map_of seen (class_name s) of None \<Rightarrow> True | Some nothing \<Rightarrow> nothing \<and> returns_nothing s)
     \<and> well_ordered ((class_name s, returns_nothing s) # seen) ss"

lemma well_ordered_take: "well_ordered seen steps \<Longrightarrow> well_ordered seen (take n steps)"
  by (induction seen steps arbitrary: n rule: well_ordered.induct) (auto simp: take_Cons split: nat.splits)

lemmas plan_defs = class_name_def requires_def returns_nothing_def manifest_upload_def default_cleanup_steps_def listed_def

lemma files_well_ordered: "files_steps g s op = Inr steps \<Longrightarrow> well_ordered [] steps"
  by (cases op) (auto simp: plan_defs)

lemma m3db_well_ordered: "m3db_steps g s op = Inr steps \<Longrightarrow> well_ordered [] steps"
  by (cases op) (auto simp: plan_defs split: if_splits)

lemma flink_well_ordered: "flink_steps g op = Inr steps \<Longrightarrow> well_ordered [] steps"
  by (cases op) (auto simp: plan_defs)

lemma cassandra_well_ordered: "cassandra_steps p s op = Inr steps \<Longrightarrow> well_ordered [] steps"
  by (cases op) (auto simp: plan_defs bind_res_Inr_iff restore_schema_from_snapshot_steps_def restore_schema_from_manifest_steps_def Let_def
    split: if_splits option.splits)

lemma clickhouse_well_ordered: "clickhouse_steps mk p s op = Inr steps \<Longrightarrow> well_ordered [] steps"
  by (cases op) (auto simp: plan_defs bind_res_Inr_iff clickhouse_restore_steps_def split: if_splits)

lemma plugin_steps_well_ordered: "plugin_steps mk p s op = Inr steps \<Longrightarrow> well_ordered [] steps"
  by (cases p) (auto simp: files_well_ordered m3db_well_ordered flink_well_ordered cassandra_well_ordered clickhouse_well_ordered)

lemma stepped_op_well_ordered: "stepped_op mk c req = Inr (steps, n) \<Longrightarrow> well_ordered [] steps"
  by (cases req) (auto simp: bind_res_Inr_iff plugin_steps_well_ordered split: option.splits intro!: well_ordered_take)

section \<open>Running a list\<close>

text \<open>The run of a step: it takes its results from the context and passes them to the body of its class; a step whose result type is \<^verbatim>\<open>None\<close> gives none.\<close>

type_synonym ('o, 'w, 'v) step_body = "'o plugin_step \<Rightarrow> 'v option list \<Rightarrow> ('w, 'v option) stateful"

definition run_plugin_step :: "('o, 'w, 'v) step_body \<Rightarrow> 'o plugin_step \<Rightarrow> ('w, 'v) step" where
  "run_plugin_step body st = \<lparr>step_class = class_name st, run_step = (\<lambda>c w.
     case map_res (get_result c) (requires st) of
       Inl e \<Rightarrow> (Inl e, w)
     | Inr vs \<Rightarrow> (case body st vs w of
         (Inl e, w1) \<Rightarrow> (Inl e, w1)
       | (Inr r, w1) \<Rightarrow> (Inr (if returns_nothing st then None else r), w1)))\<rparr>"

lemma run_step_plugin:
  "step_class (run_plugin_step body st) = class_name st"
  "map_res (get_result c) (requires st) = Inr vs \<Longrightarrow> body st vs w = (Inl e, w1) \<Longrightarrow> run_step (run_plugin_step body st) c w = (Inl e, w1)"
  "map_res (get_result c) (requires st) = Inr vs \<Longrightarrow> body st vs w = (Inr r, w1) \<Longrightarrow>
     run_step (run_plugin_step body st) c w = (Inr (if returns_nothing st then None else r), w1)"
  by (simp_all add: run_plugin_step_def)

text \<open>The context holds a result for the steps that have run, and only for those.\<close>

definition context_of :: "(string \<times> bool) list \<Rightarrow> 'v steps_context \<Rightarrow> bool" where
  "context_of seen c \<longleftrightarrow> (\<forall>cls. (case map_of seen cls of
     None \<Rightarrow> dict_get (sc_step_results c) cls = None
   | Some nothing \<Rightarrow> \<exists>r. dict_get (sc_step_results c) cls = Some r \<and> (nothing \<longrightarrow> r = None)))"

lemma context_of_new: "context_of [] (new_context k t)"
  by (simp add: context_of_def new_context_def)

lemma context_of_get:
  assumes "context_of seen c" and "list_all (\<lambda>cls. map_of seen cls \<noteq> None) names"
  shows "\<exists>vs. map_res (get_result c) names = Inr vs"
proof -
  have "\<exists>r. get_result c cls = Inr r" if n: "cls \<in> set names" for cls
  proof -
    obtain nothing where "map_of seen cls = Some nothing" using assms(2) n by (auto simp: list_all_iff)
    then obtain r where "dict_get (sc_step_results c) cls = Some r"
      using spec [OF assms(1) [unfolded context_of_def], of cls] by auto
    then show ?thesis by (simp add: get_result_def)
  qed
  then have "map_res (get_result c) names = Inr (map (\<lambda>cls. projr (get_result c cls)) names)"
    by (intro map_res_total) force
  then show ?thesis by blast
qed

lemma context_of_set:
  assumes "context_of seen c" and "nothing \<Longrightarrow> r = None"
    and "case map_of seen cls of None \<Rightarrow> True | Some old \<Rightarrow> old \<and> nothing"
  shows "\<exists>c1. set_result cls r c = Inr c1 \<and> context_of ((cls, nothing) # seen) c1"
proof -
  have none: "dict_get (sc_step_results c) cls = None \<or> dict_get (sc_step_results c) cls = Some None \<and> r = None"
    using assms spec [OF assms(1) [unfolded context_of_def], of cls] by (auto split: option.splits)
  then have "set_result cls r c = Inr (c\<lparr>sc_step_results := dict_set cls r (sc_step_results c)\<rparr>)"
    by (auto simp: set_result_def)
  moreover have "context_of ((cls, nothing) # seen) (c\<lparr>sc_step_results := dict_set cls r (sc_step_results c)\<rparr>)"
    unfolding context_of_def
  proof
    fix other
    show "case map_of ((cls, nothing) # seen) other of
        None \<Rightarrow> dict_get (sc_step_results (c\<lparr>sc_step_results := dict_set cls r (sc_step_results c)\<rparr>)) other = None
      | Some nothing \<Rightarrow> \<exists>ra. dict_get (sc_step_results (c\<lparr>sc_step_results := dict_set cls r (sc_step_results c)\<rparr>)) other = Some ra \<and> (nothing \<longrightarrow> ra = None)"
      using assms(2) spec [OF assms(1) [unfolded context_of_def], of other] by (cases "other = cls") (auto simp: update_conv' split: option.splits)
  qed
  ultimately show ?thesis by blast
qed

lemma plan_run_error:
  assumes "well_ordered seen steps" and "context_of seen c"
    and "try_run shutting_down (map (run_plugin_step body) steps) c w = (Inl e, w')"
  shows "\<exists>st vs w1. st \<in> set steps \<and> length vs = length (requires st) \<and> body st vs w1 = (Inl e, w')"
  using assms
proof (induction steps arbitrary: seen c w)
  case (Cons s ss)
  obtain vs where vs: "map_res (get_result c) (requires s) = Inr vs" using context_of_get Cons.prems(1,2) by fastforce
  have running: "\<not> shutting_down w" using Cons.prems(3) by auto
  obtain x w1 where x: "body s vs w = (x, w1)" by fastforce
  show ?case
  proof (cases x)
    case (Inl e1)
    then have "e1 = e \<and> w1 = w'" using Cons.prems(3) running run_step_plugin(2) [of c s vs body w e1 w1, OF vs x [unfolded Inl]] by (simp split: if_splits)
    then show ?thesis using x Inl map_res_length [OF vs] by auto
  next
    case (Inr r)
    obtain c1 where c1: "set_result (class_name s) (if returns_nothing s then None else r) c = Inr c1"
        "context_of ((class_name s, returns_nothing s) # seen) c1"
      using context_of_set [of seen c "returns_nothing s" "if returns_nothing s then None else r" "class_name s"] Cons.prems(1,2) by auto
    have "try_run shutting_down (map (run_plugin_step body) ss) c1 w1 = (Inl e, w')"
      using Cons.prems(3) running run_step_plugin(3) [of c s vs body w r w1, OF vs x [unfolded Inr]] c1(1) by (simp add: run_step_plugin(1))
    then have "\<exists>st vs w1. st \<in> set ss \<and> length vs = length (requires st) \<and> body st vs w1 = (Inl e, w')"
      using Cons.IH [OF _ c1(2)] Cons.prems(1) by simp
    then show ?thesis by (meson list.set_intros(2))
  qed
qed simp

text \<open>C22. No operation fails because its plugin has put its steps in the wrong order. Whatever the steps do, an exception that leaves an attempt of a backup,
  a delta backup, a restore (also one that stops after a named step) or a cleanup of any plugin is one that the body of a step has raised, called with
  as many results as it asks for: no step ever asks the context for the result of a step that has not run, and no step finds its own result already set.\<close>

theorem plugin_steps_consistent:
  assumes "stepped_op mk c req = Inr (steps, attempts)"
    and "try_run shutting_down (map (run_plugin_step body) steps) (new_context k t) w = (Inl e, w')"
  shows "\<exists>st vs w1. st \<in> set steps \<and> length vs = length (requires st) \<and> body st vs w1 = (Inl e, w')"
  using plan_run_error [OF stepped_op_well_ordered [OF assms(1)] context_of_new assms(2)] .

definition sample_setup :: "nat coordinator_setup" where
  "sample_setup = \<lparr>cs_plugin = CassandraPlugin \<lparr>cp_nodes = Some [], cp_listen_address = Inr ''127.0.0.1'', cp_datacenter = None, cp_restore_start_timeout = 60\<rparr>,
     cs_default_storage = ''s3'', cs_backup_attempts = 5, cs_retention = \<lparr>rt_minimum_backups = None, rt_maximum_backups = None, rt_keep_days = None\<rparr>\<rparr>"

definition sample_body :: "(nat, nat, unit) step_body" where
  "sample_body st vs w = (if class_name st = ''ParsePluginManifestStep'' then (Inl ValueError, w) else (Inr (Some ()), w + length vs))"

theorem plugin_steps_consistent_witness:
  "\<exists>steps. stepped_op (\<lambda>_. 0) sample_setup (RestoreRequest \<lparr>rr_storage = [], rr_name = [], rr_partial_restore_nodes = None, rr_stop_after_step = Some ''MapNodesStep''\<rparr>) = Inr (steps, 1)
    \<and> map class_name steps = [''ValidateConfigurationStep'', ''BackupNameStep'', ''BackupManifestStep'', ''ParsePluginManifestStep'', ''MapNodesStep'']
    \<and> try_run (\<lambda>_. False) (map (run_plugin_step sample_body) steps) (new_context 1 0) 0 = (Inl ValueError, 1)
    \<and> (\<exists>st vs w1. st \<in> set steps \<and> length vs = length (requires st) \<and> sample_body st vs w1 = (Inl ValueError, 1))"
proof -
  let ?req = "RestoreRequest \<lparr>rr_storage = [], rr_name = [], rr_partial_restore_nodes = None, rr_stop_after_step = Some ''MapNodesStep''\<rparr>"
  let ?steps = "[Cassandra (ValidateConfigurationStep [\<lparr>cfn_address = None, cfn_host_id = None, cfn_listen_address = Some ''127.0.0.1'', cfn_tokens = None\<rparr>]),
    Base (BackupNameStep []), Base BackupManifestStep, Cassandra ParsePluginManifestStep, Base (MapNodesStep None)]"
  have one: "stepped_op (\<lambda>_. 0) sample_setup ?req = Inr (?steps, 1)"
    by (simp add: sample_setup_def configured_nodes_def partial_requested_def restore_schema_from_manifest_steps_def class_name_def)
  have two: "try_run (\<lambda>_. False) (map (run_plugin_step sample_body) ?steps) (new_context 1 0) 0 = (Inl ValueError, 1)"
    by (simp add: run_plugin_step_def sample_body_def plan_defs new_context_def get_result_def set_result_def)
  show ?thesis using one two plugin_steps_consistent [OF one two] by (intro exI [of _ ?steps] conjI) (simp_all add: class_name_def)
qed

end
