(* ===== verification/Node_Api.thy ===== *)
theory Node_Api
  imports Node_Lock Cassandra_Node
begin

text \<open>
  The HTTP interface of a node: the endpoints of \<^verbatim>\<open>astacus/node/api.py\<close> that start an operation and those that give its result, the snapshots
  that \<^verbatim>\<open>Node\<close> keeps for them (\<^verbatim>\<open>astacus/node/node.py\<close>), and \<^verbatim>\<open>NodeOp\<close>, the part of an operation that reports to the coordinator. The work
  of the operations is in \<open>Node_Upload\<close>, \<open>Node_Download\<close> and \<open>Cassandra_Node\<close>; here it is a value that says which work was asked for.

  An endpoint does not hold \<^verbatim>\<open>mutate_lock\<close>, so the lock may change between its check and the creation of the operation: the endpoints take
  the lock at both moments.
\<close>

section \<open>The node\<close>

datatype access_level = ReadAccess | WriteAccess

record node_config =
  nc_root :: path
  nc_root_link :: "path option"
  nc_delta_root_link :: "path option"
  nc_db_path :: path
  nc_cassandra :: "access_level option"
  nc_cassandra_installed :: bool

text \<open>A \<^verbatim>\<open>SQLiteSnapshot\<close> and a \<^verbatim>\<open>SQLiteSnapshotter\<close>, by what they are made of.\<close>

record snapshot_handle =
  sd_dst :: path
  sd_db :: path

record snapshotter_of =
  so_groups :: "snapshot_group list"
  so_src :: path
  so_snapshot :: snapshot_handle

datatype node_work =
    SnapshotOp snapshotter_of
  | UploadOp snapshot_handle "snapshot_hash list" string bool
  | ReleaseOp snapshotter_of "string list"
  | DownloadOp snapshotter_of download_request
  | ClearOp snapshotter_of bool
  | CassandraStartOp start_request
  | CassandraRestoreSSTablesOp sstables_request
  | CassandraGetSchemaHashOp
  | SimpleCassandraSubOp cassandra_sub_op

record node_op =
  no_op_id :: int
  no_work :: node_work
  no_result_url :: string
  no_locker :: string

record node =
  nd_config :: node_config
  nd_state :: "node_op op_state"
  nd_app :: "(string \<times> snapshot_handle) list"
  nd_tasks :: "node_op list"

definition get_or_create_state :: "string \<Rightarrow> 'v \<Rightarrow> (string \<times> 'v) list \<Rightarrow> 'v \<times> (string \<times> 'v) list" where
  "get_or_create_state key new state = (case dict_get state key of
     Some v \<Rightarrow> (v, state)
   | None \<Rightarrow> (new, dict_set key new state))"

definition SNAPSHOTTER_KEY :: string where "SNAPSHOTTER_KEY = ''node_snapshotter''"
definition DELTA_SNAPSHOTTER_KEY :: string where "DELTA_SNAPSHOTTER_KEY = ''node_delta_snapshotter''"

definition get_or_create_snapshot_at :: "string \<Rightarrow> path option \<Rightarrow> node \<Rightarrow> snapshot_handle \<times> node" where
  "get_or_create_snapshot_at key p n =
     (let root_link = (case p of Some l \<Rightarrow> l | None \<Rightarrow> nc_root (nd_config n) @ [''.astacus'']);
          (sn, app) = get_or_create_state key \<lparr>sd_dst = root_link, sd_db = nc_db_path (nd_config n) @ [key @ ''.db'']\<rparr> (nd_app n)
      in (sn, n\<lparr>nd_app := app\<rparr>))"

definition get_or_create_snapshot :: "node \<Rightarrow> snapshot_handle \<times> node" where
  "get_or_create_snapshot n = get_or_create_snapshot_at SNAPSHOTTER_KEY (nc_root_link (nd_config n)) n"

definition get_or_create_delta_snapshot :: "node \<Rightarrow> snapshot_handle \<times> node" where
  "get_or_create_delta_snapshot n = get_or_create_snapshot_at DELTA_SNAPSHOTTER_KEY (nc_delta_root_link (nd_config n)) n"

definition get_snapshotter :: "snapshot_group list \<Rightarrow> node \<Rightarrow> snapshotter_of \<times> node" where
  "get_snapshotter groups n = (case get_or_create_snapshot n of
     (sn, n1) \<Rightarrow> (\<lparr>so_groups = groups, so_src = nc_root (nd_config n), so_snapshot = sn\<rparr>, n1))"

definition get_delta_snapshotter :: "snapshot_group list \<Rightarrow> node \<Rightarrow> snapshotter_of \<times> node" where
  "get_delta_snapshotter groups n = (case get_or_create_delta_snapshot n of
     (sn, n1) \<Rightarrow> (\<lparr>so_groups = groups, so_src = nc_root (nd_config n), so_snapshot = sn\<rparr>, n1))"

text \<open>The moments of an endpoint: the time and the lock when it checks, and the lock when it makes the operation.\<close>

record moments =
  mo_now :: real
  mo_lock :: node_lock
  mo_lock_then :: node_lock

text \<open>\<^verbatim>\<open>XOp(n=n, op_id=n.allocate_op_id(), ...).start(...)\<close>: the operation remembers who holds the lock, takes over the shared info and is put
  into the background. The result is the id of the operation, which is also the last part of its status URL.\<close>

definition start_node_op :: "moments \<Rightarrow> string \<Rightarrow> string \<Rightarrow> node_work \<Rightarrow> (node, int) stateful" where
  "start_node_op m op_name result_url work n =
     (case allocate_op_id (nd_state n) of (op_id, st) \<Rightarrow>
        let n1 = n\<lparr>nd_state := st\<rparr> in
        case mo_lock_then m of
          None \<Rightarrow> (Inl AssertionError, n1)
        | Some entry \<Rightarrow>
            let op = \<lparr>no_op_id = op_id, no_work = work, no_result_url = result_url, no_locker = le_locker entry\<rparr> in
            (case start_op (set_status op_id) op op_id op_name st of
               (Inl e, st1) \<Rightarrow> (Inl e, n1\<lparr>nd_state := st1\<rparr>)
             | (Inr i, st1) \<Rightarrow> (Inr i, n1\<lparr>nd_state := st1, nd_tasks := nd_tasks n @ [op]\<rparr>)))"

section \<open>Endpoints that start operations\<close>

definition when_locked :: "moments \<Rightarrow> (node, int) stateful \<Rightarrow> (node, int) stateful" where
  "when_locked m act n = (if \<not> truthy_locker (is_locked (mo_now m) (mo_lock m)) then (Inl (HTTPException 409), n) else act n)"

definition snapshot_endpoint :: "moments \<Rightarrow> snapshot_group list \<Rightarrow> string \<Rightarrow> (node, int) stateful" where
  "snapshot_endpoint m groups result_url = when_locked m (\<lambda>n. case get_snapshotter (groups_from_snapshot_req (ReqV2 groups [])) n of
     (snapshotter, n1) \<Rightarrow> start_node_op m ''snapshot'' result_url (SnapshotOp snapshotter) n1)"

definition delta_snapshot_endpoint :: "moments \<Rightarrow> snapshot_group list \<Rightarrow> string \<Rightarrow> (node, int) stateful" where
  "delta_snapshot_endpoint m groups result_url = when_locked m (\<lambda>n. case get_delta_snapshotter (groups_from_snapshot_req (ReqV2 groups [])) n of
     (snapshotter, n1) \<Rightarrow> start_node_op m ''snapshot'' result_url (SnapshotOp snapshotter) n1)"

definition upload_endpoint :: "moments \<Rightarrow> snapshot_hash list \<Rightarrow> string \<Rightarrow> bool \<Rightarrow> string \<Rightarrow> (node, int) stateful" where
  "upload_endpoint m hashes storage validate_file_hashes result_url = when_locked m (\<lambda>n. case get_or_create_snapshot n of
     (sn, n1) \<Rightarrow> start_node_op m ''upload'' result_url (UploadOp sn hashes storage validate_file_hashes) n1)"

definition delta_upload_endpoint :: "moments \<Rightarrow> snapshot_hash list \<Rightarrow> string \<Rightarrow> bool \<Rightarrow> string \<Rightarrow> (node, int) stateful" where
  "delta_upload_endpoint m hashes storage validate_file_hashes result_url = when_locked m (\<lambda>n. case get_or_create_delta_snapshot n of
     (sn, n1) \<Rightarrow> start_node_op m ''upload'' result_url (UploadOp sn hashes storage validate_file_hashes) n1)"

definition release_endpoint :: "moments \<Rightarrow> string list \<Rightarrow> string \<Rightarrow> (node, int) stateful" where
  "release_endpoint m hexdigests result_url = when_locked m (\<lambda>n. case get_snapshotter [] n of
     (snapshotter, n1) \<Rightarrow> start_node_op m ''release'' result_url (ReleaseOp snapshotter hexdigests) n1)"

definition download_endpoint :: "moments \<Rightarrow> download_request \<Rightarrow> string \<Rightarrow> (node, int) stateful" where
  "download_endpoint m req result_url = when_locked m (\<lambda>n. case get_snapshotter (groups_from_snapshot_req (ReqGlobs (dq_root_globs req))) n of
     (snapshotter, n1) \<Rightarrow> start_node_op m ''download'' result_url (DownloadOp snapshotter req) n1)"

definition delta_download_endpoint :: "moments \<Rightarrow> download_request \<Rightarrow> string \<Rightarrow> (node, int) stateful" where
  "delta_download_endpoint m req result_url = when_locked m (\<lambda>n. case get_delta_snapshotter (groups_from_snapshot_req (ReqGlobs (dq_root_globs req))) n of
     (snapshotter, n1) \<Rightarrow> start_node_op m ''download'' result_url (DownloadOp snapshotter req) n1)"

definition clear_endpoint :: "moments \<Rightarrow> string list \<Rightarrow> string \<Rightarrow> (node, int) stateful" where
  "clear_endpoint m root_globs result_url = when_locked m (\<lambda>n. case get_snapshotter (groups_from_snapshot_req (ReqGlobs root_globs)) n of
     (snapshotter, n1) \<Rightarrow> start_node_op m ''clear'' result_url (ClearOp snapshotter True) n1)"

definition delta_clear_endpoint :: "moments \<Rightarrow> string list \<Rightarrow> string \<Rightarrow> (node, int) stateful" where
  "delta_clear_endpoint m root_globs result_url = when_locked m (\<lambda>n. case get_delta_snapshotter (groups_from_snapshot_req (ReqGlobs root_globs)) n of
     (snapshotter, n1) \<Rightarrow> start_node_op m ''clear'' result_url (ClearOp snapshotter False) n1)"

definition READONLY_SUBOPS :: "cassandra_sub_op list" where "READONLY_SUBOPS = [GetSchemaHash, RemoveSnapshot, TakeSnapshot]"

fun is_allowed :: "cassandra_sub_op \<Rightarrow> access_level \<Rightarrow> bool" where
  "is_allowed subop ReadAccess \<longleftrightarrow> subop \<in> set READONLY_SUBOPS"
| "is_allowed subop WriteAccess \<longleftrightarrow> True"

definition check_can_do_cassandra_subop :: "moments \<Rightarrow> node \<Rightarrow> cassandra_sub_op \<Rightarrow> unit result" where
  "check_can_do_cassandra_subop m n subop =
     (if \<not> truthy_locker (is_locked (mo_now m) (mo_lock m)) then Inl (HTTPException 409)
      else case nc_cassandra (nd_config n) of
        None \<Rightarrow> Inl (HTTPException 409)
      | Some level \<Rightarrow> if is_allowed subop level then Inr () else Inl (HTTPException 403))"

definition when_allowed :: "moments \<Rightarrow> cassandra_sub_op \<Rightarrow> (node, int) stateful \<Rightarrow> (node, int) stateful" where
  "when_allowed m subop act n =
     (if \<not> nc_cassandra_installed (nd_config n) then (Inl (HTTPException 501), n)
      else case check_can_do_cassandra_subop m n subop of Inl e \<Rightarrow> (Inl e, n) | Inr _ \<Rightarrow> act n)"

definition cassandra_start_endpoint :: "moments \<Rightarrow> start_request \<Rightarrow> string \<Rightarrow> (node, int) stateful" where
  "cassandra_start_endpoint m req result_url = when_allowed m StartCassandra (start_node_op m ''cassandra'' result_url (CassandraStartOp req))"

definition cassandra_restore_sstables_endpoint :: "moments \<Rightarrow> sstables_request \<Rightarrow> string \<Rightarrow> (node, int) stateful" where
  "cassandra_restore_sstables_endpoint m req result_url =
     when_allowed m RestoreSstables (start_node_op m ''cassandra'' result_url (CassandraRestoreSSTablesOp req))"

text \<open>\<^verbatim>\<open>SimpleCassandraSubOp.start\<close> looks its method up after the operation was made and before it is started.\<close>

definition cassandra_endpoint :: "moments \<Rightarrow> cassandra_sub_op \<Rightarrow> string \<Rightarrow> (node, int) stateful" where
  "cassandra_endpoint m subop result_url = when_allowed m subop (\<lambda>n.
     if subop = GetSchemaHash then start_node_op m ''cassandra'' result_url CassandraGetSchemaHashOp n
     else if subop \<in> {RemoveSnapshot, UnrestoreSstables, StopCassandra, TakeSnapshot}
     then start_node_op m ''cassandra'' result_url (SimpleCassandraSubOp subop) n
     else (Inl (if mo_lock_then m = None then AssertionError else KeyError), n\<lparr>nd_state := snd (allocate_op_id (nd_state n))\<rparr>))"

section \<open>Routes\<close>

datatype node_call =
    PostSnapshot "snapshot_group list" string
  | PostDeltaSnapshot "snapshot_group list" string
  | PostUpload "snapshot_hash list" string bool string
  | PostDeltaUpload "snapshot_hash list" string bool string
  | PostRelease "string list" string
  | PostDownload download_request string
  | PostDeltaDownload download_request string
  | PostClear "string list" string
  | PostDeltaClear "string list" string
  | PostStartCassandra start_request string
  | PostRestoreSstables sstables_request string
  | PostCassandra cassandra_sub_op string

fun call_path :: "node_call \<Rightarrow> string list" where
  "call_path (PostSnapshot _ _) = [''snapshot'']"
| "call_path (PostDeltaSnapshot _ _) = [''delta'', ''snapshot'']"
| "call_path (PostUpload _ _ _ _) = [''upload'']"
| "call_path (PostDeltaUpload _ _ _ _) = [''delta'', ''upload'']"
| "call_path (PostRelease _ _) = [''release'']"
| "call_path (PostDownload _ _) = [''download'']"
| "call_path (PostDeltaDownload _ _) = [''delta'', ''download'']"
| "call_path (PostClear _ _) = [''clear'']"
| "call_path (PostDeltaClear _ _) = [''delta'', ''clear'']"
| "call_path (PostStartCassandra _ _) = [''cassandra'', ''start-cassandra'']"
| "call_path (PostRestoreSstables _ _) = [''cassandra'', ''restore-sstables'']"
| "call_path (PostCassandra subop _) = [''cassandra'', sub_op_value subop]"

text \<open>The two Cassandra routes with a body are declared before the route with a parameter and win over it: a request without a body starts Cassandra with
  the defaults, and is refused as invalid for the restore of the tables.\<close>

fun post :: "moments \<Rightarrow> node_call \<Rightarrow> (node, int) stateful" where
  "post m (PostSnapshot groups url) = snapshot_endpoint m groups url"
| "post m (PostDeltaSnapshot groups url) = delta_snapshot_endpoint m groups url"
| "post m (PostUpload hashes storage validate url) = upload_endpoint m hashes storage validate url"
| "post m (PostDeltaUpload hashes storage validate url) = delta_upload_endpoint m hashes storage validate url"
| "post m (PostRelease hexdigests url) = release_endpoint m hexdigests url"
| "post m (PostDownload req url) = download_endpoint m req url"
| "post m (PostDeltaDownload req url) = delta_download_endpoint m req url"
| "post m (PostClear globs url) = clear_endpoint m globs url"
| "post m (PostDeltaClear globs url) = delta_clear_endpoint m globs url"
| "post m (PostStartCassandra req url) = cassandra_start_endpoint m req url"
| "post m (PostRestoreSstables req url) = cassandra_restore_sstables_endpoint m req url"
| "post m (PostCassandra subop url) =
     (if subop = StartCassandra then cassandra_start_endpoint m \<lparr>st_tokens = None, st_replace_address_first_boot = None, st_skip_bootstrap_streaming = None\<rparr> url
      else if subop = RestoreSstables then (\<lambda>n. (Inl (HTTPException 422), n))
      else cassandra_endpoint m subop url)"

definition all_sub_ops :: "cassandra_sub_op list" where
  "all_sub_ops = [GetSchemaHash, RemoveSnapshot, UnrestoreSstables, RestoreSstables, StartCassandra, StopCassandra, TakeSnapshot]"

text \<open>The \<^verbatim>\<open>GET\<close> routes; the operation that an endpoint finds stands for its result.\<close>

definition result_op_name :: "string list \<Rightarrow> string option" where
  "result_op_name p =
     (if p = [''snapshot''] \<or> p = [''delta'', ''snapshot''] then Some ''snapshot''
      else if p = [''upload''] \<or> p = [''delta'', ''upload''] then Some ''upload''
      else if p = [''release''] then Some ''release''
      else if p = [''download''] \<or> p = [''delta'', ''download''] then Some ''download''
      else if p = [''clear''] \<or> p = [''delta'', ''clear''] then Some ''clear''
      else if p \<in> set (map (\<lambda>s. [''cassandra'', sub_op_value s]) all_sub_ops) then Some ''cassandra''
      else None)"

definition result_endpoint :: "string list \<Rightarrow> int \<Rightarrow> node \<Rightarrow> node_op option result" where
  "result_endpoint p op_id n = (case result_op_name p of
     None \<Rightarrow> Inl (HTTPException 404)
   | Some name \<Rightarrow> bind_res (get_op_and_op_info (nd_state n) op_id (Some name)) (\<lambda>r. Inr (fst r)))"

section \<open>An operation starts only when it may\<close>

text \<open>The databases of the snapshots that the node keeps are the ones of its configuration.\<close>

definition app_ok :: "node \<Rightarrow> bool" where
  "app_ok n \<longleftrightarrow> (\<forall>key sn. dict_get (nd_app n) key = Some sn \<longrightarrow> sd_db sn = nc_db_path (nd_config n) @ [key @ ''.db''])"

fun work_snapshot :: "node_work \<Rightarrow> snapshot_handle option" where
  "work_snapshot (SnapshotOp s) = Some (so_snapshot s)"
| "work_snapshot (UploadOp sn _ _ _) = Some sn"
| "work_snapshot (ReleaseOp s _) = Some (so_snapshot s)"
| "work_snapshot (DownloadOp s _) = Some (so_snapshot s)"
| "work_snapshot (ClearOp s _) = Some (so_snapshot s)"
| "work_snapshot _ = None"

fun work_sub_op :: "node_work \<Rightarrow> cassandra_sub_op option" where
  "work_sub_op (CassandraStartOp _) = Some StartCassandra"
| "work_sub_op (CassandraRestoreSSTablesOp _) = Some RestoreSstables"
| "work_sub_op CassandraGetSchemaHashOp = Some GetSchemaHash"
| "work_sub_op (SimpleCassandraSubOp s) = Some s"
| "work_sub_op _ = None"

definition call_key :: "node_call \<Rightarrow> string" where
  "call_key call = (if hd (call_path call) = ''delta'' then DELTA_SNAPSHOTTER_KEY else SNAPSHOTTER_KEY)"

text \<open>What starting an operation does to the node.\<close>

definition started :: "moments \<Rightarrow> string \<Rightarrow> node_work \<Rightarrow> int \<Rightarrow> node \<Rightarrow> node \<Rightarrow> bool" where
  "started m op_name work i n n' \<longleftrightarrow> i = os_next_op_id (nd_state n) \<and> os_next_op_id (nd_state n') = i + 1
     \<and> nd_config n' = nd_config n \<and> nd_app n' = nd_app n
     \<and> (\<exists>op. no_op_id op = i \<and> no_work op = work \<and> os_op (nd_state n') = Some op \<and> nd_tasks n' = nd_tasks n @ [op])
     \<and> oi_op_id (os_op_info (nd_state n')) = i \<and> oi_op_name (os_op_info (nd_state n')) = op_name"

lemma start_node_op_cases:
  assumes "start_node_op m op_name url work n = (r, n')" and "os_next_op_id (nd_state n) \<noteq> 0"
  shows "case r of
      Inr i \<Rightarrow> started m op_name work i n n'
    | Inl e \<Rightarrow> e = AssertionError \<and> n' = n\<lparr>nd_state := (nd_state n)\<lparr>os_next_op_id := os_next_op_id (nd_state n) + 1\<rparr>\<rparr>"
  using assms
  by (auto simp: start_node_op_def allocate_op_id_def start_op_def Let_def set_status_current started_def split: option.splits)

lemma get_or_create_snapshot_at_ok:
  assumes "get_or_create_snapshot_at key p n = (sn, n1)" and "app_ok n"
  shows "app_ok n1 \<and> sd_db sn = nc_db_path (nd_config n) @ [key @ ''.db''] \<and> nd_config n1 = nd_config n \<and> nd_state n1 = nd_state n \<and> nd_tasks n1 = nd_tasks n"
  using assms by (auto simp: get_or_create_snapshot_at_def get_or_create_state_def app_ok_def Let_def update_conv' split: option.splits if_splits)

lemma get_snapshotter_ok:
  "get_or_create_snapshot n = (sn, n1) \<Longrightarrow> app_ok n \<Longrightarrow>
     app_ok n1 \<and> sd_db sn = nc_db_path (nd_config n) @ [SNAPSHOTTER_KEY @ ''.db''] \<and> nd_config n1 = nd_config n \<and> nd_state n1 = nd_state n \<and> nd_tasks n1 = nd_tasks n"
  "get_or_create_delta_snapshot n = (sn, n1) \<Longrightarrow> app_ok n \<Longrightarrow>
     app_ok n1 \<and> sd_db sn = nc_db_path (nd_config n) @ [DELTA_SNAPSHOTTER_KEY @ ''.db''] \<and> nd_config n1 = nd_config n \<and> nd_state n1 = nd_state n \<and> nd_tasks n1 = nd_tasks n"
  by (auto simp: get_or_create_snapshot_def get_or_create_delta_snapshot_def dest: get_or_create_snapshot_at_ok)

text \<open>What a call may do: nothing but use up an id and create a snapshot database, or start one operation that the lock and the configuration allow.\<close>

definition guarded :: "moments \<Rightarrow> node_call \<Rightarrow> string \<Rightarrow> int result \<Rightarrow> node \<Rightarrow> node \<Rightarrow> bool" where
  "guarded m call op_name r n n' \<longleftrightarrow> app_ok n' \<and> nd_config n' = nd_config n \<and> (case r of
     Inl e \<Rightarrow> nd_tasks n' = nd_tasks n \<and> os_op_info (nd_state n') = os_op_info (nd_state n) \<and> os_op (nd_state n') = os_op (nd_state n)
   | Inr i \<Rightarrow> truthy_locker (is_locked (mo_now m) (mo_lock m)) \<and> i = os_next_op_id (nd_state n)
       \<and> oi_op_id (os_op_info (nd_state n')) = i \<and> oi_op_name (os_op_info (nd_state n')) = op_name
       \<and> (\<exists>op. no_op_id op = i \<and> os_op (nd_state n') = Some op \<and> nd_tasks n' = nd_tasks n @ [op]
           \<and> (\<forall>sn. work_snapshot (no_work op) = Some sn \<longrightarrow> sd_db sn = nc_db_path (nd_config n) @ [call_key call @ ''.db''])
           \<and> (\<forall>s. work_sub_op (no_work op) = Some s \<longrightarrow> (\<exists>level. nc_cassandra (nd_config n) = Some level \<and> is_allowed s level))))"

lemma start_guarded:
  assumes "start_node_op m op_name url work n1 = (r, n')" and "os_next_op_id (nd_state n) \<noteq> 0"
    and "app_ok n1 \<and> nd_config n1 = nd_config n \<and> nd_state n1 = nd_state n \<and> nd_tasks n1 = nd_tasks n"
    and "truthy_locker (is_locked (mo_now m) (mo_lock m))"
    and "\<And>sn. work_snapshot work = Some sn \<Longrightarrow> sd_db sn = nc_db_path (nd_config n) @ [call_key call @ ''.db'']"
    and "\<And>s. work_sub_op work = Some s \<Longrightarrow> \<exists>level. nc_cassandra (nd_config n) = Some level \<and> is_allowed s level"
  shows "guarded m call op_name r n n'"
proof (cases r)
  case (Inl e)
  then show ?thesis using start_node_op_cases [OF assms(1)] assms(2,3) by (auto simp: guarded_def app_ok_def)
next
  case (Inr i)
  then have st: "started m op_name work i n1 n'" using start_node_op_cases [OF assms(1)] assms(2,3) by simp
  then have "app_ok n'" using assms(3) by (simp add: started_def app_ok_def)
  then show ?thesis using st Inr assms(3,4,5,6) by (auto simp: guarded_def started_def)
qed

lemma snapshot_call_guarded:
  assumes "when_locked m (\<lambda>n. case prep n of (x, n1) \<Rightarrow> start_node_op m op_name url (work x) n1) n = (r, n')"
    and "os_next_op_id (nd_state n) \<noteq> 0" and "app_ok n"
    and "\<And>x n1. prep n = (x, n1) \<Longrightarrow> app_ok n1 \<and> nd_config n1 = nd_config n \<and> nd_state n1 = nd_state n \<and> nd_tasks n1 = nd_tasks n
      \<and> (\<exists>sn. work_snapshot (work x) = Some sn \<and> sd_db sn = nc_db_path (nd_config n) @ [call_key call @ ''.db'']) \<and> work_sub_op (work x) = None"
  shows "guarded m call op_name r n n'"
proof (cases "truthy_locker (is_locked (mo_now m) (mo_lock m))")
  case False
  then show ?thesis using assms(1,3) by (auto simp: when_locked_def guarded_def)
next
  case True
  obtain x n1 where p: "prep n = (x, n1)" by fastforce
  then have "start_node_op m op_name url (work x) n1 = (r, n')" using assms(1) True by (simp add: when_locked_def)
  then show ?thesis by (rule start_guarded [OF _ assms(2) _ True]) (use assms(4) [OF p] in auto)
qed

lemma cassandra_call_guarded:
  assumes "when_allowed m s (start_node_op m op_name url work) n = (r, n')" and "work_sub_op work = Some s" and "work_snapshot work = None"
    and "os_next_op_id (nd_state n) \<noteq> 0" and "app_ok n"
  shows "guarded m call op_name r n n'"
proof (cases "nc_cassandra_installed (nd_config n) \<and> check_can_do_cassandra_subop m n s = Inr ()")
  case False
  then show ?thesis using assms(1,5) by (auto simp: when_allowed_def guarded_def split: if_splits sum.splits)
next
  case True
  then have "start_node_op m op_name url work n = (r, n')" using assms(1) by (simp add: when_allowed_def)
  moreover have "truthy_locker (is_locked (mo_now m) (mo_lock m))" "\<exists>level. nc_cassandra (nd_config n) = Some level \<and> is_allowed s level"
    using True by (auto simp: check_can_do_cassandra_subop_def split: if_splits option.splits)
  ultimately show ?thesis by (intro start_guarded) (use assms in auto)
qed

lemmas endpoint_defs = snapshot_endpoint_def delta_snapshot_endpoint_def upload_endpoint_def delta_upload_endpoint_def release_endpoint_def
  download_endpoint_def delta_download_endpoint_def clear_endpoint_def delta_clear_endpoint_def

lemma cassandra_endpoint_guarded:
  assumes "cassandra_endpoint m subop url n = (r, n')" and "os_next_op_id (nd_state n) \<noteq> 0" and "app_ok n"
    and "subop \<noteq> StartCassandra" and "subop \<noteq> RestoreSstables"
  shows "guarded m call ''cassandra'' r n n'"
proof (cases "subop = GetSchemaHash")
  case True
  then show ?thesis using assms(1) by (intro cassandra_call_guarded [of m subop _ url CassandraGetSchemaHashOp n]) (use assms(2,3) in \<open>auto simp: cassandra_endpoint_def\<close>)
next
  case False
  then have "subop \<in> {RemoveSnapshot, UnrestoreSstables, StopCassandra, TakeSnapshot}" using assms(4,5) by (cases subop) auto
  then have "when_allowed m subop (start_node_op m ''cassandra'' url (SimpleCassandraSubOp subop)) n = (r, n')"
    using assms(1) False by (auto simp: cassandra_endpoint_def)
  then show ?thesis using assms(2,3) by (intro cassandra_call_guarded) auto
qed

lemma snapshotter_call_guarded:
  assumes "when_locked m (\<lambda>n. case get_snapshotter groups n of (x, n1) \<Rightarrow> start_node_op m op_name url (work x) n1) n = (r, n')"
    and "\<And>x. work_snapshot (work x) = Some (so_snapshot x) \<and> work_sub_op (work x) = None" and "call_key call = SNAPSHOTTER_KEY"
    and "os_next_op_id (nd_state n) \<noteq> 0" and "app_ok n"
  shows "guarded m call op_name r n n'"
  using assms(2,3)
  by (intro snapshot_call_guarded [OF assms(1,4,5)]) (auto simp: get_snapshotter_def dest: get_snapshotter_ok [OF _ assms(5)] split: prod.splits)

lemma delta_snapshotter_call_guarded:
  assumes "when_locked m (\<lambda>n. case get_delta_snapshotter groups n of (x, n1) \<Rightarrow> start_node_op m op_name url (work x) n1) n = (r, n')"
    and "\<And>x. work_snapshot (work x) = Some (so_snapshot x) \<and> work_sub_op (work x) = None" and "call_key call = DELTA_SNAPSHOTTER_KEY"
    and "os_next_op_id (nd_state n) \<noteq> 0" and "app_ok n"
  shows "guarded m call op_name r n n'"
  using assms(2,3)
  by (intro snapshot_call_guarded [OF assms(1,4,5)]) (auto simp: get_delta_snapshotter_def dest: get_snapshotter_ok [OF _ assms(5)] split: prod.splits)

lemma upload_call_guarded:
  assumes "os_next_op_id (nd_state n) \<noteq> 0" and "app_ok n"
  shows "upload_endpoint m hashes storage validate url n = (r, n') \<Longrightarrow> guarded m (PostUpload hashes storage validate url) ''upload'' r n n'"
    and "delta_upload_endpoint m hashes storage validate url n = (r, n') \<Longrightarrow> guarded m (PostDeltaUpload hashes storage validate url) ''upload'' r n n'"
proof -
  assume "upload_endpoint m hashes storage validate url n = (r, n')"
  then show "guarded m (PostUpload hashes storage validate url) ''upload'' r n n'" unfolding upload_endpoint_def
    by (rule snapshot_call_guarded [where work = "\<lambda>sn. UploadOp sn hashes storage validate", OF _ assms])
      (use get_snapshotter_ok(1) [OF _ assms(2)] in \<open>simp add: call_key_def\<close>)
next
  assume "delta_upload_endpoint m hashes storage validate url n = (r, n')"
  then show "guarded m (PostDeltaUpload hashes storage validate url) ''upload'' r n n'" unfolding delta_upload_endpoint_def
    by (rule snapshot_call_guarded [where work = "\<lambda>sn. UploadOp sn hashes storage validate", OF _ assms])
      (use get_snapshotter_ok(2) [OF _ assms(2)] in \<open>simp add: call_key_def\<close>)
qed

lemma guarded_name: "guarded m call op_name r n n' \<Longrightarrow> op_name = other \<Longrightarrow> guarded m call other r n n'"
  by simp

lemma post_guarded:
  assumes "post m call n = (r, n')" and ids: "os_next_op_id (nd_state n) \<noteq> 0" "app_ok n"
  shows "guarded m call (the (result_op_name (call_path call))) r n n'"
proof (cases call)
  case (PostCassandra subop url)
  have name: "the (result_op_name (call_path call)) = ''cassandra''"
    using PostCassandra by (cases subop) (simp_all add: result_op_name_def all_sub_ops_def)
  consider "subop = StartCassandra" | "subop = RestoreSstables" | "subop \<noteq> StartCassandra" "subop \<noteq> RestoreSstables" by blast
  then show ?thesis
  proof cases
    case 1
    then show ?thesis unfolding name using assms(1) PostCassandra
      by (intro cassandra_call_guarded [OF _ _ _ ids]) (auto simp: cassandra_start_endpoint_def)
  next
    case 2
    then show ?thesis using assms(1) PostCassandra ids by (auto simp: guarded_def)
  next
    case 3
    then show ?thesis unfolding name using assms(1) PostCassandra by (intro cassandra_endpoint_guarded [OF _ ids]) auto
  qed
next
  case (PostStartCassandra req url)
  then show ?thesis using assms(1) unfolding cassandra_start_endpoint_def
    by (intro cassandra_call_guarded [OF _ _ _ ids]) (auto simp: cassandra_start_endpoint_def result_op_name_def all_sub_ops_def)
next
  case (PostRestoreSstables req url)
  then show ?thesis using assms(1)
    by (intro cassandra_call_guarded [OF _ _ _ ids]) (auto simp: cassandra_restore_sstables_endpoint_def result_op_name_def all_sub_ops_def)
next
  case (PostUpload hashes storage validate url)
  then show ?thesis using assms(1) upload_call_guarded(1) [OF ids] by (simp add: result_op_name_def)
next
  case (PostDeltaUpload hashes storage validate url)
  then show ?thesis using assms(1) upload_call_guarded(2) [OF ids] by (simp add: result_op_name_def)
next
  case (PostSnapshot groups url)
  have "snapshot_endpoint m groups url n = (r, n')" using assms(1) PostSnapshot by simp
  then show ?thesis unfolding snapshot_endpoint_def
    by (rule snapshotter_call_guarded [where work = "SnapshotOp", THEN guarded_name, OF _ _ _ ids]) (simp_all add: PostSnapshot call_key_def result_op_name_def)
next
  case (PostDeltaSnapshot groups url)
  have "delta_snapshot_endpoint m groups url n = (r, n')" using assms(1) PostDeltaSnapshot by simp
  then show ?thesis unfolding delta_snapshot_endpoint_def
    by (rule delta_snapshotter_call_guarded [where work = "SnapshotOp", THEN guarded_name, OF _ _ _ ids]) (simp_all add: PostDeltaSnapshot call_key_def result_op_name_def)
next
  case (PostRelease hexdigests url)
  have "release_endpoint m hexdigests url n = (r, n')" using assms(1) PostRelease by simp
  then show ?thesis unfolding release_endpoint_def
    by (rule snapshotter_call_guarded [where work = "\<lambda>s. ReleaseOp s hexdigests", THEN guarded_name, OF _ _ _ ids]) (simp_all add: PostRelease call_key_def result_op_name_def)
next
  case (PostDownload req url)
  have "download_endpoint m req url n = (r, n')" using assms(1) PostDownload by simp
  then show ?thesis unfolding download_endpoint_def
    by (rule snapshotter_call_guarded [where work = "\<lambda>s. DownloadOp s req", THEN guarded_name, OF _ _ _ ids]) (simp_all add: PostDownload call_key_def result_op_name_def)
next
  case (PostDeltaDownload req url)
  have "delta_download_endpoint m req url n = (r, n')" using assms(1) PostDeltaDownload by simp
  then show ?thesis unfolding delta_download_endpoint_def
    by (rule delta_snapshotter_call_guarded [where work = "\<lambda>s. DownloadOp s req", THEN guarded_name, OF _ _ _ ids]) (simp_all add: PostDeltaDownload call_key_def result_op_name_def)
next
  case (PostClear globs url)
  have "clear_endpoint m globs url n = (r, n')" using assms(1) PostClear by simp
  then show ?thesis unfolding clear_endpoint_def
    by (rule snapshotter_call_guarded [where work = "\<lambda>s. ClearOp s True", THEN guarded_name, OF _ _ _ ids]) (simp_all add: PostClear call_key_def result_op_name_def)
next
  case (PostDeltaClear globs url)
  have "delta_clear_endpoint m globs url n = (r, n')" using assms(1) PostDeltaClear by simp
  then show ?thesis unfolding delta_clear_endpoint_def
    by (rule delta_snapshotter_call_guarded [where work = "\<lambda>s. ClearOp s False", THEN guarded_name, OF _ _ _ ids]) (simp_all add: PostDeltaClear call_key_def result_op_name_def)
qed

text \<open>C23. A node works only for whoever may ask. Every call of a node whose database files are those of its configuration keeps them so. When it is refused or fails,
  no operation is started and the running one is not disturbed. When it succeeds, the node was locked, exactly one operation with a new id is put into the
  background, polling the status URL of the call gives that operation, its snapshot is the delta snapshot exactly for the calls below \<^verbatim>\<open>delta/\<close>, and on a
  node with read access to Cassandra it is not one that starts or stops Cassandra or changes its tables.\<close>

theorem node_calls_guarded:
  assumes "post m call n = (r, n')" and "os_next_op_id (nd_state n) \<noteq> 0" and "app_ok n"
  shows "app_ok n' \<and> nd_config n' = nd_config n \<and> (case r of
      Inl e \<Rightarrow> nd_tasks n' = nd_tasks n \<and> os_op_info (nd_state n') = os_op_info (nd_state n) \<and> os_op (nd_state n') = os_op (nd_state n)
    | Inr i \<Rightarrow> (\<exists>locker. locker \<noteq> [] \<and> is_locked (mo_now m) (mo_lock m) = Some locker) \<and> i = os_next_op_id (nd_state n)
        \<and> (\<exists>op. no_op_id op = i \<and> nd_tasks n' = nd_tasks n @ [op] \<and> result_endpoint (call_path call) i n' = Inr (Some op)
            \<and> (\<forall>sn. work_snapshot (no_work op) = Some sn \<longrightarrow>
                 sd_db sn = nc_db_path (nd_config n) @ [(if hd (call_path call) = ''delta'' then DELTA_SNAPSHOTTER_KEY else SNAPSHOTTER_KEY) @ ''.db''])
            \<and> (nc_cassandra (nd_config n) = Some ReadAccess \<longrightarrow> (\<forall>s. work_sub_op (no_work op) = Some s \<longrightarrow> s \<in> {GetSchemaHash, RemoveSnapshot, TakeSnapshot}))))"
proof -
  let ?name = "the (result_op_name (call_path call))"
  have g: "guarded m call ?name r n n'" by (rule post_guarded [OF assms])
  have some: "result_op_name (call_path call) = Some ?name"
  proof (cases call)
    case (PostCassandra subop url)
    then show ?thesis by (cases subop) (simp_all add: result_op_name_def all_sub_ops_def)
  qed (simp_all add: result_op_name_def all_sub_ops_def)
  have found: "result_endpoint (call_path call) i n' = Inr (os_op (nd_state n'))"
    if n: "oi_op_id (os_op_info (nd_state n')) = i" "oi_op_name (os_op_info (nd_state n')) = ?name" for i
    unfolding result_endpoint_def by (subst some) (simp add: n get_op_and_op_info_def Let_def)
  show ?thesis
  proof (cases r)
    case (Inl e)
    then show ?thesis using g by (simp add: guarded_def)
  next
    case (Inr i)
    have lk: "\<exists>locker. locker \<noteq> [] \<and> is_locked (mo_now m) (mo_lock m) = Some locker"
      using g Inr by (auto simp: guarded_def truthy_locker_def)
    obtain op where op: "no_op_id op = i" "os_op (nd_state n') = Some op" "nd_tasks n' = nd_tasks n @ [op]"
        "\<forall>sn. work_snapshot (no_work op) = Some sn \<longrightarrow> sd_db sn = nc_db_path (nd_config n) @ [call_key call @ ''.db'']"
        "\<forall>s. work_sub_op (no_work op) = Some s \<longrightarrow> (\<exists>level. nc_cassandra (nd_config n) = Some level \<and> is_allowed s level)"
      using g Inr by (auto simp: guarded_def)
    have res: "result_endpoint (call_path call) i n' = Inr (Some op)" using found [of i] g Inr op(2) by (simp add: guarded_def)
    have allowed: "s \<in> {GetSchemaHash, RemoveSnapshot, TakeSnapshot}"
      if n: "nc_cassandra (nd_config n) = Some ReadAccess" "work_sub_op (no_work op) = Some s" for s
      using op(5) n by (auto simp: READONLY_SUBOPS_def)
    show ?thesis using g Inr lk op(1,3,4) res allowed by (auto simp: guarded_def call_key_def)
  qed
qed

definition sample_node :: node where
  "sample_node = \<lparr>nd_config = \<lparr>nc_root = [''data''], nc_root_link = None, nc_delta_root_link = None, nc_db_path = [''db''], nc_cassandra = Some ReadAccess,
     nc_cassandra_installed = True\<rparr>, nd_state = new_op_state, nd_app = [], nd_tasks = []\<rparr>"

definition sample_moments :: moments where
  "sample_moments = \<lparr>mo_now = 5, mo_lock = Some \<lparr>le_locker = ''a'', le_locked_until = 60\<rparr>, mo_lock_then = Some \<lparr>le_locker = ''a'', le_locked_until = 60\<rparr>\<rparr>"

theorem node_calls_guarded_witness:
  "fst (post sample_moments (PostCassandra StopCassandra []) sample_node) = Inl (HTTPException 403)
   \<and> fst (post sample_moments (PostDeltaClear [''*''] []) sample_node) = Inr 1
   \<and> (\<exists>op. no_op_id op = 1 \<and> result_endpoint [''delta'', ''clear''] 1 (snd (post sample_moments (PostDeltaClear [''*''] []) sample_node)) = Inr (Some op)
       \<and> (\<forall>sn. work_snapshot (no_work op) = Some sn \<longrightarrow> sd_db sn = [''db'', ''node_delta_snapshotter.db'']))"
proof -
  let ?call = "PostDeltaClear [''*''] []"
  have refused: "fst (post sample_moments (PostCassandra StopCassandra []) sample_node) = Inl (HTTPException 403)"
    by (simp add: cassandra_endpoint_def when_allowed_def check_can_do_cassandra_subop_def sample_node_def sample_moments_def is_locked_def READONLY_SUBOPS_def)
  have ok: "fst (post sample_moments ?call sample_node) = Inr 1"
    by (simp add: delta_clear_endpoint_def when_locked_def get_delta_snapshotter_def get_or_create_delta_snapshot_def get_or_create_snapshot_at_def
        get_or_create_state_def start_node_op_def allocate_op_id_def start_op_def Let_def set_status_current sample_node_def sample_moments_def is_locked_def new_op_state_def new_op_info_def)
  have ap: "app_ok sample_node" and nx: "os_next_op_id (nd_state sample_node) \<noteq> 0" by (simp_all add: app_ok_def sample_node_def new_op_state_def)
  show ?thesis
    using node_calls_guarded [OF prod.collapse [symmetric, of "post sample_moments ?call sample_node"] nx ap] refused ok
    by (auto simp: sample_node_def new_op_state_def DELTA_SNAPSHOTTER_KEY_def)
qed

section \<open>Reports to the coordinator\<close>

text \<open>The state of a running operation: the shared info, its progress, the generator behind \<^verbatim>\<open>still_locked_callback\<close>, the time and the lock that it sees, and the
  reports that were sent.\<close>

record node_run =
  ru_info :: op_info
  ru_progress :: progress
  ru_hit :: bool
  ru_now :: real
  ru_lock :: node_lock
  ru_sent :: "progress list"

definition still_running_callback :: "node_op \<Rightarrow> (node_run, bool) stateful" where
  "still_running_callback op s =
     (if oi_op_id (ru_info s) \<noteq> no_op_id op then (Inr False, s)
      else case still_locked (no_locker op) (ru_now s) (ru_lock s) (ru_hit s) of (r, hit) \<Rightarrow> (r, s\<lparr>ru_hit := hit\<rparr>))"

definition send_result :: "node_op \<Rightarrow> (node_run, unit) stateful" where
  "send_result op s =
     (if no_result_url op = [] then (Inr (), s)
      else case still_running_callback op s of
        (Inl e, s1) \<Rightarrow> (Inl e, s1)
      | (Inr running, s1) \<Rightarrow> (Inr (), if running then s1\<lparr>ru_sent := ru_sent s1 @ [ru_progress s1]\<rparr> else s1))"

definition on_run_progress :: "(progress, unit) stateful \<Rightarrow> (node_run, unit) stateful" where
  "on_run_progress f s = (case f (ru_progress s) of (r, p) \<Rightarrow> (r, s\<lparr>ru_progress := p\<rparr>))"

definition node_set_status :: "node_op \<Rightarrow> op_status \<Rightarrow> op_status option \<Rightarrow> (node_run, bool) stateful" where
  "node_set_status op status from_status s =
     (case set_status (no_op_id op) status from_status (ru_info s) of
        (Inl e, i) \<Rightarrow> (Inl e, s\<lparr>ru_info := i\<rparr>)
      | (Inr changed, i) \<Rightarrow>
          let s1 = s\<lparr>ru_info := i\<rparr> in
          if \<not> changed then (Inr False, s1)
          else if status = StFail then
            bind_st (if pr_final (ru_progress s1) then (\<lambda>s. (Inr (), s)) else bind_st (on_run_progress (add_fail 1)) (\<lambda>_. on_run_progress done_progress))
              (\<lambda>_. bind_st (send_result op) (\<lambda>_ s. (Inr True, s))) s1
          else if status \<noteq> StDone then (Inr True, s1)
          else bind_st (send_result op) (\<lambda>_ s. (Inr True, s)) s1)"

definition reporting :: "node_op \<Rightarrow> node_run \<Rightarrow> bool" where
  "reporting op s \<longleftrightarrow> no_result_url op \<noteq> [] \<and> ru_hit s \<and> is_locked (ru_now s) (ru_lock s) = Some (no_locker op)"

lemma send_result_effect:
  assumes "oi_op_id (ru_info s) = no_op_id op"
  shows "\<exists>s'. send_result op s = (Inr (), s') \<and> ru_info s' = ru_info s \<and> ru_progress s' = ru_progress s
    \<and> ru_sent s' = ru_sent s @ (if reporting op s then [ru_progress s] else [])"
  using assms by (auto simp: send_result_def still_running_callback_def still_locked_def reporting_def)

lemma node_set_status_running:
  assumes "no_op_id op \<noteq> 0" and "oi_op_id (ru_info s) = no_op_id op"
  shows "\<exists>b. node_set_status op StRunning None s = (Inr b, s\<lparr>ru_info := (ru_info s)\<lparr>oi_op_status := Some (Member StRunning)\<rparr>\<rparr>)"
  using assms by (auto simp: node_set_status_def set_status_current Let_def)

lemma node_set_status_done:
  assumes "no_op_id op \<noteq> 0" and "oi_op_id (ru_info s) = no_op_id op" and "oi_op_status (ru_info s) = Some (Member StRunning)"
  shows "\<exists>s'. node_set_status op StDone (Some StRunning) s = (Inr True, s')
    \<and> ru_info s' = (ru_info s)\<lparr>oi_op_status := Some (Member StDone)\<rparr> \<and> ru_progress s' = ru_progress s
    \<and> ru_sent s' = ru_sent s @ (if reporting op s then [ru_progress s] else [])"
proof -
  let ?s = "s\<lparr>ru_info := (ru_info s)\<lparr>oi_op_status := Some (Member StDone)\<rparr>\<rparr>"
  have r: "reporting op ?s = reporting op s" by (simp add: reporting_def)
  obtain s' where "send_result op ?s = (Inr (), s')" "ru_info s' = ru_info ?s" "ru_progress s' = ru_progress s"
      "ru_sent s' = ru_sent s @ (if reporting op s then [ru_progress s] else [])"
    using send_result_effect [of ?s op] assms(2) r by auto
  then show ?thesis using set_status_done [OF assms] by (simp add: node_set_status_def bind_st_def)
qed

lemma node_set_status_fail:
  assumes "no_op_id op \<noteq> 0" and "oi_op_id (ru_info s) = no_op_id op" and "oi_op_status (ru_info s) = Some (Member StRunning)"
    and "pr_handled (ru_progress s) \<le> pr_total (ru_progress s)" and "0 \<le> pr_failed (ru_progress s)"
  shows "\<exists>s'. node_set_status op StFail None s = (Inr True, s')
    \<and> ru_info s' = (ru_info s)\<lparr>oi_op_status := Some (Member StFail)\<rparr> \<and> pr_final (ru_progress s')
    \<and> (if pr_final (ru_progress s) then ru_progress s' = ru_progress s else finished_failed (ru_progress s'))
    \<and> ru_sent s' = ru_sent s @ (if reporting op s then [ru_progress s'] else [])"
proof -
  let ?p = "if pr_final (ru_progress s) then ru_progress s else (ru_progress s)\<lparr>pr_failed := pr_failed (ru_progress s) + 1, pr_final := True\<rparr>"
  let ?s = "s\<lparr>ru_info := (ru_info s)\<lparr>oi_op_status := Some (Member StFail)\<rparr>, ru_progress := ?p\<rparr>"
  have r: "reporting op ?s = reporting op s" by (simp add: reporting_def)
  obtain s' where s': "send_result op ?s = (Inr (), s')" "ru_info s' = ru_info ?s" "ru_progress s' = ?p"
      "ru_sent s' = ru_sent s @ (if reporting op s then [?p] else [])"
    using send_result_effect [of ?s op] assms(2) r by auto
  have "node_set_status op StFail None s = bind_st (send_result op) (\<lambda>_ s. (Inr True, s)) ?s"
    using assms by (auto simp: node_set_status_def set_status_current Let_def bind_st_def on_run_progress_def add_fail_def done_progress_def assert_res_def)
  then have "node_set_status op StFail None s = (Inr True, s')" using s'(1) by (simp add: bind_st_def)
  then show ?thesis using s'(2-4) assms(5) by (auto simp: finished_failed_def finished_successfully_def)
qed

text \<open>C24. The coordinator hears of the end of a node operation. An operation that is still the operation of its node and whose meter is consistent ends as done when
  its body returns and as failed when its body raises; exactly then one report is sent, provided that a result URL was given and the node is still locked
  by the locker the operation was started under. The report of a failed operation has the progress of a failure, unless the body had already finished its meter.\<close>

theorem node_op_reports:
  assumes "no_op_id op \<noteq> 0" and "oi_op_id (ru_info s) = no_op_id op"
    and "body (s\<lparr>ru_info := (ru_info s)\<lparr>oi_op_status := Some (Member StRunning)\<rparr>\<rparr>) = (r, s2)"
    and "oi_op_id (ru_info s2) = no_op_id op" and "oi_op_status (ru_info s2) = Some (Member StRunning)"
    and "pr_handled (ru_progress s2) \<le> pr_total (ru_progress s2)" and "0 \<le> pr_failed (ru_progress s2)"
    and "r \<noteq> Inl ExpiredOperationException" and "r \<noteq> Inl CancelledError"
  shows "\<exists>s'. sync_wrapper (node_set_status op) body s = (r, s')
    \<and> oi_op_status (ru_info s') = Some (Member (case r of Inr _ \<Rightarrow> StDone | Inl _ \<Rightarrow> StFail))
    \<and> ru_sent s' = ru_sent s2 @ (if no_result_url op \<noteq> [] \<and> ru_hit s2 \<and> is_locked (ru_now s2) (ru_lock s2) = Some (no_locker op) then [ru_progress s'] else [])
    \<and> (case r of Inr _ \<Rightarrow> ru_progress s' = ru_progress s2
        | Inl _ \<Rightarrow> if pr_final (ru_progress s2) then ru_progress s' = ru_progress s2 else finished_failed (ru_progress s'))"
proof -
  obtain b where run: "node_set_status op StRunning None s = (Inr b, s\<lparr>ru_info := (ru_info s)\<lparr>oi_op_status := Some (Member StRunning)\<rparr>\<rparr>)"
    using node_set_status_running [OF assms(1,2)] by blast
  show ?thesis
  proof (cases r)
    case (Inr u)
    obtain s' where "node_set_status op StDone (Some StRunning) s2 = (Inr True, s')"
        "ru_info s' = (ru_info s2)\<lparr>oi_op_status := Some (Member StDone)\<rparr>" "ru_progress s' = ru_progress s2"
        "ru_sent s' = ru_sent s2 @ (if reporting op s2 then [ru_progress s2] else [])"
      using node_set_status_done [OF assms(1,4,5)] by blast
    then show ?thesis using run assms(3) Inr by (simp add: wrapper_defs reporting_def)
  next
    case (Inl e)
    obtain s' where "node_set_status op StFail None s2 = (Inr True, s')"
        "ru_info s' = (ru_info s2)\<lparr>oi_op_status := Some (Member StFail)\<rparr>"
        "if pr_final (ru_progress s2) then ru_progress s' = ru_progress s2 else finished_failed (ru_progress s')"
        "ru_sent s' = ru_sent s2 @ (if reporting op s2 then [ru_progress s'] else [])"
      using node_set_status_fail [OF assms(1,4,5,6,7)] by blast
    then show ?thesis using run assms(3,8,9) Inl by (simp add: wrapper_defs reporting_def)
  qed
qed

theorem node_op_reports_witness:
  "\<exists>s'. sync_wrapper (node_set_status \<lparr>no_op_id = 3, no_work = CassandraGetSchemaHashOp, no_result_url = ''http://c/'', no_locker = ''a''\<rparr>) (\<lambda>s. (Inl ValueError, s))
      \<lparr>ru_info = \<lparr>oi_op_id = 3, oi_op_name = ''cassandra'', oi_op_status = Some (Member StStarting)\<rparr>, ru_progress = new_progress, ru_hit = True, ru_now = 1,
        ru_lock = Some \<lparr>le_locker = ''a'', le_locked_until = 9\<rparr>, ru_sent = []\<rparr> = (Inl ValueError, s')
    \<and> ru_sent s' = [ru_progress s'] \<and> finished_failed (ru_progress s')"
proof -
  let ?op = "\<lparr>no_op_id = 3, no_work = CassandraGetSchemaHashOp, no_result_url = ''http://c/'', no_locker = ''a''\<rparr>"
  let ?s = "\<lparr>ru_info = \<lparr>oi_op_id = 3, oi_op_name = ''cassandra'', oi_op_status = Some (Member StStarting)\<rparr>, ru_progress = new_progress, ru_hit = True, ru_now = 1,
        ru_lock = Some \<lparr>le_locker = ''a'', le_locked_until = 9\<rparr>, ru_sent = []\<rparr>"
  show ?thesis
    using node_op_reports [of ?op ?s "\<lambda>s. (Inl ValueError, s)" "Inl ValueError" "?s\<lparr>ru_info := (ru_info ?s)\<lparr>oi_op_status := Some (Member StRunning)\<rparr>\<rparr>"]
    by (auto simp: new_progress_def is_locked_def)
qed

end
