(* ===== verification/Coordinator_Api.thy ===== *)
theory Coordinator_Api
  imports Plugin_Steps Node_Lock Stepped_Op
begin

text \<open>
  A whole operation of the coordinator: the endpoints that start one (\<^verbatim>\<open>astacus/coordinator/api.py\<close>), \<^verbatim>\<open>LockedCoordinatorOp\<close> with the run that
  \<^verbatim>\<open>acquire_cluster_lock\<close> returns, the status with its running time, and the endpoints for the status and for the reports of the nodes
  (\<^verbatim>\<open>astacus/coordinator/coordinator.py\<close>). It puts together the lock of \<open>Node_Lock\<close>, the attempts of \<open>Stepped_Op\<close>, the wrappers of \<open>Op_State\<close>
  and the lists of \<open>Plugin_Steps\<close>.

  The steps change the world \<open>'w\<close>, not the shared info. A relock loop that gives up cancels the operation: that is a step that raises \<^verbatim>\<open>CancelledError\<close>.
  The locks at the end of the steps, as the relock loops have left them, are a parameter of the run.
\<close>

section \<open>Operations with a lock\<close>

text \<open>An operation: \<open>lo_started\<close> is the attribute \<^verbatim>\<open>op_started\<close>, which has no value until the status changes to starting.\<close>

record locked_op =
  lo_op_id :: int
  lo_locker :: string
  lo_ttl :: int
  lo_attempts :: nat

record 'w run_state =
  rs_info :: op_info
  rs_started :: "real option"
  rs_now :: real
  rs_gauge :: "real list"
  rs_locks :: "node_lock list"
  rs_world :: 'w

definition update_running_stats :: "('w run_state, unit) stateful" where
  "update_running_stats s =
     (if oi_op_status (rs_info s) \<in> {Some (Member StDone), Some (Member StFail)} then (Inr (), s\<lparr>rs_gauge := rs_gauge s @ [0]\<rparr>)
      else case rs_started s of
        None \<Rightarrow> (Inl AttributeError, s)
      | Some t \<Rightarrow> (Inr (), s\<lparr>rs_gauge := rs_gauge s @ [of_int \<lfloor>rs_now s - t\<rfloor>]\<rparr>))"

definition locked_set_status :: "locked_op \<Rightarrow> op_status \<Rightarrow> op_status option \<Rightarrow> ('w run_state, bool) stateful" where
  "locked_set_status op status from_status s =
     (case set_status (lo_op_id op) status from_status (rs_info s) of
        (Inl e, i) \<Rightarrow> (Inl e, s\<lparr>rs_info := i\<rparr>)
      | (Inr changed, i) \<Rightarrow>
          let s1 = s\<lparr>rs_info := i\<rparr>;
              s2 = (if status = StStarting \<and> changed then s1\<lparr>rs_started := Some (rs_now s1)\<rparr> else s1)
          in bind_st update_running_stats (\<lambda>_ s. (Inr changed, s)) s2)"

text \<open>\<^verbatim>\<open>start_op\<close> with this status change; a new operation has not started.\<close>

definition start_locked_op :: "locked_op \<Rightarrow> string \<Rightarrow> ('w run_state, int) stateful" where
  "start_locked_op op op_name s =
     (case locked_set_status op StStarting None (s\<lparr>rs_info := (rs_info s)\<lparr>oi_op_id := lo_op_id op, oi_op_name := op_name\<rparr>, rs_started := None\<rparr>) of
        (Inl e, s1) \<Rightarrow> (Inl e, s1)
      | (Inr _, s1) \<Rightarrow> (Inr (lo_op_id op), s1))"

text \<open>The steps work on the world.\<close>

definition lift_step :: "('w, 'v) step \<Rightarrow> ('w run_state, 'v) step" where
  "lift_step st = \<lparr>step_class = step_class st, run_step = (\<lambda>c s. case run_step st c (rs_world s) of (x, w) \<Rightarrow> (x, s\<lparr>rs_world := w\<rparr>))\<rparr>"

text \<open>\<^verbatim>\<open>run\<close> in \<^verbatim>\<open>acquire_cluster_lock\<close>: \<open>locks\<close> are the locks when the relock tasks have been cancelled, \<open>ds\<close> the deliveries of the unlock requests.\<close>

definition run_and_unlock :: "locked_op \<Rightarrow> (nat \<Rightarrow> int) \<Rightarrow> ('w \<Rightarrow> bool) \<Rightarrow> ('w, 'v) step list \<Rightarrow> node_lock list \<Rightarrow> delivery list \<Rightarrow> ('w run_state, unit) stateful" where
  "run_and_unlock op now shutting_down steps locks ds s =
     (case run_with_lock (locked_set_status op) now (\<lambda>s. shutting_down (rs_world s)) (map lift_step steps) (lo_attempts op) s of
        (x, s1) \<Rightarrow> (x, s1\<lparr>rs_locks := snd (request_unlock (lo_locker op) ds locks)\<rparr>))"

definition run_operation :: "locked_op \<Rightarrow> (nat \<Rightarrow> int) \<Rightarrow> ('w \<Rightarrow> bool) \<Rightarrow> ('w, 'v) step list \<Rightarrow> node_lock list \<Rightarrow> delivery list \<Rightarrow> ('w run_state, unit) stateful" where
  "run_operation op now shutting_down steps locks ds = async_wrapper (locked_set_status op) (run_and_unlock op now shutting_down steps locks ds)"

section \<open>Endpoints\<close>

fun request_name :: "op_request \<Rightarrow> string" where
  "request_name BackupRequest = ''backup''"
| "request_name DeltaBackupRequest = ''backup''"
| "request_name (RestoreRequest _) = ''restore''"
| "request_name (CleanupRequest _ _ _) = ''cleanup''"

text \<open>\<^verbatim>\<open>backup\<close>, \<^verbatim>\<open>delta_backup\<close>, \<^verbatim>\<open>restore\<close> and \<^verbatim>\<open>cleanup\<close>: make the list of steps, lock the cluster, start the operation. \<open>ds\<close> and \<open>ds'\<close> are
  the deliveries of the lock requests and of the unlock requests after a failure.\<close>

definition operation_endpoint :: "('c \<Rightarrow> 'o) \<Rightarrow> 'c coordinator_setup \<Rightarrow> op_request \<Rightarrow> int \<Rightarrow> string \<Rightarrow> int \<Rightarrow> delivery list \<Rightarrow> delivery list
    \<Rightarrow> ('w run_state, locked_op \<times> 'o plugin_step list) stateful" where
  "operation_endpoint mk c req op_id locker ttl ds ds' s =
     (case stepped_op mk c req of
        Inl e \<Rightarrow> (Inl e, s)
      | Inr (steps, attempts) \<Rightarrow>
          let op = \<lparr>lo_op_id = op_id, lo_locker = locker, lo_ttl = ttl, lo_attempts = attempts\<rparr> in
          (case acquire_cluster_lock locker ttl ds ds' (rs_locks s) of
             (Inl e, ls) \<Rightarrow> (Inl e, s\<lparr>rs_locks := ls\<rparr>)
           | (Inr _, ls) \<Rightarrow> (case start_locked_op op (request_name req) (s\<lparr>rs_locks := ls\<rparr>) of
               (Inl e, s1) \<Rightarrow> (Inl e, s1)
             | (Inr _, s1) \<Rightarrow> (Inr (op, steps), s1))))"

text \<open>The status of an operation, with the merged progress of its steps for a backup or a restore, and the report of a node, which wakes the poller.\<close>

datatype op_object = BackupOp "progress list" | DeltaBackupOp "progress list" | RestoreOp "progress list" | CleanupOp "progress list" | LockOps

fun reported_progress :: "op_object \<Rightarrow> progress option" where
  "reported_progress (BackupOp ps) = Some (merge_progress (Reiterable ps))"
| "reported_progress (DeltaBackupOp ps) = Some (merge_progress (Reiterable ps))"
| "reported_progress (RestoreOp ps) = Some (merge_progress (Reiterable ps))"
| "reported_progress _ = None"

definition op_status_endpoint :: "op_object op_state \<Rightarrow> string \<Rightarrow> int \<Rightarrow> (status_field option \<times> progress option) result" where
  "op_status_endpoint st op_name op_id =
     bind_res (get_op_and_op_info st op_id (Some op_name)) (\<lambda>(op, info). Inr (oi_op_status info, Option.bind op reported_progress))"

definition op_sub_result :: "op_object op_state \<Rightarrow> string \<Rightarrow> int \<Rightarrow> (bool, unit) stateful" where
  "op_sub_result st op_name op_id woken = (case get_op_and_op_info st op_id (Some op_name) of
     Inl e \<Rightarrow> (Inl e, woken) | Inr _ \<Rightarrow> (Inr (), True))"

section \<open>How an operation ends\<close>

lemma update_running_stats_ok:
  assumes "rs_started s = Some t"
  shows "\<exists>g. update_running_stats s = (Inr (), s\<lparr>rs_gauge := g\<rparr>)"
  using assms by (auto simp: update_running_stats_def)

text \<open>While the operation is the current one and has started, a status change is the one of the info, and only the measurements change besides.\<close>

definition same_but :: "'w run_state \<Rightarrow> 'w run_state \<Rightarrow> bool" where
  "same_but s s' \<longleftrightarrow> rs_world s' = rs_world s \<and> rs_locks s' = rs_locks s \<and> rs_started s' = rs_started s \<and> oi_op_id (rs_info s') = oi_op_id (rs_info s)"

lemma locked_set_status_current:
  assumes "lo_op_id op \<noteq> 0" and "oi_op_id (rs_info s) = lo_op_id op" and "rs_started s = Some t" and "status \<noteq> StStarting"
  shows "\<exists>b s'. locked_set_status op status None s = (Inr b, s') \<and> same_but s s' \<and> oi_op_status (rs_info s') = Some (Member status)"
proof -
  let ?s = "s\<lparr>rs_info := (rs_info s)\<lparr>oi_op_status := Some (Member status)\<rparr>\<rparr>"
  obtain g where "update_running_stats ?s = (Inr (), ?s\<lparr>rs_gauge := g\<rparr>)" using update_running_stats_ok [of ?s t] assms(3) by auto
  then show ?thesis using assms(4) set_status_current [OF assms(1,2), of status]
    by (simp add: locked_set_status_def Let_def bind_st_def same_but_def)
qed

lemma locked_set_status_done:
  assumes "lo_op_id op \<noteq> 0" and "oi_op_id (rs_info s) = lo_op_id op" and "rs_started s = Some t"
  shows "\<exists>b s'. locked_set_status op StDone (Some StRunning) s = (Inr b, s') \<and> same_but s s'
    \<and> oi_op_status (rs_info s') = (if oi_op_status (rs_info s) = Some (Member StRunning) then Some (Member StDone) else oi_op_status (rs_info s))"
proof -
  let ?i = "if oi_op_status (rs_info s) = Some (Member StRunning) then (rs_info s)\<lparr>oi_op_status := Some (Member StDone)\<rparr> else rs_info s"
  let ?s = "s\<lparr>rs_info := ?i\<rparr>"
  have set: "set_status (lo_op_id op) StDone (Some StRunning) (rs_info s) = (Inr (oi_op_status (rs_info s) = Some (Member StRunning)), ?i)"
    using set_status_done [OF assms(1,2)] set_status_done_not_running [OF assms(1,2)] by simp
  obtain g where "update_running_stats ?s = (Inr (), ?s\<lparr>rs_gauge := g\<rparr>)" using update_running_stats_ok [of ?s t] assms(3) by auto
  then show ?thesis using set by (simp add: locked_set_status_def Let_def bind_st_def same_but_def)
qed

lemma try_run_lifted:
  "try_run (\<lambda>s. shutting_down (rs_world s)) (map lift_step steps) c s =
     (case try_run shutting_down steps c (rs_world s) of (x, w) \<Rightarrow> (x, s\<lparr>rs_world := w\<rparr>))"
proof (induction steps arbitrary: c s)
  case (Cons st sts)
  obtain x w where run: "run_step st c (rs_world s) = (x, w)" by fastforce
  then have lifted: "run_step (lift_step st) c s = (x, s\<lparr>rs_world := w\<rparr>)" "step_class (lift_step st) = step_class st" by (simp_all add: lift_step_def)
  show ?case
  proof (cases x)
    case (Inl e)
    then show ?thesis using run lifted by simp
  next
    case (Inr r)
    then show ?thesis using run lifted Cons.IH [of _ "s\<lparr>rs_world := w\<rparr>"]
      by (cases "set_result (step_class st) r c") (simp_all split: prod.splits)
  qed
qed simp

lemma attempt_loop_lifted:
  "attempt_loop now (\<lambda>s. shutting_down (rs_world s)) (map lift_step steps) k n s =
     (case attempt_loop now shutting_down steps k n (rs_world s) of (x, w) \<Rightarrow> (x, s\<lparr>rs_world := w\<rparr>))"
proof (induction n arbitrary: k s)
  case (Suc n)
  obtain x w where run: "try_run shutting_down steps (new_context k (now k)) (rs_world s) = (x, w)" by fastforce
  have IH: "attempt_loop now (\<lambda>s. shutting_down (rs_world s)) (map lift_step steps) (Suc k) n (s\<lparr>rs_world := w\<rparr>) =
      (case attempt_loop now shutting_down steps (Suc k) n w of (x, w) \<Rightarrow> (x, s\<lparr>rs_world := w\<rparr>))"
    using Suc.IH [of "Suc k" "s\<lparr>rs_world := w\<rparr>"] by (simp split: prod.splits)
  show ?case
  proof (cases x)
    case (Inl e)
    then show ?thesis using run IH by (simp add: try_run_lifted)
  next
    case (Inr b)
    then show ?thesis using run IH by (cases b) (simp_all add: try_run_lifted)
  qed
qed simp

lemma run_with_lock_lifted:
  assumes "lo_op_id op \<noteq> 0" and "oi_op_id (rs_info s) = lo_op_id op" and "rs_started s = Some t" and "oi_op_status (rs_info s) = Some (Member StRunning)"
    and "attempt_loop now shutting_down steps 1 n (rs_world s) = (y, w)"
  shows "\<exists>s'. run_with_lock (locked_set_status op) now (\<lambda>s. shutting_down (rs_world s)) (map lift_step steps) n s
      = ((case y of Inr _ \<Rightarrow> Inr () | Inl e \<Rightarrow> if is_permanent e then Inr () else Inl e), s')
    \<and> rs_world s' = w \<and> rs_started s' = Some t \<and> oi_op_id (rs_info s') = lo_op_id op
    \<and> oi_op_status (rs_info s') = Some (Member (if y = Inr False \<or> (\<exists>e. y = Inl e \<and> is_permanent e) then StFail else StRunning))"
proof -
  have loop: "attempt_loop now (\<lambda>s. shutting_down (rs_world s)) (map lift_step steps) 1 n s = (y, s\<lparr>rs_world := w\<rparr>)"
    using assms(5) by (simp add: attempt_loop_lifted)
  obtain b s' where fail: "locked_set_status op StFail None (s\<lparr>rs_world := w\<rparr>) = (Inr b, s')" "same_but (s\<lparr>rs_world := w\<rparr>) s'"
      "oi_op_status (rs_info s') = Some (Member StFail)"
    using locked_set_status_current [of op "s\<lparr>rs_world := w\<rparr>" t StFail] assms(1-3) by auto
  have fails: "set_status_fail (locked_set_status op) (s\<lparr>rs_world := w\<rparr>) = (Inr (), s')"
    using fail(1) by (simp add: set_status_fail_def)
  show ?thesis
  proof (cases y)
    case (Inl e)
    then show ?thesis using loop fails fail(2,3) assms(2-4) by (auto simp: run_with_lock_def same_but_def)
  next
    case (Inr b)
    then show ?thesis using loop fails fail(2,3) assms(2-4) by (cases b) (auto simp: run_with_lock_def same_but_def)
  qed
qed

text \<open>What is left to the wrapper: an error that is not permanent makes the status fail, and is raised again unless it is a cancellation.\<close>

lemma wrapper_fails:
  assumes "lo_op_id op \<noteq> 0" and "oi_op_id (rs_info s) = lo_op_id op" and "rs_started s = Some t"
  shows "\<exists>s'. suppress_expired (set_status_fail (locked_set_status op)) s = (Inr (), s') \<and> same_but s s' \<and> oi_op_status (rs_info s') = Some (Member StFail)"
  using locked_set_status_current [OF assms, of StFail] by (auto simp: suppress_expired_def set_status_fail_def)

lemma run_operation_outcome:
  assumes "lo_op_id op \<noteq> 0" and "oi_op_id (rs_info s) = lo_op_id op" and "rs_started s = Some t"
    and "attempt_loop now shutting_down steps 1 (lo_attempts op) (rs_world s) = (y, w)"
  shows "\<exists>s'. run_operation op now shutting_down steps locks ds s
      = ((case y of Inr _ \<Rightarrow> Inr () | Inl e \<Rightarrow> if is_permanent e \<or> e = CancelledError then Inr () else Inl e), s')
    \<and> rs_world s' = w \<and> rs_locks s' = snd (request_unlock (lo_locker op) ds locks)
    \<and> oi_op_status (rs_info s') = Some (Member (if y = Inr True then StDone else StFail))"
proof -
  obtain b s1 where run: "locked_set_status op StRunning None s = (Inr b, s1)" "same_but s s1" "oi_op_status (rs_info s1) = Some (Member StRunning)"
    using locked_set_status_current [OF assms(1-3), of StRunning] by auto
  have own: "oi_op_id (rs_info s1) = lo_op_id op" "rs_started s1 = Some t" "rs_world s1 = rs_world s" using run(2) assms(2,3) by (auto simp: same_but_def)
  let ?x = "case y of Inr _ \<Rightarrow> Inr () | Inl e \<Rightarrow> if is_permanent e then Inr () else Inl e"
  obtain s2 where s2: "run_with_lock (locked_set_status op) now (\<lambda>s. shutting_down (rs_world s)) (map lift_step steps) (lo_attempts op) s1 = (?x, s2)"
      "rs_world s2 = w" "rs_started s2 = Some t" "oi_op_id (rs_info s2) = lo_op_id op"
      "oi_op_status (rs_info s2) = Some (Member (if y = Inr False \<or> (\<exists>e. y = Inl e \<and> is_permanent e) then StFail else StRunning))"
    using run_with_lock_lifted [OF assms(1) own(1,2) run(3), of now shutting_down steps "lo_attempts op" y w] assms(4) own(3) by auto
  let ?s3 = "s2\<lparr>rs_locks := snd (request_unlock (lo_locker op) ds locks)\<rparr>"
  have body: "run_and_unlock op now shutting_down steps locks ds s1 = (?x, ?s3)" using s2(1) by (simp add: run_and_unlock_def)
  have own3: "oi_op_id (rs_info ?s3) = lo_op_id op" "rs_started ?s3 = Some t" using s2(3,4) by simp_all
  show ?thesis
  proof (cases "\<exists>e. y = Inl e \<and> \<not> is_permanent e")
    case True
    then obtain e where e: "y = Inl e" "\<not> is_permanent e" by blast
    have "e \<noteq> ExpiredOperationException" using e(2) by (auto simp: is_permanent_def)
    moreover obtain s4 where "suppress_expired (set_status_fail (locked_set_status op)) ?s3 = (Inr (), s4)" "same_but ?s3 s4"
        "oi_op_status (rs_info s4) = Some (Member StFail)"
      using wrapper_fails [OF assms(1) own3] by blast
    ultimately show ?thesis using e run(1) body s2(2)
      by (auto simp: run_operation_def async_wrapper_def run_op_body_def fail_and_raise_def same_but_def)
  next
    case False
    then have x: "?x = Inr ()" by (cases y) auto
    obtain b' s4 where s4: "locked_set_status op StDone (Some StRunning) ?s3 = (Inr b', s4)" "same_but ?s3 s4"
        "oi_op_status (rs_info s4) = (if oi_op_status (rs_info ?s3) = Some (Member StRunning) then Some (Member StDone) else oi_op_status (rs_info ?s3))"
      using locked_set_status_done [OF assms(1) own3] by blast
    have "(y = Inr False \<or> (\<exists>e. y = Inl e \<and> is_permanent e)) \<longleftrightarrow> y \<noteq> Inr True" using False by (cases y) auto
    then have "oi_op_status (rs_info s4) = Some (Member (if y = Inr True then StDone else StFail))" using s4(3) s2(5) by auto
    then show ?thesis using False x run(1) body s2(2) s4(1,2)
      by (cases y) (auto simp: run_operation_def async_wrapper_def run_op_body_def same_but_def)
  qed
qed

text \<open>An endpoint that answers has locked the cluster, and its operation has started.\<close>

lemma locked_set_status_starting:
  assumes "locked_set_status op StStarting None s = (Inr b, s')"
  shows "oi_op_id (rs_info s') = oi_op_id (rs_info s) \<and> (\<exists>t. rs_started s' = Some t)"
proof -
  obtain changed i where i: "set_status (lo_op_id op) StStarting None (rs_info s) = (Inr changed, i)"
    using assms by (cases "set_status (lo_op_id op) StStarting None (rs_info s)") (auto simp: locked_set_status_def split: sum.splits)
  have "oi_op_id i = oi_op_id (rs_info s)" using set_status_frame [OF i] by simp
  moreover have "oi_op_status i = Some (Member StStarting)"
    using i by (auto simp: set_status_def check_op_id_def split: if_splits)
  ultimately show ?thesis using assms i
    by (auto simp: locked_set_status_def Let_def bind_st_def update_running_stats_def split: option.splits if_splits)
qed

lemma operation_endpoint_started:
  assumes "operation_endpoint mk c req op_id locker ttl ds ds' s = (Inr (op, steps), s1)"
  shows "stepped_op mk c req = Inr (steps, lo_attempts op) \<and> lo_op_id op = op_id \<and> lo_locker op = locker
    \<and> oi_op_id (rs_info s1) = op_id \<and> (\<exists>t. rs_started s1 = Some t)"
proof -
  obtain attempts where st: "stepped_op mk c req = Inr (steps, attempts)"
      "op = \<lparr>lo_op_id = op_id, lo_locker = locker, lo_ttl = ttl, lo_attempts = attempts\<rparr>"
    using assms by (auto simp: operation_endpoint_def Let_def split: sum.splits prod.splits)
  obtain ls b where "locked_set_status op StStarting None
      (s\<lparr>rs_locks := ls, rs_info := (rs_info s)\<lparr>oi_op_id := op_id, oi_op_name := request_name req\<rparr>, rs_started := None\<rparr>) = (Inr b, s1)"
    using assms st by (auto simp: operation_endpoint_def start_locked_op_def Let_def split: sum.splits prod.splits)
  from locked_set_status_starting [OF this] show ?thesis using st by simp
qed


text \<open>An operation that starts while the one before it is still in status starting does not change the status, so that it has no starting time,
  and the first measurement of its running time raises, with the cluster locked.\<close>

lemma starting_twice_raises:
  assumes "lo_op_id op \<noteq> 0" and "oi_op_status (rs_info s) = Some (Member StStarting)"
  shows "fst (start_locked_op op op_name s) = Inl AttributeError"
  using assms by (simp add: start_locked_op_def locked_set_status_def set_status_current update_running_stats_def Let_def bind_st_def)

definition files_setup :: "nat coordinator_setup" where
  "files_setup = \<lparr>cs_plugin = FilesPlugin [''*''], cs_default_storage = ''s3'', cs_backup_attempts = 2,
     cs_retention = \<lparr>rt_minimum_backups = None, rt_maximum_backups = None, rt_keep_days = None\<rparr>\<rparr>"

definition idle_state :: "nat run_state" where
  "idle_state = \<lparr>rs_info = new_op_info, rs_started = None, rs_now = 1, rs_gauge = [], rs_locks = [None], rs_world = 0\<rparr>"

definition counting_body :: "(nat, nat, unit) step_body" where
  "counting_body st vs w = (Inr (Some ()), w + 1)"


end
