(* ===== verification/Rohmu_Storage.thy ===== *)
theory Rohmu_Storage
  imports Storage
begin

text \<open>
  The object storage on top of rohmu (\<^verbatim>\<open>astacus/common/rohmustorage.py\<close>): which storage of the configuration is used, compression and
  encryption of what is stored with the metadata that tell how to read it, keys, listings, and the translation of errors.

  Rohmu is a library: its transfer (\<open>transfer\<close>) and its streams (\<open>codec\<close>) are parameters, with what they are documented to do as named
  predicates. The caches of the loaded keys change no result and are left out, as are the temporary files.
\<close>

section \<open>Configuration\<close>

record rohmu_key =
  rk_public :: string
  rk_private :: string

record 'c rohmu_config =
  rc_default_storage :: string
  rc_storages :: "(string \<times> 'c) list"
  rc_encryption_key_id :: "string option"
  rc_encryption_keys :: "(string \<times> rohmu_key) list"
  rc_compression_algorithm :: "string option"
  rc_compression_level :: int

definition chosen :: "string option \<Rightarrow> string option" where
  "chosen x = (if x = Some [] then None else x)"

definition choose_storage :: "'c rohmu_config \<Rightarrow> string option \<Rightarrow> (string \<times> 'c) result" where
  "choose_storage config storage =
     (let name = (case chosen storage of None \<Rightarrow> rc_default_storage config | Some n \<Rightarrow> n) in
      case dict_get (rc_storages config) name of None \<Rightarrow> Inl KeyError | Some sc \<Rightarrow> Inr (name, sc))"

text \<open>\<^verbatim>\<open>RohmuStorage.__init__\<close>; the result is the name and the configuration of the storage.\<close>

definition rohmu_storage :: "'c rohmu_config \<Rightarrow> string option \<Rightarrow> (string \<times> 'c) result" where
  "rohmu_storage config storage = bind_res (choose_storage config storage) (\<lambda>st.
     if rc_compression_algorithm config = None \<and> chosen (rc_encryption_key_id config) = None
     then Inl CompressionOrEncryptionRequired else Inr st)"

definition rohmu_copy :: "'c rohmu_config \<Rightarrow> string \<times> 'c \<Rightarrow> (string \<times> 'c) result" where
  "rohmu_copy config st = rohmu_storage config (Some (fst st))"

definition multi_rohmu_list_storages :: "'c rohmu_config \<Rightarrow> string list" where
  "multi_rohmu_list_storages config = sort (map fst (rc_storages config))"

section \<open>Rohmu\<close>

datatype rohmu_error = FileNotFoundFromStorageError | RohmuError exn

type_synonym metadata = "(string \<times> string) list"

record 's transfer =
  get_contents :: "string \<Rightarrow> 's \<Rightarrow> (rohmu_error + string \<times> metadata) \<times> 's"
  store_file_object :: "string \<Rightarrow> string \<Rightarrow> metadata \<Rightarrow> 's \<Rightarrow> (rohmu_error + unit) \<times> 's"
  delete_key :: "string \<Rightarrow> 's \<Rightarrow> (rohmu_error + unit) \<times> 's"
  list_iter :: "string \<Rightarrow> 's \<Rightarrow> (rohmu_error + string list) \<times> 's"

record ('pub, 'priv) codec =
  compression_stream :: "string \<Rightarrow> int \<Rightarrow> string \<Rightarrow> string"
  load_public :: "string \<Rightarrow> 'pub result"
  load_private :: "string \<Rightarrow> 'priv result"
  encryptor_stream :: "'pub \<Rightarrow> string \<Rightarrow> string"
  read_file :: "metadata \<Rightarrow> (string \<Rightarrow> 'priv result) \<Rightarrow> string \<Rightarrow> string result"

definition rohmu_error_wrapper :: "('s \<Rightarrow> (rohmu_error + 'a) \<times> 's) \<Rightarrow> ('s, 'a) stateful" where
  "rohmu_error_wrapper f s = (case f s of
     (Inl FileNotFoundFromStorageError, s1) \<Rightarrow> (Inl NotFoundException, s1)
   | (Inl (RohmuError e), s1) \<Rightarrow> (Inl (if e = CancelledError then e else RohmuException), s1)
   | (Inr x, s1) \<Rightarrow> (Inr x, s1))"

definition rohmu_raise :: "'a result \<Rightarrow> 's \<Rightarrow> (rohmu_error + 'a) \<times> 's" where
  "rohmu_raise r s = (case r of Inl e \<Rightarrow> (Inl (RohmuError e), s) | Inr x \<Rightarrow> (Inr x, s))"

section \<open>Storing and reading objects\<close>

definition loaded_private_key_lookup :: "('pub, 'priv) codec \<Rightarrow> 'c rohmu_config \<Rightarrow> string \<Rightarrow> 'priv result" where
  "loaded_private_key_lookup co config key_id = (case dict_get (rc_encryption_keys config) key_id of
     None \<Rightarrow> Inl KeyError | Some k \<Rightarrow> load_private co (rk_private k))"

definition loaded_public_key_lookup :: "('pub, 'priv) codec \<Rightarrow> 'c rohmu_config \<Rightarrow> string \<Rightarrow> 'pub result" where
  "loaded_public_key_lookup co config key_id = (case dict_get (rc_encryption_keys config) key_id of
     None \<Rightarrow> Inl KeyError | Some k \<Rightarrow> load_public co (rk_public k))"

text \<open>The bytes that are stored and the metadata, in the order of the fields of \<^verbatim>\<open>RohmuMetadata\<close>.\<close>

definition compressed :: "('pub, 'priv) codec \<Rightarrow> 'c rohmu_config \<Rightarrow> string \<Rightarrow> string \<times> metadata" where
  "compressed co config data = (case rc_compression_algorithm config of
     None \<Rightarrow> (data, [])
   | Some algorithm \<Rightarrow> (compression_stream co algorithm (rc_compression_level config) data, [(''compression-algorithm'', algorithm)]))"

definition wrapped_file :: "('pub, 'priv) codec \<Rightarrow> 'c rohmu_config \<Rightarrow> string \<Rightarrow> (string \<times> metadata) result" where
  "wrapped_file co config data = (case compressed co config data of (b, md) \<Rightarrow>
     (case chosen (rc_encryption_key_id config) of
        None \<Rightarrow> Inr (b, md)
      | Some key_id \<Rightarrow> bind_res (loaded_public_key_lookup co config key_id)
          (\<lambda>rsa_public_key. Inr (encryptor_stream co rsa_public_key b, (''encryption-key-id'', key_id) # md))))"

definition upload_key_from_file :: "'s transfer \<Rightarrow> ('pub, 'priv) codec \<Rightarrow> 'c rohmu_config \<Rightarrow> string \<Rightarrow> string \<Rightarrow> ('s, storage_upload_result) stateful" where
  "upload_key_from_file tr co config key data = rohmu_error_wrapper (\<lambda>s. case rohmu_raise (wrapped_file co config data) s of
     (Inl e, s1) \<Rightarrow> (Inl e, s1)
   | (Inr (b, md), s1) \<Rightarrow> (case store_file_object tr key b md s1 of
       (Inl e, s2) \<Rightarrow> (Inl e, s2)
     | (Inr _, s2) \<Rightarrow> (Inr \<lparr>su_size = int (length data), su_stored_size = int (length b)\<rparr>, s2)))"

definition download_key_to_file :: "'s transfer \<Rightarrow> ('pub, 'priv) codec \<Rightarrow> 'c rohmu_config \<Rightarrow> string \<Rightarrow> ('s, string) stateful" where
  "download_key_to_file tr co config key = rohmu_error_wrapper (\<lambda>s. case get_contents tr key s of
     (Inl e, s1) \<Rightarrow> (Inl e, s1)
   | (Inr (b, md), s1) \<Rightarrow> rohmu_raise (read_file co md (loaded_private_key_lookup co config) b) s1)"

text \<open>\<^verbatim>\<open>os.path.join\<close> and \<^verbatim>\<open>os.path.basename\<close>, and listings, whose errors are not translated.\<close>

definition path_join :: "string \<Rightarrow> string \<Rightarrow> string" where
  "path_join a b = (if b \<noteq> [] \<and> hd b = CHR ''/'' then b else a @ ''/'' @ b)"

definition basename :: "string \<Rightarrow> string" where
  "basename p = rev (takeWhile (\<lambda>c. c \<noteq> CHR ''/'') (rev p))"

definition list_key :: "(rohmu_error \<Rightarrow> exn) \<Rightarrow> 's transfer \<Rightarrow> string \<Rightarrow> ('s, string list) stateful" where
  "list_key raw tr key s = (case list_iter tr key s of (Inl e, s1) \<Rightarrow> (Inl (raw e), s1) | (Inr ns, s1) \<Rightarrow> (Inr (map basename ns), s1))"

definition hexdigest_key :: string where "hexdigest_key = ''data''"
definition json_key :: string where "json_key = ''json''"

definition rohmu_open_json_bytes :: "'s transfer \<Rightarrow> ('pub, 'priv) codec \<Rightarrow> 'c rohmu_config \<Rightarrow> string \<Rightarrow> ('s, string) stateful" where
  "rohmu_open_json_bytes tr co config name = bind_st (download_key_to_file tr co config (path_join json_key name))
     (\<lambda>b s. (if b = [] then Inl ValueError else Inr b, s))"

definition rohmu_json_ops :: "(rohmu_error \<Rightarrow> exn) \<Rightarrow> 's transfer \<Rightarrow> ('pub, 'priv) codec \<Rightarrow> 'c rohmu_config \<Rightarrow> 's json_ops" where
  "rohmu_json_ops raw tr co config = \<lparr>
     delete_json = (\<lambda>name. rohmu_error_wrapper (delete_key tr (path_join json_key name))),
     open_json_bytes = rohmu_open_json_bytes tr co config,
     list_jsons = list_key raw tr json_key,
     upload_json_bytes = (\<lambda>name data. bind_st (upload_key_from_file tr co config (path_join json_key name) data) (\<lambda>_ s. (Inr True, s)))\<rparr>"

definition rohmu_hexdigest_ops :: "(rohmu_error \<Rightarrow> exn) \<Rightarrow> 's transfer \<Rightarrow> ('pub, 'priv) codec \<Rightarrow> 'c rohmu_config \<Rightarrow> 's hexdigest_ops" where
  "rohmu_hexdigest_ops raw tr co config = \<lparr>
     delete_hexdigest = (\<lambda>hexdigest. rohmu_error_wrapper (delete_key tr (path_join hexdigest_key hexdigest))),
     list_hexdigests = list_key raw tr hexdigest_key,
     download_hexdigest_to_file = (\<lambda>hexdigest. download_key_to_file tr co config (path_join hexdigest_key hexdigest)),
     upload_hexdigest_from_file = (\<lambda>hexdigest data. upload_key_from_file tr co config (path_join hexdigest_key hexdigest) data)\<rparr>"

section \<open>What is relied on\<close>

text \<open>A transfer keeps a finite map from keys to objects; a listing has the keys directly below a prefix.\<close>

definition plain_name :: "string \<Rightarrow> bool" where "plain_name n \<longleftrightarrow> n \<noteq> [] \<and> CHR ''/'' \<notin> set n"

definition transfer_laws :: "'s transfer \<Rightarrow> ('s \<Rightarrow> string \<Rightarrow> (string \<times> metadata) option) \<Rightarrow> bool" where
  "transfer_laws tr contents \<longleftrightarrow> (\<forall>s k b md.
     finite (dom (contents s))
     \<and> (\<exists>s'. get_contents tr k s = ((case contents s k of None \<Rightarrow> Inl FileNotFoundFromStorageError | Some x \<Rightarrow> Inr x), s') \<and> contents s' = contents s)
     \<and> (\<exists>s'. store_file_object tr k b md s = (Inr (), s') \<and> contents s' = (contents s)(k \<mapsto> (b, md)))
     \<and> (\<exists>s'. delete_key tr k s = ((case contents s k of None \<Rightarrow> Inl FileNotFoundFromStorageError | Some _ \<Rightarrow> Inr ()), s') \<and> contents s' = (contents s)(k := None))
     \<and> (\<exists>ns s'. list_iter tr k s = (Inr ns, s') \<and> contents s' = contents s \<and> distinct ns
         \<and> set ns = {p. contents s p \<noteq> None \<and> (\<exists>n. plain_name n \<and> p = k @ ''/'' @ n)}))"

text \<open>\<^verbatim>\<open>rohmufile.read_file\<close> undoes the streams that the metadata name, when the private key belongs to the public key.\<close>

definition codec_laws :: "('pub, 'priv) codec \<Rightarrow> ('pub \<Rightarrow> 'priv \<Rightarrow> bool) \<Rightarrow> bool" where
  "codec_laws co key_pair \<longleftrightarrow>
     (\<forall>algorithm level data lookup. read_file co [(''compression-algorithm'', algorithm)] lookup (compression_stream co algorithm level data) = Inr data)
     \<and> (\<forall>algorithm level data key_id pub priv lookup. key_pair pub priv \<longrightarrow> lookup key_id = Inr priv \<longrightarrow>
         read_file co [(''encryption-key-id'', key_id)] lookup (encryptor_stream co pub data) = Inr data
         \<and> read_file co [(''encryption-key-id'', key_id), (''compression-algorithm'', algorithm)] lookup
             (encryptor_stream co pub (compression_stream co algorithm level data)) = Inr data)"

text \<open>The configured keys can be loaded and belong together.\<close>

definition keys_ok :: "('pub, 'priv) codec \<Rightarrow> ('pub \<Rightarrow> 'priv \<Rightarrow> bool) \<Rightarrow> 'c rohmu_config \<Rightarrow> bool" where
  "keys_ok co key_pair config \<longleftrightarrow> (\<forall>key_id. chosen (rc_encryption_key_id config) = Some key_id \<longrightarrow>
     (\<exists>pub priv. loaded_public_key_lookup co config key_id = Inr pub \<and> loaded_private_key_lookup co config key_id = Inr priv \<and> key_pair pub priv))"

section \<open>Objects come back as they were\<close>

lemma wrapped_file_readable:
  assumes "codec_laws co key_pair" and "keys_ok co key_pair config" and "rohmu_storage config storage = Inr st"
  shows "\<exists>b md. wrapped_file co config data = Inr (b, md) \<and> read_file co md (loaded_private_key_lookup co config) b = Inr data"
proof (cases "chosen (rc_encryption_key_id config)")
  case None
  then obtain algorithm where "rc_compression_algorithm config = Some algorithm"
    using assms(3) by (auto simp: rohmu_storage_def bind_res_Inr_iff split: if_splits)
  then show ?thesis using None assms(1) by (simp add: wrapped_file_def compressed_def codec_laws_def)
next
  case (Some key_id)
  then obtain pub priv where k: "loaded_public_key_lookup co config key_id = Inr pub" "loaded_private_key_lookup co config key_id = Inr priv" "key_pair pub priv"
    using assms(2) by (auto simp: keys_ok_def)
  have law: "read_file co [(''encryption-key-id'', key_id)] (loaded_private_key_lookup co config) (encryptor_stream co pub data) = Inr data"
    "read_file co [(''encryption-key-id'', key_id), (''compression-algorithm'', algorithm)] (loaded_private_key_lookup co config)
       (encryptor_stream co pub (compression_stream co algorithm level data)) = Inr data" for algorithm level
    using assms(1) k(2,3) unfolding codec_laws_def by blast+
  show ?thesis using Some k(1) law by (cases "rc_compression_algorithm config") (simp_all add: wrapped_file_def compressed_def)
qed

text \<open>The objects below a prefix, as the storage reads them.\<close>

definition rohmu_objects :: "('pub, 'priv) codec \<Rightarrow> 'c rohmu_config \<Rightarrow> ('s \<Rightarrow> string \<Rightarrow> (string \<times> metadata) option) \<Rightarrow> string \<Rightarrow> 's \<Rightarrow> string \<Rightarrow> string option" where
  "rohmu_objects co config contents p s n =
     (if plain_name n then case contents s (p @ ''/'' @ n) of
        None \<Rightarrow> None
      | Some (b, md) \<Rightarrow> (case read_file co md (loaded_private_key_lookup co config) b of Inl _ \<Rightarrow> None | Inr d \<Rightarrow> Some d)
      else None)"

definition rohmu_inv :: "('pub, 'priv) codec \<Rightarrow> 'c rohmu_config \<Rightarrow> ('s \<Rightarrow> string \<Rightarrow> (string \<times> metadata) option) \<Rightarrow> 's \<Rightarrow> bool" where
  "rohmu_inv co config contents s \<longleftrightarrow> (\<forall>p n b md. p \<in> {json_key, hexdigest_key} \<longrightarrow> plain_name n \<longrightarrow> contents s (p @ ''/'' @ n) = Some (b, md) \<longrightarrow>
     (\<exists>d. read_file co md (loaded_private_key_lookup co config) b = Inr d \<and> (p = json_key \<longrightarrow> d \<noteq> [])))"

lemma path_join_plain [simp]: "plain_name n \<Longrightarrow> path_join p n = p @ ''/'' @ n"
  by (cases n) (auto simp: path_join_def plain_name_def)

lemma basename_plain [simp]: "plain_name n \<Longrightarrow> basename (p @ ''/'' @ n) = n"
proof -
  assume "plain_name n"
  then have "takeWhile (\<lambda>c. c \<noteq> CHR ''/'') (rev n @ CHR ''/'' # rev p) = rev n" by (subst takeWhile_append2) (auto simp: plain_name_def)
  then show ?thesis by (simp add: basename_def)
qed

text \<open>The second part of a key tells its name, the first its kind.\<close>

lemma key_inject:
  assumes "plain_name n" and "plain_name m" and "p @ ''/'' @ n = q @ ''/'' @ m"
  shows "p = q \<and> n = m"
proof -
  have "n = m" using basename_plain [OF assms(1), of p] basename_plain [OF assms(2), of q] assms(3) by simp
  then show ?thesis using assms(3) by simp
qed

lemma objects_update:
  assumes "plain_name n" and "contents s' = (contents s)(p @ ''/'' @ n \<mapsto> (b, md))"
    and "read_file co md (loaded_private_key_lookup co config) b = Inr d"
  shows "rohmu_objects co config contents q s' = (if q = p then (rohmu_objects co config contents q s)(n \<mapsto> d) else rohmu_objects co config contents q s)"
proof
  fix m
  have "q @ ''/'' @ m = p @ ''/'' @ n \<longleftrightarrow> q = p \<and> m = n" if k: "plain_name m" using key_inject [OF k assms(1)] by blast
  then show "rohmu_objects co config contents q s' m
      = (if q = p then (rohmu_objects co config contents q s)(n \<mapsto> d) else rohmu_objects co config contents q s) m"
    using assms by (cases "plain_name m") (auto simp: rohmu_objects_def simp del: append_assoc append.simps)
qed

lemma objects_delete:
  assumes "plain_name n" and "contents s' = (contents s)(p @ ''/'' @ n := None)"
  shows "rohmu_objects co config contents q s' = (if q = p then (rohmu_objects co config contents q s)(n := None) else rohmu_objects co config contents q s)"
proof
  fix m
  have "q @ ''/'' @ m = p @ ''/'' @ n \<longleftrightarrow> q = p \<and> m = n" if k: "plain_name m" using key_inject [OF k assms(1)] by blast
  then show "rohmu_objects co config contents q s' m
      = (if q = p then (rohmu_objects co config contents q s)(n := None) else rohmu_objects co config contents q s) m"
    using assms by (cases "plain_name m") (auto simp: rohmu_objects_def simp del: append_assoc append.simps)
qed

lemma key_kinds: "json_key \<noteq> hexdigest_key" "hexdigest_key \<noteq> json_key"
  by (simp_all add: json_key_def hexdigest_key_def)

lemma upload_key_effect:
  assumes "transfer_laws tr contents" and "codec_laws co key_pair" and "keys_ok co key_pair config" and "rohmu_storage config storage = Inr st"
    and "plain_name n" and "rohmu_inv co config contents s" and "p = json_key \<longrightarrow> data \<noteq> []"
  shows "\<exists>u s'. upload_key_from_file tr co config (p @ ''/'' @ n) data s = (Inr u, s') \<and> su_size u = int (length data) \<and> rohmu_inv co config contents s'
    \<and> (\<forall>q. rohmu_objects co config contents q s' = (if q = p then (rohmu_objects co config contents q s)(n \<mapsto> data) else rohmu_objects co config contents q s))"
proof -
  obtain b md where w: "wrapped_file co config data = Inr (b, md)" "read_file co md (loaded_private_key_lookup co config) b = Inr data"
    using wrapped_file_readable [OF assms(2-4)] by blast
  obtain s' where s': "store_file_object tr (p @ ''/'' @ n) b md s = (Inr (), s')" "contents s' = (contents s)(p @ ''/'' @ n \<mapsto> (b, md))"
    using assms(1) unfolding transfer_laws_def by blast
  have inv: "rohmu_inv co config contents s'"
    unfolding rohmu_inv_def
  proof (intro allI impI)
    fix q m b1 md1
    assume q: "q \<in> {json_key, hexdigest_key}" and m: "plain_name m" and c: "contents s' (q @ ''/'' @ m) = Some (b1, md1)"
    show "\<exists>d. read_file co md1 (loaded_private_key_lookup co config) b1 = Inr d \<and> (q = json_key \<longrightarrow> d \<noteq> [])"
    proof (cases "q @ ''/'' @ m = p @ ''/'' @ n")
      case True
      then have "q = p" using key_inject [OF m assms(5)] by blast
      then show ?thesis using True c s'(2) w(2) assms(7) by auto
    next
      case False
      then have "contents s (q @ ''/'' @ m) = Some (b1, md1)" using c s'(2) by simp
      then show ?thesis using assms(6) q m unfolding rohmu_inv_def by blast
    qed
  qed
  have "upload_key_from_file tr co config (p @ ''/'' @ n) data s = (Inr \<lparr>su_size = int (length data), su_stored_size = int (length b)\<rparr>, s')"
    using w(1) s'(1) by (simp add: upload_key_from_file_def rohmu_error_wrapper_def rohmu_raise_def)
  then show ?thesis using inv objects_update [OF assms(5) s'(2) w(2)] by auto
qed

lemma download_key_effect:
  assumes "transfer_laws tr contents" and "plain_name n" and "rohmu_inv co config contents s" and "p \<in> {json_key, hexdigest_key}"
  shows "\<exists>s'. download_key_to_file tr co config (p @ ''/'' @ n) s
      = ((case rohmu_objects co config contents p s n of None \<Rightarrow> Inl NotFoundException | Some d \<Rightarrow> Inr d), s') \<and> contents s' = contents s"
proof -
  obtain s' where s': "get_contents tr (p @ ''/'' @ n) s = ((case contents s (p @ ''/'' @ n) of None \<Rightarrow> Inl FileNotFoundFromStorageError | Some x \<Rightarrow> Inr x), s')"
      "contents s' = contents s"
    using assms(1) unfolding transfer_laws_def by blast
  show ?thesis
  proof (cases "contents s (p @ ''/'' @ n)")
    case None
    then show ?thesis using s' assms(2) by (simp add: download_key_to_file_def rohmu_error_wrapper_def rohmu_objects_def)
  next
    case (Some x)
    obtain b md where x: "x = (b, md)" by fastforce
    obtain d where d: "read_file co md (loaded_private_key_lookup co config) b = Inr d"
      using assms(2-4) Some x unfolding rohmu_inv_def by blast
    then show ?thesis using s' assms(2) Some x
      by (simp add: download_key_to_file_def rohmu_error_wrapper_def rohmu_objects_def rohmu_raise_def)
  qed
qed

lemma delete_key_effect:
  assumes "transfer_laws tr contents" and "plain_name n" and "rohmu_inv co config contents s" and "p \<in> {json_key, hexdigest_key}"
  shows "\<exists>s'. rohmu_error_wrapper (delete_key tr (p @ ''/'' @ n)) s
      = ((case rohmu_objects co config contents p s n of None \<Rightarrow> Inl NotFoundException | Some _ \<Rightarrow> Inr ()), s') \<and> rohmu_inv co config contents s'
    \<and> (\<forall>q. rohmu_objects co config contents q s' = (if q = p then (rohmu_objects co config contents q s)(n := None) else rohmu_objects co config contents q s))"
proof -
  obtain s' where s': "delete_key tr (p @ ''/'' @ n) s = ((case contents s (p @ ''/'' @ n) of None \<Rightarrow> Inl FileNotFoundFromStorageError | Some _ \<Rightarrow> Inr ()), s')"
      "contents s' = (contents s)(p @ ''/'' @ n := None)"
    using assms(1) unfolding transfer_laws_def by blast
  have inv: "rohmu_inv co config contents s'"
    using assms(3) s'(2) unfolding rohmu_inv_def by (auto split: if_splits)
  have "contents s (p @ ''/'' @ n) = None \<longleftrightarrow> rohmu_objects co config contents p s n = None"
  proof (cases "contents s (p @ ''/'' @ n)")
    case (Some x)
    obtain b md where x: "x = (b, md)" by fastforce
    then obtain d where "read_file co md (loaded_private_key_lookup co config) b = Inr d"
      using assms(2-4) Some unfolding rohmu_inv_def by blast
    then show ?thesis using Some x assms(2) by (simp add: rohmu_objects_def)
  qed (simp add: rohmu_objects_def)
  then have "rohmu_error_wrapper (delete_key tr (p @ ''/'' @ n)) s
      = ((case rohmu_objects co config contents p s n of None \<Rightarrow> Inl NotFoundException | Some _ \<Rightarrow> Inr ()), s')"
    using s'(1) by (auto simp: rohmu_error_wrapper_def split: option.splits)
  moreover have "\<forall>q. rohmu_objects co config contents q s' = (if q = p then (rohmu_objects co config contents q s)(n := None) else rohmu_objects co config contents q s)"
    using objects_delete [of n contents s' s p co config, OF assms(2) s'(2)] by blast
  ultimately show ?thesis using inv by blast
qed

lemma list_key_effect:
  assumes "transfer_laws tr contents" and "rohmu_inv co config contents s" and "p \<in> {json_key, hexdigest_key}"
  shows "\<exists>ns s'. list_key raw tr p s = (Inr ns, s') \<and> contents s' = contents s \<and> distinct ns \<and> set ns = dom (rohmu_objects co config contents p s)"
proof -
  obtain ks s' where l: "list_iter tr p s = (Inr ks, s')" "contents s' = contents s" "distinct ks"
      "set ks = {k. contents s k \<noteq> None \<and> (\<exists>n. plain_name n \<and> k = p @ ''/'' @ n)}"
    using assms(1) unfolding transfer_laws_def by blast
  have "inj_on basename (set ks)" using l(4) by (auto simp: inj_on_def simp del: append_assoc append.simps)
  then have "distinct (map basename ks)" using l(3) by (simp add: distinct_map)
  moreover have "set (map basename ks) = dom (rohmu_objects co config contents p s)"
  proof -
    have "set (map basename ks) = {n. plain_name n \<and> contents s (p @ ''/'' @ n) \<noteq> None}"
      using l(4) by (force simp: image_iff simp del: append_assoc append.simps)
    also have "\<dots> = dom (rohmu_objects co config contents p s)"
    proof -
      have some: "contents s (p @ ''/'' @ n) \<noteq> None \<longleftrightarrow> rohmu_objects co config contents p s n \<noteq> None" if n: "plain_name n" for n
        using assms(2,3) n unfolding rohmu_inv_def rohmu_objects_def by (fastforce split: option.splits sum.splits)
      have none: "rohmu_objects co config contents p s n = None" if n: "\<not> plain_name n" for n using n by (simp add: rohmu_objects_def)
      show ?thesis
      proof (rule set_eqI)
        fix n
        show "n \<in> {n. plain_name n \<and> contents s (p @ ''/'' @ n) \<noteq> None} \<longleftrightarrow> n \<in> dom (rohmu_objects co config contents p s)"
          by (cases "plain_name n") (use some [of n] none [of n] in \<open>simp_all only: mem_Collect_eq domIff simp_thms\<close>)
      qed
    qed
    finally show ?thesis .
  qed
  ultimately show ?thesis using l(1,2) by (simp add: list_key_def)
qed

section \<open>The storage is a map\<close>

fun plain_cmd :: "json_cmd \<Rightarrow> bool" where
  "plain_cmd (DeleteJson n) \<longleftrightarrow> plain_name n"
| "plain_cmd (OpenJson n) \<longleftrightarrow> plain_name n"
| "plain_cmd ListJsons \<longleftrightarrow> True"
| "plain_cmd (UploadJson n b) \<longleftrightarrow> plain_name n \<and> b \<noteq> []"

lemma objects_same: "contents s' = contents s \<Longrightarrow> rohmu_objects co config contents p s' = rohmu_objects co config contents p s"
  by (simp add: rohmu_objects_def fun_eq_iff)

lemma inv_same: "contents s' = contents s \<Longrightarrow> rohmu_inv co config contents s' = rohmu_inv co config contents s"
  by (simp add: rohmu_inv_def)

lemma rohmu_step:
  fixes contents :: "'s \<Rightarrow> string \<Rightarrow> (string \<times> metadata) option"
  assumes "transfer_laws tr contents" and "codec_laws co key_pair" and "keys_ok co key_pair config" and "rohmu_storage config storage = Inr st"
    and "rohmu_inv co config contents s" and "plain_cmd c" and "json_step (rohmu_json_ops raw tr co config) c s = (ob, s')"
  shows "rohmu_inv co config contents s' \<and> rohmu_objects co config contents hexdigest_key s' = rohmu_objects co config contents hexdigest_key s
    \<and> rohmu_objects co config contents json_key s' = snd (spec_step c (rohmu_objects co config contents json_key s))
    \<and> sort_obs ob = fst (spec_step c (rohmu_objects co config contents json_key s))"
proof (cases c)
  case (DeleteJson n)
  then show ?thesis using assms(6,7) delete_key_effect [OF assms(1) _ assms(5), of n json_key] key_kinds
    by (auto simp: rohmu_json_ops_def simp del: append.simps)
next
  case (OpenJson n)
  then have n: "plain_name n" using assms(6) by simp
  obtain s1 where d: "download_key_to_file tr co config (json_key @ ''/'' @ n) s
      = ((case rohmu_objects co config contents json_key s n of None \<Rightarrow> Inl NotFoundException | Some d \<Rightarrow> Inr d), s1)" "contents s1 = contents s"
    using download_key_effect [OF assms(1) n assms(5), of json_key] by auto
  have ne: "rohmu_objects co config contents json_key s n \<noteq> Some []"
    using assms(5) n unfolding rohmu_objects_def rohmu_inv_def by (fastforce split: option.splits sum.splits)
  have "rohmu_open_json_bytes tr co config n s
      = ((case rohmu_objects co config contents json_key s n of None \<Rightarrow> Inl NotFoundException | Some d \<Rightarrow> Inr d), s1)"
    using d(1) ne n by (cases "rohmu_objects co config contents json_key s n") (simp_all add: rohmu_open_json_bytes_def bind_st_def)
  then show ?thesis using OpenJson assms(5,7) objects_same [of contents s1 s co config] inv_same [of contents s1 s co config] d(2)
    by (auto simp: rohmu_json_ops_def split: option.splits)
next
  case ListJsons
  obtain ns s1 where l: "list_key raw tr json_key s = (Inr ns, s1)" "contents s1 = contents s" "distinct ns"
      "set ns = dom (rohmu_objects co config contents json_key s)"
    using list_key_effect [OF assms(1,5), of json_key raw] by auto
  then have "sort ns = sorted_list_of_set (dom (rohmu_objects co config contents json_key s))"
    by (metis distinct_remdups_id sorted_list_of_set_sort_remdups)
  then show ?thesis using ListJsons assms(5,7) l(1,2) objects_same [of contents s1 s co config] inv_same [of contents s1 s co config]
    by (auto simp: rohmu_json_ops_def)
next
  case (UploadJson n b)
  then have n: "plain_name n" "b \<noteq> []" using assms(6) by simp_all
  obtain u s1 where "upload_key_from_file tr co config (json_key @ ''/'' @ n) b s = (Inr u, s1)" "rohmu_inv co config contents s1"
      "\<forall>q. rohmu_objects co config contents q s1 = (if q = json_key then (rohmu_objects co config contents q s)(n \<mapsto> b) else rohmu_objects co config contents q s)"
    using upload_key_effect [OF assms(1-4) n(1) assms(5), of json_key b] n(2) by auto
  then show ?thesis using UploadJson assms(7) n key_kinds by (auto simp: rohmu_json_ops_def bind_st_def simp del: append.simps)
qed

text \<open>C14. The storage on top of rohmu is a map from names to contents, whatever the configuration compresses or encrypts: every sequence of operations on backups is
  observed as on a map, in which a name has the bytes that were uploaded last, and the contents of files are not touched. Relied on are a
  transfer that keeps objects under keys, streams that can be undone, keys that belong together, and names without a slash.\<close>

theorem rohmu_storage_refines:
  fixes contents :: "'s \<Rightarrow> string \<Rightarrow> (string \<times> metadata) option"
  assumes "transfer_laws tr contents" and "codec_laws co key_pair" and "keys_ok co key_pair config" and "rohmu_storage config storage = Inr st"
    and "rohmu_inv co config contents s" and "list_all plain_cmd cs" and "json_run (rohmu_json_ops raw tr co config) cs s = (obs, s')"
  shows "rohmu_inv co config contents s' \<and> map sort_obs obs = fst (spec_run cs (rohmu_objects co config contents json_key s))
    \<and> rohmu_objects co config contents json_key s' = snd (spec_run cs (rohmu_objects co config contents json_key s))
    \<and> rohmu_objects co config contents hexdigest_key s' = rohmu_objects co config contents hexdigest_key s"
  using assms(5-7)
proof (induction cs arbitrary: s obs)
  case (Cons c cs)
  obtain ob s1 where one: "json_step (rohmu_json_ops raw tr co config) c s = (ob, s1)" by fastforce
  obtain obs1 where rest: "json_run (rohmu_json_ops raw tr co config) cs s1 = (obs1, s')" "obs = ob # obs1"
    using Cons.prems(3) one by (auto simp: map_prod_def split: prod.splits)
  have c: "plain_cmd c" "list_all plain_cmd cs" using Cons.prems(2) by simp_all
  note st = rohmu_step [OF assms(1-4) Cons.prems(1) c(1) one]
  have "rohmu_inv co config contents s1" using st by blast
  from Cons.IH [OF this c(2) rest(1)] show ?case using st rest(2) by (simp add: split_beta)
qed simp

text \<open>An empty file is not a valid backup, but a valid content; its digest can be uploaded and downloaded.\<close>

lemma rohmu_hexdigest_roundtrip:
  assumes "transfer_laws tr contents" and "codec_laws co key_pair" and "keys_ok co key_pair config" and "rohmu_storage config storage = Inr st"
    and "rohmu_inv co config contents s" and "plain_name h"
  shows "\<exists>s'. bind_st (upload_hexdigest_from_file (rohmu_hexdigest_ops raw tr co config) h data)
      (\<lambda>_. download_hexdigest_to_file (rohmu_hexdigest_ops raw tr co config) h) s = (Inr data, s')"
proof -
  obtain u s1 where up: "upload_key_from_file tr co config (hexdigest_key @ ''/'' @ h) data s = (Inr u, s1)" "rohmu_inv co config contents s1"
      "rohmu_objects co config contents hexdigest_key s1 = (rohmu_objects co config contents hexdigest_key s)(h \<mapsto> data)"
    using upload_key_effect [OF assms(1-4,6,5), of hexdigest_key data] key_kinds by auto
  then obtain s2 where "download_key_to_file tr co config (hexdigest_key @ ''/'' @ h) s1 = (Inr data, s2)"
    using download_key_effect [OF assms(1,6) up(2), of hexdigest_key] by auto
  then show ?thesis using up(1) assms(6) by (simp add: rohmu_hexdigest_ops_def bind_st_def del: append.simps)
qed

section \<open>A transfer and streams with these laws\<close>

definition list_transfer :: "(string \<times> (string \<times> metadata)) list transfer" where
  "list_transfer = \<lparr>
     get_contents = (\<lambda>k s. ((case map_of s k of None \<Rightarrow> Inl FileNotFoundFromStorageError | Some x \<Rightarrow> Inr x), s)),
     store_file_object = (\<lambda>k b md s. (Inr (), dict_set k (b, md) s)),
     delete_key = (\<lambda>k s. ((case map_of s k of None \<Rightarrow> Inl FileNotFoundFromStorageError | Some _ \<Rightarrow> Inr ()), AList.delete k s)),
     list_iter = (\<lambda>p s. (Inr (filter (\<lambda>k. take (length p + 1) k = p @ ''/'' \<and> plain_name (drop (length p + 1) k)) (remdups (map fst s))), s))\<rparr>"

definition tagging_codec :: "(string, string) codec" where
  "tagging_codec = \<lparr>compression_stream = (\<lambda>_ _ data. CHR ''z'' # data), load_public = Inr, load_private = Inr,
     encryptor_stream = (\<lambda>pub data. pub @ ''!'' @ data),
     read_file = (\<lambda>md lookup b.
       bind_res (case dict_get md ''encryption-key-id'' of None \<Rightarrow> Inr b | Some k \<Rightarrow> bind_res (lookup k) (\<lambda>priv. Inr (drop (length priv + 1) b)))
         (\<lambda>b1. Inr (if dict_get md ''compression-algorithm'' = None then b1 else drop 1 b1)))\<rparr>"

lemma tagging_codec_laws: "codec_laws tagging_codec (=)"
  by (simp add: codec_laws_def tagging_codec_def)

lemma below_prefix: "take (length p + 1) k = p @ ''/'' \<and> plain_name (drop (length p + 1) k) \<longleftrightarrow> (\<exists>n. plain_name n \<and> k = p @ ''/'' @ n)"
  by (metis append.assoc append_eq_conv_conj append_take_drop_id length_append_singleton Suc_eq_plus1)

lemma list_transfer_laws: "transfer_laws list_transfer map_of"
  unfolding transfer_laws_def list_transfer_def transfer.simps below_prefix
  by (auto simp: finite_dom_map_of update_conv' delete_conv' fun_eq_iff dom_map_of_conv_image_fst map_of_eq_None_iff)

definition sample_config :: "nat rohmu_config" where
  "sample_config = \<lparr>rc_default_storage = ''s3'', rc_storages = [(''s3'', 0)], rc_encryption_key_id = Some ''k1'',
     rc_encryption_keys = [(''k1'', \<lparr>rk_public = ''abc'', rk_private = ''abc''\<rparr>)], rc_compression_algorithm = Some ''snappy'', rc_compression_level = 3\<rparr>"

theorem rohmu_storage_refines_witness:
  "\<exists>s'. json_run (rohmu_json_ops (\<lambda>_. OSError) list_transfer tagging_codec sample_config) [UploadJson ''backup-1'' ''data'', OpenJson ''backup-1''] []
      = ([ObsBool (Inr True), ObsBytes (Inr ''data'')], s')
    \<and> map_of s' ''json/backup-1'' = Some (''abc!zdata'', [(''encryption-key-id'', ''k1''), (''compression-algorithm'', ''snappy'')])
    \<and> rohmu_objects tagging_codec sample_config map_of json_key s' ''backup-1'' = Some ''data''"
proof -
  let ?cs = "[UploadJson ''backup-1'' ''data'', OpenJson ''backup-1'']"
  let ?s = "[(''json/backup-1'', (''abc!zdata'', [(''encryption-key-id'', ''k1''), (''compression-algorithm'', ''snappy'')]))]"
  have run: "json_run (rohmu_json_ops (\<lambda>_. OSError) list_transfer tagging_codec sample_config) ?cs [] = ([ObsBool (Inr True), ObsBytes (Inr ''data'')], ?s)"
    by code_simp
  have keys: "keys_ok tagging_codec (=) sample_config"
    by (simp add: keys_ok_def sample_config_def chosen_def loaded_public_key_lookup_def loaded_private_key_lookup_def tagging_codec_def)
  have init: "rohmu_storage sample_config None = Inr (''s3'', 0)" by (simp add: rohmu_storage_def choose_storage_def sample_config_def chosen_def)
  have inv: "rohmu_inv tagging_codec sample_config map_of []" by (simp add: rohmu_inv_def)
  have plain: "list_all plain_cmd ?cs" by (simp add: plain_name_def)
  have "rohmu_objects tagging_codec sample_config map_of json_key ?s = snd (spec_run ?cs (rohmu_objects tagging_codec sample_config map_of json_key []))"
    using rohmu_storage_refines [OF list_transfer_laws tagging_codec_laws keys init inv plain run] by blast
  then show ?thesis using run by auto
qed

end
