(* ===== verification/Client.thy ===== *)
theory Client
  imports Ipc Retention
begin

text \<open>
  The command line client (\<^verbatim>\<open>astacus/client.py\<close>) and the configuration of the server with its reload (\<^verbatim>\<open>astacus/config.py\<close>, \<^verbatim>\<open>/config/reload\<close> and
  \<^verbatim>\<open>/config/status\<close> of \<^verbatim>\<open>astacus/coordinator/api.py\<close>). A request of the client is a call of the parameter \<open>http\<close>, which answers with a decoded dictionary or with
  nothing, as \<^verbatim>\<open>http_request\<close> does. A polling loop takes the number of rounds that its backoff allows. Printing is left out.
\<close>

section \<open>Requests\<close>

record client_args =
  ca_url :: string
  ca_wait_completion :: "int option"
  ca_storage :: "string option"
  ca_backup :: "string option"
  ca_stop_after_step :: "string option"
  ca_minimum_backups :: "int option"
  ca_maximum_backups :: "int option"
  ca_keep_days :: "int option"
  ca_backups :: "string list"
  ca_status :: bool

text \<open>Method, URL and body of a request.\<close>

type_synonym 'w http_call = "string \<Rightarrow> string \<Rightarrow> json option \<Rightarrow> 'w \<Rightarrow> (string \<times> json) list option \<times> 'w"

fun poll_status :: "'w http_call \<Rightarrow> string \<Rightarrow> nat \<Rightarrow> ('w, bool) stateful" where
  "poll_status http url 0 w = (Inr False, w)"
| "poll_status http url (Suc rounds) w = (case http ''get'' url None w of
     (None, w1) \<Rightarrow> (Inr False, w1)
   | (Some r, w1) \<Rightarrow> (case dict_get r ''state'' of
       None \<Rightarrow> (Inl KeyError, w1)
     | Some state \<Rightarrow> if state = JStr ''fail'' then (Inr False, w1)
         else if state = JStr ''done'' then (Inr True, w1)
         else poll_status http url rounds w1))"

definition waits :: "client_args \<Rightarrow> bool" where
  "waits args \<longleftrightarrow> ca_wait_completion args \<noteq> None \<and> ca_wait_completion args \<noteq> Some 0"

definition run_op :: "'w http_call \<Rightarrow> client_args \<Rightarrow> nat \<Rightarrow> string \<Rightarrow> json option \<Rightarrow> ('w, bool) stateful" where
  "run_op http args rounds op json w = (case http ''post'' (ca_url args @ ''/'' @ op) json w of
     (None, w1) \<Rightarrow> (Inr False, w1)
   | (Some r, w1) \<Rightarrow>
       if \<not> waits args then (Inr True, w1)
       else (case dict_get r ''status_url'' of
          None \<Rightarrow> (Inl KeyError, w1)
        | Some (JStr url) \<Rightarrow> poll_status http url rounds w1
        | Some _ \<Rightarrow> (Inr False, w1)))"

definition given :: "string \<Rightarrow> string option \<Rightarrow> (string \<times> json) list" where
  "given name x = (case x of Some (c # cs) \<Rightarrow> [(name, JStr (c # cs))] | _ \<Rightarrow> [])"

definition restore_json :: "client_args \<Rightarrow> json" where
  "restore_json args = JDict (given ''storage'' (ca_storage args) @ given ''name'' (ca_backup args) @ given ''stop_after_step'' (ca_stop_after_step args))"

definition run_restore :: "'w http_call \<Rightarrow> client_args \<Rightarrow> nat \<Rightarrow> ('w, bool) stateful" where
  "run_restore http args rounds = run_op http args rounds ''restore'' (Some (restore_json args))"

definition given_int :: "string \<Rightarrow> int option \<Rightarrow> (string \<times> json) list" where
  "given_int name x = (case x of Some n \<Rightarrow> if n \<noteq> 0 then [(name, JInt n)] else [] | None \<Rightarrow> [])"

definition cleanup_json :: "client_args \<Rightarrow> json" where
  "cleanup_json args = (let retention = given_int ''minimum_backups'' (ca_minimum_backups args) @ given_int ''maximum_backups'' (ca_maximum_backups args)
       @ given_int ''keep_days'' (ca_keep_days args)
     in JDict (if retention = [] then [] else [(''retention'', JDict retention)]))"

definition run_cleanup :: "'w http_call \<Rightarrow> client_args \<Rightarrow> nat \<Rightarrow> ('w, bool) stateful" where
  "run_cleanup http args rounds = run_op http args rounds ''cleanup'' (Some (cleanup_json args))"

definition run_delete :: "'w http_call \<Rightarrow> client_args \<Rightarrow> nat \<Rightarrow> ('w, bool) stateful" where
  "run_delete http args rounds = run_op http args rounds ''cleanup'' (Some (JDict [(''explicit_delete'', JList (map JStr (ca_backups args)))]))"

definition run_list :: "'w http_call \<Rightarrow> client_args \<Rightarrow> string \<Rightarrow> ('w, bool) stateful" where
  "run_list http args list_path w =
     (let query = (case ca_storage args of Some (c # cs) \<Rightarrow> ''?storage='' @ c # cs | _ \<Rightarrow> [])
      in case http ''get'' (ca_url args @ ''/'' @ list_path @ query) None w of (r, w1) \<Rightarrow> (Inr (r \<noteq> None), w1))"

text \<open>The remaining time is computed in every round, also when no time was given.\<close>

fun reload_config :: "'w http_call \<Rightarrow> client_args \<Rightarrow> nat \<Rightarrow> ('w, bool) stateful" where
  "reload_config http args 0 w = (Inr False, w)"
| "reload_config http args (Suc rounds) w =
     (if ca_wait_completion args = None then (Inl TypeError, w)
      else case http ''post'' (ca_url args @ ''/config/reload'') None w of
        (None, w1) \<Rightarrow> reload_config http args rounds w1
      | (Some _, w1) \<Rightarrow> (Inr True, w1))"

definition check_reload_config :: "'w http_call \<Rightarrow> client_args \<Rightarrow> ('w, bool) stateful" where
  "check_reload_config http args w = (case http ''get'' (ca_url args @ ''/config/status'') None w of
     (None, w1) \<Rightarrow> (Inr False, w1)
   | (Some r, w1) \<Rightarrow> (case dict_get r ''needs_reload'' of
       None \<Rightarrow> (Inl KeyError, w1)
     | Some needs \<Rightarrow> (Inr (if ca_status args then needs = JBool False else True), w1)))"

section \<open>The configuration of the server\<close>

text \<open>The two settings that the coordinator and the node may have of their own; the rest of the configuration is \<open>'c\<close> and \<open>'n\<close>.\<close>

record ('r, 's) shared_settings =
  gs_object_storage :: "'r option"
  gs_statsd :: "'s option"

record ('c, 'n, 'r, 's) global_config =
  gc_coordinator :: 'c
  gc_coordinator_settings :: "('r, 's) shared_settings"
  gc_node :: 'n
  gc_node_settings :: "('r, 's) shared_settings"
  gc_settings :: "('r, 's) shared_settings"

record ('c, 'n, 'r, 's) app_config =
  ac_config :: "('c, 'n, 'r, 's) global_config"
  ac_hash :: string

definition propagated :: "('r, 's) shared_settings \<Rightarrow> ('r, 's) shared_settings \<Rightarrow> ('r, 's) shared_settings" where
  "propagated glob sub = \<lparr>gs_object_storage = (case gs_object_storage sub of None \<Rightarrow> gs_object_storage glob | Some x \<Rightarrow> Some x),
     gs_statsd = (case gs_statsd sub of None \<Rightarrow> gs_statsd glob | Some x \<Rightarrow> Some x)\<rparr>"

text \<open>\<open>parse\<close> is the reading of YAML with pydantic's validation, \<open>sha256\<close> the digest of the file; a file that cannot be read as a configuration changes nothing.\<close>

definition set_global_config :: "(string \<Rightarrow> ('c, 'n, 'r, 's) global_config result) \<Rightarrow> (string \<Rightarrow> string) \<Rightarrow> string
    \<Rightarrow> (('c, 'n, 'r, 's) app_config option, ('c, 'n, 'r, 's) global_config) stateful" where
  "set_global_config parse sha256 content app = (case parse content of
     Inl e \<Rightarrow> (Inl e, app)
   | Inr config \<Rightarrow>
       let c = config\<lparr>gc_coordinator_settings := propagated (gc_settings config) (gc_coordinator_settings config),
                      gc_node_settings := propagated (gc_settings config) (gc_node_settings config)\<rparr>
       in (Inr c, Some \<lparr>ac_config = c, ac_hash = sha256 content\<rparr>))"

definition config_status :: "(string \<Rightarrow> string) \<Rightarrow> string \<Rightarrow> ('c, 'n, 'r, 's) app_config \<Rightarrow> (string \<times> json) list" where
  "config_status sha256 content app = [(''config_hash'', JStr (ac_hash app)), (''needs_reload'', JBool (sha256 content \<noteq> ac_hash app))]"

section \<open>What the client can rely on\<close>

text \<open>The client reports success after waiting only when it has read that the operation is done.\<close>

lemma poll_status_true:
  "poll_status http url rounds w = (Inr True, w') \<Longrightarrow> \<exists>r w0. http ''get'' url None w0 = (Some r, w') \<and> dict_get r ''state'' = Some (JStr ''done'')"
proof (induction rounds arbitrary: w)
  case (Suc rounds)
  obtain a w1 where "http ''get'' url None w = (a, w1)" by fastforce
  then show ?case using Suc by (auto split: option.splits if_splits)
qed simp

lemma run_op_true:
  assumes "run_op http args rounds op json w = (Inr True, w')" and "waits args"
  shows "\<exists>url r w0. http ''get'' url None w0 = (Some r, w') \<and> dict_get r ''state'' = Some (JStr ''done'')"
  using assms poll_status_true by (fastforce simp: run_op_def split: prod.splits option.splits json.splits)

text \<open>A reload is seen by the status: it is needed exactly when the file has another digest than the one that was loaded.\<close>

lemma reload_status:
  assumes "set_global_config parse sha256 content app = (Inr c, Some app')"
  shows "dict_get (config_status sha256 content' app') ''needs_reload'' = Some (JBool (sha256 content' \<noteq> sha256 content))"
  using assms by (auto simp: set_global_config_def config_status_def Let_def split: sum.splits)

lemma failed_reload_keeps: "set_global_config parse sha256 content app = (Inl e, app') \<Longrightarrow> app' = app"
  by (auto simp: set_global_config_def Let_def split: sum.splits)

text \<open>A setting of the coordinator or of the node wins over the global one.\<close>

lemma propagated_settings:
  "gs_object_storage (propagated glob sub) = (if gs_object_storage sub = None then gs_object_storage glob else gs_object_storage sub)"
  "propagated glob (propagated glob sub) = propagated glob sub"
  by (auto simp: propagated_def split: option.splits)

text \<open>Without a time to wait, a reload raises before it has sent anything.\<close>

lemma reload_without_wait_raises:
  "ca_wait_completion args = None \<Longrightarrow> reload_config http args (Suc rounds) w = (Inl TypeError, w)"
  by simp

text \<open>A retention of zero is not sent, so that the configured one is used in its place.\<close>

lemma zero_retention_not_sent:
  assumes "ca_minimum_backups args = None" and "ca_maximum_backups args = None" and "ca_keep_days args = Some 0"
  shows "cleanup_json args = JDict []"
  using assms by (simp add: cleanup_json_def given_int_def Let_def)

end
