(* ===== verification/Clickhouse_Client.thy ===== *)
theory Clickhouse_Client
  imports Clickhouse_Queries Utils
begin

text \<open>
  The ClickHouse clients (\<^verbatim>\<open>astacus/coordinator/plugins/clickhouse/client.py\<close>): the request that a query becomes over HTTP, what is made of the
  answer, and the stub with fixed answers. Sending the request and decoding JSON are parameters.
\<close>

section \<open>Definitions\<close>

record http_client =
  hc_host :: string
  hc_port :: string
  hc_username :: "string option"
  hc_password :: "string option"
  hc_timeout :: string

record ch_request =
  hq_netloc :: string
  hq_headers :: "(string \<times> string) list"
  hq_params :: "(string \<times> string) list"
  hq_content :: string
  hq_timeout :: string

record ch_response =
  hr_status_code :: nat
  hr_headers :: "(string \<times> string) list"
  hr_content :: string

definition optional_header :: "string \<Rightarrow> string option \<Rightarrow> (string \<times> string) list" where
  "optional_header name x = (case x of None \<Rightarrow> [] | Some v \<Rightarrow> [(name, v)])"

definition query_request :: "http_client \<Rightarrow> ch_call \<Rightarrow> ch_request" where
  "query_request c call = \<lparr>hq_netloc = build_netloc (hc_host c) (Some (hc_port c)),
     hq_headers = [(''X-ClickHouse-Database'', ''system''), (''X-ClickHouse-Format'', ''JSONCompact'')]
       @ optional_header ''X-ClickHouse-User'' (hc_username c) @ optional_header ''X-ClickHouse-Key'' (hc_password c),
     hq_params = (''wait_end_of_query'', ''1'') # optional_header ''session_id'' (cc_session call),
     hq_content = cc_query call,
     hq_timeout = (case cc_timeout call of None \<Rightarrow> hc_timeout c | Some t \<Rightarrow> t)\<rparr>"

text \<open>The code of an error is the header when it starts with a digit; \<^verbatim>\<open>int\<close> raises when there is more than digits in it.\<close>

definition is_digit :: "char \<Rightarrow> bool" where "is_digit c \<longleftrightarrow> c \<in> set ''0123456789''"

definition digits_value :: "string \<Rightarrow> nat" where
  "digits_value s = foldl (\<lambda>n c. 10 * n + (of_char c - 48)) 0 s"

definition exception_code :: "ch_response \<Rightarrow> nat option result" where
  "exception_code r = (case dict_get (hr_headers r) ''x-clickhouse-exception-code'' of
     None \<Rightarrow> Inr None
   | Some raw \<Rightarrow> if raw = [] \<or> \<not> is_digit (hd raw) then Inr None
       else if list_all is_digit raw then Inr (Some (digits_value raw)) else Inl ValueError)"

definition http_execute :: "(ch_request \<Rightarrow> 'w \<Rightarrow> ch_response option \<times> 'w) \<Rightarrow> (string \<Rightarrow> (string \<times> rows) list result) \<Rightarrow> (nat \<Rightarrow> http_client) \<Rightarrow> 'w ch_execute" where
  "http_execute send dec clients call w = (case send (query_request (clients (cc_client call)) call) w of
     (None, w1) \<Rightarrow> (Inl (QueryFailed None), w1)
   | (Some r, w1) \<Rightarrow>
       if hr_status_code r \<ge> 400 then (case exception_code r of Inl e \<Rightarrow> (Inl (PyRaised e), w1) | Inr code \<Rightarrow> (Inl (QueryFailed code), w1))
       else if hr_content r \<noteq> [] then (case dec (hr_content r) of
           Inl e \<Rightarrow> (Inl (PyRaised e), w1)
         | Inr d \<Rightarrow> (case dict_get d ''data'' of None \<Rightarrow> (Inl (PyRaised KeyError), w1) | Some rows \<Rightarrow> (Inr rows, w1)))
       else (Inr [], w1))"

text \<open>The stub: its state is the dictionary of the answers.\<close>

definition set_response :: "string \<Rightarrow> rows \<Rightarrow> (string \<times> rows) list \<Rightarrow> (string \<times> rows) list" where
  "set_response query rows responses = dict_set query rows responses"

definition stub_execute :: "(string \<times> rows) list ch_execute" where
  "stub_execute call responses = (case dict_get responses (cc_query call) of
     None \<Rightarrow> (Inl (PyRaised KeyError), responses) | Some rows \<Rightarrow> (Inr rows, responses))"

section \<open>Lemmas\<close>

text \<open>The code that the server reports reaches the caller, which retries for some of them.\<close>

lemma digits_value_append: "digits_value (s @ [c]) = 10 * digits_value s + (of_char c - 48)"
  by (simp add: digits_value_def)

lemma reported_code:
  assumes "send (query_request (clients (cc_client call)) call) w = (Some r, w1)" and "hr_status_code r \<ge> 400"
    and "dict_get (hr_headers r) ''x-clickhouse-exception-code'' = Some raw" and "raw \<noteq> []" and "list_all is_digit raw"
  shows "http_execute send dec clients call w = (Inl (QueryFailed (Some (digits_value raw))), w1)"
proof -
  have "is_digit (hd raw)" using assms(4,5) by (cases raw) auto
  then show ?thesis using assms by (simp add: http_execute_def exception_code_def)
qed

lemma setting_constraint_code: "digits_value ''452'' = SETTING_CONSTRAINT_VIOLATION"
  by (simp add: digits_value_def SETTING_CONSTRAINT_VIOLATION_def)

lemma stub_roundtrip: "stub_execute \<lparr>cc_client = i, cc_query = q, cc_session = s, cc_timeout = t\<rparr> (set_response q rows responses) = (Inr rows, set_response q rows responses)"
  by (simp add: stub_execute_def set_response_def update_conv')

text \<open>A code with other characters after its digits raises another error than the failed query.\<close>

lemma malformed_code_raises:
  assumes "send (query_request (clients (cc_client call)) call) w = (Some r, w1)" and "hr_status_code r \<ge> 400"
    and "dict_get (hr_headers r) ''x-clickhouse-exception-code'' = Some ''452 (x)''"
  shows "http_execute send dec clients call w = (Inl (PyRaised ValueError), w1)"
  using assms by (simp add: http_execute_def exception_code_def is_digit_def)

end
