(* ===== verification/Statsd.thy ===== *)
theory Statsd
  imports Astacus_Prelude
begin

text \<open>
  The StatsD client (\<^verbatim>\<open>astacus/common/statsd.py\<close>): the text of a message in both formats, with the tags of the configuration and of the call, and the manager
  that measures the time of a block. The state is the list of the messages that were sent; numbers come as their text.
\<close>

section \<open>Definitions\<close>

datatype message_format = Datadog | Telegraf

type_synonym tags = "(string \<times> string option) list"

record stats_client =
  sc_enabled :: bool
  sc_tags :: tags
  sc_message_format :: message_format

definition tag_text :: "string option \<Rightarrow> string" where
  "tag_text v = (case v of None \<Rightarrow> ''None'' | Some s \<Rightarrow> s)"

text \<open>A dictionary updated with another one.\<close>

definition merged_tags :: "tags \<Rightarrow> tags \<Rightarrow> tags" where
  "merged_tags base extra = fold (\<lambda>(k, v). dict_set k v) extra base"

fun datadog_parts :: "bool \<Rightarrow> tags \<Rightarrow> string list" where
  "datadog_parts first [] = []"
| "datadog_parts first ((t, v) # ts) =
     ((if first then ''|#'' else '','') @ (case v of None \<Rightarrow> t | Some s \<Rightarrow> t @ '':'' @ s)) # datadog_parts False ts"

text \<open>\<^verbatim>\<open>parts.insert(1, ...)\<close> for one tag after the other.\<close>

definition insert_tag :: "string \<times> string option \<Rightarrow> string list \<Rightarrow> string list" where
  "insert_tag tv parts = take 1 parts @ ['','' @ fst tv @ ''='' @ tag_text (snd tv)] @ drop 1 parts"

definition message :: "stats_client \<Rightarrow> string \<Rightarrow> string \<Rightarrow> string \<Rightarrow> tags \<Rightarrow> string" where
  "message c metric metric_type v extra =
     (let parts = [metric, '':'', v, ''|'', metric_type]; ts = merged_tags (sc_tags c) extra
      in concat (case sc_message_format c of Datadog \<Rightarrow> parts @ datadog_parts True ts | Telegraf \<Rightarrow> fold insert_tag ts parts))"

definition send :: "stats_client \<Rightarrow> string \<Rightarrow> string \<Rightarrow> string \<Rightarrow> tags \<Rightarrow> string list \<Rightarrow> string list" where
  "send c metric metric_type v extra sent = (if \<not> sc_enabled c then sent else sent @ [message c metric metric_type v extra])"

definition gauge :: "stats_client \<Rightarrow> string \<Rightarrow> string \<Rightarrow> tags \<Rightarrow> string list \<Rightarrow> string list" where
  "gauge c metric v extra = send c metric ''g'' v extra"

definition increase :: "stats_client \<Rightarrow> string \<Rightarrow> string \<Rightarrow> tags \<Rightarrow> string list \<Rightarrow> string list" where
  "increase c metric inc_value extra = send c metric ''c'' inc_value extra"

definition timing :: "stats_client \<Rightarrow> string \<Rightarrow> string \<Rightarrow> tags \<Rightarrow> string list \<Rightarrow> string list" where
  "timing c metric v extra = send c metric ''ms'' v extra"

definition unexpected_exception :: "stats_client \<Rightarrow> string \<Rightarrow> string \<Rightarrow> tags \<Rightarrow> string list \<Rightarrow> string list" where
  "unexpected_exception c ex place extra = increase c ''exception'' ''1'' (merged_tags [(''exception'', Some ex), (''where'', Some place)] extra)"

text \<open>\<open>block\<close> is the body of the \<^verbatim>\<open>with\<close> statement, which may send messages too; \<open>elapsed\<close> is the text of the time that it took.\<close>

definition timing_manager :: "stats_client \<Rightarrow> string \<Rightarrow> tags \<Rightarrow> string \<Rightarrow> (string list \<times> 'w, 'a) stateful \<Rightarrow> (string list \<times> 'w, 'a) stateful" where
  "timing_manager c metric extra elapsed block s = (case block s of
     (Inl e, (sent, w)) \<Rightarrow> (Inl e, (timing c metric elapsed (dict_set ''success'' (Some ''0'') extra) sent, w))
   | (Inr x, (sent, w)) \<Rightarrow> (Inr x, (timing c metric elapsed (dict_set ''success'' (Some ''1'') extra) sent, w)))"

section \<open>Lemmas\<close>

text \<open>In the format of telegraf the tags stand between the name and the value, the last one first.\<close>

lemma insert_tags:
  "fold insert_tag ts (m # rest) = m # map (\<lambda>tv. '','' @ fst tv @ ''='' @ tag_text (snd tv)) (rev ts) @ rest"
  by (induction ts arbitrary: rest) (simp_all add: insert_tag_def)

lemma telegraf_message:
  "sc_message_format c = Telegraf \<Longrightarrow>
     message c metric metric_type v extra = metric @ concat (map (\<lambda>tv. '','' @ fst tv @ ''='' @ tag_text (snd tv)) (rev (merged_tags (sc_tags c) extra))) @ '':'' @ v @ ''|'' @ metric_type"
  by (simp add: message_def insert_tags)

text \<open>The tags of a call win over those of the configuration.\<close>

lemma merged_tags_get: "dict_get (merged_tags base extra) k = (case map_of (rev extra) k of None \<Rightarrow> dict_get base k | Some v \<Rightarrow> Some v)"
proof (induction extra arbitrary: base)
  case (Cons kv extra)
  obtain k1 v1 where "kv = (k1, v1)" by fastforce
  then show ?case using Cons [of "dict_set k1 v1 base"] by (auto simp: merged_tags_def update_conv' map_add_def split: option.splits)
qed (simp add: merged_tags_def)

text \<open>Measuring changes nothing of what the block does, and sends one message, which tells whether the block raised.\<close>

lemma timing_manager_transparent:
  assumes "block (sent, w) = (r, (sent1, w1))" and "sc_enabled c"
  shows "\<exists>sent2. timing_manager c metric extra elapsed block (sent, w) = (r, (sent2, w1))
    \<and> sent2 = sent1 @ [message c metric ''ms'' elapsed (dict_set ''success'' (Some (case r of Inl _ \<Rightarrow> ''0'' | Inr _ \<Rightarrow> ''1'')) extra)]"
  using assms by (cases r) (auto simp: timing_manager_def timing_def send_def)

end
