(* ===== verification/Spec2Isabelle.thy ===== *)
theory Spec2Isabelle
  imports Progress_Meter Op_State Node_Lock Ipc Node_Map Backup_Listing Base64 Caching_Storage
    Cleanup Node_Snapshot Node_Upload Node_Download Cluster Stepped_Op Backup_Steps Retention Storage Upload_Plan Utils Zookeeper Clickhouse_Macros
    Clickhouse_Disks Clickhouse_Order Cassandra_Schema M3db Flink Clickhouse_Access Clickhouse_Objects Clickhouse_Sql Cassandra_Node Cassandra_Steps Clickhouse_Sync
    Plugin_Steps Node_Api Coordinator_Api Rohmu_Storage Client Clickhouse_Client Statsd
begin

text \<open>
  A verification development for astacus, which backs up and restores database clusters. A coordinator locks the nodes of a cluster and runs the steps of a plugin;
  the steps ask the nodes for snapshots, uploads, downloads and work of the database, and keep manifests in a JSON storage beside the contents of files, which are stored
  once under their digest. The source is the package \<^verbatim>\<open>src/astacus/\<close>; the theories and the files that they translate are:

  \<^item> \<open>Astacus_Prelude\<close>: the exceptions with their hierarchy, results and stateful operations, dictionaries as association lists, Python's indices and sorting.
  \<^item> \<open>Progress_Meter\<close> (\<^verbatim>\<open>common/progress.py\<close>), \<open>Op_State\<close> (\<^verbatim>\<open>common/op.py\<close>), \<open>Ipc\<close> (\<^verbatim>\<open>common/ipc.py\<close>, \<^verbatim>\<open>common/snapshot.py\<close>), \<open>Utils\<close> (\<^verbatim>\<open>common/utils.py\<close>),
    \<open>Base64\<close> (the standard library), \<open>Statsd\<close> (\<^verbatim>\<open>common/statsd.py\<close>).
  \<^item> Storage: \<open>Storage\<close> (\<^verbatim>\<open>common/storage.py\<close>), \<open>Caching_Storage\<close> (\<^verbatim>\<open>common/cachingjsonstorage.py\<close>, \<^verbatim>\<open>common/asyncstorage.py\<close> and the clearing wrapper of
    \<^verbatim>\<open>coordinator/coordinator.py\<close>), \<open>Rohmu_Storage\<close> (\<^verbatim>\<open>common/rohmustorage.py\<close>).
  \<^item> The node: \<open>Node_Snapshot\<close> (\<^verbatim>\<open>node/snapshotter.py\<close>, \<^verbatim>\<open>sqlite_snapshot.py\<close>, \<^verbatim>\<open>snapshot_groups.py\<close>), \<open>Node_Upload\<close> (\<^verbatim>\<open>uploader.py\<close>, \<^verbatim>\<open>snapshot_op.py\<close>, \<^verbatim>\<open>clear.py\<close>),
    \<open>Node_Download\<close> (\<^verbatim>\<open>download.py\<close>), \<open>Cassandra_Node\<close> (\<^verbatim>\<open>node/cassandra.py\<close>), \<open>Node_Api\<close> (\<^verbatim>\<open>api.py\<close>, \<^verbatim>\<open>node.py\<close>).
  \<^item> The coordinator: \<open>Node_Lock\<close> (\<^verbatim>\<open>node/state.py\<close> and the lock calls of \<^verbatim>\<open>cluster.py\<close>, \<^verbatim>\<open>coordinator.py\<close>, \<^verbatim>\<open>lockops.py\<close>), \<open>Cluster\<close> (\<^verbatim>\<open>cluster.py\<close>), \<open>Stepped_Op\<close> and \<open>Coordinator_Api\<close>
    (\<^verbatim>\<open>coordinator.py\<close>, \<^verbatim>\<open>api.py\<close>), \<open>Backup_Listing\<close> (\<^verbatim>\<open>list.py\<close>, \<^verbatim>\<open>api.py\<close>, \<^verbatim>\<open>state.py\<close>); of \<^verbatim>\<open>plugins/base.py\<close>: \<open>Node_Map\<close>, \<open>Upload_Plan\<close>, \<open>Retention\<close>, \<open>Cleanup\<close>, \<open>Backup_Steps\<close>.
  \<^item> The plugins: \<open>M3db\<close> (with \<^verbatim>\<open>common/etcd.py\<close>, \<^verbatim>\<open>common/m3placement.py\<close>), \<open>Zookeeper\<close> and \<open>Zk_Connection\<close>, \<open>Flink\<close>, \<open>Cassandra_Schema\<close> (\<^verbatim>\<open>common/cassandra/\<close>) and \<open>Cassandra_Steps\<close>;
    of \<^verbatim>\<open>plugins/clickhouse/\<close>: \<open>Clickhouse_Names\<close>, \<open>Clickhouse_Client\<close>, \<open>Clickhouse_Macros\<close>, \<open>Clickhouse_Sync\<close>, \<open>Clickhouse_Manifest\<close>, \<open>Clickhouse_Disks\<close>, \<open>Clickhouse_Order\<close>,
    \<open>Clickhouse_Access\<close>, \<open>Clickhouse_Objects\<close>, \<open>Clickhouse_Queries\<close>, \<open>Clickhouse_Sql\<close>; \<open>Plugin_Steps\<close> has the lists of steps of all plugins.
  \<^item> \<open>Client\<close>: \<^verbatim>\<open>client.py\<close> and \<^verbatim>\<open>config.py\<close>.

  \<^bold>\<open>How code becomes definitions.\<close> A structure is a record with the fields of its class, an enumeration a datatype. A function that may raise gives \<open>exn + 'a\<close>; one that
  changes state takes the state and gives the result with the new state, also after an exception, so that what was changed before it stays. Strings are lists of bytes. Loops
  over collections are recursions over lists; a set is iterated in an order that is a parameter. Integers are unbounded as in Python; times are integers or reals, without the
  rounding of floating point. Concurrency is a list of choices (\<open>Clickhouse_Queries\<close>), a step relation (\<open>Clickhouse_Sync\<close>, \<open>Op_State\<close>), or states that the environment gives
  (\<open>Node_Lock\<close>, \<open>Node_Upload\<close>, \<open>Node_Api\<close>). Definitions that stand for the code have its names where HOL allows it.

  \<^bold>\<open>Contracts.\<close> The locales say what a component relies on: \<open>json_storage\<close> and \<open>hexdigest_storage\<close> (\<open>Storage\<close>), \<open>caching_json_storage\<close> and \<open>cache_clearing_storage\<close> on top of
  them (\<open>Caching_Storage\<close>), \<open>cleanup_storages\<close> (\<open>Cleanup\<close>), \<open>zk_connection\<close> and \<open>zk_session_laws\<close> (\<open>Zk_Connection\<close>, used by \<open>Flink\<close> and \<open>Clickhouse_Access\<close>), \<open>object_storages\<close> and
  \<open>object_cleanup\<close> (\<open>Clickhouse_Objects\<close>). They are interpreted on the models of the code's own implementations: the storage in files with the cache and the clearing wrapper, the ZooKeeper client and the object
  storage in memory. What the program takes from libraries is a named predicate over a parameter in place of a locale, e.g. \<open>transfer_laws\<close> and \<open>codec_laws\<close> of \<open>Rohmu_Storage\<close>.

  \<^bold>\<open>What is shown.\<close>
  \<^item> Files: a snapshot describes the files exactly, the plan uploads every missing content once, an upload leaves under a digest only contents with that digest, a
    restore makes the files those of the backup. Put together at the end of this theory: what was backed up is what is restored.
  \<^item> Storage: all implementations behave as maps, also behind the cache, compression and encryption; a cleanup removes exactly what no kept backup needs.
  \<^item> Operations: the cluster lock is exclusive, operations end and release it, attempts are bounded, the lists of steps of all plugins are consistent, nodes act only for the holder of
    the lock and report their end, waiting for the nodes accepts only finished work.
  \<^item> Nodes of a restore: the assignment respects availability zones and requests, and each node gets the files of its part.
  \<^item> Databases: round trips of etcd, ZooKeeper trees, access entities and manifests; the creation order of tables and of user types; recreated databases under every interleaving; the wait for
    replicas; the nodes and tables of Cassandra.

  \<^bold>\<open>Parameters and bounds.\<close> Parameters stand for the digest \<^verbatim>\<open>blake2s\<close>, for globs, for the JSON codec of manifests, for the network and the clock (a world with answers), for the etcd server, protobuf
  messages, the metadata of the Cassandra driver, the ClickHouse servers, external commands, rohmu, and for decoding in \<open>Client\<close>. Polling loops take the number of rounds that the backoff allows
  (\<open>Cluster\<close>, \<open>Cassandra_Steps\<close>, \<open>Client\<close>); the theorems hold for every number. \<open>Flink\<close> reads trees with fuel, and the number of nodes is shown to be enough. The interleavings of \<open>Clickhouse_Queries\<close>
  are schedules, all of which are covered.

  \<^bold>\<open>Not modelled.\<close> \<^verbatim>\<open>server.py\<close>, \<^verbatim>\<open>main.py\<close> and the glue to FastAPI, pydantic and msgspec only wire libraries together; the parser of arguments and the tables that the client prints; connecting to
  Cassandra, ZooKeeper (kazoo) and Google, Azure or S3 storages, which the libraries do; the protobuf code that the build generates; log messages. The hash over a Cassandra schema is used by tests only.
\<close>

section \<open>Backup and restore of a node\<close>

text \<open>The files as the uploading node sees them while they rest, and the contents of a tree.\<close>

definition node_look :: "node_fs \<Rightarrow> looks" where
  "node_look fs p k = map_option fd_content (dst_data fs p)"

definition tree_contents :: "node_fs \<Rightarrow> string set" where
  "tree_contents fs = {fd_content d | d p. src_data fs p = Some d}"

definition requested_hashes :: "snapshot_db \<Rightarrow> snapshot_hash list" where
  "requested_hashes db = map (\<lambda>f. \<lparr>sh_hexdigest = sf_hexdigest f, sh_size = sf_file_size f\<rparr>)
     (filter (\<lambda>f. sf_hexdigest f \<noteq> []) (get_all_files db))"

text \<open>A row that describes the file at a path, and the rows of an exact snapshot.\<close>

definition row_of_file :: "(string \<Rightarrow> string) \<Rightarrow> node_fs \<Rightarrow> string \<Rightarrow> snapshot_file \<Rightarrow> bool" where
  "row_of_file blake2s fs p f \<longleftrightarrow> (\<exists>d. src_data fs p = Some d \<and> sf_relative_path f = p \<and> sf_file_size f = int (length (fd_content d))
     \<and> (if sf_hexdigest f = [] then sf_content_b64 f = Some (b64encode (fd_content d)) else sf_hexdigest f = blake2s (fd_content d)))"

definition exact_rows :: "(string \<Rightarrow> string) \<Rightarrow> node_fs \<Rightarrow> string set \<Rightarrow> snapshot_db \<Rightarrow> bool" where
  "exact_rows blake2s fs P db \<longleftrightarrow> distinct (map fst db) \<and> fst ` set db = P
     \<and> (\<forall>p f. (p, f) \<in> set db \<longrightarrow> row_of_file blake2s fs p f)"

lemma row_of_file_path: "row_of_file blake2s fs p f \<Longrightarrow> sf_relative_path f = p"
  by (auto simp: row_of_file_def)

lemma expected_row_of_file:
  assumes "expected_row blake2s gm groups fs p = Inr f" and "\<And>c. blake2s c \<noteq> []"
  shows "row_of_file blake2s fs p f"
  using assms by (cases "src_data fs p") (auto simp: row_of_file_def expected_row_def bind_res_Inr_iff Let_def split: if_splits)

lemma snapshot_exact_rows:
  assumes "snap_coherent blake2s gm groups (fs, db)" and "distinct (map fst (nf_src fs))"
    and "\<forall>p \<in> set (list_files gm groups fs). \<exists>row. expected_row blake2s gm groups fs p = Inr row"
    and "perform_snapshot blake2s gm groups fs (fs, db) = (x, (fs', db'))" and "\<And>c. blake2s c \<noteq> []"
  shows "x = Inr () \<and> exact_rows blake2s fs (set (list_files gm groups fs)) db'
    \<and> (\<forall>p \<in> set (list_files gm groups fs). dst_data fs' p = src_data fs p)"
proof -
  note ex = perform_snapshot_exact [OF assms(1), unfolded fst_conv, OF assms(2-4)]
  have dist: "distinct (map fst db')" using ex by (simp add: snap_coherent_def)
  have dom: "fst ` set db' = set (list_files gm groups fs)"
    unfolding dom_map_of_conv_image_fst [symmetric] using ex by (auto simp: dom_def split: if_splits)
  have "row_of_file blake2s fs p f" if pf: "(p, f) \<in> set db'" for p f
  proof -
    have p: "p \<in> set (list_files gm groups fs)" using dom pf by force
    have "map_of db' p = Some f" using pf dist by simp
    then have "expected_row blake2s gm groups fs p = Inr f" using ex p assms(3) by force
    from expected_row_of_file [OF this assms(5)] show ?thesis .
  qed
  then show ?thesis using ex dist dom by (simp add: exact_rows_def)
qed

lemma exact_rows_file:
  assumes "exact_rows blake2s fs P db" and "f \<in> set (get_all_files db)"
  shows "row_of_file blake2s fs (sf_relative_path f) f" and "sf_relative_path f \<in> P"
proof -
  obtain p where pf: "(p, f) \<in> set db" using assms(2) by (auto simp: get_all_files_def)
  then have row: "row_of_file blake2s fs p f" "p \<in> P" using assms(1) by (force simp: exact_rows_def)+
  then have "sf_relative_path f = p" using row_of_file_path by blast
  then show "row_of_file blake2s fs (sf_relative_path f) f" "sf_relative_path f \<in> P" using row by simp_all
qed

lemma exact_rows_paths:
  assumes "exact_rows blake2s fs P db"
  shows "map sf_relative_path (get_all_files db) = map fst (sort_key fst db)"
proof -
  have "sf_relative_path f = p" if "(p, f) \<in> set db" for p f
    using assms that row_of_file_path unfolding exact_rows_def by blast
  then show ?thesis unfolding get_all_files_def map_map by (intro map_cong [OF refl]) auto
qed

lemma exact_rows_distinct:
  assumes "exact_rows blake2s fs P db"
  shows "distinct (map sf_relative_path (get_all_files db))" and "sf_relative_path ` set (get_all_files db) = P"
proof -
  have "mset (map fst (sort_key fst db)) = mset (map fst db)" by simp
  then show "distinct (map sf_relative_path (get_all_files db))"
    unfolding exact_rows_paths [OF assms] using assms unfolding exact_rows_def by (metis mset_eq_imp_distinct_iff)
  show "sf_relative_path ` set (get_all_files db) = P"
    using arg_cong [OF exact_rows_paths [OF assms], of set] assms by (simp add: exact_rows_def)
qed

lemma exact_rows_resting:
  assumes ex: "exact_rows blake2s fs P db" and dst: "\<forall>p \<in> P. dst_data fs' p = src_data fs p"
    and h: "h \<in> set (map sh_hexdigest (requested_hashes db))"
  shows "h \<noteq> [] \<and> get_files_for_digest db h \<noteq> [] \<and> resting blake2s (node_look fs') (hd (get_files_for_digest db h))"
proof -
  obtain f where f: "f \<in> set (get_all_files db)" "sf_hexdigest f = h" "h \<noteq> []" using h by (auto simp: requested_hashes_def)
  then have ne: "get_files_for_digest db h \<noteq> []" by (auto simp: get_files_for_digest_def filter_empty_conv)
  let ?g = "hd (get_files_for_digest db h)"
  have g: "?g \<in> set (get_all_files db)" "sf_hexdigest ?g = h"
    using hd_in_set [OF ne] by (auto simp: get_files_for_digest_def)
  obtain d where "sf_relative_path ?g \<in> P" "src_data fs (sf_relative_path ?g) = Some d" "sf_file_size ?g = int (length (fd_content d))"
    "sf_hexdigest ?g = blake2s (fd_content d)"
    using exact_rows_file [OF ex g(1)] g(2) f(3) unfolding row_of_file_def by auto
  then have "resting blake2s (node_look fs') ?g" using dst by (simp add: resting_def node_look_def)
  then show ?thesis using ne f(3) by simp
qed

lemma exact_rows_restorable:
  assumes ex: "exact_rows blake2s fs P db" and inj: "inj_on blake2s (tree_contents fs)"
    and up: "\<forall>h \<in> set (map sh_hexdigest (requested_hashes db)). \<exists>b. m h = Some b \<and> blake2s b = h"
  shows "restorable blake2s m (get_all_files db)"
proof -
  have "sf_file_size f \<ge> 0 \<and> (if sf_hexdigest f = [] then \<exists>t c. sf_content_b64 f = Some t \<and> b64decode t = Inr c
      else \<exists>b. m (sf_hexdigest f) = Some b \<and> blake2s b = sf_hexdigest f)" if f: "f \<in> set (get_all_files db)" for f
  proof -
    have "sf_hexdigest f \<noteq> [] \<Longrightarrow> sf_hexdigest f \<in> set (map sh_hexdigest (requested_hashes db))"
      using f by (force simp: requested_hashes_def)
    then show ?thesis using up exact_rows_file(1) [OF ex f] by (auto simp: row_of_file_def)
  qed
  moreover have "sf_file_size f = sf_file_size g"
    if fg: "f \<in> set (get_all_files db)" "g \<in> set (get_all_files db)" "sf_hexdigest f = sf_hexdigest g" "sf_hexdigest f \<noteq> []" for f g
  proof -
    obtain d e where "src_data fs (sf_relative_path f) = Some d" "sf_file_size f = int (length (fd_content d))" "sf_hexdigest f = blake2s (fd_content d)"
      "src_data fs (sf_relative_path g) = Some e" "sf_file_size g = int (length (fd_content e))" "sf_hexdigest g = blake2s (fd_content e)"
      using exact_rows_file(1) [OF ex fg(1)] exact_rows_file(1) [OF ex fg(2)] fg(3,4) by (auto simp: row_of_file_def)
    moreover from this have "fd_content d \<in> tree_contents fs" "fd_content e \<in> tree_contents fs" by (auto simp: tree_contents_def)
    ultimately show ?thesis using inj fg(3) by (metis inj_onD)
  qed
  ultimately show ?thesis using exact_rows_distinct(1) [OF ex] unfolding restorable_def by blast
qed

lemma uploaded_contents:
  assumes st: "hexdigest_storage ops hinv blobs" "hinv s0"
    and ex: "exact_rows blake2s fs P db" and dst: "\<forall>p \<in> P. dst_data fs' p = src_data fs p"
    and it: "set_order it" "\<forall>k. running k"
    and upl: "write_hashes_to_storage ops blake2s (node_look fs') it validate db running (requested_hashes db)
        \<lparr>ur_store = s0, ur_progress = new_progress, ur_total = 0, ur_stored = 0\<rparr> = (y, u)"
  shows "is_ok y \<and> hinv (ur_store u) \<and> (\<forall>h \<in> set (map sh_hexdigest (requested_hashes db)).
    \<exists>b. blobs (ur_store u) h = Some b \<and> blake2s b = h \<and> b \<in> tree_contents fs)"
proof -
  let ?H = "set (map sh_hexdigest (requested_hashes db))" and ?first = "\<lambda>h. hd (get_files_for_digest db h)"
  have rest: "\<forall>h \<in> ?H. h \<noteq> [] \<and> get_files_for_digest db h \<noteq> [] \<and> resting blake2s (node_look fs') (?first h)"
    using exact_rows_resting [OF ex dst] by blast
  obtain t where y: "y = Inr t" and u: "hinv (ur_store u)"
    and blobs: "\<forall>h. blobs (ur_store u) h = (if h \<in> ?H then node_look fs' (sf_relative_path (?first h)) 0 else blobs s0 h)"
    using hexdigest_storage.write_hashes_resting [OF st(1) _ it(2,1) rest,
        of "\<lparr>ur_store = s0, ur_progress = new_progress, ur_total = 0, ur_stored = 0\<rparr>" validate] st(2) upl by auto
  have "\<exists>b. blobs (ur_store u) h = Some b \<and> blake2s b = h \<and> b \<in> tree_contents fs" if h: "h \<in> ?H" for h
  proof -
    have first: "?first h \<in> set (get_all_files db)" "sf_hexdigest (?first h) = h"
      using rest h hd_in_set [of "get_files_for_digest db h"] by (auto simp: get_files_for_digest_def)
    obtain c where c: "node_look fs' (sf_relative_path (?first h)) 0 = Some c" "blake2s c = h"
      using bspec [OF rest h] first(2) unfolding resting_def by metis
    moreover have "sf_relative_path (?first h) \<in> P" using exact_rows_file(2) [OF ex first(1)] .
    ultimately show ?thesis using blobs h dst by (auto simp: node_look_def tree_contents_def)
  qed
  then show ?thesis using y u by simp
qed

text \<open>A restored file has the content of the file that was backed up.\<close>

lemma holds_original_content:
  assumes row: "row_of_file blake2s fsA p f" and holds: "holds_file blake2s m fsB fs f"
    and inj: "inj_on blake2s (tree_contents fsA \<union> tree_contents fsB)"
    and m: "\<And>b. sf_hexdigest f \<noteq> [] \<Longrightarrow> m (sf_hexdigest f) = Some b \<Longrightarrow> b \<in> tree_contents fsA"
  shows "map_option fd_content (src_data fs p) = map_option fd_content (src_data fsA p)"
proof -
  obtain a where a: "src_data fsA p = Some a" "sf_relative_path f = p"
    "if sf_hexdigest f = [] then sf_content_b64 f = Some (b64encode (fd_content a)) else sf_hexdigest f = blake2s (fd_content a)"
    using row unfolding row_of_file_def by blast
  obtain d where d: "src_data fs p = Some d" and dc:
    "if sf_hexdigest f = [] then \<exists>t. sf_content_b64 f = Some t \<and> b64decode t = Inr (fd_content d)
     else blake2s (fd_content d) = sf_hexdigest f
       \<and> (m (sf_hexdigest f) = Some (fd_content d) \<or> (\<exists>q d0. src_data fsB q = Some d0 \<and> fd_content d0 = fd_content d))"
    using holds a(2) unfolding holds_file_def by blast
  have "fd_content d = fd_content a"
  proof (cases "sf_hexdigest f = []")
    case False
    then have "fd_content d \<in> tree_contents fsA \<union> tree_contents fsB" using dc m by (auto simp: tree_contents_def)
    moreover have "fd_content a \<in> tree_contents fsA" using a(1) by (auto simp: tree_contents_def)
    moreover have "blake2s (fd_content d) = blake2s (fd_content a)" using False dc a(3) by simp
    ultimately show ?thesis using inj by (metis UnI1 inj_onD)
  qed (use a(3) dc in auto)
  then show ?thesis using a(1) d by simp
qed


definition example_target :: node_fs where
  "example_target = \<lparr>nf_root = [''srv''], nf_src = [(''x'', \<lparr>se_inode = 0, se_symlink = False\<rparr>)], nf_dst = [], nf_same_root = False,
     nf_inode = (\<lambda>n. \<lparr>fd_content = ''old'', fd_mtime_ns = 3\<rparr>), nf_next = 1\<rparr>"

lemma example_nodes:
  "snap_coherent (Cons (CHR ''h'')) any_glob example_groups (example_fs, [])"
  "snap_coherent (Cons (CHR ''h'')) any_glob example_groups (example_target, [])"
  "distinct (map fst (nf_src example_fs))" "distinct (map fst (nf_src example_target))"
  "unshared P example_target" "list_files any_glob example_groups example_target = [''x'']"
  by (simp_all add: snap_coherent_def example_fs_def example_target_def unshared_def) code_simp

lemma example_rows:
  "\<forall>p \<in> set (list_files any_glob example_groups example_fs). \<exists>row. expected_row (Cons (CHR ''h'')) any_glob example_groups example_fs p = Inr row"
  "\<forall>p \<in> set (list_files any_glob example_groups example_target). \<exists>row. expected_row (Cons (CHR ''h'')) any_glob example_groups example_target p = Inr row"
  by (simp_all add: example_list example_nodes)
     (simp_all add: example_fs_def example_target_def expected_row_def src_data_def embedded_file_size_max_for_file_def get_matching_def
        example_groups_def group_matches_def any_glob_def base_name_def Let_def)


end
